(* ===== verification/Prelude.thy ===== *)
theory Prelude
  imports Main "HOL-Library.Char_ord" "HOL-Library.List_Lexorder" "HOL-Library.Product_Lexorder"
begin

text \<open>
  The vocabulary every component shares.

  A Go \<^verbatim>\<open>string\<close> and a Go \<^verbatim>\<open>[]byte\<close> are both finite sequences of bytes and convert to each
  other by copying; both are modelled by \<^typ>\<open>string\<close>, a list of \<^typ>\<open>char\<close>, whose elements are
  the 256 byte values. \<^verbatim>\<open>strings.Compare\<close> and the \<^verbatim>\<open><\<close> of Go strings are the bytewise
  lexicographic order, which is the order that \<^verbatim>\<open>List_Lexorder\<close> and \<^verbatim>\<open>Char_ord\<close> put on
  \<^typ>\<open>string\<close>. A fallible Go function \<^verbatim>\<open>(T, error)\<close> returns a sum, \<^term>\<open>Inl\<close> the error.
\<close>

type_synonym bytes = string

abbreviation byte_of :: "char \<Rightarrow> nat" where
  "byte_of \<equiv> of_char"

abbreviation char_of_byte :: "nat \<Rightarrow> char" where
  "char_of_byte n \<equiv> char_of n"

text \<open>The collections the component proofs draw on.\<close>

named_theorems golib_simps \<open>computation rules of the modelled Go library\<close>
named_theorems lockset_simps \<open>facts about the indexed lock set\<close>
named_theorems storage_simps \<open>facts about object paths and the storage directory\<close>

section \<open>Lists, options and maps\<close>

text \<open>The first position of a list where a predicate fails, as the searches of the components use it.\<close>

lemma takeWhile_sorted_key:
  assumes "sorted (map f xs)"
  shows "takeWhile (\<lambda>x. f x < k) xs = filter (\<lambda>x. f x < k) xs"
  using assms
proof (induction xs)
  case (Cons a xs)
  then have "\<not> f a < k \<Longrightarrow> filter (\<lambda>x. f x < k) xs = []"
    by (auto simp: filter_empty_conv not_less intro: order_trans)
  with Cons show ?case by auto
qed simp

lemma dropWhile_sorted_key:
  assumes "sorted (map f xs)"
  shows "dropWhile (\<lambda>x. f x < k) xs = filter (\<lambda>x. \<not> f x < k) xs"
  using assms
proof (induction xs)
  case (Cons a xs)
  then have "\<not> f a < k \<Longrightarrow> filter (\<lambda>x. \<not> f x < k) xs = xs"
    by (auto simp: filter_id_conv not_less intro: order_trans)
  with Cons show ?case by auto
qed simp

lemma takeWhile_char_append:
  "c \<notin> set xs \<Longrightarrow> takeWhile (\<lambda>x. x \<noteq> c) (xs @ c # ys) = xs"
  by (induction xs) auto

lemma dropWhile_char_append:
  "c \<notin> set xs \<Longrightarrow> dropWhile (\<lambda>x. x \<noteq> c) (xs @ c # ys) = c # ys"
  by (induction xs) auto

lemma takeWhile_notin [simp]: "c \<notin> set xs \<Longrightarrow> takeWhile (\<lambda>x. x \<noteq> c) xs = xs"
  by (induction xs) auto

lemma dropWhile_notin [simp]: "c \<notin> set xs \<Longrightarrow> dropWhile (\<lambda>x. x \<noteq> c) xs = []"
  by (induction xs) auto

text \<open>The first occurrence of a separator splits a string in one way.\<close>

lemma append_char_inject:
  assumes "c \<notin> set xs" "c \<notin> set ys"
  shows "xs @ c # as = ys @ c # bs \<longleftrightarrow> xs = ys \<and> as = bs"
  using assms takeWhile_char_append [of c xs as] takeWhile_char_append [of c ys bs] by auto

end
