(* ===== verification/Go_Strings.thy ===== *)
theory Go_Strings
  imports Prelude
begin

text \<open>
  The part of Go's \<^verbatim>\<open>strings\<close>, \<^verbatim>\<open>unicode/utf8\<close>, \<^verbatim>\<open>io/fs\<close> and \<^verbatim>\<open>strconv\<close> packages that the server
  calls, written out over byte strings. The two tables of package \<^verbatim>\<open>unicode\<close> that case folding and
  lower-casing consult for runes beyond ASCII are an argument of type \<^verbatim>\<open>unicode_tables\<close>; everything a
  comparison with an ASCII string can depend on (the ASCII letters, the Kelvin sign and the long s,
  which fold to \<^verbatim>\<open>k\<close> and \<^verbatim>\<open>s\<close>) is computed here.
\<close>

section \<open>Searching and cutting strings\<close>

definition HasPrefix :: "string \<Rightarrow> string \<Rightarrow> bool" where
  "HasPrefix s p \<longleftrightarrow> take (length p) s = p"

definition HasSuffix :: "string \<Rightarrow> string \<Rightarrow> bool" where
  "HasSuffix s p \<longleftrightarrow> length p \<le> length s \<and> drop (length s - length p) s = p"

text \<open>\<^verbatim>\<open>strings.Cut(s, sep)\<close> for a separator of one byte: the text before and after the first one.\<close>

definition Cut :: "string \<Rightarrow> char \<Rightarrow> string \<times> string \<times> bool" where
  "Cut s c = (if c \<in> set s
     then (takeWhile (\<lambda>x. x \<noteq> c) s, tl (dropWhile (\<lambda>x. x \<noteq> c) s), True)
     else (s, [], False))"

text \<open>\<^verbatim>\<open>strings.Split(s, sep)\<close> for a separator of one byte; \<open>n\<close> separators give \<open>n + 1\<close> pieces.\<close>

fun Split :: "string \<Rightarrow> char \<Rightarrow> string list" where
  "Split [] c = [[]]"
| "Split (x # xs) c =
     (if x = c then [] # Split xs c
      else (case Split xs c of [] \<Rightarrow> [[x]] | p # ps \<Rightarrow> (x # p) # ps))"

text \<open>\<^verbatim>\<open>strings.FieldsFunc\<close>: the maximal runs of bytes that are not separators (all separators the
  server passes are ASCII, so runs of bytes and runs of runes agree).\<close>

fun fields_acc :: "(char \<Rightarrow> bool) \<Rightarrow> string \<Rightarrow> string \<Rightarrow> string list" where
  "fields_acc sep acc [] = (if acc = [] then [] else [rev acc])"
| "fields_acc sep acc (x # xs) =
     (if sep x then (if acc = [] then [] else [rev acc]) @ fields_acc sep [] xs
      else fields_acc sep (x # acc) xs)"

definition FieldsFunc :: "string \<Rightarrow> (char \<Rightarrow> bool) \<Rightarrow> string list" where
  "FieldsFunc s sep = fields_acc sep [] s"

definition TrimLeft :: "string \<Rightarrow> char \<Rightarrow> string" where
  "TrimLeft s c = dropWhile (\<lambda>x. x = c) s"

definition TrimRight :: "string \<Rightarrow> char \<Rightarrow> string" where
  "TrimRight s c = rev (dropWhile (\<lambda>x. x = c) (rev s))"

definition Trim :: "string \<Rightarrow> char \<Rightarrow> string" where
  "Trim s c = TrimRight (TrimLeft s c) c"

definition ReplaceAll :: "string \<Rightarrow> char \<Rightarrow> char \<Rightarrow> string" where
  "ReplaceAll s old new = map (\<lambda>x. if x = old then new else x) s"

section \<open>UTF-8\<close>

definition cont_byte :: "nat \<Rightarrow> bool" where
  "cont_byte b \<longleftrightarrow> 128 \<le> b \<and> b < 192"

text \<open>
  \<^verbatim>\<open>utf8.DecodeRuneInString\<close> on a non-empty string: the rune and the rest, or \<^term>\<open>None\<close> and the string
  without its first byte when the bytes are not a valid encoding (too short, an overlong form, a
  surrogate, or beyond U+10FFFF).
\<close>

fun decode_rune :: "string \<Rightarrow> nat option \<times> string" where
  "decode_rune [] = (None, [])"
| "decode_rune (c # cs) =
     (let b = byte_of c in
      if b < 128 then (Some b, cs)
      else case cs of
        [] \<Rightarrow> (None, cs)
      | c1 # cs1 \<Rightarrow>
        (let b1 = byte_of c1 in
         if 194 \<le> b \<and> b < 224 \<and> cont_byte b1 then (Some ((b - 192) * 64 + (b1 - 128)), cs1)
         else case cs1 of
           [] \<Rightarrow> (None, cs)
         | c2 # cs2 \<Rightarrow>
           (let b2 = byte_of c2 in
            if 224 \<le> b \<and> b < 240 \<and> cont_byte b1 \<and> cont_byte b2
               \<and> (b = 224 \<longrightarrow> 160 \<le> b1) \<and> (b = 237 \<longrightarrow> b1 < 160)
            then (Some ((b - 224) * 4096 + (b1 - 128) * 64 + (b2 - 128)), cs2)
            else case cs2 of
              [] \<Rightarrow> (None, cs)
            | c3 # cs3 \<Rightarrow>
              (let b3 = byte_of c3 in
               if 240 \<le> b \<and> b < 245 \<and> cont_byte b1 \<and> cont_byte b2 \<and> cont_byte b3
                  \<and> (b = 240 \<longrightarrow> 144 \<le> b1) \<and> (b = 244 \<longrightarrow> b1 < 144)
               then (Some ((b - 240) * 262144 + (b1 - 128) * 4096 + (b2 - 128) * 64 + (b3 - 128)), cs3)
               else (None, cs)))))"

lemma decode_rune_shorter: "s \<noteq> [] \<Longrightarrow> length (snd (decode_rune s)) < length s"
  by (cases s) (auto simp: Let_def split: list.splits)

text \<open>The runes that \<^verbatim>\<open>range\<close> over a string yields, \<^term>\<open>None\<close> for a byte that decodes to none.\<close>

function runes :: "string \<Rightarrow> nat option list" where
  "runes s = (if s = [] then [] else fst (decode_rune s) # runes (snd (decode_rune s)))"
  by pat_completeness auto
termination
  by (relation "measure length") (auto simp: decode_rune_shorter)

declare runes.simps [simp del]

lemma runes_Nil [simp]: "runes [] = []"
  by (simp add: runes.simps)

lemma runes_Cons: "runes (c # cs) = fst (decode_rune (c # cs)) # runes (snd (decode_rune (c # cs)))"
  by (simp add: runes.simps [of "c # cs"])

text \<open>\<^verbatim>\<open>utf8.ValidString\<close>.\<close>

definition ValidString :: "string \<Rightarrow> bool" where
  "ValidString s \<longleftrightarrow> None \<notin> set (runes s)"

definition ascii :: "string \<Rightarrow> bool" where
  "ascii s \<longleftrightarrow> (\<forall>c \<in> set s. byte_of c < (128 :: nat))"

lemma ascii_simps [simp]:
  "ascii []" "ascii (c # cs) \<longleftrightarrow> byte_of c < (128 :: nat) \<and> ascii cs"
  "ascii (xs @ ys) \<longleftrightarrow> ascii xs \<and> ascii ys"
  by (auto simp: ascii_def)

lemma runes_ascii: "ascii s \<Longrightarrow> runes s = map (\<lambda>c. Some (byte_of c)) s"
  by (induction s) (auto simp: runes_Cons Let_def)

lemma ValidString_ascii: "ascii s \<Longrightarrow> ValidString s"
  by (auto simp: ValidString_def runes_ascii)

section \<open>Case folding\<close>

record unicode_tables =
  fold_orbit :: "nat \<Rightarrow> nat"
  rune_lower :: "nat \<Rightarrow> nat"

text \<open>Tables that leave every rune beyond ASCII alone, for concrete runs.\<close>

definition ascii_tables :: unicode_tables where
  "ascii_tables = \<lparr>fold_orbit = (\<lambda>n. n), rune_lower = (\<lambda>n. n)\<rparr>"

text \<open>
  A key two runes share exactly when \<^verbatim>\<open>unicode.SimpleFold\<close> puts them in one orbit. The orbits with an
  ASCII member are \<^verbatim>\<open>A a\<close> to \<^verbatim>\<open>Z z\<close>, with U+212A joining \<^verbatim>\<open>K k\<close> and U+017F joining \<^verbatim>\<open>S s\<close>; the table
  numbers the others. A byte that decodes to no rune counts as U+FFFD.
\<close>

definition fold_key :: "unicode_tables \<Rightarrow> nat option \<Rightarrow> nat" where
  "fold_key u r = (let n = (case r of None \<Rightarrow> 65533 | Some n \<Rightarrow> n) in
     if n < 128 then (if 65 \<le> n \<and> n \<le> 90 then n + 32 else n)
     else if n = 8490 then 107
     else if n = 383 then 115
     else 128 + fold_orbit u n)"

text \<open>\<^verbatim>\<open>strings.EqualFold\<close>: the runes agree one by one up to simple case folding.\<close>

definition EqualFold :: "unicode_tables \<Rightarrow> string \<Rightarrow> string \<Rightarrow> bool" where
  "EqualFold u s t \<longleftrightarrow> map (fold_key u) (runes s) = map (fold_key u) (runes t)"

definition lower_char :: "char \<Rightarrow> char" where
  "lower_char c = (let n = byte_of c in if 65 \<le> n \<and> n \<le> 90 then char_of (n + 32) else c)"

text \<open>The UTF-8 encoding of a code point.\<close>

definition encode_rune :: "nat \<Rightarrow> string" where
  "encode_rune n =
     (if n < 128 then [char_of n]
      else if n < 2048 then [char_of (192 + n div 64), char_of (128 + n mod 64)]
      else if n < 65536 then [char_of (224 + n div 4096), char_of (128 + n div 64 mod 64), char_of (128 + n mod 64)]
      else [char_of (240 + n div 262144), char_of (128 + n div 4096 mod 64), char_of (128 + n div 64 mod 64),
            char_of (128 + n mod 64)])"

text \<open>\<^verbatim>\<open>strings.ToLower\<close>: ASCII strings byte by byte, others rune by rune, a byte that is no rune becoming
  U+FFFD.\<close>

definition lower_rune :: "unicode_tables \<Rightarrow> nat option \<Rightarrow> nat" where
  "lower_rune u r = (case r of
      None \<Rightarrow> 65533
    | Some n \<Rightarrow> if n < 128 then (if 65 \<le> n \<and> n \<le> 90 then n + 32 else n) else rune_lower u n)"

definition ToLower :: "unicode_tables \<Rightarrow> string \<Rightarrow> string" where
  "ToLower u s = (if ascii s then map lower_char s else concat (map (encode_rune \<circ> lower_rune u) (runes s)))"

lemma ToLower_ascii [simp]: "ascii s \<Longrightarrow> ToLower u s = map lower_char s"
  by (simp add: ToLower_def)

lemma EqualFold_refl [simp]: "EqualFold u s s"
  by (simp add: EqualFold_def)

lemma EqualFold_sym: "EqualFold u s t \<longleftrightarrow> EqualFold u t s"
  by (auto simp: EqualFold_def)

lemma EqualFold_trans: "EqualFold u s t \<Longrightarrow> EqualFold u t r \<Longrightarrow> EqualFold u s r"
  by (simp add: EqualFold_def)

lemma fold_key_ascii:
  "byte_of c < (128 :: nat) \<Longrightarrow> fold_key u (Some (byte_of c)) = byte_of (lower_char c)"
  by (auto simp: fold_key_def lower_char_def Let_def)

text \<open>On ASCII strings case folding is lower-casing, whatever the tables say.\<close>

lemma EqualFold_ascii:
  "ascii s \<Longrightarrow> ascii t \<Longrightarrow> EqualFold u s t \<longleftrightarrow> map lower_char s = map lower_char t"
proof -
  assume a: "ascii s" "ascii t"
  have k: "map (fold_key u) (runes r) = map (\<lambda>c. byte_of (lower_char c)) r" if "ascii r" for r
    using that by (induction r) (auto simp: runes_Cons Let_def fold_key_ascii)
  have inj: "map (\<lambda>c. byte_of (lower_char c)) s = map (\<lambda>c. byte_of (lower_char c)) t
      \<longleftrightarrow> map lower_char s = map lower_char t"
  proof -
    have *: "map (\<lambda>c. byte_of (lower_char c) :: nat) r = map byte_of (map lower_char r)" for r
      by simp
    show ?thesis unfolding * by (rule inj_map_eq_map) (rule inj_of_char)
  qed
  show ?thesis using a by (simp add: EqualFold_def k inj)
qed

section \<open>Paths\<close>

text \<open>The loop of \<^verbatim>\<open>fs.ValidPath\<close> over the slash-separated elements of a name.\<close>

function valid_elems :: "string \<Rightarrow> bool" where
  "valid_elems name =
     (let elem = takeWhile (\<lambda>x. x \<noteq> CHR ''/'') name; rest = dropWhile (\<lambda>x. x \<noteq> CHR ''/'') name in
      if elem = [] \<or> elem = ''.'' \<or> elem = ''..'' then False
      else if rest = [] then True
      else valid_elems (tl rest))"
  by pat_completeness auto
termination
proof (relation "measure length", goal_cases)
  case (2 name elem rest)
  then have "length rest \<le> length name" and "rest \<noteq> []"
    by (simp_all add: length_dropWhile_le)
  moreover from \<open>rest \<noteq> []\<close> have "length (tl rest) < length rest"
    by simp
  ultimately show ?case by (simp only: in_measure)
qed simp

declare valid_elems.simps [simp del]

definition ValidPath :: "string \<Rightarrow> bool" where
  "ValidPath name \<longleftrightarrow> ValidString name \<and> (name = ''.'' \<or> valid_elems name)"

text \<open>\<^verbatim>\<open>filepath.Localize\<close> of the Unix builds: a valid path without a NUL byte is itself.\<close>

definition Localize :: "string \<Rightarrow> string option" where
  "Localize path = (if ValidPath path \<and> CHR 0x00 \<notin> set path then Some path else None)"

lemma Split_nonempty [simp]: "Split s c \<noteq> []"
  by (induction s) (auto split: list.splits)

lemma Split_single: "c \<notin> set s \<Longrightarrow> Split s c = [s]"
  by (induction s) auto

lemma Split_append: "c \<notin> set s \<Longrightarrow> Split (s @ c # t) c = s # Split t c"
  by (induction s) auto

lemma Split_pieces: "p \<in> set (Split s c) \<Longrightarrow> c \<notin> set p"
  by (induction s arbitrary: p) (auto split: list.splits if_splits)

lemma cut_char_cases:
  obtains "c \<notin> set s" | t r where "s = t @ c # r" "c \<notin> set t"
  by (metis split_list_first)

text \<open>The loop accepts exactly the names none of whose elements is empty, \<^verbatim>\<open>.\<close> or \<^verbatim>\<open>..\<close>.\<close>

lemma valid_elems_Split:
  "valid_elems name \<longleftrightarrow> (\<forall>e \<in> set (Split name CHR ''/''). e \<notin> {[], ''.'', ''..''})"
proof (induction name rule: valid_elems.induct)
  case (1 name)
  show ?case
  proof (cases rule: cut_char_cases [of "CHR ''/''" name])
    case 1
    then show ?thesis by (simp add: valid_elems.simps [of name] Split_single)
  next
    case (2 t r)
    then have IH: "t \<notin> {[], ''.'', ''..''} \<Longrightarrow> valid_elems r \<longleftrightarrow>
        (\<forall>e \<in> set (Split r CHR ''/''). e \<notin> {[], ''.'', ''..''})"
      using "1.IH" by (simp add: takeWhile_char_append dropWhile_char_append)
    have "valid_elems (t @ CHR ''/'' # r) \<longleftrightarrow> t \<notin> {[], ''.'', ''..''} \<and> valid_elems r"
      using 2 by (auto simp: valid_elems.simps [of "t @ CHR ''/'' # r"] takeWhile_char_append
          dropWhile_char_append)
    with IH 2 show ?thesis by (auto simp: Split_append)
  qed
qed

section \<open>Numbers\<close>

definition digit_char :: "nat \<Rightarrow> char" where
  "digit_char d = char_of (48 + d)"

definition is_digit :: "char \<Rightarrow> bool" where
  "is_digit c \<longleftrightarrow> 48 \<le> byte_of c \<and> byte_of c \<le> (57 :: nat)"

definition digit_value :: "char \<Rightarrow> nat" where
  "digit_value c = byte_of c - 48"

fun format_nat :: "nat \<Rightarrow> string" where
  "format_nat n = (if n < 10 then [digit_char n] else format_nat (n div 10) @ [digit_char (n mod 10)])"

declare format_nat.simps [simp del]

text \<open>\<^verbatim>\<open>strconv.FormatInt(n, 10)\<close> and \<^verbatim>\<open>strconv.Itoa\<close>.\<close>

definition FormatInt :: "int \<Rightarrow> string" where
  "FormatInt n = (if n < 0 then CHR ''-'' # format_nat (nat (- n)) else format_nat (nat n))"

definition parse_digits :: "string \<Rightarrow> nat option" where
  "parse_digits s = (if s \<noteq> [] \<and> list_all is_digit s
     then Some (foldl (\<lambda>n c. n * 10 + digit_value c) 0 s) else None)"

text \<open>\<^verbatim>\<open>strconv.ParseInt(s, 10, 64)\<close> (and \<^verbatim>\<open>strconv.Atoi\<close> where \<^verbatim>\<open>int\<close> has 64 bits): an optional sign, then
  decimal digits only, within the range of \<^verbatim>\<open>int64\<close>; \<^term>\<open>None\<close> is any error.\<close>

definition int64_range :: "int \<Rightarrow> bool" where
  "int64_range n \<longleftrightarrow> - (2 ^ 63) \<le> n \<and> n < 2 ^ 63"

definition ParseInt :: "string \<Rightarrow> int option" where
  "ParseInt s =
     (let neg = (s \<noteq> [] \<and> hd s = CHR ''-'');
          ds = (if s \<noteq> [] \<and> (hd s = CHR ''-'' \<or> hd s = CHR ''+'') then tl s else s)
      in case parse_digits ds of
           None \<Rightarrow> None
         | Some n \<Rightarrow> (let v = (if neg then - int n else int n) in if int64_range v then Some v else None))"

lemma is_digit_digit_char [simp]: "d < 10 \<Longrightarrow> is_digit (digit_char d)"
  by (simp add: is_digit_def digit_char_def)

lemma digit_value_digit_char [simp]: "d < 10 \<Longrightarrow> digit_value (digit_char d) = d"
  by (simp add: digit_value_def digit_char_def)

lemma format_nat_digits: "list_all is_digit (format_nat n)" "format_nat n \<noteq> []"
proof -
  show "list_all is_digit (format_nat n)"
  proof (induction n rule: format_nat.induct)
    case (1 n)
    then show ?case by (cases "n < 10") (auto simp: format_nat.simps [of n])
  qed
  show "format_nat n \<noteq> []" by (simp add: format_nat.simps [of n])
qed

lemma format_nat_value: "foldl (\<lambda>n c. n * 10 + digit_value c) 0 (format_nat n) = n"
proof (induction n rule: format_nat.induct)
  case (1 n)
  then show ?case by (cases "n < 10") (auto simp: format_nat.simps [of n])
qed

lemma parse_digits_format_nat [simp]: "parse_digits (format_nat n) = Some n"
  by (simp add: parse_digits_def format_nat_digits format_nat_value)

lemma hd_format_nat: "is_digit (hd (format_nat n))"
  using format_nat_digits [of n] by (cases "format_nat n") auto

text \<open>Formatting a 64-bit integer and parsing it back gives the integer.\<close>

lemma ParseInt_FormatInt: "int64_range n \<Longrightarrow> ParseInt (FormatInt n) = Some n"
proof -
  assume r: "int64_range n"
  have "hd (format_nat k) \<noteq> CHR ''-''" "hd (format_nat k) \<noteq> CHR ''+''" for k
    using hd_format_nat [of k] by (auto simp: is_digit_def)
  then show ?thesis
    using r by (auto simp: ParseInt_def FormatInt_def Let_def format_nat_digits)
qed

lemma FormatInt_chars: "c \<in> set (FormatInt n) \<Longrightarrow> is_digit c \<or> c = CHR ''-''"
  using format_nat_digits(1) by (auto simp: FormatInt_def list_all_iff split: if_splits)

lemma FormatInt_nonempty [simp]: "FormatInt n \<noteq> []"
  by (simp add: FormatInt_def format_nat_digits)

lemma ParseInt_chars: "ParseInt s = Some n \<Longrightarrow> c \<in> set s \<Longrightarrow> is_digit c \<or> c = CHR ''-'' \<or> c = CHR ''+''"
  by (cases s) (auto simp: ParseInt_def Let_def parse_digits_def list_all_iff split: option.splits if_splits)

end
