(* ===== verification/Go_Encoding.thy ===== *)
theory Go_Encoding
  imports Go_Strings
begin

text \<open>
  Go's \<^verbatim>\<open>encoding/hex\<close> and \<^verbatim>\<open>encoding/base64\<close> as the server uses them, with their round trips. The
  base64 decoder is the library's lenient one: it skips carriage returns and newlines and does not
  insist that the unused low bits of a last, partial group are zero.
\<close>

section \<open>Hexadecimal\<close>

definition hex_digit :: "nat \<Rightarrow> char" where
  "hex_digit d = (if d < 10 then char_of (48 + d) else char_of (87 + d))"

text \<open>\<^verbatim>\<open>hex.EncodeToString\<close>: two lower-case digits per byte, the high one first.\<close>

fun hex_encode :: "bytes \<Rightarrow> string" where
  "hex_encode [] = []"
| "hex_encode (c # cs) = hex_digit (byte_of c div 16) # hex_digit (byte_of c mod 16) # hex_encode cs"

definition hex_value :: "char \<Rightarrow> nat option" where
  "hex_value c = (let n = byte_of c in
     if 48 \<le> n \<and> n \<le> 57 then Some (n - 48)
     else if 97 \<le> n \<and> n \<le> 102 then Some (n - 87)
     else if 65 \<le> n \<and> n \<le> 70 then Some (n - 55)
     else None)"

text \<open>\<^verbatim>\<open>hex.DecodeString\<close>: digits of either case, an even number of them.\<close>

fun hex_decode :: "string \<Rightarrow> bytes option" where
  "hex_decode [] = Some []"
| "hex_decode [c] = None"
| "hex_decode (c # d # cs) =
     (case (hex_value c, hex_value d) of
        (Some a, Some b) \<Rightarrow> map_option ((#) (char_of (a * 16 + b))) (hex_decode cs)
      | _ \<Rightarrow> None)"

lemma hex_value_digit [simp]: "d < 16 \<Longrightarrow> hex_value (hex_digit d) = Some d"
  by (auto simp: hex_value_def hex_digit_def Let_def)

lemma hex_decode_encode [simp]: "hex_decode (hex_encode bs) = Some bs"
proof (induction bs)
  case (Cons c cs)
  have "(byte_of c :: nat) div 16 < 16" using nat_of_char_less_256 [of c] by linarith
  with Cons show ?case by simp
qed simp

lemma length_hex_encode [simp]: "length (hex_encode bs) = 2 * length bs"
  by (induction bs) auto

definition is_hex :: "char \<Rightarrow> bool" where
  "is_hex c \<longleftrightarrow> hex_value c \<noteq> None"

lemma hex_encode_is_hex: "c \<in> set (hex_encode bs) \<Longrightarrow> is_hex c"
proof (induction bs)
  case (Cons b bs)
  have "(byte_of b :: nat) div 16 < 16" using nat_of_char_less_256 [of b] by linarith
  with Cons show ?case by (auto simp: is_hex_def)
qed simp

lemma hex_decode_Some: "list_all is_hex s \<Longrightarrow> even (length s) \<Longrightarrow> \<exists>bs. hex_decode s = Some bs"
  by (induction s rule: hex_decode.induct) (auto simp: is_hex_def)

lemma hex_decode_length: "hex_decode s = Some bs \<Longrightarrow> length s = 2 * length bs"
  by (induction s arbitrary: bs rule: hex_decode.induct) (auto split: option.splits)

lemma is_hex_ascii: "is_hex c \<Longrightarrow> byte_of c < (128 :: nat)"
  by (auto simp: is_hex_def hex_value_def Let_def split: if_splits)

lemma lower_hex_digit [simp]: "d < 16 \<Longrightarrow> lower_char (hex_digit d) = hex_digit d"
  by (auto simp: lower_char_def hex_digit_def Let_def)

lemma lower_hex_encode [simp]: "map lower_char (hex_encode bs) = hex_encode bs"
proof (induction bs)
  case (Cons b bs)
  have "(byte_of b :: nat) div 16 < 16" using nat_of_char_less_256 [of b] by linarith
  with Cons show ?case by simp
qed simp

lemma hex_value_lower [simp]: "hex_value (lower_char c) = hex_value c"
  by (auto simp: hex_value_def lower_char_def Let_def)

lemma is_hex_lower [simp]: "is_hex (lower_char c) = is_hex c"
  by (simp add: is_hex_def)

section \<open>Base64\<close>

text \<open>The two alphabets differ in the characters for 62 and 63: \<^verbatim>\<open>+/\<close> in the standard one and \<^verbatim>\<open>-_\<close> in
  the URL one.\<close>

datatype alphabet = StdAlphabet | URLAlphabet

definition b64_char :: "alphabet \<Rightarrow> nat \<Rightarrow> char" where
  "b64_char a n =
     (if n < 26 then char_of (65 + n)
      else if n < 52 then char_of (71 + n)
      else if n < 62 then char_of (n - 4)
      else if n = 62 then (case a of StdAlphabet \<Rightarrow> CHR ''+'' | URLAlphabet \<Rightarrow> CHR ''-'')
      else (case a of StdAlphabet \<Rightarrow> CHR ''/'' | URLAlphabet \<Rightarrow> CHR ''_''))"

definition b64_value :: "alphabet \<Rightarrow> char \<Rightarrow> nat option" where
  "b64_value a c = (let n = byte_of c in
     if 65 \<le> n \<and> n \<le> 90 then Some (n - 65)
     else if 97 \<le> n \<and> n \<le> 122 then Some (n - 71)
     else if 48 \<le> n \<and> n \<le> 57 then Some (n + 4)
     else if c = b64_char a 62 then Some 62
     else if c = b64_char a 63 then Some 63
     else None)"

lemma b64_value_char [simp]: "n < 64 \<Longrightarrow> b64_value a (b64_char a n) = Some n"
  by (cases "n = 62"; cases "n = 63"; cases a) (auto simp: b64_value_def b64_char_def Let_def)

lemma b64_value_less: "b64_value a c = Some n \<Longrightarrow> n < 64"
  by (auto simp: b64_value_def Let_def split: if_splits)

definition b64_quad :: "alphabet \<Rightarrow> nat \<Rightarrow> string" where
  "b64_quad a v = [b64_char a (v div 262144), b64_char a (v div 4096 mod 64),
     b64_char a (v div 64 mod 64), b64_char a (v mod 64)]"

text \<open>Three bytes make four characters; a last group of one or two bytes makes two or three, with no
  padding.\<close>

fun b64_encode_raw :: "alphabet \<Rightarrow> bytes \<Rightarrow> string" where
  "b64_encode_raw a (x # y # z # cs) =
     b64_quad a (byte_of x * 65536 + byte_of y * 256 + byte_of z) @ b64_encode_raw a cs"
| "b64_encode_raw a [x, y] = take 3 (b64_quad a (byte_of x * 65536 + byte_of y * 256))"
| "b64_encode_raw a [x] = take 2 (b64_quad a (byte_of x * 65536))"
| "b64_encode_raw a [] = []"

text \<open>\<^verbatim>\<open>base64.RawURLEncoding.EncodeToString\<close> and \<^verbatim>\<open>base64.StdEncoding.EncodeToString\<close>.\<close>

definition RawURLEncode :: "bytes \<Rightarrow> string" where
  "RawURLEncode bs = b64_encode_raw URLAlphabet bs"

definition StdEncode :: "bytes \<Rightarrow> string" where
  "StdEncode bs = (let s = b64_encode_raw StdAlphabet bs
     in s @ replicate ((3 - length bs mod 3) mod 3) CHR ''='')"

fun b64_decode_quads :: "alphabet \<Rightarrow> string \<Rightarrow> bytes option" where
  "b64_decode_quads a (p # q # r # s # cs) =
     (case (b64_value a p, b64_value a q, b64_value a r, b64_value a s) of
        (Some i, Some j, Some k, Some l) \<Rightarrow>
          (let v = i * 262144 + j * 4096 + k * 64 + l in
           map_option (\<lambda>bs. char_of (v div 65536) # char_of (v div 256 mod 256) # char_of (v mod 256) # bs)
             (b64_decode_quads a cs))
      | _ \<Rightarrow> None)"
| "b64_decode_quads a [p, q, r] =
     (case (b64_value a p, b64_value a q, b64_value a r) of
        (Some i, Some j, Some k) \<Rightarrow>
          (let v = i * 262144 + j * 4096 + k * 64 in Some [char_of (v div 65536), char_of (v div 256 mod 256)])
      | _ \<Rightarrow> None)"
| "b64_decode_quads a [p, q] =
     (case (b64_value a p, b64_value a q) of
        (Some i, Some j) \<Rightarrow> (let v = i * 262144 + j * 4096 in Some [char_of (v div 65536)])
      | _ \<Rightarrow> None)"
| "b64_decode_quads a [p] = None"
| "b64_decode_quads a [] = Some []"

text \<open>\<^verbatim>\<open>base64.RawURLEncoding.DecodeString\<close>.\<close>

definition RawURLDecode :: "string \<Rightarrow> bytes option" where
  "RawURLDecode s = b64_decode_quads URLAlphabet (filter (\<lambda>c. c \<noteq> CHR 0x0D \<and> c \<noteq> CHR 0x0A) s)"

text \<open>\<^verbatim>\<open>base64.StdEncoding.DecodeString\<close>: whole groups of four, the last one padded.\<close>

definition StdDecode :: "string \<Rightarrow> bytes option" where
  "StdDecode s0 =
     (let s = filter (\<lambda>c. c \<noteq> CHR 0x0D \<and> c \<noteq> CHR 0x0A) s0;
          body = (if HasSuffix s ''=='' then take (length s - 2) s
                  else if HasSuffix s ''='' then take (length s - 1) s else s)
      in if length s mod 4 \<noteq> 0 then None else b64_decode_quads StdAlphabet body)"

lemma b64_split:
  fixes v :: nat
  shows "v div 262144 * 262144 + v div 4096 mod 64 * 4096 + v div 64 mod 64 * 64 + v mod 64 = v"
proof -
  have "v div 64 * 64 + v mod 64 = v"
    by (rule div_mult_mod_eq)
  moreover have "v div 4096 * 64 + v div 64 mod 64 = v div 64"
    using div_mult_mod_eq [of "v div 64" 64] by (simp add: div_mult2_eq [symmetric])
  moreover have "v div 262144 * 64 + v div 4096 mod 64 = v div 4096"
    using div_mult_mod_eq [of "v div 4096" 64] by (simp add: div_mult2_eq [symmetric])
  ultimately show ?thesis by linarith
qed

lemma char_of_eqI: "n mod 256 = byte_of c \<Longrightarrow> char_of n = c"
  by (metis char_of_char char_of_mod_256)

lemma b64_triple_bytes:
  fixes x y z :: nat
  assumes "x < 256" "y < 256" "z < 256"
  shows "(x * 65536 + y * 256 + z) div 65536 = x" "(x * 65536 + y * 256 + z) div 256 mod 256 = y"
    "(x * 65536 + y * 256 + z) mod 256 = z" "x * 65536 + y * 256 + z < 16777216"
proof -
  have d: "(x * 65536 + y * 256 + z) div 256 = x * 256 + y"
    using assms by (simp add: div_nat_eqI)
  show "(x * 65536 + y * 256 + z) div 256 mod 256 = y"
    using assms by (simp add: d)
  show "(x * 65536 + y * 256 + z) div 65536 = x"
    using assms by (simp add: div_nat_eqI)
  have "(x * 65536 + y * 256 + z) mod 256 = (z + 256 * (x * 256 + y)) mod 256"
    by (simp add: algebra_simps)
  also have "\<dots> = z"
    using assms by (simp only: mod_mult_self2) simp
  finally show "(x * 65536 + y * 256 + z) mod 256 = z" .
  show "x * 65536 + y * 256 + z < 16777216" using assms by linarith
qed

lemma b64_decode_encode: "b64_decode_quads a (b64_encode_raw a bs) = Some bs"
proof (induction a bs rule: b64_encode_raw.induct)
  case (1 a x y z cs)
  let ?v = "byte_of x * 65536 + byte_of y * 256 + byte_of z :: nat"
  have "?v < 16777216" by (intro b64_triple_bytes) simp_all
  then have "?v div 262144 < 64" by (simp add: less_mult_imp_div_less)
  with 1 show ?case
    by (simp add: b64_quad_def b64_split b64_triple_bytes char_of_eqI Let_def)
next
  case (2 a x y)
  let ?v = "byte_of x * 65536 + byte_of y * 256 + 0 :: nat"
  have v: "?v < 16777216" by (intro b64_triple_bytes) simp_all
  then have lt: "?v div 262144 < 64" by (simp add: less_mult_imp_div_less)
  have "?v mod 64 = 0" by (simp add: mod_eq_0_iff_dvd)
  then have s: "?v div 262144 * 262144 + ?v div 4096 mod 64 * 4096 + ?v div 64 mod 64 * 64 = ?v"
    using b64_split [of ?v] by simp
  have "char_of (256 * byte_of x + byte_of y :: nat) = y"
    by (rule char_of_eqI) simp
  with b64_triple_bytes [of "byte_of x" "byte_of y" 0] lt show ?case
    using s by (simp add: b64_quad_def Let_def)
next
  case (3 a x)
  let ?v = "byte_of x * 65536 + 0 * 256 + 0 :: nat"
  have v: "?v < 16777216" by (intro b64_triple_bytes) simp_all
  then have lt: "?v div 262144 < 64" by (simp add: less_mult_imp_div_less)
  have "?v mod 64 = 0" "?v div 64 mod 64 = 0"
    by (simp_all add: mod_eq_0_iff_dvd)
  then have s: "?v div 262144 * 262144 + ?v div 4096 mod 64 * 4096 = ?v"
    using b64_split [of ?v] by simp
  from b64_triple_bytes [of "byte_of x" 0 0] lt show ?case
    using s by (simp add: b64_quad_def Let_def)
qed simp

definition b64url_char :: "char \<Rightarrow> bool" where
  "b64url_char c \<longleftrightarrow> b64_value URLAlphabet c \<noteq> None"

lemma b64_encode_chars: "c \<in> set (b64_encode_raw URLAlphabet bs) \<Longrightarrow> b64url_char c"
proof (induction URLAlphabet bs rule: b64_encode_raw.induct)
  case (1 x y z cs)
  have "byte_of x * 65536 + byte_of y * 256 + byte_of z < (16777216 :: nat)"
    by (intro b64_triple_bytes) simp_all
  then have "(byte_of x * 65536 + byte_of y * 256 + byte_of z :: nat) div 262144 < 64"
    by (simp add: less_mult_imp_div_less)
  with 1 show ?case by (auto simp: b64url_char_def b64_quad_def)
next
  case (2 x y)
  have "byte_of x * 65536 + byte_of y * 256 + 0 < (16777216 :: nat)"
    by (intro b64_triple_bytes) simp_all
  then have "(byte_of x * 65536 + byte_of y * 256 :: nat) div 262144 < 64"
    by (simp add: less_mult_imp_div_less)
  with 2 show ?case by (auto simp: b64url_char_def b64_quad_def)
next
  case (3 x)
  have "byte_of x * 65536 + 0 * 256 + 0 < (16777216 :: nat)"
    by (intro b64_triple_bytes) simp_all
  then have "(byte_of x * 65536 :: nat) div 262144 < 64"
    by (simp add: less_mult_imp_div_less)
  with 3 show ?case by (auto simp: b64url_char_def b64_quad_def)
qed simp

lemma b64url_char_cases:
  "b64url_char c \<Longrightarrow> (65 \<le> byte_of c \<and> byte_of c \<le> (90 :: nat)) \<or> (97 \<le> byte_of c \<and> byte_of c \<le> (122 :: nat))
     \<or> (48 \<le> byte_of c \<and> byte_of c \<le> (57 :: nat)) \<or> c = CHR ''-'' \<or> c = CHR ''_''"
  by (auto simp: b64url_char_def b64_value_def b64_char_def Let_def split: if_splits)

text \<open>Decoding inverts encoding on every byte string.\<close>

lemma RawURLDecode_Encode [simp]: "RawURLDecode (RawURLEncode bs) = Some bs"
proof -
  have "b64url_char c \<Longrightarrow> c \<noteq> CHR 0x0D \<and> c \<noteq> CHR 0x0A" for c
    using b64url_char_cases [of c] by auto
  then have "filter (\<lambda>c. c \<noteq> CHR 0x0D \<and> c \<noteq> CHR 0x0A) (b64_encode_raw URLAlphabet bs)
      = b64_encode_raw URLAlphabet bs"
    by (simp add: filter_id_conv b64_encode_chars)
  then show ?thesis by (simp add: RawURLDecode_def RawURLEncode_def b64_decode_encode)
qed

lemma RawURLEncode_chars: "c \<in> set (RawURLEncode bs) \<Longrightarrow> b64url_char c"
  by (simp add: RawURLEncode_def b64_encode_chars)

lemma RawURLEncode_eq_Nil [simp]: "RawURLEncode bs = [] \<longleftrightarrow> bs = []"
  by (metis RawURLDecode_Encode RawURLEncode_def b64_encode_raw.simps(4) option.inject)

end
