(* ===== verification/Lock_Set.thy ===== *)
theory Lock_Set
  imports Go_Encoding "HOL-Library.Multiset"
begin

text \<open>
  The in-memory half of \<^verbatim>\<open>src/lfs/locks.go\<close>: the locks of one endpoint sorted by creation time and id
  and indexed by id and by path (\<^verbatim>\<open>lockSet\<close>), and their listing page by page with opaque cursors.
  \<^verbatim>\<open>slices.SortFunc\<close> is a sort by key; it need not be stable, but only two entries with the same time
  and the same id compare equal, and the store never writes two of those.
\<close>

section \<open>Locks\<close>

record lock_owner =
  owner_Name :: string

record lock =
  lk_ID :: string
  lk_Path :: string
  lk_LockedAt :: string
  lk_Owner :: lock_owner

definition zero_lock :: lock where
  "zero_lock = \<lparr>lk_ID = [], lk_Path = [], lk_LockedAt = [], lk_Owner = \<lparr>owner_Name = []\<rparr>\<rparr>"

datatype lock_error =
    ErrLockExists
  | ErrLockNotFound
  | ErrLockNotOwner
  | ErrInvalidLockCursor
  | ErrLockContext
  | ErrLockIO

record list_options =
  opt_Path :: string
  opt_ID :: string
  opt_Cursor :: string
  opt_Limit :: int
  opt_Refspec :: string

definition defaultLockLimit :: int where "defaultLockLimit = 100"
definition maxLockLimit :: int where "maxLockLimit = 1000"

record lock_set =
  ls_sorted :: "lock list"
  ls_byID :: "string \<rightharpoonup> lock"
  ls_byPath :: "string \<rightharpoonup> lock"

definition strings_Compare :: "string \<Rightarrow> string \<Rightarrow> int" where
  "strings_Compare a b = (if a < b then -1 else if a = b then 0 else 1)"

definition compareLocks :: "lock \<Rightarrow> lock \<Rightarrow> int" where
  "compareLocks a b =
     (let c = strings_Compare (lk_LockedAt a) (lk_LockedAt b)
      in if c \<noteq> 0 then c else strings_Compare (lk_ID a) (lk_ID b))"

text \<open>The position of a lock in the listing order.\<close>

definition lock_key :: "lock \<Rightarrow> string \<times> string" where
  "lock_key l = (lk_LockedAt l, lk_ID l)"

definition newLockSet :: "lock list \<Rightarrow> lock_set" where
  "newLockSet locks =
     (let sorted = sort_key lock_key locks
      in \<lparr>ls_sorted = sorted,
          ls_byID = foldl (\<lambda>m l. m(lk_ID l \<mapsto> l)) Map.empty sorted,
          ls_byPath = foldl (\<lambda>m l. m(lk_Path l \<mapsto> l)) Map.empty sorted\<rparr>)"

section \<open>Binary search\<close>

text \<open>The loop of \<^verbatim>\<open>slices.BinarySearchFunc\<close> with bounds \<open>i\<close> and \<open>j\<close>.\<close>

function search_loop :: "lock list \<Rightarrow> lock \<Rightarrow> nat \<Rightarrow> nat \<Rightarrow> nat" where
  "search_loop xs t i j =
     (if i < j then
        (let h = (i + j) div 2
         in if compareLocks (xs ! h) t < 0 then search_loop xs t (h + 1) j else search_loop xs t i h)
      else i)"
  by pat_completeness auto
termination
  by (relation "measure (\<lambda>(xs, t, i, j). j - i)") auto

declare search_loop.simps [simp del]

definition BinarySearch :: "lock list \<Rightarrow> lock \<Rightarrow> nat \<times> bool" where
  "BinarySearch xs t =
     (let n = length xs; i = search_loop xs t 0 n
      in (i, i < n \<and> compareLocks (xs ! i) t = 0))"

section \<open>Operations\<close>

definition add :: "lock_set \<Rightarrow> lock \<Rightarrow> lock_set" where
  "add s l =
     (let i = fst (BinarySearch (ls_sorted s) l)
      in s\<lparr>ls_sorted := take i (ls_sorted s) @ [l] @ drop i (ls_sorted s),
           ls_byID := (ls_byID s)(lk_ID l \<mapsto> l),
           ls_byPath := (ls_byPath s)(lk_Path l \<mapsto> l)\<rparr>)"

definition remove :: "lock_set \<Rightarrow> lock \<Rightarrow> lock_set" where
  "remove s l =
     (let (i, found) = BinarySearch (ls_sorted s) l;
          s1 = (if found then s\<lparr>ls_sorted := take i (ls_sorted s) @ drop (i + 1) (ls_sorted s)\<rparr> else s);
          s2 = s1\<lparr>ls_byID := (ls_byID s1)(lk_ID l := None)\<rparr>
      in if lk_ID (case ls_byPath s2 (lk_Path l) of Some p \<Rightarrow> p | None \<Rightarrow> zero_lock) = lk_ID l
         then s2\<lparr>ls_byPath := (ls_byPath s2)(lk_Path l := None)\<rparr> else s2)"

definition lockCursor :: "lock \<Rightarrow> string" where
  "lockCursor l = RawURLEncode (lk_LockedAt l @ ''|'' @ lk_ID l)"

definition parseLockCursor :: "string \<Rightarrow> lock_error + lock" where
  "parseLockCursor cursor =
     (case RawURLDecode cursor of
        None \<Rightarrow> Inl ErrInvalidLockCursor
      | Some data \<Rightarrow>
        (let (lockedAt, id', ok) = Cut data CHR ''|''
         in if \<not> ok \<or> lockedAt = [] \<or> id' = [] then Inl ErrInvalidLockCursor
            else Inr (zero_lock\<lparr>lk_ID := id', lk_LockedAt := lockedAt\<rparr>)))"

definition match :: "lock_set \<Rightarrow> string \<Rightarrow> string \<Rightarrow> lock list" where
  "match s path id' =
     (let found = (if path = [] then ls_byID s id' else ls_byPath s path)
      in case found of
           None \<Rightarrow> []
         | Some l \<Rightarrow> if id' \<noteq> [] \<and> lk_ID l \<noteq> id' then [] else [l])"

definition clamp_limit :: "int \<Rightarrow> int" where
  "clamp_limit limit =
     (if limit \<le> 0 then defaultLockLimit else if maxLockLimit < limit then maxLockLimit else limit)"

definition list_page :: "lock list \<Rightarrow> int \<Rightarrow> lock list \<times> string" where
  "list_page matches limit =
     (let n = nat (clamp_limit limit)
      in if length matches \<le> n then (matches, [])
         else (take n matches, lockCursor (matches ! (n - 1))))"

definition list_locks :: "lock_set \<Rightarrow> list_options \<Rightarrow> lock_error + (lock list \<times> string)" where
  "list_locks s opts =
     (let matches = (if opt_Path opts \<noteq> [] \<or> opt_ID opts \<noteq> [] then match s (opt_Path opts) (opt_ID opts)
                     else ls_sorted s)
      in if opt_Cursor opts \<noteq> [] then
           (case parseLockCursor (opt_Cursor opts) of
              Inl e \<Rightarrow> Inl e
            | Inr after \<Rightarrow>
              (let (i, found) = BinarySearch matches after
               in Inr (list_page (drop (if found then i + 1 else i) matches) (opt_Limit opts))))
         else Inr (list_page matches (opt_Limit opts)))"

section \<open>The order\<close>

lemma compareLocks_less: "compareLocks a b < 0 \<longleftrightarrow> lock_key a < lock_key b"
  by (auto simp: compareLocks_def strings_Compare_def lock_key_def Let_def less_prod_def)

lemma compareLocks_eq: "compareLocks a b = 0 \<longleftrightarrow> lock_key a = lock_key b"
  by (auto simp: compareLocks_def strings_Compare_def lock_key_def Let_def)

text \<open>On a sorted list the loop finds the number of elements before the target: below \<open>i\<close> everything is
  smaller, from \<open>j\<close> on nothing is.\<close>

lemma search_loop_correct:
  assumes "sorted (map lock_key xs)" "i \<le> j" "j \<le> length xs"
    and "\<forall>k < i. lock_key (xs ! k) < lock_key t" "\<forall>k < length xs. j \<le> k \<longrightarrow> \<not> lock_key (xs ! k) < lock_key t"
  shows "search_loop xs t i j = length (takeWhile (\<lambda>x. lock_key x < lock_key t) xs)"
  using assms
proof (induction xs t i j rule: search_loop.induct)
  case (1 xs t i j)
  let ?h = "(i + j) div 2"
  have mono: "lock_key (xs ! a) \<le> lock_key (xs ! b)" if "a \<le> b" "b < length xs" for a b
    using sorted_nth_mono [OF "1.prems"(1), of a b] that by simp
  show ?case
  proof (cases "i < j")
    case False
    with "1.prems" have "i = j" by simp
    have "takeWhile (\<lambda>x. lock_key x < lock_key t) xs = take i xs"
      by (rule takeWhile_eq_take_P_nth) (use "1.prems" \<open>i = j\<close> in auto)
    with "1.prems" \<open>i = j\<close> show ?thesis by (simp add: search_loop.simps [of xs t j j])
  next
    case True
    then have h: "i \<le> ?h" "?h < j" by auto
    show ?thesis
    proof (cases "compareLocks (xs ! ?h) t < 0")
      case less: True
      then have "lock_key (xs ! k) < lock_key t" if "k < ?h + 1" for k
        using mono [of k ?h] that h "1.prems"(3) by (simp add: compareLocks_less)
      then have "search_loop xs t (?h + 1) j = length (takeWhile (\<lambda>x. lock_key x < lock_key t) xs)"
        using "1.IH"(1) [OF True refl less] "1.prems" h by simp
      with True less show ?thesis by (simp add: search_loop.simps [of xs t i j])
    next
      case ge: False
      then have "\<not> lock_key (xs ! k) < lock_key t" if "?h \<le> k" "k < length xs" for k
        using mono [of ?h k] that by (auto simp: compareLocks_less)
      then have "search_loop xs t i ?h = length (takeWhile (\<lambda>x. lock_key x < lock_key t) xs)"
        using "1.IH"(2) [OF True refl ge] "1.prems" h by simp
      with True ge show ?thesis by (simp add: search_loop.simps [of xs t i j])
    qed
  qed
qed

lemma BinarySearch_eq:
  assumes "sorted (map lock_key xs)"
  shows "BinarySearch xs t =
    (length (filter (\<lambda>x. lock_key x < lock_key t) xs), lock_key t \<in> lock_key ` set xs)"
proof -
  let ?n = "length (takeWhile (\<lambda>x. lock_key x < lock_key t) xs)"
  have i: "search_loop xs t 0 (length xs) = ?n"
    by (rule search_loop_correct) (use assms in auto)
  have "?n < length xs \<and> lock_key (xs ! ?n) = lock_key t \<longleftrightarrow> lock_key t \<in> lock_key ` set xs"
  proof
    assume "lock_key t \<in> lock_key ` set xs"
    then obtain x where x: "x \<in> set (dropWhile (\<lambda>x. lock_key x < lock_key t) xs)" "lock_key x = lock_key t"
      unfolding dropWhile_sorted_key [OF assms] by auto
    then obtain y ys where d: "dropWhile (\<lambda>x. lock_key x < lock_key t) xs = y # ys"
      by (cases "dropWhile (\<lambda>x. lock_key x < lock_key t) xs") auto
    have xs: "xs = takeWhile (\<lambda>x. lock_key x < lock_key t) xs @ y # ys"
      using takeWhile_dropWhile_id [of "\<lambda>x. lock_key x < lock_key t" xs] d by simp
    have n: "?n < length xs" "xs ! ?n = y"
      using arg_cong [OF xs, of length] arg_cong [OF xs, of "\<lambda>zs. zs ! ?n"] by simp_all
    have "sorted (map lock_key (y # ys))"
      using assms d by (metis map_append sorted_append takeWhile_dropWhile_id)
    then have "lock_key y \<le> lock_key t" using x d by auto
    moreover have "\<not> lock_key y < lock_key t" using hd_dropWhile [of "\<lambda>x. lock_key x < lock_key t" xs] d by simp
    ultimately show "?n < length xs \<and> lock_key (xs ! ?n) = lock_key t" using n by simp
  qed (metis image_eqI nth_mem)
  then show ?thesis
    by (simp add: BinarySearch_def i compareLocks_eq takeWhile_sorted_key [OF assms] Let_def)
qed

section \<open>The invariant\<close>

text \<open>A map that indexes a set of locks by a field.\<close>

definition indexed :: "(lock \<Rightarrow> string) \<Rightarrow> lock set \<Rightarrow> (string \<rightharpoonup> lock) \<Rightarrow> bool" where
  "indexed f L m \<longleftrightarrow> (\<forall>k l. m k = Some l \<longleftrightarrow> l \<in> L \<and> f l = k)"

definition lockset_wf :: "lock_set \<Rightarrow> bool" where
  "lockset_wf s \<longleftrightarrow>
     sorted (map lock_key (ls_sorted s)) \<and> distinct (map lk_ID (ls_sorted s)) \<and>
     distinct (map lk_Path (ls_sorted s)) \<and>
     indexed lk_ID (set (ls_sorted s)) (ls_byID s) \<and> indexed lk_Path (set (ls_sorted s)) (ls_byPath s)"

text \<open>The locks a set holds.\<close>

definition locks_of :: "lock_set \<Rightarrow> lock set" where
  "locks_of s = set (ls_sorted s)"

lemma indexed_fun: "indexed f L m \<Longrightarrow> indexed f L m' \<Longrightarrow> m = m'"
proof (rule ext)
  fix k assume "indexed f L m" "indexed f L m'"
  then have "m k = Some l \<longleftrightarrow> m' k = Some l" for l by (simp add: indexed_def)
  then show "m k = m' k" by (metis not_Some_eq)
qed

lemma indexed_insert:
  "indexed f L m \<Longrightarrow> f l \<notin> f ` L \<Longrightarrow> indexed f (insert l L) (m(f l \<mapsto> l))"
  by (auto simp: indexed_def image_iff)

lemma indexed_delete:
  "indexed f L m \<Longrightarrow> inj_on f L \<Longrightarrow> l \<in> L \<Longrightarrow> indexed f (L - {l}) (m(f l := None))"
  by (auto simp: indexed_def inj_on_def)

lemma indexed_foldl:
  "indexed f L m \<Longrightarrow> distinct (map f ls) \<Longrightarrow> f ` set ls \<inter> f ` L = {} \<Longrightarrow>
     indexed f (set ls \<union> L) (foldl (\<lambda>m l. m(f l \<mapsto> l)) m ls)"
proof (induction ls arbitrary: m L)
  case (Cons l ls)
  have "indexed f (insert l L) (m(f l \<mapsto> l))" using Cons.prems by (intro indexed_insert) auto
  from Cons.IH [OF this] Cons.prems show ?case by auto
qed simp

lemma indexed_foldl_empty: "distinct (map f ls) \<Longrightarrow> indexed f (set ls) (foldl (\<lambda>m l. m(f l \<mapsto> l)) Map.empty ls)"
  using indexed_foldl [of f "{}" Map.empty ls] by (simp add: indexed_def)

lemma lockset_wf_newLockSet:
  assumes "distinct (map lk_ID ls)" "distinct (map lk_Path ls)"
  shows "lockset_wf (newLockSet ls)" "locks_of (newLockSet ls) = set ls"
proof -
  have d: "distinct (map f (sort_key lock_key ls)) = distinct (map f ls)" for f :: "lock \<Rightarrow> string"
    by (rule mset_eq_imp_distinct_iff) simp
  then show "lockset_wf (newLockSet ls)"
    using assms indexed_foldl_empty [of lk_ID "sort_key lock_key ls"]
      indexed_foldl_empty [of lk_Path "sort_key lock_key ls"]
    by (simp add: lockset_wf_def newLockSet_def Let_def)
  show "locks_of (newLockSet ls) = set ls" by (simp add: locks_of_def newLockSet_def Let_def)
qed

lemma sorted_sort_key_id: "sorted (map f xs) \<Longrightarrow> sort_key f xs = xs"
  by (induction xs) (auto simp: insort_is_Cons)

text \<open>A well-formed set is the one its listing builds, so writing the listing out and reading it back
  loses nothing.\<close>

lemma newLockSet_sorted: "lockset_wf s \<Longrightarrow> newLockSet (ls_sorted s) = s"
proof -
  assume wf: "lockset_wf s"
  then have "sort_key lock_key (ls_sorted s) = ls_sorted s"
    by (simp add: lockset_wf_def sorted_sort_key_id)
  moreover have "foldl (\<lambda>m l. m(lk_ID l \<mapsto> l)) Map.empty (ls_sorted s) = ls_byID s"
    using wf by (intro indexed_fun [OF indexed_foldl_empty]) (auto simp: lockset_wf_def)
  moreover have "foldl (\<lambda>m l. m(lk_Path l \<mapsto> l)) Map.empty (ls_sorted s) = ls_byPath s"
    using wf by (intro indexed_fun [OF indexed_foldl_empty]) (auto simp: lockset_wf_def)
  ultimately show ?thesis by (simp add: newLockSet_def Let_def)
qed

lemma byID_iff: "lockset_wf s \<Longrightarrow> ls_byID s i = Some l \<longleftrightarrow> l \<in> locks_of s \<and> lk_ID l = i"
  by (simp add: lockset_wf_def indexed_def locks_of_def)

lemma byPath_iff: "lockset_wf s \<Longrightarrow> ls_byPath s p = Some l \<longleftrightarrow> l \<in> locks_of s \<and> lk_Path l = p"
  by (simp add: lockset_wf_def indexed_def locks_of_def)

lemma drop_filter_less:
  assumes "sorted (map lock_key xs)"
  shows "drop (length (filter (\<lambda>x. lock_key x < k) xs)) xs = filter (\<lambda>x. \<not> lock_key x < k) xs"
    and "take (length (filter (\<lambda>x. lock_key x < k) xs)) xs = filter (\<lambda>x. lock_key x < k) xs"
  using dropWhile_eq_drop [of "\<lambda>x. lock_key x < k" xs] takeWhile_eq_take [of "\<lambda>x. lock_key x < k" xs] assms
  by (simp_all add: dropWhile_sorted_key takeWhile_sorted_key)

lemma ls_sorted_add:
  assumes "sorted (map lock_key (ls_sorted s))"
  shows "ls_sorted (add s l) = filter (\<lambda>x. lock_key x < lock_key l) (ls_sorted s) @ l #
    filter (\<lambda>x. \<not> lock_key x < lock_key l) (ls_sorted s)"
  using assms by (simp add: add_def BinarySearch_eq drop_filter_less Let_def)

lemma mset_filter_split:
  "mset (filter P xs @ l # filter (\<lambda>x. \<not> P x) xs) = add_mset l (mset xs)"
  by (induction xs) auto

text \<open>Adding a lock with a new id and a new path keeps the set well-formed.\<close>

lemma add_wf:
  assumes "lockset_wf s" "lk_ID l \<notin> lk_ID ` locks_of s" "lk_Path l \<notin> lk_Path ` locks_of s"
  shows "lockset_wf (add s l)" "locks_of (add s l) = insert l (locks_of s)"
proof -
  have so: "sorted (map lock_key (ls_sorted s))" using assms(1) by (simp add: lockset_wf_def)
  let ?ys = "ls_sorted (add s l)"
  have m: "mset ?ys = add_mset l (mset (ls_sorted s))"
    by (simp only: ls_sorted_add [OF so] mset_filter_split)
  have st: "set ?ys = insert l (set (ls_sorted s))"
    using arg_cong [OF m, of set_mset] by simp
  have d: "distinct (map f ?ys)" if "distinct (map f (ls_sorted s))" "f l \<notin> f ` set (ls_sorted s)" for f :: "lock \<Rightarrow> string"
  proof -
    have "mset (map f ?ys) = mset (f l # map f (ls_sorted s))"
      by (simp only: mset_map m) simp
    then show ?thesis using that by (metis distinct.simps(2) list.set_map mset_eq_imp_distinct_iff)
  qed
  have "sorted (map lock_key ?ys)"
    using so by (auto simp: ls_sorted_add sorted_append sorted_map_same intro: sorted_filter order.strict_implies_order
        dest: order.strict_implies_order)
  moreover have "ls_byID (add s l) = (ls_byID s)(lk_ID l \<mapsto> l)" "ls_byPath (add s l) = (ls_byPath s)(lk_Path l \<mapsto> l)"
    by (simp_all add: add_def Let_def)
  ultimately show "lockset_wf (add s l)"
    using assms d indexed_insert [of lk_ID "set (ls_sorted s)" "ls_byID s" l]
      indexed_insert [of lk_Path "set (ls_sorted s)" "ls_byPath s" l]
    by (simp add: lockset_wf_def locks_of_def st)
  show "locks_of (add s l) = insert l (locks_of s)" by (simp add: locks_of_def st)
qed

lemma lockset_keys_distinct: "lockset_wf s \<Longrightarrow> distinct (map lock_key (ls_sorted s))"
proof -
  assume "lockset_wf s"
  then have "distinct (map lk_ID (ls_sorted s))" by (simp add: lockset_wf_def)
  then show ?thesis by (auto simp: distinct_map inj_on_def lock_key_def)
qed

lemma sorted_keys_split:
  assumes "sorted (map lock_key (ys @ l # zs))" "distinct (map lock_key (ys @ l # zs))"
  shows "x \<in> set ys \<Longrightarrow> lock_key x < lock_key l" "x \<in> set zs \<Longrightarrow> lock_key l < lock_key x"
  using assms by (auto simp: sorted_append order.strict_iff_order image_iff)

lemma filter_less_split:
  assumes "sorted (map lock_key (ys @ l # zs))" "distinct (map lock_key (ys @ l # zs))"
  shows "filter (\<lambda>x. lock_key x < lock_key l) (ys @ l # zs) = ys"
    and "filter (\<lambda>x. lock_key l < lock_key x) (ys @ l # zs) = zs"
    and "filter (\<lambda>x. x \<noteq> l) (ys @ l # zs) = ys @ zs"
proof -
  note lt = sorted_keys_split [OF assms]
  have a: "filter (\<lambda>x. lock_key x < lock_key l) ys = ys" "filter (\<lambda>x. lock_key x < lock_key l) zs = []"
    using lt by (auto simp: filter_id_conv filter_empty_conv dest: order.asym)
  have b: "filter (\<lambda>x. lock_key l < lock_key x) ys = []" "filter (\<lambda>x. lock_key l < lock_key x) zs = zs"
    using lt by (auto simp: filter_id_conv filter_empty_conv dest: order.asym)
  have c: "filter (\<lambda>x. x \<noteq> l) ys = ys" "filter (\<lambda>x. x \<noteq> l) zs = zs"
    using lt by (auto simp: filter_id_conv)
  show "filter (\<lambda>x. lock_key x < lock_key l) (ys @ l # zs) = ys"
    "filter (\<lambda>x. lock_key l < lock_key x) (ys @ l # zs) = zs"
    "filter (\<lambda>x. x \<noteq> l) (ys @ l # zs) = ys @ zs"
    by (simp_all add: a b c)
qed

text \<open>Skipping the locks up to and including a position leaves those after it, whether or not a lock is
  at the position.\<close>

lemma drop_after:
  assumes "sorted (map lock_key xs)" "distinct (map lock_key xs)"
  shows "drop (if lock_key t \<in> lock_key ` set xs then length (filter (\<lambda>x. lock_key x < lock_key t) xs) + 1
      else length (filter (\<lambda>x. lock_key x < lock_key t) xs)) xs = filter (\<lambda>x. lock_key t < lock_key x) xs"
proof (cases "lock_key t \<in> lock_key ` set xs")
  case True
  then obtain l where l: "l \<in> set xs" "lock_key l = lock_key t" by auto
  then obtain ys zs where xs: "xs = ys @ l # zs" by (meson split_list)
  show ?thesis
    using filter_less_split(1,2) [OF assms [unfolded xs]] True l(2) by (simp add: xs)
next
  case False
  then have "filter (\<lambda>x. \<not> lock_key x < lock_key t) xs = filter (\<lambda>x. lock_key t < lock_key x) xs"
    by (intro filter_cong) (auto simp: not_less order.order_iff_strict image_iff)
  with False show ?thesis by (simp add: drop_filter_less [OF assms(1)])
qed

text \<open>Removing a lock of the set takes exactly it out of the listing and of both indexes.\<close>

lemma remove_wf:
  assumes "lockset_wf s" "l \<in> locks_of s"
  shows "lockset_wf (remove s l)" "locks_of (remove s l) = locks_of s - {l}"
    "ls_sorted (remove s l) = filter (\<lambda>x. x \<noteq> l) (ls_sorted s)"
proof -
  have so: "sorted (map lock_key (ls_sorted s))" using assms(1) by (simp add: lockset_wf_def)
  note dk = lockset_keys_distinct [OF assms(1)]
  obtain ys zs where xs: "ls_sorted s = ys @ l # zs"
    using assms(2) by (auto simp: locks_of_def in_set_conv_decomp)
  have f: "filter (\<lambda>x. lock_key x < lock_key l) (ls_sorted s) = ys"
    "filter (\<lambda>x. x \<noteq> l) (ls_sorted s) = ys @ zs"
    using filter_less_split [OF so [unfolded xs] dk [unfolded xs]] by (simp_all add: xs)
  have "BinarySearch (ls_sorted s) l = (length ys, True)"
    using assms(2) by (simp add: BinarySearch_eq [OF so] f locks_of_def)
  moreover have "ls_byPath s (lk_Path l) = Some l" using assms by (simp add: byPath_iff)
  ultimately have r: "remove s l = s\<lparr>ls_sorted := ys @ zs, ls_byID := (ls_byID s)(lk_ID l := None),
      ls_byPath := (ls_byPath s)(lk_Path l := None)\<rparr>"
    by (simp add: remove_def xs Let_def)
  show so': "ls_sorted (remove s l) = filter (\<lambda>x. x \<noteq> l) (ls_sorted s)" by (simp add: r f)
  show "locks_of (remove s l) = locks_of s - {l}" unfolding locks_of_def so' by auto
  have st: "set (ys @ zs) = set (ls_sorted s) - {l}" unfolding f(2) [symmetric] by auto
  have "sorted (map lock_key (ys @ zs))" using so xs by (auto simp: sorted_append)
  moreover have "distinct (map lk_ID (ys @ zs))" "distinct (map lk_Path (ys @ zs))"
    using assms(1) by (auto simp: lockset_wf_def xs)
  moreover have "indexed lk_ID (set (ys @ zs)) ((ls_byID s)(lk_ID l := None))"
    using assms unfolding st by (intro indexed_delete) (auto simp: lockset_wf_def distinct_map locks_of_def)
  moreover have "indexed lk_Path (set (ys @ zs)) ((ls_byPath s)(lk_Path l := None))"
    using assms unfolding st by (intro indexed_delete) (auto simp: lockset_wf_def distinct_map locks_of_def)
  ultimately show "lockset_wf (remove s l)" by (simp add: lockset_wf_def r)
qed

section \<open>The lock index as an interface\<close>

text \<open>
  What the lock store relies on: a set of locks with distinct ids and paths that can be looked up either
  way, extended with a new lock, and shrunk. The client facts are what \<^verbatim>\<open>Create\<close> and \<^verbatim>\<open>Unlock\<close> need.
\<close>

locale lock_index =
  fixes invar :: "'s \<Rightarrow> bool"
    and elems :: "'s \<Rightarrow> lock set"
    and build :: "lock list \<Rightarrow> 's"
    and by_id :: "'s \<Rightarrow> string \<Rightarrow> lock option"
    and by_path :: "'s \<Rightarrow> string \<Rightarrow> lock option"
    and insert_op :: "'s \<Rightarrow> lock \<Rightarrow> 's"
    and delete_op :: "'s \<Rightarrow> lock \<Rightarrow> 's"
  assumes build_spec: "distinct (map lk_ID ls) \<Longrightarrow> distinct (map lk_Path ls) \<Longrightarrow>
      invar (build ls) \<and> elems (build ls) = set ls"
    and by_id_spec: "invar s \<Longrightarrow> by_id s i = Some l \<longleftrightarrow> l \<in> elems s \<and> lk_ID l = i"
    and by_path_spec: "invar s \<Longrightarrow> by_path s p = Some l \<longleftrightarrow> l \<in> elems s \<and> lk_Path l = p"
    and insert_spec: "invar s \<Longrightarrow> lk_ID l \<notin> lk_ID ` elems s \<Longrightarrow> lk_Path l \<notin> lk_Path ` elems s \<Longrightarrow>
      invar (insert_op s l) \<and> elems (insert_op s l) = insert l (elems s)"
    and delete_spec: "invar s \<Longrightarrow> l \<in> elems s \<Longrightarrow>
      invar (delete_op s l) \<and> elems (delete_op s l) = elems s - {l}"
begin

lemma by_path_None: "invar s \<Longrightarrow> by_path s p = None \<longleftrightarrow> p \<notin> lk_Path ` elems s"
  using by_path_spec by (metis (no_types, lifting) image_iff not_Some_eq)

lemma by_id_None: "invar s \<Longrightarrow> by_id s i = None \<longleftrightarrow> i \<notin> lk_ID ` elems s"
  using by_id_spec by (metis (no_types, lifting) image_iff not_Some_eq)

text \<open>No two locks of an index share a path or an id.\<close>

lemma path_unique: "invar s \<Longrightarrow> l \<in> elems s \<Longrightarrow> l' \<in> elems s \<Longrightarrow> lk_Path l = lk_Path l' \<Longrightarrow> l = l'"
  by (metis by_path_spec option.inject)

lemma id_unique: "invar s \<Longrightarrow> l \<in> elems s \<Longrightarrow> l' \<in> elems s \<Longrightarrow> lk_ID l = lk_ID l' \<Longrightarrow> l = l'"
  by (metis by_id_spec option.inject)

text \<open>Deleting what was inserted restores the index's locks.\<close>

lemma insert_delete:
  assumes "invar s" "lk_ID l \<notin> lk_ID ` elems s" "lk_Path l \<notin> lk_Path ` elems s"
  shows "elems (delete_op (insert_op s l) l) = elems s"
  using assms insert_spec [OF assms] delete_spec [of "insert_op s l" l] by auto

text \<open>After a deletion the path and the id are free again.\<close>

lemma delete_frees:
  assumes "invar s" "l \<in> elems s"
  shows "by_path (delete_op s l) (lk_Path l) = None" "by_id (delete_op s l) (lk_ID l) = None"
proof -
  have d: "invar (delete_op s l)" "elems (delete_op s l) = elems s - {l}"
    using delete_spec [OF assms] by auto
  show "by_path (delete_op s l) (lk_Path l) = None"
    using path_unique [OF assms(1)] assms(2) by (auto simp: by_path_None [OF d(1)] d(2))
  show "by_id (delete_op s l) (lk_ID l) = None"
    using id_unique [OF assms(1)] assms(2) by (auto simp: by_id_None [OF d(1)] d(2))
qed

end

interpretation lockset: lock_index lockset_wf locks_of newLockSet ls_byID ls_byPath add remove
  by unfold_locales
    (auto simp: lockset_wf_newLockSet byID_iff byPath_iff add_wf remove_wf)

section \<open>Listing\<close>

definition cursor_ok :: "lock \<Rightarrow> bool" where
  "cursor_ok l \<longleftrightarrow> lk_ID l \<noteq> [] \<and> lk_LockedAt l \<noteq> [] \<and> CHR ''|'' \<notin> set (lk_LockedAt l)"

lemma parseLockCursor_lockCursor:
  "cursor_ok l \<Longrightarrow> parseLockCursor (lockCursor l) = Inr (zero_lock\<lparr>lk_ID := lk_ID l, lk_LockedAt := lk_LockedAt l\<rparr>)"
  by (simp add: parseLockCursor_def lockCursor_def Cut_def cursor_ok_def takeWhile_char_append
      dropWhile_char_append)

lemma lockCursor_nonempty [simp]: "lockCursor l \<noteq> []"
  by (simp add: lockCursor_def)

lemma list_after_cursor:
  assumes "lockset_wf s" "cursor_ok l" "opt_Path opts = []" "opt_ID opts = []" "opt_Cursor opts = lockCursor l"
  shows "list_locks s opts = Inr (list_page (filter (\<lambda>x. lock_key l < lock_key x) (ls_sorted s)) (opt_Limit opts))"
proof -
  have so: "sorted (map lock_key (ls_sorted s))" using assms(1) by (simp add: lockset_wf_def)
  let ?t = "zero_lock\<lparr>lk_ID := lk_ID l, lk_LockedAt := lk_LockedAt l\<rparr>"
  have "lock_key ?t = lock_key l" by (simp add: lock_key_def)
  then show ?thesis
    using assms drop_after [OF so lockset_keys_distinct [OF assms(1)], of l]
    by (simp add: list_locks_def parseLockCursor_lockCursor BinarySearch_eq [OF so] Let_def split: if_splits)
qed

lemma clamp_limit_bounds: "1 \<le> nat (clamp_limit limit)" "nat (clamp_limit limit) \<le> 1000"
  by (auto simp: clamp_limit_def defaultLockLimit_def maxLockLimit_def)

text \<open>A client that follows cursors to the end, one call to \<^verbatim>\<open>List\<close> per unit of fuel.\<close>

definition page_options :: "string \<Rightarrow> int \<Rightarrow> list_options" where
  "page_options cursor limit = \<lparr>opt_Path = [], opt_ID = [], opt_Cursor = cursor, opt_Limit = limit, opt_Refspec = []\<rparr>"

fun all_pages :: "nat \<Rightarrow> lock_set \<Rightarrow> int \<Rightarrow> string \<Rightarrow> lock list list option" where
  "all_pages 0 s limit cursor = None"
| "all_pages (Suc n) s limit cursor =
     (case list_locks s (page_options cursor limit) of
        Inl _ \<Rightarrow> None
      | Inr (page, next_cursor) \<Rightarrow>
        if next_cursor = [] then Some [page]
        else map_option ((#) page) (all_pages n s limit next_cursor))"

lemma list_from_position:
  assumes "lockset_wf s" "\<forall>l \<in> locks_of s. cursor_ok l" "ls_sorted s = seen @ rest"
    and "cursor = (if seen = [] then [] else lockCursor (last seen))"
  shows "list_locks s (page_options cursor limit) = Inr (list_page rest limit)"
proof (cases "seen = []")
  case True
  then show ?thesis using assms by (simp add: list_locks_def page_options_def Let_def)
next
  case False
  then obtain ys l where ys: "seen = ys @ [l]" by (metis rev_exhaust)
  have so: "sorted (map lock_key (ys @ l # rest))" using assms(1,3) by (simp add: lockset_wf_def ys)
  have di: "distinct (map lock_key (ys @ l # rest))"
    using lockset_keys_distinct [OF assms(1)] assms(3) by (simp add: ys)
  have "cursor_ok l" using assms(2,3) by (simp add: locks_of_def ys)
  then have "list_locks s (page_options cursor limit) =
      Inr (list_page (filter (\<lambda>x. lock_key l < lock_key x) (ls_sorted s)) limit)"
    using list_after_cursor [OF assms(1), of l "page_options cursor limit"] assms(4)
    by (simp add: page_options_def ys)
  then show ?thesis using filter_less_split(2) [OF so di] assms(3) by (simp add: ys)
qed

lemma all_pages_from:
  assumes "lockset_wf s" "\<forall>l \<in> locks_of s. cursor_ok l" "ls_sorted s = seen @ rest" "length rest < n"
    and "cursor = (if seen = [] then [] else lockCursor (last seen))"
  shows "\<exists>pages. all_pages n s limit cursor = Some pages \<and> concat pages = rest \<and>
    (\<forall>p \<in> set pages. length p \<le> nat (clamp_limit limit))"
  using assms(3-)
proof (induction n arbitrary: seen rest cursor)
  case (Suc n)
  let ?k = "nat (clamp_limit limit)"
  have l: "list_locks s (page_options cursor limit) = Inr (list_page rest limit)"
    using list_from_position [OF assms(1,2) Suc.prems(1,3)] .
  show ?case
  proof (cases "length rest \<le> ?k")
    case True
    with l show ?thesis by (simp add: list_page_def Let_def)
  next
    case False
    let ?page = "take ?k rest" and ?next = "lockCursor (rest ! (?k - 1))"
    have k: "1 \<le> ?k" by (rule clamp_limit_bounds)
    have page: "?page \<noteq> []" using k False by auto
    then have last: "last ?page = rest ! (?k - 1)"
      using k False by (subst last_conv_nth) (auto simp: min_def)
    have "\<exists>pages. all_pages n s limit ?next = Some pages \<and> concat pages = drop ?k rest \<and>
        (\<forall>p \<in> set pages. length p \<le> ?k)"
      by (rule Suc.IH [of "seen @ ?page"]) (use Suc.prems page last k False in auto)
    then obtain pages where "all_pages n s limit ?next = Some pages" "concat pages = drop ?k rest"
      "\<forall>p \<in> set pages. length p \<le> ?k" by blast
    with l False show ?thesis by (simp add: list_page_def Let_def)
  qed
qed simp

section \<open>Sample data\<close>

definition sample_lock :: "string \<Rightarrow> string \<Rightarrow> string \<Rightarrow> lock" where
  "sample_lock i p t = \<lparr>lk_ID = i, lk_Path = p, lk_LockedAt = t, lk_Owner = \<lparr>owner_Name = ''alice''\<rparr>\<rparr>"

definition sample_locks :: "lock list" where
  "sample_locks = [sample_lock ''c3'' ''z.bin'' ''2026-01-02T00:00:00Z'',
     sample_lock ''b2'' ''a.bin'' ''2026-01-01T00:00:00Z'', sample_lock ''a1'' ''m.bin'' ''2026-01-01T00:00:00Z'']"

definition sample_set :: lock_set where
  "sample_set = newLockSet sample_locks"

lemma sample_distinct: "distinct (map lk_ID sample_locks)" "distinct (map lk_Path sample_locks)"
  by (simp_all add: sample_locks_def sample_lock_def)

lemmas sample_set_wf = lockset_wf_newLockSet [OF sample_distinct, folded sample_set_def]

lemma sample_set_sorted: "ls_sorted sample_set = rev sample_locks"
  unfolding sample_set_def newLockSet_def sample_locks_def sample_lock_def by code_simp

section \<open>Properties\<close>

text \<open>The binary search of the lock set returns, on a listing in order, the number of locks before the
  target and whether one is at its position, as a linear scan would.\<close>

theorem binary_search_reference:
  assumes "sorted (map lock_key xs)"
  shows "BinarySearch xs t =
    (length (takeWhile (\<lambda>x. lock_key x < lock_key t) xs), \<exists>x \<in> set xs. lock_key x = lock_key t)"
  using BinarySearch_eq [OF assms, of t]
  by (simp add: takeWhile_sorted_key [OF assms] image_iff eq_commute [of "lock_key t"])

theorem binary_search_reference_witness:
  "sorted (map lock_key (rev sample_locks)) \<and> BinarySearch (rev sample_locks) (sample_lock ''b2'' [] ''2026-01-01T00:00:00Z'') = (1, True)"
proof -
  have s: "sorted (map lock_key (rev sample_locks))"
    using sample_set_wf(1) by (simp add: lockset_wf_def sample_set_sorted)
  show ?thesis
    using s binary_search_reference [OF s, of "sample_lock ''b2'' [] ''2026-01-01T00:00:00Z''"]
    by (simp add: sample_locks_def sample_lock_def lock_key_def less_char_def less_list_code)
qed

text \<open>C39: Every operation keeps the lock set's listing in order and its two indexes exact: building it from
  locks with distinct ids and paths, adding a lock with a new id and path, and removing one of its locks,
  after which the path and the id are free.\<close>

theorem lockset_operations:
  assumes "lockset_wf s"
  shows "(distinct (map lk_ID ls) \<and> distinct (map lk_Path ls) \<longrightarrow>
      lockset_wf (newLockSet ls) \<and> locks_of (newLockSet ls) = set ls) \<and>
    (ls_byID s (lk_ID l) = None \<and> ls_byPath s (lk_Path l) = None \<longrightarrow>
      lockset_wf (add s l) \<and> locks_of (add s l) = insert l (locks_of s)) \<and>
    (ls_byID s i = Some k \<longrightarrow>
      lockset_wf (remove s k) \<and> locks_of (remove s k) = locks_of s - {k} \<and>
      ls_byPath (remove s k) (lk_Path k) = None \<and> ls_byID (remove s k) i = None)"
    (is "?build \<and> ?add \<and> ?remove")
proof (intro conjI)
  show ?build using lockset.build_spec by blast
  show ?add using assms by (simp add: lockset.insert_spec lockset.by_id_None lockset.by_path_None)
  show ?remove
  proof
    assume "ls_byID s i = Some k"
    then have k: "k \<in> locks_of s" "lk_ID k = i" using assms by (simp_all add: byID_iff)
    with lockset.delete_spec [OF assms k(1)] lockset.delete_frees [OF assms k(1)]
    show "lockset_wf (remove s k) \<and> locks_of (remove s k) = locks_of s - {k} \<and>
        ls_byPath (remove s k) (lk_Path k) = None \<and> ls_byID (remove s k) i = None" by simp
  qed
qed

theorem lockset_operations_witness:
  "lockset_wf sample_set \<and> ls_byID sample_set ''d4'' = None \<and> ls_byPath sample_set ''d.bin'' = None \<and>
   lockset_wf (add sample_set (sample_lock ''d4'' ''d.bin'' ''2026-01-03T00:00:00Z'')) \<and>
   ls_byID sample_set ''b2'' = Some (sample_locks ! 1) \<and>
   lockset_wf (remove sample_set (sample_locks ! 1)) \<and>
   ls_byPath (remove sample_set (sample_locks ! 1)) ''a.bin'' = None"
proof -
  note wf = sample_set_wf(1) and elems = sample_set_wf(2)
  have "ls_byID sample_set ''d4'' = None" "ls_byPath sample_set ''d.bin'' = None"
    "ls_byID sample_set ''b2'' = Some (sample_locks ! 1)"
    by (auto simp: lockset.by_id_None [OF wf] lockset.by_path_None [OF wf] byID_iff [OF wf] elems
        sample_locks_def sample_lock_def)
  with wf lockset_operations [OF wf, of "[]" "sample_lock ''d4'' ''d.bin'' ''2026-01-03T00:00:00Z''" "''b2''"
      "sample_locks ! 1"]
  show ?thesis by (simp add: sample_lock_def) (simp add: sample_locks_def sample_lock_def)
qed

text \<open>A cursor names a position, not a lock: listing from the cursor of any lock, present or since
  removed, yields the first page of exactly the locks that come after it.\<close>

theorem cursor_is_position:
  assumes "lockset_wf s" "cursor_ok l"
  shows "list_locks s (page_options (lockCursor l) limit) =
    Inr (list_page (filter (\<lambda>x. lock_key l < lock_key x) (ls_sorted s)) limit)"
  using list_after_cursor [OF assms, of "page_options (lockCursor l) limit"] by (simp add: page_options_def)

theorem cursor_is_position_witness:
  "lockset_wf sample_set \<and> cursor_ok (sample_locks ! 2) \<and>
   list_locks sample_set (page_options (lockCursor (sample_locks ! 2)) 1) =
     Inr ([sample_locks ! 1], lockCursor (sample_locks ! 1))"
proof -
  have c: "cursor_ok (sample_locks ! 2)" by (simp add: cursor_ok_def sample_locks_def sample_lock_def)
  show ?thesis
    using sample_set_wf(1) c cursor_is_position [OF sample_set_wf(1) c, of 1]
    by (simp add: sample_set_sorted sample_locks_def sample_lock_def lock_key_def list_page_def clamp_limit_def
        defaultLockLimit_def maxLockLimit_def less_char_def less_list_code)
qed

text \<open>C40: Following the cursors from the first page always ends, and the pages together list every lock
  exactly once, in order, none longer than the limit and never longer than 1000.\<close>

theorem pagination_complete:
  assumes "lockset_wf s" "\<forall>l \<in> locks_of s. cursor_ok l" "length (ls_sorted s) < n"
  shows "\<exists>pages. all_pages n s limit [] = Some pages \<and> concat pages = ls_sorted s \<and>
    (\<forall>p \<in> set pages. length p \<le> nat (clamp_limit limit) \<and> length p \<le> 1000)"
proof -
  obtain pages where "all_pages n s limit [] = Some pages" "concat pages = ls_sorted s"
    "\<forall>p \<in> set pages. length p \<le> nat (clamp_limit limit)"
    using all_pages_from [OF assms(1,2), of "[]" "ls_sorted s" n "[]" limit] assms(3) by auto
  moreover have "nat (clamp_limit limit) \<le> 1000" by (rule clamp_limit_bounds)
  ultimately show ?thesis by (meson order_trans)
qed

theorem pagination_complete_witness:
  "lockset_wf sample_set \<and> list_all cursor_ok (ls_sorted sample_set) \<and> length (ls_sorted sample_set) < 4 \<and>
   (\<exists>pages. all_pages 4 sample_set 2 [] = Some pages \<and> concat pages = rev sample_locks \<and>
     list_all (\<lambda>p. length p \<le> 2) pages)"
proof -
  have c: "\<forall>l \<in> locks_of sample_set. cursor_ok l" "length (ls_sorted sample_set) < 4"
    by (simp_all add: sample_set_wf sample_set_sorted cursor_ok_def sample_locks_def sample_lock_def)
  have "nat (clamp_limit 2) = 2" by (simp add: clamp_limit_def maxLockLimit_def)
  with sample_set_wf(1) c pagination_complete [OF sample_set_wf(1) c, of 2] show ?thesis
    by (auto simp: sample_set_sorted list_all_iff locks_of_def)
qed

end
