(* ===== verification/Go_Json.thy ===== *)
theory Go_Json
  imports Go_Encoding
begin

text \<open>
  Go's \<^verbatim>\<open>encoding/json/v2\<close> with its default options: a parser from bytes to JSON values and the compact
  printer \<^verbatim>\<open>json.Marshal\<close> uses. The defaults that matter: object names are case-sensitive and must not
  repeat, strings must be valid UTF-8, nesting is at most 10000 deep, and nothing but white space may
  follow the value. The parser runs on fuel that the length of the input bounds.
\<close>

datatype json =
    JNull
  | JBool bool
  | JNum string
  | JStr string
  | JArr "json list"
  | JObj "(string \<times> json) list"

section \<open>Strings\<close>

abbreviation (input) quote_char :: char where "quote_char \<equiv> CHR 0x22"
abbreviation (input) backslash :: char where "backslash \<equiv> CHR 0x5C"

definition hex4 :: "string \<Rightarrow> (nat \<times> string) option" where
  "hex4 s = (case s of
      a # b # c # d # r \<Rightarrow>
        (case (hex_value a, hex_value b, hex_value c, hex_value d) of
           (Some x, Some y, Some z, Some w) \<Rightarrow> Some (((x * 16 + y) * 16 + z) * 16 + w, r)
         | _ \<Rightarrow> None)
    | _ \<Rightarrow> None)"

definition simple_escape :: "char \<Rightarrow> char option" where
  "simple_escape e =
     map_of [(quote_char, quote_char), (backslash, backslash), (CHR ''/'', CHR ''/''), (CHR ''b'', CHR 0x08),
       (CHR ''f'', CHR 0x0C), (CHR ''n'', CHR 0x0A), (CHR ''r'', CHR 0x0D), (CHR ''t'', CHR 0x09)] e"

definition high_surrogate :: "nat \<Rightarrow> bool" where "high_surrogate n \<longleftrightarrow> 55296 \<le> n \<and> n < 56320"
definition low_surrogate :: "nat \<Rightarrow> bool" where "low_surrogate n \<longleftrightarrow> 56320 \<le> n \<and> n < 57344"

text \<open>A \<^verbatim>\<open>\u\<close> escape, after its \<^verbatim>\<open>u\<close>: a code point, or a pair of surrogates; a lone surrogate is an error.\<close>

definition unicode_escape :: "string \<Rightarrow> (string \<times> string) option" where
  "unicode_escape s =
     (case hex4 s of
        None \<Rightarrow> None
      | Some (n, r) \<Rightarrow>
        if low_surrogate n then None
        else if high_surrogate n then
          (case r of
             b # u # r1 \<Rightarrow>
               if b = backslash \<and> u = CHR ''u'' then
                 (case hex4 r1 of
                    Some (m, r2) \<Rightarrow>
                      if low_surrogate m then Some (encode_rune (65536 + (n - 55296) * 1024 + (m - 56320)), r2) else None
                  | None \<Rightarrow> None)
               else None
           | _ \<Rightarrow> None)
        else Some (encode_rune n, r))"

lemma hex4_shorter: "hex4 s = Some (n, r) \<Longrightarrow> length r < length s"
  by (auto simp: hex4_def split: list.splits option.splits)

lemma unicode_escape_shorter: "unicode_escape s = Some (bs, r) \<Longrightarrow> length r < length s"
  by (auto simp: unicode_escape_def split: list.splits option.splits if_splits dest!: hex4_shorter)

text \<open>The characters of a string literal up to its closing quote.\<close>

function parse_chars :: "string \<Rightarrow> (string \<times> string) option" where
  "parse_chars [] = None"
| "parse_chars (c # cs) =
     (if c = quote_char then Some ([], cs)
      else if c = backslash then
        (case cs of
           [] \<Rightarrow> None
         | e # ds \<Rightarrow>
           (case simple_escape e of
              Some b \<Rightarrow> map_option (apfst ((#) b)) (parse_chars ds)
            | None \<Rightarrow>
              if e = CHR ''u'' then
                (case unicode_escape ds of
                   None \<Rightarrow> None
                 | Some (bs, r) \<Rightarrow> map_option (apfst ((@) bs)) (parse_chars r))
              else None))
      else if byte_of c < (32 :: nat) then None
      else map_option (apfst ((#) c)) (parse_chars cs))"
  by pat_completeness auto
termination
  by (relation "measure length") (auto dest: unicode_escape_shorter)

definition parse_string :: "string \<Rightarrow> (string \<times> string) option" where
  "parse_string s =
     (case parse_chars s of
        None \<Rightarrow> None
      | Some (v, r) \<Rightarrow> if ValidString v then Some (v, r) else None)"

definition print_char :: "char \<Rightarrow> string" where
  "print_char c =
     (if c = quote_char \<or> c = backslash then [backslash, c]
      else if c = CHR 0x08 then [backslash, CHR ''b'']
      else if c = CHR 0x0C then [backslash, CHR ''f'']
      else if c = CHR 0x0A then [backslash, CHR ''n'']
      else if c = CHR 0x0D then [backslash, CHR ''r'']
      else if c = CHR 0x09 then [backslash, CHR ''t'']
      else if byte_of c < (32 :: nat) then
        [backslash, CHR ''u'', CHR ''0'', CHR ''0'', hex_digit (byte_of c div 16), hex_digit (byte_of c mod 16)]
      else [c])"

definition print_string :: "string \<Rightarrow> string" where
  "print_string s = quote_char # concat (map print_char s) @ [quote_char]"

section \<open>Values\<close>

definition json_ws :: "char \<Rightarrow> bool" where
  "json_ws c \<longleftrightarrow> c = CHR '' '' \<or> c = CHR 0x09 \<or> c = CHR 0x0A \<or> c = CHR 0x0D"

definition skip_ws :: "string \<Rightarrow> string" where
  "skip_ws s = dropWhile json_ws s"

definition span_digits :: "string \<Rightarrow> string \<times> string" where
  "span_digits s = (takeWhile is_digit s, dropWhile is_digit s)"

text \<open>A number: an optional minus, digits without a leading zero, an optional fraction and exponent.\<close>

definition parse_number :: "string \<Rightarrow> (string \<times> string) option" where
  "parse_number s =
     (let (sign, s0) = (case s of c # cs \<Rightarrow> if c = CHR ''-'' then (''-'', cs) else ([], s) | [] \<Rightarrow> ([], s));
          (ip, s1) = span_digits s0
      in if ip = [] \<or> (length ip > 1 \<and> hd ip = CHR ''0'') then None
         else let (frac, s2) = (case s1 of
                  c # cs \<Rightarrow> if c = CHR ''.'' then apfst ((#) c) (span_digits cs) else ([], s1)
                | [] \<Rightarrow> ([], s1));
                (ex, s3) = (case s2 of
                  c # cs \<Rightarrow>
                    if c = CHR ''e'' \<or> c = CHR ''E'' then
                      (case cs of
                         d # ds \<Rightarrow> if d = CHR ''+'' \<or> d = CHR ''-'' then apfst (\<lambda>ds. c # d # ds) (span_digits ds)
                                   else apfst ((#) c) (span_digits cs)
                       | [] \<Rightarrow> ([c], cs))
                    else ([], s2)
                | [] \<Rightarrow> ([], s2))
              in if frac = ''.'' \<or> (ex \<noteq> [] \<and> \<not> is_digit (last ex)) then None
                 else Some (sign @ ip @ frac @ ex, s3))"

definition parse_literal :: "string \<Rightarrow> (json \<times> string) option" where
  "parse_literal s =
     (if HasPrefix s ''null'' then Some (JNull, drop 4 s)
      else if HasPrefix s ''true'' then Some (JBool True, drop 4 s)
      else if HasPrefix s ''false'' then Some (JBool False, drop 5 s)
      else map_option (apfst JNum) (parse_number s))"

text \<open>The first argument is fuel, the second the nesting still allowed.\<close>

fun parse_value :: "nat \<Rightarrow> nat \<Rightarrow> string \<Rightarrow> (json \<times> string) option"
  and parse_elems :: "nat \<Rightarrow> nat \<Rightarrow> string \<Rightarrow> (json list \<times> string) option"
  and parse_members :: "nat \<Rightarrow> nat \<Rightarrow> string \<Rightarrow> ((string \<times> json) list \<times> string) option" where
  "parse_value 0 d s = None"
| "parse_value (Suc n) d s =
     (case skip_ws s of
        [] \<Rightarrow> None
      | c # cs \<Rightarrow>
        if c = quote_char then map_option (apfst JStr) (parse_string cs)
        else if c = CHR ''['' then
          (if d = 0 then None
           else case skip_ws cs of
             [] \<Rightarrow> None
           | e # es \<Rightarrow> if e = CHR '']'' then Some (JArr [], es)
                       else map_option (apfst JArr) (parse_elems n (d - 1) cs))
        else if c = CHR ''{'' then
          (if d = 0 then None
           else case skip_ws cs of
             [] \<Rightarrow> None
           | e # es \<Rightarrow> if e = CHR ''}'' then Some (JObj [], es)
                       else (case parse_members n (d - 1) cs of
                               None \<Rightarrow> None
                             | Some (ms, r) \<Rightarrow> if distinct (map fst ms) then Some (JObj ms, r) else None))
        else parse_literal (c # cs))"
| "parse_elems 0 d s = None"
| "parse_elems (Suc n) d s =
     (case parse_value n d s of
        None \<Rightarrow> None
      | Some (v, r) \<Rightarrow>
        (case skip_ws r of
           [] \<Rightarrow> None
         | c # cs \<Rightarrow>
           if c = CHR '','' then map_option (apfst ((#) v)) (parse_elems n d cs)
           else if c = CHR '']'' then Some ([v], cs) else None))"
| "parse_members 0 d s = None"
| "parse_members (Suc n) d s =
     (case skip_ws s of
        [] \<Rightarrow> None
      | q # s1 \<Rightarrow>
        if q \<noteq> quote_char then None
        else case parse_string s1 of
          None \<Rightarrow> None
        | Some (k, s2) \<Rightarrow>
          (case skip_ws s2 of
             [] \<Rightarrow> None
           | c # s3 \<Rightarrow>
             if c \<noteq> CHR '':'' then None
             else case parse_value n d s3 of
               None \<Rightarrow> None
             | Some (v, r) \<Rightarrow>
               (case skip_ws r of
                  [] \<Rightarrow> None
                | e # es \<Rightarrow>
                  if e = CHR '','' then map_option (apfst ((#) (k, v))) (parse_members n d es)
                  else if e = CHR ''}'' then Some ([(k, v)], es) else None)))"

definition max_depth :: nat where "max_depth = 10000"

text \<open>A whole document, with the length of the input as fuel.\<close>

definition json_parse :: "string \<Rightarrow> json option" where
  "json_parse s =
     (case parse_value (length s) max_depth s of
        None \<Rightarrow> None
      | Some (v, r) \<Rightarrow> if skip_ws r = [] then Some v else None)"

fun join_comma :: "string list \<Rightarrow> string" where
  "join_comma [] = []"
| "join_comma [x] = x"
| "join_comma (x # xs) = x @ CHR '','' # join_comma xs"

fun json_print :: "json \<Rightarrow> string" where
  "json_print JNull = ''null''"
| "json_print (JBool b) = (if b then ''true'' else ''false'')"
| "json_print (JNum s) = s"
| "json_print (JStr s) = print_string s"
| "json_print (JArr vs) = CHR ''['' # join_comma (map json_print vs) @ '']''"
| "json_print (JObj ms) = CHR ''{'' # join_comma (map (\<lambda>(k, v). print_string k @ CHR '':'' # json_print v) ms) @ ''}''"

text \<open>\<^verbatim>\<open>json.Marshal\<close> refuses strings that are not valid UTF-8.\<close>

fun json_valid :: "json \<Rightarrow> bool" where
  "json_valid (JStr s) = ValidString s"
| "json_valid (JArr vs) = list_all json_valid vs"
| "json_valid (JObj ms) = list_all (\<lambda>(k, v). ValidString k \<and> json_valid v) ms"
| "json_valid _ = True"

definition json_marshal :: "json \<Rightarrow> string option" where
  "json_marshal v = (if json_valid v then Some (json_print v) else None)"

section \<open>The fuel is enough\<close>

lemma skip_ws_length: "length (skip_ws s) \<le> length s"
  by (simp add: skip_ws_def length_dropWhile_le)

lemma skip_ws_Cons_length: "skip_ws s = c # cs \<Longrightarrow> length cs < length s"
  using skip_ws_length [of s] by simp

lemma parse_chars_shorter: "parse_chars s = Some (v, r) \<Longrightarrow> length r < length s"
proof (induction s arbitrary: v r rule: length_induct)
  case (1 s)
  then have IH: "parse_chars t = Some (v', r') \<Longrightarrow> length t < length s \<Longrightarrow> length r' < length t" for t v' r'
    by blast
  show ?case
  proof (cases s)
    case (Cons c cs)
    with "1.prems" show ?thesis
      apply (auto split: if_splits list.splits option.splits dest!: unicode_escape_shorter)
      apply (drule IH [unfolded Cons]; simp)+
      done
  qed (use "1.prems" in simp)
qed

lemma parse_string_shorter: "parse_string s = Some (v, r) \<Longrightarrow> length r < length s"
  by (auto simp: parse_string_def split: option.splits if_splits dest: parse_chars_shorter)

lemma span_digits_length: "span_digits s = (a, b) \<Longrightarrow> length a + length b = length s"
  unfolding span_digits_def by (metis Pair_inject length_append takeWhile_dropWhile_id)

lemma parse_number_shorter: "parse_number s = Some (v, r) \<Longrightarrow> length r < length s"
  by (auto simp: parse_number_def Let_def apfst_def map_prod_def split: if_splits list.splits prod.splits
      dest!: span_digits_length simp flip: length_greater_0_conv)

lemma parse_literal_shorter: "parse_literal s = Some (v, r) \<Longrightarrow> length r < length s"
  by (auto simp: parse_literal_def HasPrefix_def split: if_splits dest!: parse_number_shorter)
    (metis append_take_drop_id diff_less length_drop length_greater_0_conv list.discI take_eq_Nil2 zero_less_numeral)+

lemma fuel_Suc:
  fixes r s :: string
  assumes "length r < length s \<and> (\<forall>m. length s \<le> Suc m + length r \<longrightarrow> P (Suc m))"
  shows "length r < length s \<and> (\<forall>m. length s \<le> m + length r \<longrightarrow> P m)"
proof (intro conjI allI impI)
  fix m assume "length s \<le> m + length r"
  with assms show "P m" by (cases m) auto
qed (use assms in simp)

text \<open>A successful parse consumes at least one byte, and as much fuel as it consumes bytes is enough for it;
  more fuel changes nothing.\<close>

lemma parse_fuel:
  "parse_value n d s = Some (v, r) \<Longrightarrow>
     length r < length s \<and> (\<forall>m. length s \<le> m + length r \<longrightarrow> parse_value m d s = Some (v, r))"
  "parse_elems n d s = Some (vs, r) \<Longrightarrow>
     length r < length s \<and> (\<forall>m. length s \<le> m + length r \<longrightarrow> parse_elems m d s = Some (vs, r))"
  "parse_members n d s = Some (ms, r) \<Longrightarrow>
     length r < length s \<and> (\<forall>m. length s \<le> m + length r \<longrightarrow> parse_members m d s = Some (ms, r))"
proof (induction n arbitrary: d s v vs ms r)
  case (Suc n)
  {
    case 1
    then obtain c cs where c: "skip_ws s = c # cs" by (auto split: list.splits)
    note len = skip_ws_Cons_length [OF c]
    consider (str) "c = quote_char" | (arr) "c = CHR ''[''" | (obj) "c = CHR ''{''"
      | (lit) "c \<notin> {quote_char, CHR ''['', CHR ''{''}" by blast
    then have "length r < length s \<and> (\<forall>m. length s \<le> Suc m + length r \<longrightarrow> parse_value (Suc m) d s = Some (v, r))"
    proof cases
      case str
      with 1 c len show ?thesis by (auto dest: parse_string_shorter)
    next
      case lit
      with 1 c len skip_ws_length [of s] show ?thesis by (auto dest: parse_literal_shorter)
    next
      case arr
      with 1 c obtain e es where e: "skip_ws cs = e # es" "d \<noteq> 0" by (auto split: if_splits list.splits)
      show ?thesis
      proof (cases "e = CHR '']''")
        case True
        with 1 c e len arr skip_ws_Cons_length [OF e(1)] show ?thesis by auto
      next
        case False
        with 1 c e arr obtain vs where "parse_elems n (d - 1) cs = Some (vs, r)" "v = JArr vs" by auto
        with Suc.IH(2) [OF this(1)] False c e arr len show ?thesis by auto
      qed
    next
      case obj
      with 1 c obtain e es where e: "skip_ws cs = e # es" "d \<noteq> 0" by (auto split: if_splits list.splits)
      show ?thesis
      proof (cases "e = CHR ''}''")
        case True
        with 1 c e len obj skip_ws_Cons_length [OF e(1)] show ?thesis by auto
      next
        case False
        with 1 c e obj obtain ms where "parse_members n (d - 1) cs = Some (ms, r)" "v = JObj ms" "distinct (map fst ms)"
          by (auto split: option.splits if_splits)
        with Suc.IH(3) [OF this(1)] False c e obj len show ?thesis by auto
      qed
    qed
    then show ?case by (rule fuel_Suc)
  next
    case 2
    then obtain v1 r1 where v: "parse_value n d s = Some (v1, r1)" by (auto split: option.splits)
    with 2 obtain c cs where c: "skip_ws r1 = c # cs" by (auto split: list.splits)
    note len = skip_ws_Cons_length [OF c] and IHv = Suc.IH(1) [OF v]
    have "length r < length s \<and> (\<forall>m. length s \<le> Suc m + length r \<longrightarrow> parse_elems (Suc m) d s = Some (vs, r))"
    proof (cases "c = CHR '',''")
      case True
      with 2 v c obtain ws where "parse_elems n d cs = Some (ws, r)" "vs = v1 # ws" by auto
      with Suc.IH(2) [OF this(1)] IHv len c True show ?thesis by auto
    next
      case False
      with 2 v c have "c = CHR '']''" "vs = [v1]" "r = cs" by (auto split: if_splits)
      with IHv len c show ?thesis by auto
    qed
    then show ?case by (rule fuel_Suc)
  next
    case 3
    then obtain s1 where s1: "skip_ws s = quote_char # s1" by (auto split: list.splits if_splits)
    with 3 obtain k s2 where k: "parse_string s1 = Some (k, s2)" by (auto split: option.splits)
    with 3 s1 obtain s3 where s3: "skip_ws s2 = CHR '':'' # s3" by (auto split: list.splits if_splits)
    with 3 s1 k obtain v1 r1 where v: "parse_value n d s3 = Some (v1, r1)" by (auto split: option.splits)
    with 3 s1 k s3 obtain c cs where c: "skip_ws r1 = c # cs" by (auto split: list.splits)
    note len = skip_ws_Cons_length [OF s1] skip_ws_Cons_length [OF s3] skip_ws_Cons_length [OF c]
      parse_string_shorter [OF k] and IHv = Suc.IH(1) [OF v]
    have "length r < length s \<and> (\<forall>m. length s \<le> Suc m + length r \<longrightarrow> parse_members (Suc m) d s = Some (ms, r))"
    proof (cases "c = CHR '',''")
      case True
      with 3 s1 k s3 v c obtain ws where "parse_members n d cs = Some (ws, r)" "ms = (k, v1) # ws" by auto
      with Suc.IH(3) [OF this(1)] IHv len c s1 k s3 True show ?thesis by auto
    next
      case False
      with 3 s1 k s3 v c have "c = CHR ''}''" "ms = [(k, v1)]" "r = cs" by (auto split: if_splits)
      with IHv len c s1 k s3 show ?thesis by auto
    qed
    then show ?case by (rule fuel_Suc)
  }
qed simp_all

lemma parse_value_fuel: "parse_value n d s = Some (v, r) \<Longrightarrow> length s \<le> m \<Longrightarrow> parse_value m d s = Some (v, r)"
  using parse_fuel(1) by (metis le_add1 order_trans)

section \<open>Printing and parsing\<close>

lemma parse_chars_print_char:
  "parse_chars (print_char c @ s) = map_option (apfst ((#) c)) (parse_chars s)"
proof (cases "byte_of c < (32 :: nat) \<and> c \<notin> {CHR 0x08, CHR 0x0C, CHR 0x0A, CHR 0x0D, CHR 0x09}")
  case True
  then have "unicode_escape (CHR ''0'' # CHR ''0'' # hex_digit (byte_of c div 16) # hex_digit (byte_of c mod 16) # s)
      = Some ([c], s)"
    by (auto simp: unicode_escape_def hex4_def hex_value_def [of "CHR ''0''"] low_surrogate_def high_surrogate_def
        encode_rune_def)
  moreover have "(@) [c] = (#) c" by auto
  ultimately show ?thesis using True by (auto simp: print_char_def simple_escape_def)
next
  case False
  then show ?thesis by (auto simp: print_char_def simple_escape_def)
qed

lemma parse_chars_print: "parse_chars (concat (map print_char s) @ quote_char # r) = Some (s, r)"
  by (induction s) (simp_all add: parse_chars_print_char del: parse_chars.simps(2), simp)

lemma parse_string_print: "ValidString s \<Longrightarrow> parse_string (concat (map print_char s) @ quote_char # r) = Some (s, r)"
  by (simp add: parse_string_def parse_chars_print)

text \<open>Values the printer is used on: integers for numbers, valid strings, distinct names, and no deeper than
  the parser accepts.\<close>

fun json_wf :: "nat \<Rightarrow> json \<Rightarrow> bool" where
  "json_wf d (JNum s) \<longleftrightarrow> (\<exists>n. s = FormatInt n)"
| "json_wf d (JStr s) \<longleftrightarrow> ValidString s"
| "json_wf d (JArr vs) \<longleftrightarrow> d \<noteq> 0 \<and> (\<forall>v \<in> set vs. json_wf (d - 1) v)"
| "json_wf d (JObj ms) \<longleftrightarrow> d \<noteq> 0 \<and> distinct (map fst ms) \<and> (\<forall>(k, v) \<in> set ms. ValidString k \<and> json_wf (d - 1) v)"
| "json_wf d _ \<longleftrightarrow> True"

text \<open>What may follow a value: not a character that could continue a number.\<close>

definition value_end :: "string \<Rightarrow> bool" where
  "value_end s \<longleftrightarrow> (s = [] \<or> (\<not> is_digit (hd s) \<and> hd s \<notin> {CHR ''.'', CHR ''e'', CHR ''E''}))"

lemma value_end_Cons [simp]: "value_end (CHR '','' # s)" "value_end (CHR '']'' # s)" "value_end (CHR ''}'' # s)" "value_end []"
  by (simp_all add: value_end_def is_digit_def)

lemma span_digits_all: "list_all is_digit ds \<Longrightarrow> value_end r \<Longrightarrow> span_digits (ds @ r) = (ds, r)"
  by (induction ds) (auto simp: span_digits_def value_end_def takeWhile_eq_Nil_iff dropWhile_eq_self_iff)

lemma format_nat_no_zero: "length (format_nat n) > 1 \<Longrightarrow> hd (format_nat n) \<noteq> CHR ''0''"
proof (induction n rule: format_nat.induct)
  case (1 n)
  show ?case
  proof (cases "n < 10")
    case False
    then have "n div 10 \<noteq> 0" by auto
    have "hd (format_nat (n div 10)) \<noteq> CHR ''0''"
    proof (cases "n div 10 < 10")
      case True
      with \<open>n div 10 \<noteq> 0\<close> show ?thesis
        using digit_value_digit_char [of "n div 10"]
        by (auto simp: format_nat.simps [of "n div 10"] digit_value_def)
    next
      case no: False
      then have "length (format_nat (n div 10)) > 1"
        using format_nat_digits(2) by (simp add: format_nat.simps [of "n div 10"])
      with 1 False show ?thesis by blast
    qed
    with False show ?thesis using format_nat_digits(2) by (simp add: format_nat.simps [of n])
  qed (use 1 in \<open>simp add: format_nat.simps [of n]\<close>)
qed

lemma parse_number_FormatInt:
  assumes "value_end r"
  shows "parse_number (FormatInt n @ r) = Some (FormatInt n, r)"
proof -
  obtain k where k: "FormatInt n = (if n < 0 then ''-'' else []) @ format_nat k"
    by (rule that [of "nat \<bar>n\<bar>"]) (simp add: FormatInt_def abs_if)
  have h: "is_digit (hd (format_nat k))" "format_nat k \<noteq> []" by (auto simp: hd_format_nat format_nat_digits)
  then have m: "hd (format_nat k) \<noteq> CHR ''-''" by (auto simp: is_digit_def)
  have sp: "span_digits (format_nat k @ r) = (format_nat k, r)"
    by (rule span_digits_all [OF _ assms]) (simp add: format_nat_digits)
  have e: "hd r \<noteq> CHR ''.'' \<and> hd r \<noteq> CHR ''e'' \<and> hd r \<noteq> CHR ''E''" if "r \<noteq> []"
    using assms that by (auto simp: value_end_def)
  show ?thesis
    using h m e format_nat_no_zero [of k] sp unfolding k
    by (cases r; cases "format_nat k") (auto simp: parse_number_def Let_def)
qed

lemma json_print_first:
  assumes "json_wf d v"
  shows "\<exists>c cs. json_print v = c # cs \<and> \<not> json_ws c \<and> c \<noteq> CHR '']'' \<and> c \<noteq> CHR ''}''"
proof (cases v)
  case (JNum s)
  with assms obtain n where s: "s = FormatInt n" by auto
  obtain c cs where c: "FormatInt n = c # cs" "is_digit c \<or> c = CHR ''-''"
    using FormatInt_chars [of _ n] by (cases "FormatInt n") auto
  then have "\<not> json_ws c \<and> c \<noteq> CHR '']'' \<and> c \<noteq> CHR ''}''" by (auto simp: is_digit_def json_ws_def)
  with JNum s c show ?thesis by simp
qed (auto simp: json_ws_def print_string_def)

lemma skip_ws_Cons [simp]: "\<not> json_ws c \<Longrightarrow> skip_ws (c # s) = c # s"
  by (simp add: skip_ws_def)

lemma parse_literal_FormatInt:
  assumes "value_end r"
  shows "parse_literal (FormatInt n @ r) = Some (JNum (FormatInt n), r)"
proof -
  obtain c cs where c: "FormatInt n = c # cs" "is_digit c \<or> c = CHR ''-''"
    using FormatInt_chars [of _ n] by (cases "FormatInt n") auto
  then have "c \<notin> {CHR ''n'', CHR ''t'', CHR ''f''}" by (auto simp: is_digit_def)
  then have "\<not> HasPrefix (FormatInt n @ r) ''null''" "\<not> HasPrefix (FormatInt n @ r) ''true''"
      "\<not> HasPrefix (FormatInt n @ r) ''false''"
    by (auto simp: c HasPrefix_def)
  then show ?thesis by (simp add: parse_literal_def parse_number_FormatInt [OF assms])
qed

text \<open>The parser reads back what was printed, first for the elements of an array and the members of an
  object, given that it does so for each of their values.\<close>

definition reads_back :: "nat \<Rightarrow> json \<Rightarrow> bool" where
  "reads_back d v \<longleftrightarrow> (\<forall>r. value_end r \<longrightarrow> (\<exists>n. parse_value n d (json_print v @ r) = Some (v, r)))"

lemma reads_back_fuel:
  "reads_back d v \<Longrightarrow> value_end r \<Longrightarrow> length (json_print v @ r) \<le> m \<Longrightarrow> parse_value m d (json_print v @ r) = Some (v, r)"
  unfolding reads_back_def by (meson parse_value_fuel)

lemma parse_elems_print:
  assumes "vs \<noteq> []" "\<forall>v \<in> set vs. reads_back d v"
  shows "\<exists>n. parse_elems n d (join_comma (map json_print vs) @ CHR '']'' # r) = Some (vs, r)"
  using assms
proof (induction vs)
  case (Cons v vs)
  show ?case
  proof (cases vs)
    case Nil
    from Cons.prems obtain n where "parse_value n d (json_print v @ CHR '']'' # r) = Some (v, CHR '']'' # r)"
      unfolding reads_back_def by (meson list.set_intros(1) value_end_Cons)
    with Nil show ?thesis by (intro exI [of _ "Suc n"]) (simp add: json_ws_def)
  next
    case (Cons w ws)
    let ?t = "join_comma (map json_print vs) @ CHR '']'' # r"
    obtain n where n: "parse_elems n d ?t = Some (vs, r)" using Cons.IH Cons.prems Cons by auto
    let ?m = "max n (length (json_print v @ CHR '','' # ?t) + length ?t)"
    have "parse_value ?m d (json_print v @ CHR '','' # ?t) = Some (v, CHR '','' # ?t)"
      by (rule reads_back_fuel) (use Cons.prems in auto)
    moreover have "parse_elems ?m d ?t = Some (vs, r)" using parse_fuel(2) [OF n] by simp
    ultimately show ?thesis using Cons by (intro exI [of _ "Suc ?m"]) (simp add: json_ws_def)
  qed
qed simp

lemma parse_members_print:
  assumes "ms \<noteq> []" "\<forall>(k, v) \<in> set ms. ValidString k \<and> reads_back d v"
  shows "\<exists>n. parse_members n d (join_comma (map (\<lambda>(k, v). print_string k @ CHR '':'' # json_print v) ms) @ CHR ''}'' # r)
    = Some (ms, r)"
  using assms
proof (induction ms)
  case (Cons kv ms)
  obtain k v where kv: "kv = (k, v)" by force
  with Cons.prems have k: "ValidString k" "reads_back d v" by auto
  have key: "parse_members (Suc m) d (print_string k @ CHR '':'' # s) =
      (case parse_value m d s of None \<Rightarrow> None
       | Some (v, r) \<Rightarrow> (case skip_ws r of [] \<Rightarrow> None
         | e # es \<Rightarrow> if e = CHR '','' then map_option (apfst ((#) (k, v))) (parse_members m d es)
                     else if e = CHR ''}'' then Some ([(k, v)], es) else None))" for m s
    using parse_string_print [OF k(1), of "CHR '':'' # s"] by (simp add: print_string_def json_ws_def)
  show ?case
  proof (cases ms)
    case Nil
    from k obtain n where "parse_value n d (json_print v @ CHR ''}'' # r) = Some (v, CHR ''}'' # r)"
      unfolding reads_back_def by (meson value_end_Cons)
    with Nil kv key show ?thesis by (intro exI [of _ "Suc n"]) (simp add: json_ws_def)
  next
    case (Cons m1 ms1)
    let ?t = "join_comma (map (\<lambda>(k, v). print_string k @ CHR '':'' # json_print v) ms) @ CHR ''}'' # r"
    obtain n where n: "parse_members n d ?t = Some (ms, r)" using Cons.IH Cons.prems Cons by auto
    let ?m = "max n (length (json_print v @ CHR '','' # ?t) + length ?t)"
    have "parse_value ?m d (json_print v @ CHR '','' # ?t) = Some (v, CHR '','' # ?t)"
      by (rule reads_back_fuel) (use k in auto)
    moreover have "parse_members ?m d ?t = Some (ms, r)" using parse_fuel(3) [OF n] by simp
    ultimately show ?thesis using Cons kv key by (intro exI [of _ "Suc ?m"]) (simp add: json_ws_def)
  qed
qed simp

lemma join_comma_first:
  "xs \<noteq> [] \<Longrightarrow> hd xs = c # cs \<Longrightarrow> \<exists>ds. join_comma xs = c # ds"
  by (cases xs rule: join_comma.cases) auto

text \<open>An array or object with content is read by its loop, since the first byte after the bracket does not
  close it.\<close>

lemma reads_back_JArr:
  assumes "d \<noteq> 0" "\<forall>v \<in> set vs. json_wf (d - 1) v \<and> reads_back (d - 1) v"
  shows "reads_back d (JArr vs)"
  unfolding reads_back_def
proof (intro allI impI)
  fix r assume "value_end r"
  show "\<exists>n. parse_value n d (json_print (JArr vs) @ r) = Some (JArr vs, r)"
  proof (cases "vs = []")
    case True
    with assms(1) show ?thesis by (intro exI [of _ 1]) (simp add: json_ws_def)
  next
    case False
    then obtain c cs where "json_print (hd vs) = c # cs" "\<not> json_ws c" "c \<noteq> CHR '']''"
      using json_print_first [of "d - 1" "hd vs"] assms(2) by auto
    then obtain ds where "join_comma (map json_print vs) = c # ds" "\<not> json_ws c" "c \<noteq> CHR '']''"
      using join_comma_first [of "map json_print vs" c cs] False by (auto simp: hd_map)
    moreover obtain n where "parse_elems n (d - 1) (join_comma (map json_print vs) @ CHR '']'' # r) = Some (vs, r)"
      using parse_elems_print [OF False, of "d - 1" r] assms(2) by blast
    ultimately show ?thesis using assms(1) by (intro exI [of _ "Suc n"]) (simp add: json_ws_def)
  qed
qed

lemma reads_back_JObj:
  assumes "d \<noteq> 0" "distinct (map fst ms)" "\<forall>(k, v) \<in> set ms. ValidString k \<and> reads_back (d - 1) v"
  shows "reads_back d (JObj ms)"
  unfolding reads_back_def
proof (intro allI impI)
  fix r assume "value_end r"
  let ?m = "\<lambda>(k, v). print_string k @ CHR '':'' # json_print v"
  show "\<exists>n. parse_value n d (json_print (JObj ms) @ r) = Some (JObj ms, r)"
  proof (cases "ms = []")
    case True
    with assms(1) show ?thesis by (intro exI [of _ 1]) (simp add: json_ws_def)
  next
    case False
    then have "\<exists>cs. ?m (hd ms) = quote_char # cs" by (simp add: print_string_def split: prod.split)
    then obtain ds where "join_comma (map ?m ms) = quote_char # ds"
      using join_comma_first [of "map ?m ms" quote_char] False by (auto simp: hd_map)
    moreover obtain n where "parse_members n (d - 1) (join_comma (map ?m ms) @ CHR ''}'' # r) = Some (ms, r)"
      using parse_members_print [OF False, of "d - 1" r] assms(3) by blast
    ultimately show ?thesis using assms(1,2) by (intro exI [of _ "Suc n"]) (simp add: json_ws_def)
  qed
qed

lemma json_reads_back: "json_wf d v \<Longrightarrow> reads_back d v"
proof (induction v arbitrary: d)
  case JNull
  show ?case unfolding reads_back_def
    by (intro allI impI exI [of _ 1]) (simp add: json_ws_def parse_literal_def HasPrefix_def)
next
  case (JBool b)
  show ?case unfolding reads_back_def
    by (intro allI impI exI [of _ 1]) (simp add: json_ws_def parse_literal_def HasPrefix_def)
next
  case (JNum s)
  then obtain n where n: "s = FormatInt n" by auto
  obtain c cs where c: "FormatInt n = c # cs" "is_digit c \<or> c = CHR ''-''"
    using FormatInt_chars [of _ n] by (cases "FormatInt n") auto
  then have "\<not> json_ws c" "c \<notin> {quote_char, CHR ''['', CHR ''{''}" by (auto simp: is_digit_def json_ws_def)
  with c parse_literal_FormatInt [of _ n] show ?case unfolding reads_back_def n
    by (intro allI impI exI [of _ 1]) simp
next
  case (JStr s)
  then show ?case unfolding reads_back_def
    by (intro allI impI exI [of _ 1]) (simp add: print_string_def json_ws_def parse_string_print)
next
  case (JArr vs)
  then show ?case by (intro reads_back_JArr) auto
next
  case (JObj ms)
  have "reads_back (d - 1) v" if "(k, v) \<in> set ms" for k v
    using JObj.IH [of "(k, v)" v "d - 1"] JObj.prems that by auto
  with JObj.prems show ?case by (intro reads_back_JObj) auto
qed

theorem json_parse_print: "json_wf max_depth v \<Longrightarrow> json_parse (json_print v) = Some v"
  using reads_back_fuel [OF json_reads_back, of max_depth v "[]"] by (simp add: json_parse_def skip_ws_def)

section \<open>Parsed values are valid\<close>

lemma parse_string_valid: "parse_string s = Some (v, r) \<Longrightarrow> ValidString v"
  by (auto simp: parse_string_def split: option.splits if_splits)

lemma parse_literal_valid: "parse_literal s = Some (v, r) \<Longrightarrow> json_valid v"
  by (auto simp: parse_literal_def split: if_splits)

lemma parse_valid:
  "parse_value n d s = Some (v, r) \<Longrightarrow> json_valid v"
  "parse_elems n d s = Some (vs, r) \<Longrightarrow> list_all json_valid vs"
  "parse_members n d s = Some (ms, r) \<Longrightarrow> list_all (\<lambda>kv. ValidString (fst kv) \<and> json_valid (snd kv)) ms"
proof (induction n arbitrary: d s v vs ms r)
  case (Suc n)
  {
    case 1
    then show ?case
      by (auto split: list.splits if_splits option.splits dest: Suc.IH parse_string_valid parse_literal_valid
          simp: case_prod_unfold)
  next
    case 2
    then show ?case
      by (auto split: list.splits if_splits option.splits prod.splits dest: Suc.IH)
  next
    case 3
    then show ?case
      by (auto split: list.splits if_splits option.splits dest!: Suc.IH(1,3) parse_string_valid)
  }
qed simp_all

lemma json_parse_valid: "json_parse s = Some v \<Longrightarrow> json_valid v"
  by (auto simp: json_parse_def split: option.splits if_splits dest: parse_valid)

end
