(* ===== verification/Lock_Json.thy ===== *)
theory Lock_Json
  imports Lock_Set Go_Json
begin

text \<open>
  The lock file's contents: \<^verbatim>\<open>json.Marshal\<close> and \<^verbatim>\<open>json.Unmarshal\<close> on the \<^verbatim>\<open>[]Lock\<close> of
  \<^verbatim>\<open>src/lfs/locks.go\<close>, following the struct tags of \<^verbatim>\<open>src/lfs/models.go\<close>. Unknown members are skipped,
  a missing member or a null leaves the zero value, and a value of another kind is an error.
\<close>

section \<open>Encoding\<close>

definition owner_json :: "lock_owner \<Rightarrow> json" where
  "owner_json w = JObj [(''name'', JStr (owner_Name w))]"

definition lock_json :: "lock \<Rightarrow> json" where
  "lock_json l = JObj [(''id'', JStr (lk_ID l)), (''path'', JStr (lk_Path l)), (''locked_at'', JStr (lk_LockedAt l)),
     (''owner'', owner_json (lk_Owner l))]"

definition marshal_locks :: "lock list \<Rightarrow> bytes option" where
  "marshal_locks ls = json_marshal (JArr (map lock_json ls))"

section \<open>Decoding\<close>

definition string_value :: "json \<Rightarrow> string option" where
  "string_value v = (case v of JStr s \<Rightarrow> Some s | JNull \<Rightarrow> Some [] | _ \<Rightarrow> None)"

text \<open>A member of an object decoded by \<open>f\<close>, or the zero value when there is none.\<close>

definition member :: "(string \<times> json) list \<Rightarrow> string \<Rightarrow> (json \<Rightarrow> 'a option) \<Rightarrow> 'a \<Rightarrow> 'a option" where
  "member ms k f z = (case map_of ms k of None \<Rightarrow> Some z | Some v \<Rightarrow> f v)"

definition owner_value :: "json \<Rightarrow> lock_owner option" where
  "owner_value v =
     (case v of
        JNull \<Rightarrow> Some \<lparr>owner_Name = []\<rparr>
      | JObj ms \<Rightarrow> map_option (\<lambda>n. \<lparr>owner_Name = n\<rparr>) (member ms ''name'' string_value [])
      | _ \<Rightarrow> None)"

definition lock_value :: "json \<Rightarrow> lock option" where
  "lock_value v =
     (case v of
        JNull \<Rightarrow> Some zero_lock
      | JObj ms \<Rightarrow>
        (case (member ms ''id'' string_value [], member ms ''path'' string_value [],
               member ms ''locked_at'' string_value [], member ms ''owner'' owner_value \<lparr>owner_Name = []\<rparr>) of
           (Some i, Some p, Some t, Some w) \<Rightarrow> Some \<lparr>lk_ID = i, lk_Path = p, lk_LockedAt = t, lk_Owner = w\<rparr>
         | _ \<Rightarrow> None)
      | _ \<Rightarrow> None)"

definition locks_value :: "json \<Rightarrow> lock list option" where
  "locks_value v = (case v of JNull \<Rightarrow> Some [] | JArr vs \<Rightarrow> those (map lock_value vs) | _ \<Rightarrow> None)"

definition unmarshal_locks :: "bytes \<Rightarrow> lock list option" where
  "unmarshal_locks data = (case json_parse data of None \<Rightarrow> None | Some v \<Rightarrow> locks_value v)"

section \<open>Round trip\<close>

definition lock_text_valid :: "lock \<Rightarrow> bool" where
  "lock_text_valid l \<longleftrightarrow> ValidString (lk_ID l) \<and> ValidString (lk_Path l) \<and> ValidString (lk_LockedAt l) \<and>
     ValidString (owner_Name (lk_Owner l))"

lemma names_valid [simp]:
  "ValidString ''id''" "ValidString ''path''" "ValidString ''locked_at''" "ValidString ''owner''" "ValidString ''name''"
  by (simp_all add: ValidString_ascii)

lemma json_valid_lock: "json_valid (lock_json l) = lock_text_valid l"
  by (auto simp: lock_json_def owner_json_def lock_text_valid_def)

lemma json_wf_lock: "lock_text_valid l \<Longrightarrow> 2 \<le> d \<Longrightarrow> json_wf d (lock_json l)"
  by (auto simp: lock_json_def owner_json_def lock_text_valid_def)

lemma lock_value_json: "lock_value (lock_json l) = Some l"
  by (simp add: lock_value_def lock_json_def owner_json_def member_def string_value_def owner_value_def)

lemma marshal_Some: "marshal_locks ls = Some data \<longleftrightarrow> (\<forall>l \<in> set ls. lock_text_valid l) \<and> data = json_print (JArr (map lock_json ls))"
  by (auto simp: marshal_locks_def json_marshal_def list_all_iff json_valid_lock)

lemma those_map_Some: "(\<And>x. f (g x) = Some x) \<Longrightarrow> those (map (f \<circ> g) xs) = Some xs"
  by (induction xs) auto

lemma unmarshal_marshal:
  assumes "marshal_locks ls = Some data"
  shows "unmarshal_locks data = Some ls"
proof -
  have v: "\<forall>l \<in> set ls. lock_text_valid l" and d: "data = json_print (JArr (map lock_json ls))"
    using assms by (auto simp: marshal_Some)
  have "json_wf max_depth (JArr (map lock_json ls))"
    using v by (auto simp: max_depth_def intro: json_wf_lock)
  then have "json_parse data = Some (JArr (map lock_json ls))"
    unfolding d by (rule json_parse_print)
  then show ?thesis
    by (simp add: unmarshal_locks_def locks_value_def those_map_Some [of lock_value lock_json] lock_value_json)
qed

text \<open>Whatever was decoded can be encoded again.\<close>

lemma ValidString_Nil [simp]: "ValidString []"
  by (simp add: ValidString_ascii)

lemma string_value_valid: "string_value v = Some s \<Longrightarrow> json_valid v \<Longrightarrow> ValidString s"
  by (auto simp: string_value_def split: json.splits)

lemma member_valid:
  assumes "member ms k f z = Some x" "list_all (\<lambda>(k, v). ValidString k \<and> json_valid v) ms" "P z"
    and "\<And>v. f v = Some x \<Longrightarrow> json_valid v \<Longrightarrow> P x"
  shows "P x"
  using assms by (auto simp: member_def list_all_iff split: option.splits dest: map_of_SomeD)

lemma owner_value_valid: "owner_value v = Some w \<Longrightarrow> json_valid v \<Longrightarrow> ValidString (owner_Name w)"
  by (auto simp: owner_value_def split: json.splits intro: member_valid string_value_valid)

lemma lock_value_valid:
  assumes "lock_value v = Some l" "json_valid v"
  shows "lock_text_valid l"
proof (cases v)
  case (JObj ms)
  with assms(2) have m: "list_all (\<lambda>(k, v). ValidString k \<and> json_valid v) ms" by simp
  have s: "ValidString x" if "member ms k string_value [] = Some x" for k x
    using member_valid [OF that m, of ValidString] string_value_valid by simp
  have w: "ValidString (owner_Name x)" if "member ms k owner_value \<lparr>owner_Name = []\<rparr> = Some x" for k x
    using member_valid [OF that m, of "\<lambda>x. ValidString (owner_Name x)"] owner_value_valid by simp
  from assms(1) JObj s w show ?thesis by (auto simp: lock_value_def lock_text_valid_def split: option.splits)
qed (use assms in \<open>auto simp: lock_value_def lock_text_valid_def zero_lock_def\<close>)

lemma those_map_set: "those (map f xs) = Some ys \<Longrightarrow> y \<in> set ys \<Longrightarrow> \<exists>x \<in> set xs. f x = Some y"
  by (induction xs arbitrary: ys) (auto split: option.splits)

lemma unmarshal_valid:
  assumes "unmarshal_locks data = Some ls" "l \<in> set ls"
  shows "lock_text_valid l"
proof -
  from assms(1) obtain v where v: "json_parse data = Some v" "locks_value v = Some ls"
    by (auto simp: unmarshal_locks_def split: option.splits)
  have "json_valid v" using v(1) by (rule json_parse_valid)
  with v(2) assms(2) show ?thesis
    by (auto simp: locks_value_def list_all_iff split: json.splits dest!: those_map_set intro: lock_value_valid)
qed

end
