(* ===== verification/Go_Crypto.thy ===== *)
theory Go_Crypto
  imports Go_Encoding "HOL-Library.Word"
begin

unbundle bit_operations_syntax

text \<open>
  SHA-256 (FIPS 180-4, Go's \<^verbatim>\<open>crypto/sha256\<close>) and HMAC-SHA256 (RFC 2104, Go's \<^verbatim>\<open>crypto/hmac\<close>), written out
  over byte strings. Nothing proved about the server depends on more of them than that a digest has
  32 bytes; what the signatures mean beyond that is stated under an explicit hypothesis that two
  given messages do not collide.
\<close>

section \<open>SHA-256\<close>

type_synonym w32 = "32 word"

text \<open>The constants of FIPS 180-4, section 4.2.2, and the initial hash value, section 5.3.3, in decimal.\<close>

definition sha256_K :: "w32 list" where
  "sha256_K = [
     1116352408, 1899447441, 3049323471, 3921009573, 961987163, 1508970993, 2453635748, 2870763221,
     3624381080, 310598401, 607225278, 1426881987, 1925078388, 2162078206, 2614888103, 3248222580,
     3835390401, 4022224774, 264347078, 604807628, 770255983, 1249150122, 1555081692, 1996064986,
     2554220882, 2821834349, 2952996808, 3210313671, 3336571891, 3584528711, 113926993, 338241895,
     666307205, 773529912, 1294757372, 1396182291, 1695183700, 1986661051, 2177026350, 2456956037,
     2730485921, 2820302411, 3259730800, 3345764771, 3516065817, 3600352804, 4094571909, 275423344,
     430227734, 506948616, 659060556, 883997877, 958139571, 1322822218, 1537002063, 1747873779,
     1955562222, 2024104815, 2227730452, 2361852424, 2428436474, 2756734187, 3204031479, 3329325298]"

definition sha256_init :: "w32 list" where
  "sha256_init = [1779033703, 3144134277, 1013904242, 2773480762, 1359893119, 2600822924, 528734635, 1541459225]"

definition rotr :: "nat \<Rightarrow> w32 \<Rightarrow> w32" where
  "rotr n x = drop_bit n x OR push_bit (32 - n) x"

definition big_sigma0 :: "w32 \<Rightarrow> w32" where
  "big_sigma0 x = rotr 2 x XOR rotr 13 x XOR rotr 22 x"

definition big_sigma1 :: "w32 \<Rightarrow> w32" where
  "big_sigma1 x = rotr 6 x XOR rotr 11 x XOR rotr 25 x"

definition small_sigma0 :: "w32 \<Rightarrow> w32" where
  "small_sigma0 x = rotr 7 x XOR rotr 18 x XOR drop_bit 3 x"

definition small_sigma1 :: "w32 \<Rightarrow> w32" where
  "small_sigma1 x = rotr 17 x XOR rotr 19 x XOR drop_bit 10 x"

definition ch :: "w32 \<Rightarrow> w32 \<Rightarrow> w32 \<Rightarrow> w32" where
  "ch x y z = (x AND y) XOR (NOT x AND z)"

definition maj :: "w32 \<Rightarrow> w32 \<Rightarrow> w32 \<Rightarrow> w32" where
  "maj x y z = (x AND y) XOR (x AND z) XOR (y AND z)"

text \<open>The message schedule, held newest word first: each of the 48 further words is computed from the
  ones 2, 7, 15 and 16 places back.\<close>

fun sha256_schedule :: "nat \<Rightarrow> w32 list \<Rightarrow> w32 list" where
  "sha256_schedule 0 ws = ws"
| "sha256_schedule (Suc n) ws =
     sha256_schedule n ((small_sigma1 (ws ! 1) + ws ! 6 + small_sigma0 (ws ! 14) + ws ! 15) # ws)"

fun sha256_round :: "w32 list \<Rightarrow> w32 \<times> w32 \<Rightarrow> w32 list" where
  "sha256_round [a, b, c, d, e, f, g, h] (k, w) =
     (let t1 = h + big_sigma1 e + ch e f g + k + w; t2 = big_sigma0 a + maj a b c
      in [t1 + t2, a, b, c, d + t1, e, f, g])"
| "sha256_round s _ = s"

fun be_word :: "bytes \<Rightarrow> w32" where
  "be_word bs = foldl (\<lambda>w c. w * 256 + of_char c) 0 bs"

definition be_bytes :: "w32 \<Rightarrow> bytes" where
  "be_bytes w = map (\<lambda>k. char_of (uint (drop_bit k w))) [24, 16, 8, 0]"

fun be_words :: "bytes \<Rightarrow> w32 list" where
  "be_words (a # b # c # d # cs) = be_word [a, b, c, d] # be_words cs"
| "be_words _ = []"

definition sha256_block :: "w32 list \<Rightarrow> bytes \<Rightarrow> w32 list" where
  "sha256_block s block =
     (let ws = rev (sha256_schedule 48 (rev (be_words block)))
      in map2 (+) s (foldl sha256_round s (zip sha256_K ws)))"

text \<open>The padding: a one bit, zeros, and the length in bits as a 64-bit big-endian number, filling up
  blocks of 64 bytes.\<close>

definition sha256_pad :: "bytes \<Rightarrow> bytes" where
  "sha256_pad m = m @ CHR 0x80 # replicate ((119 - length m mod 64) mod 64) CHR 0x00
     @ map (\<lambda>k. char_of (8 * int (length m) div 256 ^ k)) [7, 6, 5, 4, 3, 2, 1, 0]"

function sha256_blocks :: "w32 list \<Rightarrow> bytes \<Rightarrow> w32 list" where
  "sha256_blocks s m = (if m = [] then s else sha256_blocks (sha256_block s (take 64 m)) (drop 64 m))"
  by pat_completeness auto
termination
  by (relation "measure (length \<circ> snd)") auto

declare sha256_blocks.simps [simp del]

definition sha256 :: "bytes \<Rightarrow> bytes" where
  "sha256 m = concat (map be_bytes (sha256_blocks sha256_init (sha256_pad m)))"

lemma length_sha256_round [simp]: "length (sha256_round s kw) = length s"
  by (induction s kw rule: sha256_round.induct) (auto simp: Let_def)

lemma length_foldl_sha256_round [simp]: "length (foldl sha256_round s kws) = length s"
  by (induction kws arbitrary: s) auto

lemma length_sha256_blocks [simp]: "length (sha256_blocks s m) = length s"
proof (induction s m rule: sha256_blocks.induct)
  case (1 s m)
  show ?case
  proof (cases "m = []")
    case True
    then show ?thesis by (simp add: sha256_blocks.simps [of s "[]"])
  next
    case False
    with 1 show ?thesis by (simp add: sha256_blocks.simps [of s m] sha256_block_def Let_def)
  qed
qed

lemma length_sha256 [simp]: "length (sha256 m) = 32"
proof -
  have "length (concat (map be_bytes ws)) = 4 * length ws" for ws
    by (induction ws) (auto simp: be_bytes_def)
  then show ?thesis by (simp add: sha256_def sha256_init_def)
qed

lemma sha256_nonempty [simp]: "sha256 m \<noteq> []"
  by (metis length_sha256 list.size(3) zero_neq_numeral)

section \<open>HMAC\<close>

definition hmac_key_block :: "bytes \<Rightarrow> bytes" where
  "hmac_key_block key = (let k = (if 64 < length key then sha256 key else key)
     in k @ replicate (64 - length k) CHR 0x00)"

definition xor_byte :: "int \<Rightarrow> char \<Rightarrow> char" where
  "xor_byte n c = char_of (n XOR of_char c)"

definition hmac_sha256 :: "bytes \<Rightarrow> bytes \<Rightarrow> bytes" where
  "hmac_sha256 key m =
     (let k = hmac_key_block key
      in sha256 (map (xor_byte 0x5C) k @ sha256 (map (xor_byte 0x36) k @ m)))"

lemma length_hmac_sha256 [simp]: "length (hmac_sha256 key m) = 32"
  by (simp add: hmac_sha256_def Let_def)

lemma hmac_sha256_nonempty [simp]: "hmac_sha256 key m \<noteq> []"
  by (metis length_hmac_sha256 list.size(3) zero_neq_numeral)

end
