(* ===== verification/Go_Double.thy ===== *)
theory Go_Double
  imports Prelude
begin

text \<open>
  Nonnegative \<^verbatim>\<open>float64\<close> values: a pair \<open>(m, e)\<close> stands for \<open>m * 2 ^ e\<close> with at most 53 bits in \<open>m\<close>. The exponent is
  not bounded; each use says why its values stay in the range of a double. A rounded quotient stays
  between the integers around it, and integers up to 53 bits are exact.
\<close>

section \<open>Arithmetic\<close>

fun bit_length :: "nat \<Rightarrow> nat" where
  "bit_length n = (if n = 0 then 0 else Suc (bit_length (n div 2)))"

declare bit_length.simps [simp del]

type_synonym double = "nat \<times> int"

text \<open>The quotient \<open>p / q\<close> of two numbers rounded to 53 bits, ties to even.\<close>

definition round_at :: "nat \<Rightarrow> nat \<Rightarrow> int \<Rightarrow> nat \<times> nat \<times> nat" where
  "round_at p q e =
     (let n = p * 2 ^ nat (- e); d = q * 2 ^ nat e in (n div d, n mod d, d))"

definition double_of_ratio :: "nat \<Rightarrow> nat \<Rightarrow> double" where
  "double_of_ratio p q =
     (if p = 0 then (0, 0)
      else let e0 = int (bit_length p) - int (bit_length q) - 53;
               e = (if fst (round_at p q e0) < 2 ^ 53 then e0 else e0 + 1)
           in case round_at p q e of
                (m, r, d) \<Rightarrow> (if 2 * r > d \<or> (2 * r = d \<and> odd m) then m + 1 else m, e))"

definition double_num :: "double \<Rightarrow> nat" where
  "double_num x = fst x * 2 ^ nat (snd x)"

definition double_den :: "double \<Rightarrow> nat" where
  "double_den x = 2 ^ nat (- snd x)"

definition double_of_nat :: "nat \<Rightarrow> double" where
  "double_of_nat n = double_of_ratio n 1"

definition double_mul :: "double \<Rightarrow> double \<Rightarrow> double" where
  "double_mul x y = double_of_ratio (double_num x * double_num y) (double_den x * double_den y)"

definition double_div :: "double \<Rightarrow> double \<Rightarrow> double" where
  "double_div x y = double_of_ratio (double_num x * double_den y) (double_den x * double_num y)"

definition double_add :: "double \<Rightarrow> double \<Rightarrow> double" where
  "double_add x y = double_of_ratio (double_num x * double_den y + double_num y * double_den x) (double_den x * double_den y)"

definition double_trunc :: "double \<Rightarrow> nat" where
  "double_trunc x = double_num x div double_den x"

section \<open>Rounding\<close>

lemma bit_length_bounds: "0 < n \<Longrightarrow> 2 ^ (bit_length n - 1) \<le> n \<and> n < 2 ^ bit_length n \<and> 0 < bit_length n"
proof (induction n rule: bit_length.induct)
  case (1 n)
  then have step: "bit_length n = Suc (bit_length (n div 2))" by (simp add: bit_length.simps [of n])
  show ?case
  proof (cases "n div 2 = 0")
    case True
    with 1(2) have "n = 1" by linarith
    then show ?thesis by (simp add: bit_length.simps [of 1] bit_length.simps [of "Suc 0"] bit_length.simps [of 0])
  next
    case False
    with 1 have ih: "2 ^ (bit_length (n div 2) - 1) \<le> n div 2" "n div 2 < 2 ^ bit_length (n div 2)" "0 < bit_length (n div 2)"
      by auto
    then obtain k where k: "bit_length (n div 2) = Suc k" by (cases "bit_length (n div 2)") auto
    show ?thesis using ih by (simp add: step k) linarith
  qed
qed

text \<open>Below \<open>2 ^ 53\<close> the last place of a quotient is at most one.\<close>

definition ratio_exponent :: "nat \<Rightarrow> nat \<Rightarrow> int" where
  "ratio_exponent p q =
     (let e0 = int (bit_length p) - int (bit_length q) - 53 in if fst (round_at p q e0) < 2 ^ 53 then e0 else e0 + 1)"

lemma ratio_exponent_small:
  assumes "0 < p" "0 < q" "p < 2 ^ 53 * q"
  shows "ratio_exponent p q \<le> 0"
proof -
  let ?lp = "bit_length p" and ?lq = "bit_length q"
  have p: "2 ^ (?lp - 1) \<le> p" and q: "q < 2 ^ ?lq" and pos: "0 < ?lp" using bit_length_bounds assms by auto
  have "(2 :: nat) ^ (?lp - 1) < 2 ^ (53 + ?lq)"
  proof -
    have "(2 :: nat) ^ (?lp - 1) < 2 ^ 53 * q" using p assms(3) by linarith
    also have "\<dots> \<le> 2 ^ 53 * 2 ^ ?lq" using q by simp
    finally show ?thesis by (simp add: power_add)
  qed
  then have "?lp - 1 < 53 + ?lq" by (rule power_less_imp_less_exp [rotated]) simp
  with pos have le: "int ?lp - int ?lq - 53 \<le> 0" by linarith
  show ?thesis
  proof (cases "int ?lp - int ?lq - 53 = 0")
    case True
    have "p div q < 2 ^ 53" using assms by (simp add: div_less_iff_less_mult)
    with True show ?thesis by (simp add: ratio_exponent_def round_at_def)
  qed (use le in \<open>auto simp: ratio_exponent_def Let_def\<close>)
qed

lemma double_of_ratio_small:
  assumes "0 < q" "p < 2 ^ 53 * q"
  obtains k where "double_den (double_of_ratio p q) = 2 ^ k"
    "double_num (double_of_ratio p q) =
       (let n = p * 2 ^ k in if 2 * (n mod q) > q \<or> (2 * (n mod q) = q \<and> odd (n div q)) then n div q + 1 else n div q)"
proof (cases "p = 0")
  case True
  show ?thesis by (rule that [of 0]) (simp_all add: True double_of_ratio_def double_den_def double_num_def)
next
  case False
  let ?e = "ratio_exponent p q"
  have e: "?e \<le> 0" using ratio_exponent_small False assms by simp
  have "double_of_ratio p q =
      (case round_at p q ?e of (m, r, d) \<Rightarrow> (if 2 * r > d \<or> (2 * r = d \<and> odd m) then m + 1 else m, ?e))"
    using False by (simp add: double_of_ratio_def ratio_exponent_def Let_def)
  with e show ?thesis
    by (intro that [of "nat (- ?e)"]) (simp_all add: round_at_def double_den_def double_num_def Let_def)
qed

text \<open>Rounding keeps a quotient between integers, and keeps integers.\<close>

lemma double_of_ratio_between:
  assumes "0 < q" "a * q \<le> p" "p \<le> b * q" "b < 2 ^ 53"
  shows "a * double_den (double_of_ratio p q) \<le> double_num (double_of_ratio p q)"
    and "double_num (double_of_ratio p q) \<le> b * double_den (double_of_ratio p q)"
proof -
  have "p < 2 ^ 53 * q"
  proof -
    have "b * q < 2 ^ 53 * q" using assms(1,4) by simp
    with assms(3) show ?thesis by linarith
  qed
  with assms(1) obtain k where den: "double_den (double_of_ratio p q) = 2 ^ k"
    and num: "double_num (double_of_ratio p q) =
       (let n = p * 2 ^ k in if 2 * (n mod q) > q \<or> (2 * (n mod q) = q \<and> odd (n div q)) then n div q + 1 else n div q)"
    by (rule double_of_ratio_small)
  have lo: "a * 2 ^ k \<le> p * 2 ^ k div q"
    using assms(1,2) by (simp add: less_eq_div_iff_mult_less_eq algebra_simps)
  have hi: "p * 2 ^ k \<le> b * 2 ^ k * q" using assms(3) by (simp add: algebra_simps)
  have "p * 2 ^ k div q \<le> b * 2 ^ k * q div q" by (rule div_le_mono [OF hi])
  then have hi1: "p * 2 ^ k div q \<le> b * 2 ^ k" using assms(1) by simp
  have hi2: "p * 2 ^ k div q + 1 \<le> b * 2 ^ k" if "p * 2 ^ k mod q \<noteq> 0"
  proof (rule ccontr)
    assume "\<not> ?thesis"
    with hi1 have eq: "p * 2 ^ k div q = b * 2 ^ k" by linarith
    have "b * 2 ^ k * q + p * 2 ^ k mod q = p * 2 ^ k" using div_mult_mod_eq [of "p * 2 ^ k" q] by (simp only: eq)
    with hi that show False by linarith
  qed
  show "a * double_den (double_of_ratio p q) \<le> double_num (double_of_ratio p q)"
    using lo by (simp add: den num Let_def)
  show "double_num (double_of_ratio p q) \<le> b * double_den (double_of_ratio p q)"
    using hi1 hi2 assms(1) by (auto simp add: den num Let_def)
qed

lemma double_den_pos [simp]: "0 < double_den x"
  by (simp add: double_den_def)

lemma double_of_nat_exact: "n < 2 ^ 53 \<Longrightarrow> double_num (double_of_nat n) = n * double_den (double_of_nat n)"
  using double_of_ratio_between [of 1 n n n] by (simp add: double_of_nat_def)

lemma double_div_between:
  assumes "double_num x = m * double_den x" "double_num y = n * double_den y" "0 < n" "m \<le> b * n" "b < 2 ^ 53"
  shows "double_num (double_div x y) \<le> b * double_den (double_div x y)"
  unfolding double_div_def
proof (rule double_of_ratio_between(2) [where a = 0])
  show "double_num x * double_den y \<le> b * (double_den x * double_num y)"
    using assms(4) mult_le_mono1 [OF assms(4), of "double_den x * double_den y"] by (simp add: assms(1,2) algebra_simps)
qed (use assms in simp_all)

lemma double_add_between:
  assumes "double_num x = m * double_den x" "a * double_den y \<le> double_num y" "double_num y \<le> b * double_den y"
    and "m + b < 2 ^ 53"
  shows "(m + a) * double_den (double_add x y) \<le> double_num (double_add x y)"
    and "double_num (double_add x y) \<le> (m + b) * double_den (double_add x y)"
proof -
  have lo: "(m + a) * (double_den x * double_den y) \<le> double_num x * double_den y + double_num y * double_den x"
    using mult_le_mono1 [OF assms(2), of "double_den x"] by (simp add: assms(1) algebra_simps)
  have hi: "double_num x * double_den y + double_num y * double_den x \<le> (m + b) * (double_den x * double_den y)"
    using mult_le_mono1 [OF assms(3), of "double_den x"] by (simp add: assms(1) algebra_simps)
  show "(m + a) * double_den (double_add x y) \<le> double_num (double_add x y)"
    "double_num (double_add x y) \<le> (m + b) * double_den (double_add x y)"
    unfolding double_add_def using double_of_ratio_between [OF _ lo hi assms(4)] by simp_all
qed

end
