(* ===== verification/Go_Time.thy ===== *)
theory Go_Time
  imports Go_Strings Go_Double
begin

text \<open>
  Instants and durations of Go's \<^verbatim>\<open>time\<close> package as the server uses them. A \<^verbatim>\<open>time.Time\<close> is the number
  of nanoseconds since the Unix epoch and a \<^verbatim>\<open>time.Duration\<close> a number of nanoseconds, both \<^typ>\<open>int\<close>.
  The clock \<^verbatim>\<open>time.Now\<close> is an argument of every operation that reads it.
\<close>

type_synonym instant = int
type_synonym duration = int

definition second :: duration where "second = 1000000000"
definition minute :: duration where "minute = 60 * second"
definition hour :: duration where "hour = 60 * minute"

lemma duration_pos [simp]: "0 < second" "0 < minute" "0 < hour"
  by (simp_all add: second_def minute_def hour_def)

text \<open>\<^verbatim>\<open>Time.Unix\<close>, and \<^verbatim>\<open>int64(d.Seconds())\<close>: the seconds as a double, truncated towards zero. The double is the
  whole seconds plus the quotient of the remaining nanoseconds, and can round up to the next second.\<close>

definition Unix :: "instant \<Rightarrow> int" where
  "Unix t = t div second"

definition whole_seconds :: "duration \<Rightarrow> int" where
  "whole_seconds d =
     (let u = nat \<bar>d\<bar>; n = nat second;
          s = double_trunc (double_add (double_of_nat (u div n)) (double_div (double_of_nat (u mod n)) (double_of_nat n)))
      in if d < 0 then - int s else int s)"

lemma whole_seconds_bounds:
  assumes "0 \<le> d" "d < 2 ^ 63"
  shows "d div second \<le> whole_seconds d" and "whole_seconds d \<le> d div second + 1"
proof -
  define u n where "u = nat d" and "n = nat second"
  have n: "0 < n" "n < 2 ^ 53" and d: "d = int u" "second = int n" using assms by (auto simp: n_def u_def second_def)
  have u: "u div n < 2 ^ 52" using assms(2) by (simp add: div_less_iff_less_mult n u_def n_def second_def)
  let ?y = "double_div (double_of_nat (u mod n)) (double_of_nat n)"
  let ?x = "double_of_nat (u div n)" let ?s = "double_add ?x ?y"
  have r: "u mod n < n" using n by simp
  have y: "double_num ?y \<le> 1 * double_den ?y"
    by (rule double_div_between [OF double_of_nat_exact double_of_nat_exact]) (use n r in linarith)+
  have x: "double_num ?x = u div n * double_den ?x" by (rule double_of_nat_exact, rule order_less_trans [OF u]) simp
  have z: "0 * double_den ?y \<le> double_num ?y" and b: "u div n + 1 < 2 ^ 53" using u by simp_all
  have "u div n * double_den ?s \<le> double_num ?s" "double_num ?s \<le> (u div n + 1) * double_den ?s"
    using double_add_between [OF x z y b] by simp_all
  then have "u div n \<le> double_trunc ?s" "double_trunc ?s \<le> u div n + 1"
    unfolding double_trunc_def
    using div_le_mono [of "double_num ?s" "(u div n + 1) * double_den ?s" "double_den ?s"]
    by (simp_all add: less_eq_div_iff_mult_less_eq del: mult_Suc)
  then show "d div second \<le> whole_seconds d" "whole_seconds d \<le> d div second + 1"
    using assms(1) by (simp_all add: whole_seconds_def Let_def d flip: zdiv_int) 
qed

lemma Unix_mono: "t \<le> t' \<Longrightarrow> Unix t \<le> Unix t'"
  by (simp add: Unix_def zdiv_mono1)

section \<open>Printing durations\<close>

text \<open>\<^verbatim>\<open>Duration.String\<close>: hours, minutes and seconds with a fraction that has no trailing zeros, or one smaller unit
  below a second.\<close>

definition duration_frac :: "nat \<Rightarrow> nat \<Rightarrow> string" where
  "duration_frac prec v =
     (let ds = format_nat (v mod 10 ^ prec); padded = replicate (prec - length ds) CHR ''0'' @ ds;
          kept = TrimRight padded CHR ''0''
      in if prec = 0 \<or> kept = [] then [] else CHR ''.'' # kept)"

definition duration_string :: "duration \<Rightarrow> string" where
  "duration_string d =
     (let u = nat \<bar>d\<bar>;
          text = (if u = 0 then ''0s''
            else if u < 1000 then format_nat u @ ''ns''
            else if u < 1000000 then format_nat (u div 1000) @ duration_frac 3 u @ [CHR 0xC2, CHR 0xB5] @ ''s''
            else if u < 1000000000 then format_nat (u div 1000000) @ duration_frac 6 u @ ''ms''
            else let s = u div 1000000000; m = s div 60; h = m div 60
              in (if h > 0 then format_nat h @ ''h'' else []) @ (if m > 0 then format_nat (m mod 60) @ ''m'' else []) @
                 format_nat (s mod 60) @ duration_frac 9 u @ ''s'')
      in if d < 0 then CHR ''-'' # text else text)"

section \<open>RFC 3339\<close>

text \<open>The proleptic Gregorian date of a day counted from 1970-01-01, by eras of 400 years that start on
  1 March.\<close>

definition civil_from_days :: "int \<Rightarrow> int \<times> int \<times> int" where
  "civil_from_days days =
     (let z = days + 719468; era = z div 146097; doe = z mod 146097;
          yoe = (doe - doe div 1460 + doe div 36524 - doe div 146096) div 365;
          doy = doe - (365 * yoe + yoe div 4 - yoe div 100);
          mp = (5 * doy + 2) div 153;
          d = doy - (153 * mp + 2) div 5 + 1;
          m = (if mp < 10 then mp + 3 else mp - 9)
      in (yoe + era * 400 + (if m \<le> 2 then 1 else 0), m, d))"

definition pad2 :: "int \<Rightarrow> string" where
  "pad2 n = [digit_char (nat (n div 10 mod 10)), digit_char (nat (n mod 10))]"

definition pad4 :: "int \<Rightarrow> string" where
  "pad4 n = (let s = format_nat (nat \<bar>n\<bar>)
     in (if n < 0 then ''-'' else []) @ replicate (4 - length s) CHR ''0'' @ s)"

text \<open>\<^verbatim>\<open>t.UTC().Format(time.RFC3339)\<close>.\<close>

definition RFC3339 :: "instant \<Rightarrow> string" where
  "RFC3339 t =
     (let s = Unix t; sod = s mod 86400; (y, m, d) = civil_from_days (s div 86400)
      in pad4 y @ ''-'' @ pad2 m @ ''-'' @ pad2 d @ ''T''
         @ pad2 (sod div 3600) @ '':'' @ pad2 (sod div 60 mod 60) @ '':'' @ pad2 (sod mod 60) @ ''Z'')"

lemma set_pad2: "c \<in> set (pad2 n) \<Longrightarrow> is_digit c"
  by (auto simp: pad2_def nat_less_iff)

lemma set_pad4: "c \<in> set (pad4 n) \<Longrightarrow> is_digit c \<or> c = CHR ''-''"
  using format_nat_digits(1) [of "nat \<bar>n\<bar>"]
  by (auto simp: pad4_def Let_def list_all_iff is_digit_def split: if_splits)

lemma RFC3339_chars:
  "c \<in> set (RFC3339 t) \<Longrightarrow> is_digit c \<or> c \<in> {CHR ''-'', CHR '':'', CHR ''T'', CHR ''Z''}"
  by (auto simp: RFC3339_def Let_def split: prod.splits dest: set_pad2 set_pad4)

lemma RFC3339_nonempty [simp]: "RFC3339 t \<noteq> []"
  by (simp add: RFC3339_def Let_def split: prod.split)

lemma RFC3339_no_bar [simp]: "CHR ''|'' \<notin> set (RFC3339 t)"
  using RFC3339_chars [of "CHR ''|''" t] by (auto simp: is_digit_def)

lemma RFC3339_ascii [simp]: "ascii (RFC3339 t)"
proof -
  have "byte_of c < (128 :: nat)" if "c \<in> set (RFC3339 t)" for c
    using RFC3339_chars [OF that] by (auto simp: is_digit_def)
  then show ?thesis by (simp add: ascii_def)
qed

end
