(* ===== verification/Go_Url.thy ===== *)
theory Go_Url
  imports Go_Encoding
begin

text \<open>
  The part of Go's \<^verbatim>\<open>net/url\<close> that a signed request goes through: splitting an origin-form request URI
  (a path and an optional query, which is what \<^verbatim>\<open>URL.RequestURI\<close> yields for a routed request) and
  parsing a query string into its values.
\<close>

section \<open>Percent-encoding\<close>

datatype escape_mode = EncodePath | EncodeQuery

text \<open>\<^verbatim>\<open>url.unescape\<close>: \<^verbatim>\<open>%XX\<close> is a byte, and \<^verbatim>\<open>+\<close> a space in a query; \<^term>\<open>None\<close> is a bad escape.\<close>

fun unescape :: "escape_mode \<Rightarrow> string \<Rightarrow> string option" where
  "unescape m [] = Some []"
| "unescape m (x # xs) =
     (if x = CHR ''%'' then
        (case xs of
           a # b # ys \<Rightarrow>
             (case (hex_value a, hex_value b) of
                (Some h, Some l) \<Rightarrow> map_option ((#) (char_of (h * 16 + l))) (unescape m ys)
              | _ \<Rightarrow> None)
         | _ \<Rightarrow> None)
      else map_option ((#) (if x = CHR ''+'' \<and> m = EncodeQuery then CHR '' '' else x)) (unescape m xs))"

lemma unescape_plain:
  "CHR ''%'' \<notin> set s \<Longrightarrow> (m = EncodeQuery \<Longrightarrow> CHR ''+'' \<notin> set s) \<Longrightarrow> unescape m s = Some s"
  by (induction s) auto

section \<open>Request URIs\<close>

definition ctl_byte :: "char \<Rightarrow> bool" where
  "ctl_byte c \<longleftrightarrow> byte_of c < (32 :: nat) \<or> byte_of c = (127 :: nat)"

text \<open>
  \<^verbatim>\<open>url.ParseRequestURI\<close> on an origin-form URI: the decoded path and the raw query. A control byte, a
  URI that does not start with a slash or a bad escape in the path is an error. A question mark that
  ends the URI and is its only one leaves the query empty, as cutting at it does.
\<close>

definition ParseRequestURI :: "string \<Rightarrow> (string \<times> string) option" where
  "ParseRequestURI uri =
     (if \<exists>c \<in> set uri. ctl_byte c then None
      else let (p, q, _) = Cut uri CHR ''?'' in
        if \<not> HasPrefix p ''/'' then None
        else map_option (\<lambda>path. (path, q)) (unescape EncodePath p))"

section \<open>Queries\<close>


definition max_query_params :: nat where
  "max_query_params = 10000"

definition add_value :: "(string \<times> string) \<Rightarrow> (string \<times> string list) list \<Rightarrow> (string \<times> string list) list" where
  "add_value kv m = (case kv of (k, v) \<Rightarrow>
     if k \<in> fst ` set m then map (\<lambda>(k', vs). (k', if k' = k then vs @ [v] else vs)) m
     else m @ [(k, [v])])"

text \<open>One \<^verbatim>\<open>&\<close>-separated piece: nothing, a pair, or an error.\<close>

datatype query_piece = PieceSkip | PieceError | PiecePair string string

definition query_piece_of :: "string \<Rightarrow> query_piece" where
  "query_piece_of s =
     (if CHR '';'' \<in> set s then PieceError
      else if s = [] then PieceSkip
      else let (k, v, _) = Cut s CHR ''='' in
        case (unescape EncodeQuery k, unescape EncodeQuery v) of
          (Some k', Some v') \<Rightarrow> PiecePair k' v'
        | _ \<Rightarrow> PieceError)"

fun query_values :: "query_piece list \<Rightarrow> (string \<times> string list) list \<Rightarrow> (string \<times> string list) list option" where
  "query_values [] m = Some m"
| "query_values (PieceSkip # ps) m = query_values ps m"
| "query_values (PieceError # ps) m = None"
| "query_values (PiecePair k v # ps) m = query_values ps (add_value (k, v) m)"

text \<open>\<^verbatim>\<open>url.ParseQuery\<close>, as the keys in order of first use with their values; \<^term>\<open>None\<close> is any error.\<close>

definition ParseQuery :: "string \<Rightarrow> (string \<times> string list) list option" where
  "ParseQuery q =
     (let ps = Split q CHR ''&'' in
      if max_query_params < length ps then None
      else query_values (map query_piece_of ps) [])"

text \<open>\<^verbatim>\<open>Values.Get\<close>: the first value of a key, or the empty string.\<close>

definition values_get :: "(string \<times> string list) list \<Rightarrow> string \<Rightarrow> string" where
  "values_get m k = (case map_of m k of Some (v # _) \<Rightarrow> v | _ \<Rightarrow> [])"

text \<open>\<^verbatim>\<open>URL.Query\<close>: the same with pieces that are errors left out.\<close>

definition URL_Query :: "string \<Rightarrow> (string \<times> string list) list" where
  "URL_Query q =
     (let ps = Split q CHR ''&'' in
      if max_query_params < length ps then []
      else foldl (\<lambda>m p. case p of PiecePair k v \<Rightarrow> add_value (k, v) m | _ \<Rightarrow> m) [] (map query_piece_of ps))"

lemma query_piece_pair:
  assumes "CHR ''='' \<notin> set k" "k \<noteq> []"
    and "\<And>c. c \<in> set k \<union> set v \<Longrightarrow> c \<notin> {CHR ''%'', CHR ''+'', CHR '';''}"
  shows "query_piece_of (k @ CHR ''='' # v) = PiecePair k v"
proof -
  have "CHR '';'' \<notin> set (k @ CHR ''='' # v)" using assms(3) [of "CHR '';''"] by auto
  moreover have "unescape EncodeQuery k = Some k" "unescape EncodeQuery v = Some v"
    using assms(3) [of "CHR ''%''"] assms(3) [of "CHR ''+''"] by (auto intro!: unescape_plain)
  ultimately show ?thesis
    using assms(1) by (simp add: query_piece_of_def Cut_def takeWhile_char_append dropWhile_char_append)
qed

end
