(* ===== verification/Signer.thy ===== *)
theory Signer
  imports Go_Crypto Go_Time Go_Url
begin

text \<open>
  \<^verbatim>\<open>src/lfs/signer.go\<close>: action URLs with an expiry and an HMAC. The clock and the random bytes of a
  generated key are arguments. What a forger would have to do is stated as a reduction: an accepted
  URL with a signature that was issued for something else exhibits two messages with one HMAC.
\<close>

section \<open>The signer\<close>

record url_signer =
  sg_key :: bytes
  sg_expiry :: duration

definition Expiry :: "url_signer \<Rightarrow> duration" where
  "Expiry s = sg_expiry s"

definition Close :: "url_signer \<Rightarrow> url_signer" where
  "Close s = s\<lparr>sg_key := replicate (length (sg_key s)) CHR 0x00\<rparr>"

datatype signer_error =
    ErrKeyGeneration
  | MalformedURL
  | MalformedQuery
  | MissingSignatureParameters
  | UnexpectedQueryParameters
  | InvalidExpiration
  | URLHasExpired
  | InvalidSignatureEncoding
  | InvalidSignature

text \<open>\<open>rnd\<close> is what \<^verbatim>\<open>rand.Read\<close> fills 32 bytes with, or its failure.\<close>

definition NewURLSigner :: "bytes option \<Rightarrow> bytes \<Rightarrow> duration \<Rightarrow> signer_error + url_signer" where
  "NewURLSigner rnd key expiry =
     (if length key = 0 then
        (case rnd of
           None \<Rightarrow> Inl ErrKeyGeneration
         | Some k \<Rightarrow> Inr \<lparr>sg_key = take 32 (k @ replicate 32 CHR 0x00), sg_expiry = expiry\<rparr>)
      else Inr \<lparr>sg_key = key, sg_expiry = expiry\<rparr>)"

record signed_url =
  su_Href :: string
  su_ExpiresIn :: int
  su_ExpiresAt :: string

definition signatureVersion :: string where
  "signatureVersion = ''v1''"

definition newline :: char where "newline = CHR 0x0A"

definition mac_message :: "string \<Rightarrow> string \<Rightarrow> string \<Rightarrow> bytes" where
  "mac_message operation target exp =
     signatureVersion @ [newline] @ operation @ [newline] @ target @ [newline] @ exp"

definition mac :: "url_signer \<Rightarrow> string \<Rightarrow> string \<Rightarrow> string \<Rightarrow> bytes" where
  "mac s operation target exp = hmac_sha256 (sg_key s) (mac_message operation target exp)"

definition Sign :: "url_signer \<Rightarrow> instant \<Rightarrow> string \<Rightarrow> string \<Rightarrow> string \<Rightarrow> signed_url" where
  "Sign s now operation baseURL path =
     (let expiresAt = now + sg_expiry s;
          exp = FormatInt (Unix expiresAt);
          sig = RawURLEncode (mac s operation (baseURL @ path) exp)
      in \<lparr>su_Href = baseURL @ path @ ''?exp='' @ exp @ ''&sig='' @ sig,
          su_ExpiresIn = whole_seconds (sg_expiry s),
          su_ExpiresAt = RFC3339 expiresAt\<rparr>)"

definition Verify :: "url_signer \<Rightarrow> instant \<Rightarrow> string \<Rightarrow> string \<Rightarrow> string \<Rightarrow> signer_error option" where
  "Verify s now operation baseURL requestURI =
     (case ParseRequestURI requestURI of
        None \<Rightarrow> Some MalformedURL
      | Some (path, rawQuery) \<Rightarrow>
        (case ParseQuery rawQuery of
           None \<Rightarrow> Some MalformedQuery
         | Some q \<Rightarrow>
           (let sig = values_get q ''sig''; expStr = values_get q ''exp'' in
            if sig = [] \<or> expStr = [] then Some MissingSignatureParameters
            else if length q \<noteq> 2 \<or> map_option length (map_of q ''sig'') \<noteq> Some 1
                    \<or> map_option length (map_of q ''exp'') \<noteq> Some 1 then Some UnexpectedQueryParameters
            else case ParseInt expStr of
              None \<Rightarrow> Some InvalidExpiration
            | Some exp \<Rightarrow>
              if Unix now > exp then Some URLHasExpired
              else case RawURLDecode sig of
                None \<Rightarrow> Some InvalidSignatureEncoding
              | Some provided \<Rightarrow>
                if mac s operation (baseURL @ path) expStr \<noteq> provided then Some InvalidSignature
                else None)))"

section \<open>The signed message\<close>

text \<open>The lines of the message cannot run into each other: the operation and the expiry have no line
  break, and whatever lies between them is the target.\<close>

lemma mac_message_inject:
  assumes "newline \<notin> set op" "newline \<notin> set op'" "newline \<notin> set e" "newline \<notin> set e'"
    and "mac_message op t e = mac_message op' t' e'"
  shows "op = op' \<and> t = t' \<and> e = e'"
proof -
  have m: "op @ newline # (t @ newline # e) = op' @ newline # (t' @ newline # e')"
    using assms(5) by (simp add: mac_message_def)
  then have 1: "op = op'" "t @ newline # e = t' @ newline # e'"
    using assms(1,2) by (simp_all add: append_char_inject)
  then have "rev e @ newline # rev t = rev e' @ newline # rev t'"
    by (metis append.assoc append_Cons append_Nil rev.simps(2) rev_append)
  then have "rev e = rev e'" "rev t = rev t'"
    using assms(3,4) by (simp_all add: append_char_inject)
  with 1 show ?thesis by simp
qed

lemma ParseInt_no_newline: "ParseInt e = Some n \<Longrightarrow> newline \<notin> set e"
  using ParseInt_chars [of e n newline] by (auto simp: newline_def is_digit_def)

lemma FormatInt_no_newline: "newline \<notin> set (FormatInt n)"
  using FormatInt_chars [of newline n] by (auto simp: newline_def is_digit_def)

section \<open>The query of a signed URL\<close>

lemma ParseQuery_signed:
  assumes "exp \<noteq> []" "sig \<noteq> []"
    and e: "\<And>c. c \<in> set exp \<Longrightarrow> is_digit c \<or> c = CHR ''-''" and s: "\<And>c. c \<in> set sig \<Longrightarrow> b64url_char c"
  shows "ParseQuery (''exp='' @ exp @ ''&sig='' @ sig) = Some [(''exp'', [exp]), (''sig'', [sig])]"
proof -
  have ne: "CHR ''&'' \<notin> set exp" "CHR ''&'' \<notin> set sig" "CHR ''%'' \<notin> set sig" "CHR ''+'' \<notin> set sig"
      "CHR '';'' \<notin> set sig"
    using e [of "CHR ''&''"] by (auto simp: is_digit_def dest!: s b64url_char_cases)
  have sp: "Split (''exp='' @ exp @ ''&sig='' @ sig) CHR ''&'' = [''exp='' @ exp, ''sig='' @ sig]"
    using Split_append [of "CHR ''&''" "''exp='' @ exp" "''sig='' @ sig"]
      Split_single [of "CHR ''&''" "''sig='' @ sig"] ne by simp
  have p1: "query_piece_of (''exp'' @ CHR ''='' # exp) = PiecePair ''exp'' exp"
    by (rule query_piece_pair) (auto simp: is_digit_def dest: e)
  have p2: "query_piece_of (''sig'' @ CHR ''='' # sig) = PiecePair ''sig'' sig"
    by (rule query_piece_pair) (use ne in auto)
  have "map query_piece_of [''exp='' @ exp, ''sig='' @ sig] = [PiecePair ''exp'' exp, PiecePair ''sig'' sig]"
    using p1 p2 by simp
  moreover have "\<not> max_query_params < length [''exp='' @ exp, ''sig='' @ sig]"
    by (simp add: max_query_params_def)
  ultimately show ?thesis
    unfolding ParseQuery_def sp Let_def by (simp add: add_value_def)
qed

text \<open>A path that survives a request unchanged: it starts with a slash and needs no escaping.\<close>

definition plain_path :: "string \<Rightarrow> bool" where
  "plain_path p \<longleftrightarrow> HasPrefix p ''/'' \<and> CHR ''?'' \<notin> set p \<and> CHR ''%'' \<notin> set p \<and> (\<forall>c \<in> set p. \<not> ctl_byte c)"

lemma ParseRequestURI_plain:
  assumes "plain_path p" "\<forall>c \<in> set q. \<not> ctl_byte c"
  shows "ParseRequestURI (p @ CHR ''?'' # q) = Some (p, q)"
proof -
  have "unescape EncodePath p = Some p" using assms(1) by (intro unescape_plain) (auto simp: plain_path_def)
  then show ?thesis
    using assms by (auto simp: ParseRequestURI_def plain_path_def Cut_def takeWhile_char_append
        dropWhile_char_append ctl_byte_def)
qed

section \<open>Accepted URLs\<close>

lemma mac_nonempty [simp]: "mac s op t e \<noteq> []"
  by (simp add: mac_def)

lemma Sign_uri:
  assumes "plain_path path"
  shows "\<exists>q. su_Href (Sign s now op base path) = base @ path @ CHR ''?'' # q \<and>
    ParseRequestURI (path @ CHR ''?'' # q) = Some (path, q) \<and>
    ParseQuery q = Some [(''exp'', [FormatInt (Unix (now + sg_expiry s))]),
      (''sig'', [RawURLEncode (mac s op (base @ path) (FormatInt (Unix (now + sg_expiry s))))])]"
proof -
  let ?e = "FormatInt (Unix (now + sg_expiry s))"
  let ?s = "RawURLEncode (mac s op (base @ path) ?e)"
  let ?q = "''exp='' @ ?e @ ''&sig='' @ ?s"
  have e: "c \<in> set ?e \<Longrightarrow> is_digit c \<or> c = CHR ''-''" for c by (rule FormatInt_chars)
  have s: "c \<in> set ?s \<Longrightarrow> b64url_char c" for c by (rule RawURLEncode_chars)
  have "\<forall>c \<in> set ?q. \<not> ctl_byte c"
    by (auto simp: ctl_byte_def is_digit_def dest!: e s b64url_char_cases)
  from ParseRequestURI_plain [OF assms this] ParseQuery_signed [OF _ _ e s] show ?thesis
    by (intro exI [of _ ?q]) (simp add: Sign_def Let_def)
qed

lemma Sign_accepted:
  assumes "plain_path path" "int64_range (Unix (now + sg_expiry s))"
    and "su_Href (Sign s now op base path) = base @ uri"
  shows "Verify s later op base uri =
    (if Unix (now + sg_expiry s) < Unix later then Some URLHasExpired else None)"
proof -
  obtain q where q: "uri = path @ CHR ''?'' # q" "ParseRequestURI uri = Some (path, q)"
    "ParseQuery q = Some [(''exp'', [FormatInt (Unix (now + sg_expiry s))]),
      (''sig'', [RawURLEncode (mac s op (base @ path) (FormatInt (Unix (now + sg_expiry s))))])]"
    using Sign_uri [OF assms(1), of s now op base] assms(3) by auto
  then show ?thesis unfolding Verify_def values_get_def
    by (simp add: Let_def ParseInt_FormatInt [OF assms(2)])
qed

text \<open>What acceptance means, with the parsed parts named.\<close>

lemma Verify_None:
  assumes "Verify s now op base uri = None"
  obtains path q sig expStr exp provided where
    "ParseRequestURI uri = Some (path, q)" "ParseInt expStr = Some exp" "Unix now \<le> exp"
    "map_of (the (ParseQuery q)) ''sig'' = Some [sig]" "map_of (the (ParseQuery q)) ''exp'' = Some [expStr]"
    "length (the (ParseQuery q)) = 2"
    "RawURLDecode sig = Some provided" "provided = mac s op (base @ path) expStr"
proof -
  from assms obtain path q vs where p: "ParseRequestURI uri = Some (path, q)" "ParseQuery q = Some vs"
    by (auto simp: Verify_def split: option.splits)
  let ?sig = "values_get vs ''sig''" and ?exp = "values_get vs ''exp''"
  from assms p have v: "length vs = 2" "map_option length (map_of vs ''sig'') = Some 1"
      "map_option length (map_of vs ''exp'') = Some 1"
    by (auto simp: Verify_def Let_def split: if_splits)
  then have m: "map_of vs ''sig'' = Some [?sig]" "map_of vs ''exp'' = Some [?exp]"
    by (auto simp: values_get_def length_Suc_conv split: option.splits)
  from assms p obtain exp provided where "ParseInt ?exp = Some exp" "\<not> exp < Unix now"
      "RawURLDecode ?sig = Some provided" "provided = mac s op (base @ path) ?exp"
    by (auto simp: Verify_def Let_def split: if_splits option.splits)
  with p m v that [of path q ?exp exp ?sig provided] show thesis by simp
qed

section \<open>Properties\<close>

text \<open>A URL from \<^verbatim>\<open>Sign\<close>, requested at the same base URL for the same operation, is accepted by
  \<^verbatim>\<open>Verify\<close> up to and including the second it expires in, and is rejected as expired afterwards.\<close>

theorem signed_url_verifies:
  assumes "plain_path path" "int64_range (Unix (now + sg_expiry s))"
    and "su_Href (Sign s now op base path) = base @ uri"
  shows "Verify s later op base uri =
    (if Unix (now + sg_expiry s) < Unix later then Some URLHasExpired else None)"
  using assms by (rule Sign_accepted)

text \<open>\<^verbatim>\<open>Verify\<close> accepts nothing else: an accepted request URI has exactly one \<^verbatim>\<open>sig\<close> and one \<^verbatim>\<open>exp\<close>
  parameter and no other, its expiry is not in the past, and its signature decodes to the HMAC of this
  operation, this base URL with the request's path, and this expiry.\<close>

theorem verify_accepts_only_signed:
  assumes "Verify s now op base uri = None"
  shows "\<exists>path q sig expStr exp vs. ParseRequestURI uri = Some (path, q) \<and> ParseQuery q = Some vs \<and>
    length vs = 2 \<and> map_of vs ''sig'' = Some [sig] \<and> map_of vs ''exp'' = Some [expStr] \<and>
    ParseInt expStr = Some exp \<and> Unix now \<le> exp \<and>
    RawURLDecode sig = Some (hmac_sha256 (sg_key s) (mac_message op (base @ path) expStr))"
proof (rule Verify_None [OF assms])
  fix path q sig expStr exp provided
  assume a: "ParseRequestURI uri = Some (path, q)" "ParseInt expStr = Some exp" "Unix now \<le> exp"
    "map_of (the (ParseQuery q)) ''sig'' = Some [sig]" "map_of (the (ParseQuery q)) ''exp'' = Some [expStr]"
    "length (the (ParseQuery q)) = 2"
    "RawURLDecode sig = Some provided" "provided = mac s op (base @ path) expStr"
  have "ParseQuery q \<noteq> None" using assms a(1) by (cases "ParseQuery q") (auto simp: Verify_def)
  with a show ?thesis by (auto simp: mac_def)
qed

text \<open>C13: A signature is bound to what it was issued for: if a request carrying the signature that \<^verbatim>\<open>Sign\<close>
  issued is accepted, then it is for the same operation, the same full URL and the same expiry, or else
  the two signed messages are different and have the same HMAC under the key.\<close>

theorem signature_binds_request:
  assumes "newline \<notin> set op" "newline \<notin> set op'"
    and "Verify s later op' base' uri = None"
    and "ParseRequestURI uri = Some (path', q)" "ParseQuery q = Some vs"
    and "values_get vs ''sig'' = RawURLEncode (mac s op (base @ path) (FormatInt (Unix (now + sg_expiry s))))"
  shows "(op' = op \<and> base' @ path' = base @ path \<and> values_get vs ''exp'' = FormatInt (Unix (now + sg_expiry s))) \<or>
    (\<exists>m m'. m = mac_message op (base @ path) (FormatInt (Unix (now + sg_expiry s))) \<and>
       m' = mac_message op' (base' @ path') (values_get vs ''exp'') \<and>
       m \<noteq> m' \<and> hmac_sha256 (sg_key s) m = hmac_sha256 (sg_key s) m')"
proof (rule Verify_None [OF assms(3)])
  fix pa qa sig expStr exp provided
  assume a: "ParseRequestURI uri = Some (pa, qa)" "ParseInt expStr = Some exp"
    "map_of (the (ParseQuery qa)) ''sig'' = Some [sig]" "map_of (the (ParseQuery qa)) ''exp'' = Some [expStr]"
    "RawURLDecode sig = Some provided" "provided = mac s op' (base' @ pa) expStr"
  with assms(4-6) have b: "pa = path'" "values_get vs ''exp'' = expStr"
      "mac s op' (base' @ path') expStr = mac s op (base @ path) (FormatInt (Unix (now + sg_expiry s)))"
    by (auto simp: values_get_def)
  with mac_message_inject [OF assms(1,2) FormatInt_no_newline ParseInt_no_newline [OF a(2)],
      of "base @ path" "Unix (now + sg_expiry s)" "base' @ path'"]
  show ?thesis unfolding mac_def by metis
qed

section \<open>Witnesses\<close>

definition demo_signer :: url_signer where
  "demo_signer = \<lparr>sg_key = ''secret'', sg_expiry = 10 * minute\<rparr>"

definition demo_path :: string where "demo_path = ''/org/repo/objects/abc''"

definition demo_uri :: string where
  "demo_uri = drop 12 (su_Href (Sign demo_signer 0 ''download'' ''https://host'' demo_path))"

lemma demo_signed:
  "plain_path demo_path" "int64_range (Unix (0 + sg_expiry demo_signer))"
  "su_Href (Sign demo_signer 0 ''download'' ''https://host'' demo_path) = ''https://host'' @ demo_uri"
  by (simp_all add: demo_path_def plain_path_def HasPrefix_def ctl_byte_def demo_signer_def int64_range_def
      Unix_def minute_def second_def demo_uri_def Sign_def Let_def)

lemma demo_accepted: "Verify demo_signer minute ''download'' ''https://host'' demo_uri = None"
  by (subst Sign_accepted [OF demo_signed]) (simp add: demo_signer_def Unix_def minute_def second_def)

theorem signed_url_verifies_witness:
  "Verify demo_signer (10 * minute) ''download'' ''https://host'' demo_uri = None \<and>
   Verify demo_signer (11 * minute) ''download'' ''https://host'' demo_uri = Some URLHasExpired"
  by (simp add: signed_url_verifies [OF demo_signed])
    (simp add: demo_signer_def Unix_def minute_def second_def)

theorem verify_accepts_only_signed_witness:
  "\<exists>path q sig expStr exp vs. ParseRequestURI demo_uri = Some (path, q) \<and> ParseQuery q = Some vs \<and>
    length vs = 2 \<and> map_of vs ''sig'' = Some [sig] \<and> map_of vs ''exp'' = Some [expStr] \<and>
    ParseInt expStr = Some exp \<and> Unix minute \<le> exp \<and>
    RawURLDecode sig = Some (hmac_sha256 (sg_key demo_signer) (mac_message ''download'' (''https://host'' @ path) expStr))"
  using verify_accepts_only_signed [OF demo_accepted] .

theorem signature_binds_request_witness:
  "\<exists>q vs. ParseRequestURI demo_uri = Some (demo_path, q) \<and> ParseQuery q = Some vs \<and>
     Verify demo_signer minute ''download'' ''https://host'' demo_uri = None \<and>
     (values_get vs ''exp'' = FormatInt (Unix (0 + sg_expiry demo_signer)) \<or>
      (\<exists>m m'. m \<noteq> m' \<and> hmac_sha256 (sg_key demo_signer) m = hmac_sha256 (sg_key demo_signer) m'))"
proof -
  let ?e = "FormatInt (Unix (0 + sg_expiry demo_signer))"
  obtain q where q: "ParseRequestURI demo_uri = Some (demo_path, q)"
    "ParseQuery q = Some [(''exp'', [?e]), (''sig'', [RawURLEncode (mac demo_signer ''download'' (''https://host'' @ demo_path) ?e)])]"
    using Sign_uri [OF demo_signed(1), of demo_signer 0 "''download''" "''https://host''"] demo_signed(3) by auto
  let ?vs = "the (ParseQuery q)"
  have v: "ParseQuery q = Some ?vs"
    "values_get ?vs ''sig'' = RawURLEncode (mac demo_signer ''download'' (''https://host'' @ demo_path) ?e)"
    by (simp_all add: q(2) values_get_def)
  have "newline \<notin> set ''download''" by (simp add: newline_def)
  from signature_binds_request [OF this this demo_accepted q(1) v] q(1) v(1) demo_accepted show ?thesis by blast
qed

end
