(* ===== verification/Lfs_Models.thy ===== *)
theory Lfs_Models
  imports Lock_Json Signer
begin

text \<open>
  The requests and responses of \<^verbatim>\<open>src/lfs/models.go\<close> and their JSON, following the struct tags: a member
  tagged \<^verbatim>\<open>omitempty\<close> is left out when its value would print as an empty string, object, array or null, one
  tagged \<^verbatim>\<open>omitzero\<close> when it is the zero value.
\<close>

section \<open>Requests\<close>

record lfs_ref =
  ref_Name :: string

record lfs_object =
  obj_OID :: string
  obj_Size :: int

record batch_request =
  br_Operation :: string
  br_Transfers :: "string list"
  br_Ref :: "lfs_ref option"
  br_Objects :: "lfs_object list"
  br_HashAlgo :: string

record verify_request =
  vr_OID :: string
  vr_Size :: int

record create_lock_request =
  cl_Path :: string
  cl_Ref :: "lfs_ref option"

record verify_locks_request =
  vl_Ref :: "lfs_ref option"
  vl_Cursor :: string
  vl_Limit :: int

record unlock_request =
  ul_Force :: bool
  ul_Ref :: "lfs_ref option"

text \<open>A 64-bit integer: digits with an optional minus and nothing else, within the range; null is zero.\<close>

definition int_value :: "json \<Rightarrow> int option" where
  "int_value v =
     (case v of
        JNum s \<Rightarrow> if s \<noteq> [] \<and> hd s = CHR ''+'' then None else ParseInt s
      | JNull \<Rightarrow> Some 0
      | _ \<Rightarrow> None)"

definition bool_value :: "json \<Rightarrow> bool option" where
  "bool_value v = (case v of JBool b \<Rightarrow> Some b | JNull \<Rightarrow> Some False | _ \<Rightarrow> None)"

definition list_value :: "(json \<Rightarrow> 'a option) \<Rightarrow> json \<Rightarrow> 'a list option" where
  "list_value f v = (case v of JNull \<Rightarrow> Some [] | JArr vs \<Rightarrow> those (map f vs) | _ \<Rightarrow> None)"

definition ref_value :: "json \<Rightarrow> lfs_ref option option" where
  "ref_value v =
     (case v of
        JNull \<Rightarrow> Some None
      | JObj ms \<Rightarrow> map_option (\<lambda>n. Some \<lparr>ref_Name = n\<rparr>) (member ms ''name'' string_value [])
      | _ \<Rightarrow> None)"

text \<open>The members of an object; null leaves every one at its zero value.\<close>

definition members_of :: "json \<Rightarrow> (string \<times> json) list option" where
  "members_of v = (case v of JNull \<Rightarrow> Some [] | JObj ms \<Rightarrow> Some ms | _ \<Rightarrow> None)"

definition object_value :: "json \<Rightarrow> lfs_object option" where
  "object_value v =
     (case members_of v of
        None \<Rightarrow> None
      | Some ms \<Rightarrow>
        (case (member ms ''oid'' string_value [], member ms ''size'' int_value 0) of
           (Some i, Some n) \<Rightarrow> Some \<lparr>obj_OID = i, obj_Size = n\<rparr>
         | _ \<Rightarrow> None))"

definition batch_request_value :: "json \<Rightarrow> batch_request option" where
  "batch_request_value v =
     (case members_of v of
        None \<Rightarrow> None
      | Some ms \<Rightarrow>
        (case (member ms ''operation'' string_value [], member ms ''transfers'' (list_value string_value) [],
               member ms ''ref'' ref_value None, member ms ''objects'' (list_value object_value) [],
               member ms ''hash_algo'' string_value []) of
           (Some oper, Some ts, Some r, Some os, Some h) \<Rightarrow>
             Some \<lparr>br_Operation = oper, br_Transfers = ts, br_Ref = r, br_Objects = os, br_HashAlgo = h\<rparr>
         | _ \<Rightarrow> None))"

definition verify_request_value :: "json \<Rightarrow> verify_request option" where
  "verify_request_value v =
     (case members_of v of
        None \<Rightarrow> None
      | Some ms \<Rightarrow>
        (case (member ms ''oid'' string_value [], member ms ''size'' int_value 0) of
           (Some i, Some n) \<Rightarrow> Some \<lparr>vr_OID = i, vr_Size = n\<rparr>
         | _ \<Rightarrow> None))"

definition create_lock_request_value :: "json \<Rightarrow> create_lock_request option" where
  "create_lock_request_value v =
     (case members_of v of
        None \<Rightarrow> None
      | Some ms \<Rightarrow>
        (case (member ms ''path'' string_value [], member ms ''ref'' ref_value None) of
           (Some p, Some r) \<Rightarrow> Some \<lparr>cl_Path = p, cl_Ref = r\<rparr>
         | _ \<Rightarrow> None))"

definition verify_locks_request_value :: "json \<Rightarrow> verify_locks_request option" where
  "verify_locks_request_value v =
     (case members_of v of
        None \<Rightarrow> None
      | Some ms \<Rightarrow>
        (case (member ms ''ref'' ref_value None, member ms ''cursor'' string_value [], member ms ''limit'' int_value 0) of
           (Some r, Some c, Some n) \<Rightarrow> Some \<lparr>vl_Ref = r, vl_Cursor = c, vl_Limit = n\<rparr>
         | _ \<Rightarrow> None))"

definition unlock_request_value :: "json \<Rightarrow> unlock_request option" where
  "unlock_request_value v =
     (case members_of v of
        None \<Rightarrow> None
      | Some ms \<Rightarrow>
        (case (member ms ''force'' bool_value False, member ms ''ref'' ref_value None) of
           (Some f, Some r) \<Rightarrow> Some \<lparr>ul_Force = f, ul_Ref = r\<rparr>
         | _ \<Rightarrow> None))"

section \<open>Responses\<close>

text \<open>A Go map is an association list here; the order in which \<^verbatim>\<open>json.Marshal\<close> prints its members is not fixed,
  and nothing depends on it.\<close>

record lfs_action =
  act_Href :: string
  act_Header :: "(string \<times> string) list"
  act_ExpiresIn :: int
  act_ExpiresAt :: string

record object_error =
  oe_Code :: int
  oe_Message :: string

record object_response =
  or_OID :: string
  or_Size :: int
  or_Authenticated :: "bool option"
  or_Actions :: "(string \<times> lfs_action) list"
  or_Error :: "object_error option"

record batch_response =
  bp_Transfer :: string
  bp_Objects :: "object_response list"
  bp_HashAlgo :: string

text \<open>A member that is left out under a condition.\<close>

definition omit :: "bool \<Rightarrow> string \<Rightarrow> json \<Rightarrow> (string \<times> json) list" where
  "omit c k v = (if c then [] else [(k, v)])"

definition json_int :: "int \<Rightarrow> json" where "json_int n = JNum (FormatInt n)"

definition action_json :: "lfs_action \<Rightarrow> json" where
  "action_json a = JObj ([(''href'', JStr (act_Href a))] @
     omit (act_Header a = []) ''header'' (JObj (map (\<lambda>(k, v). (k, JStr v)) (act_Header a))) @
     omit (act_ExpiresIn a = 0) ''expires_in'' (json_int (act_ExpiresIn a)) @
     omit (act_ExpiresAt a = []) ''expires_at'' (JStr (act_ExpiresAt a)))"

definition object_error_json :: "object_error \<Rightarrow> json" where
  "object_error_json e = JObj [(''code'', json_int (oe_Code e)), (''message'', JStr (oe_Message e))]"

definition object_response_json :: "object_response \<Rightarrow> json" where
  "object_response_json r = JObj ([(''oid'', JStr (or_OID r)), (''size'', json_int (or_Size r))] @
     (case or_Authenticated r of None \<Rightarrow> [] | Some b \<Rightarrow> [(''authenticated'', JBool b)]) @
     omit (or_Actions r = []) ''actions'' (JObj (map (\<lambda>(k, a). (k, action_json a)) (or_Actions r))) @
     (case or_Error r of None \<Rightarrow> [] | Some e \<Rightarrow> [(''error'', object_error_json e)]))"

definition batch_response_json :: "batch_response \<Rightarrow> json" where
  "batch_response_json r = JObj (omit (bp_Transfer r = []) ''transfer'' (JStr (bp_Transfer r)) @
     [(''objects'', JArr (map object_response_json (bp_Objects r)))] @
     omit (bp_HashAlgo r = []) ''hash_algo'' (JStr (bp_HashAlgo r)))"

definition error_response_json :: "string \<Rightarrow> string \<Rightarrow> string \<Rightarrow> json" where
  "error_response_json message request_id documentation =
     JObj ([(''message'', JStr message)] @ omit (request_id = []) ''request_id'' (JStr request_id) @
       omit (documentation = []) ''documentation_url'' (JStr documentation))"

definition create_lock_response_json :: "lock \<Rightarrow> string \<Rightarrow> string \<Rightarrow> string \<Rightarrow> json" where
  "create_lock_response_json l message request_id documentation =
     JObj ([(''lock'', lock_json l)] @ omit (message = []) ''message'' (JStr message) @
       omit (request_id = []) ''request_id'' (JStr request_id) @
       omit (documentation = []) ''documentation_url'' (JStr documentation))"

definition list_locks_response_json :: "lock list \<Rightarrow> string \<Rightarrow> json" where
  "list_locks_response_json ls cursor =
     JObj ([(''locks'', JArr (map lock_json ls))] @ omit (cursor = []) ''next_cursor'' (JStr cursor))"

definition verify_locks_response_json :: "lock list \<Rightarrow> lock list \<Rightarrow> string \<Rightarrow> json" where
  "verify_locks_response_json ours theirs cursor =
     JObj ([(''ours'', JArr (map lock_json ours)), (''theirs'', JArr (map lock_json theirs))] @
       omit (cursor = []) ''next_cursor'' (JStr cursor))"

definition unlock_response_json :: "lock \<Rightarrow> json" where
  "unlock_response_json l = JObj [(''lock'', lock_json l)]"

end
