(* ===== verification/Go_Mime.thy ===== *)
theory Go_Mime
  imports Go_Url
begin

text \<open>
  What the request handlers use of Go's \<^verbatim>\<open>mime\<close>, \<^verbatim>\<open>strconv\<close> and \<^verbatim>\<open>net\<close> packages: media types with their
  parameters, the test for a zero float, and splitting a host from its port.
\<close>

section \<open>White space\<close>

text \<open>A string cut into the bytes of its runes, a byte that is no rune on its own.\<close>

function rune_chunks :: "string \<Rightarrow> string list" where
  "rune_chunks s = (if s = [] then []
     else let rest = snd (decode_rune s) in take (length s - length rest) s # rune_chunks rest)"
  by pat_completeness auto
termination
  by (relation "measure length") (auto simp: decode_rune_shorter)

declare rune_chunks.simps [simp del]

text \<open>\<^verbatim>\<open>unicode.IsSpace\<close>, on the bytes of a rune.\<close>

definition space_rune :: "nat \<Rightarrow> bool" where
  "space_rune n \<longleftrightarrow> (9 \<le> n \<and> n \<le> 13) \<or> n = 32 \<or> n = 133 \<or> n = 160 \<or> n = 5760 \<or> (8192 \<le> n \<and> n \<le> 8202) \<or>
     n = 8232 \<or> n = 8233 \<or> n = 8239 \<or> n = 8287 \<or> n = 12288"

definition space_chunk :: "string \<Rightarrow> bool" where
  "space_chunk c = (case fst (decode_rune c) of None \<Rightarrow> False | Some n \<Rightarrow> space_rune n)"

definition TrimLeftSpace :: "string \<Rightarrow> string" where
  "TrimLeftSpace s = concat (dropWhile space_chunk (rune_chunks s))"

definition TrimSpace :: "string \<Rightarrow> string" where
  "TrimSpace s = concat (rev (dropWhile space_chunk (rev (dropWhile space_chunk (rune_chunks s)))))"

lemma rune_chunks_Nil [simp]: "rune_chunks [] = []"
  by (simp add: rune_chunks.simps)

lemma rune_chunks_ascii: "ascii s \<Longrightarrow> rune_chunks s = map (\<lambda>c. [c]) s"
  by (induction s) (auto simp: rune_chunks.simps [of "_ # _"] Let_def)

lemma concat_singletons: "concat (map (\<lambda>c. [c]) s) = s"
  by (induction s) auto

definition plain_text :: "string \<Rightarrow> bool" where
  "plain_text s \<longleftrightarrow> list_all (\<lambda>c. 32 < byte_of c \<and> byte_of c < (128 :: nat)) s"

lemma plain_text_ascii: "plain_text s \<Longrightarrow> ascii s"
  by (auto simp: plain_text_def ascii_def list_all_iff)

lemma space_plain: "32 < byte_of c \<Longrightarrow> byte_of c < (128 :: nat) \<Longrightarrow> \<not> space_chunk [c]"
  by (auto simp: space_chunk_def space_rune_def)

lemma dropWhile_none: "list_all (\<lambda>x. \<not> P x) xs \<Longrightarrow> dropWhile P xs = xs"
  by (cases xs) auto

lemma TrimSpace_plain [simp]:
  assumes "plain_text s"
  shows "TrimLeftSpace s = s" "TrimSpace s = s"
proof -
  have r: "rune_chunks s = map (\<lambda>c. [c]) s" using assms by (simp add: rune_chunks_ascii plain_text_ascii)
  have n: "list_all (\<lambda>x. \<not> space_chunk x) (map (\<lambda>c. [c]) s)"
    using assms space_plain by (auto simp: plain_text_def list_all_iff)
  then have "list_all (\<lambda>x. \<not> space_chunk x) (rev (map (\<lambda>c. [c]) s))" by (simp add: list_all_iff)
  then show "TrimLeftSpace s = s" "TrimSpace s = s"
    using n by (simp_all only: TrimLeftSpace_def TrimSpace_def r dropWhile_none rev_rev_ident concat_singletons)
qed

section \<open>Media types\<close>

definition tspecial :: "char \<Rightarrow> bool" where
  "tspecial c \<longleftrightarrow> c \<in> set ''()<>@,;:/[]?='' \<or> c = CHR 0x5C \<or> c = CHR 0x22"

definition token_char :: "char \<Rightarrow> bool" where
  "token_char c \<longleftrightarrow> 32 < byte_of c \<and> byte_of c < (127 :: nat) \<and> \<not> tspecial c"

definition consumeToken :: "string \<Rightarrow> string \<times> string" where
  "consumeToken v = (takeWhile token_char v, dropWhile token_char v)"

text \<open>\<^verbatim>\<open>checkMediaTypeDisposition\<close>: a token, alone or followed by a slash and a second one.\<close>

definition media_type_ok :: "string \<Rightarrow> bool" where
  "media_type_ok s =
     (case consumeToken s of
        (typ, rest) \<Rightarrow>
          typ \<noteq> [] \<and> (rest = [] \<or>
            (hd rest = CHR ''/'' \<and> (case consumeToken (tl rest) of (sub, rest') \<Rightarrow> sub \<noteq> [] \<and> rest' = []))))"

text \<open>A quoted string after its opening quote; \<^term>\<open>None\<close> if it does not end or breaks the line.\<close>

fun quoted_value :: "string \<Rightarrow> string \<Rightarrow> (string \<times> string) option" where
  "quoted_value acc [] = None"
| "quoted_value acc (r # rs) =
     (if r = CHR 0x22 then Some (rev acc, rs)
      else if r = CHR 0x5C \<and> rs \<noteq> [] \<and> tspecial (hd rs) then quoted_value (hd rs # acc) (tl rs)
      else if r = CHR 0x0D \<or> r = CHR 0x0A then None
      else quoted_value (r # acc) rs)"

definition consumeValue :: "string \<Rightarrow> string \<times> string" where
  "consumeValue v =
     (case v of
        [] \<Rightarrow> ([], [])
      | c # cs \<Rightarrow>
        if c \<noteq> CHR 0x22 then consumeToken v
        else (case quoted_value [] cs of None \<Rightarrow> ([], v) | Some r \<Rightarrow> r))"

text \<open>\<^verbatim>\<open>consumeMediaParam\<close>: name, value and rest, or \<^term>\<open>None\<close> where it returns an empty name and all of \<open>v\<close>.\<close>

definition consumeMediaParam :: "unicode_tables \<Rightarrow> string \<Rightarrow> (string \<times> string \<times> string) option" where
  "consumeMediaParam u v =
     (let r0 = TrimLeftSpace v in
      if \<not> HasPrefix r0 '';'' then None
      else case consumeToken (TrimLeftSpace (tl r0)) of
        (param, r1) \<Rightarrow>
          if param = [] then None
          else let r2 = TrimLeftSpace r1 in
            if \<not> HasPrefix r2 ''='' then None
            else let r3 = TrimLeftSpace (tl r2) in
              case consumeValue r3 of
                (value, r4) \<Rightarrow> if value = [] \<and> r4 = r3 then None else Some (ToLower u param, value, r4))"

datatype params_result = ParamsBad | ParamsDuplicate | ParamsOk "(string \<times> string) list"

text \<open>The parameters in order; the name of a later one may repeat only with the same value. The fuel is the
  length of the input, of which every parameter takes at least one byte.\<close>

fun media_params :: "nat \<Rightarrow> unicode_tables \<Rightarrow> string \<Rightarrow> (string \<times> string) list \<Rightarrow> params_result" where
  "media_params 0 u v ps = ParamsOk ps"
| "media_params (Suc n) u v ps =
     (let v1 = TrimLeftSpace v in
      if v1 = [] then ParamsOk ps
      else case consumeMediaParam u v1 of
        None \<Rightarrow> if TrimSpace v1 = '';'' then ParamsOk ps else ParamsBad
      | Some (key, value, rest) \<Rightarrow>
        (case map_of ps key of
           Some old \<Rightarrow> if old \<noteq> value then ParamsDuplicate else media_params n u rest ps
         | None \<Rightarrow> media_params n u rest ((key, value) # ps)))"

text \<open>RFC 2231 values: \<^verbatim>\<open>charset'language'percent-encoded\<close>, and values continued over several parameters.\<close>

definition decode2231 :: "unicode_tables \<Rightarrow> string \<Rightarrow> string option" where
  "decode2231 u v =
     (case Cut v CHR 0x27 of
        (charset, r, True) \<Rightarrow>
          (case Cut r CHR 0x27 of
             (_, enc, True) \<Rightarrow> if ToLower u charset \<in> {''us-ascii'', ''utf-8''} then unescape EncodePath enc else None
           | _ \<Rightarrow> None)
      | _ \<Rightarrow> None)"

fun continued :: "nat \<Rightarrow> unicode_tables \<Rightarrow> (string \<times> string) list \<Rightarrow> string \<Rightarrow> nat \<Rightarrow> string \<Rightarrow> bool \<Rightarrow> string option" where
  "continued 0 u ps key i buf ok = (if ok then Some buf else None)"
| "continued (Suc k) u ps key i buf ok =
     (let part = key @ ''*'' @ format_nat i in
      case map_of ps part of
        Some v \<Rightarrow> continued k u ps key (i + 1) (buf @ v) True
      | None \<Rightarrow>
        (case map_of ps (part @ ''*'') of
           None \<Rightarrow> if ok then Some buf else None
         | Some v \<Rightarrow>
           (let decv = (if i = 0 then decode2231 u v else unescape EncodePath v)
            in continued k u ps key (i + 1) (buf @ (case decv of None \<Rightarrow> [] | Some d \<Rightarrow> d)) True)))"

text \<open>The value of a parameter in the finished map, empty when there is none. Parts of continued values are
  the parameters with a star in their name; at most as many parts as parameters follow each other.\<close>

definition param_value :: "unicode_tables \<Rightarrow> (string \<times> string) list \<Rightarrow> string \<Rightarrow> string" where
  "param_value u ps key =
     (let plain = (if CHR ''*'' \<in> set key then [] else (case map_of ps key of None \<Rightarrow> [] | Some v \<Rightarrow> v)) in
      case map_of ps (key @ ''*'') of
        Some v \<Rightarrow> (case decode2231 u v of Some d \<Rightarrow> d | None \<Rightarrow> plain)
      | None \<Rightarrow> (case continued (length ps + 1) u ps key 0 [] False of Some d \<Rightarrow> d | None \<Rightarrow> plain))"

text \<open>\<^verbatim>\<open>mime.ParseMediaType\<close>: the media type, the parameters, and whether there was an error. An error in a
  parameter leaves the media type in place; the other errors return an empty one.\<close>

definition ParseMediaType :: "unicode_tables \<Rightarrow> string \<Rightarrow> string \<times> (string \<times> string) list \<times> bool" where
  "ParseMediaType u v =
     (let base = fst (Cut v CHR '';'');
          mediatype = TrimSpace (ToLower u base) in
      if \<not> media_type_ok mediatype then ([], [], True)
      else case media_params (length v) u (drop (length base) v) [] of
        ParamsBad \<Rightarrow> (mediatype, [], True)
      | ParamsDuplicate \<Rightarrow> ([], [], True)
      | ParamsOk ps \<Rightarrow> (mediatype, ps, False))"

text \<open>The length of the header is enough fuel for its parameters.\<close>

lemma concat_dropWhile_length: "length (concat (dropWhile P xs)) \<le> length (concat xs)"
  by (induction xs) auto

lemma rune_chunks_length: "length (concat (rune_chunks s)) \<le> length s"
proof (induction s rule: rune_chunks.induct)
  case (1 s)
  then show ?case
    by (cases "s = []") (use decode_rune_shorter [of s] in \<open>auto simp: rune_chunks.simps [of s] Let_def\<close>)
qed

lemma TrimLeftSpace_length: "length (TrimLeftSpace s) \<le> length s"
  unfolding TrimLeftSpace_def by (rule order_trans [OF concat_dropWhile_length rune_chunks_length])

lemma quoted_value_length: "quoted_value acc s = Some (v, r) \<Longrightarrow> length r \<le> length s"
proof (induction acc s rule: quoted_value.induct)
  case (2 acc c cs)
  then show ?case by (auto split: if_splits)
qed simp

lemma consumeValue_length: "consumeValue s = (v, r) \<Longrightarrow> length r \<le> length s"
  by (auto simp: consumeValue_def consumeToken_def le_SucI [OF length_dropWhile_le] dest: quoted_value_length
      split: list.splits if_splits option.splits)

lemma consumeMediaParam_length:
  assumes "consumeMediaParam u v = Some (key, val, rest)"
  shows "length rest < length v"
proof -
  define r1 where r1: "r1 = dropWhile token_char (TrimLeftSpace (tl (TrimLeftSpace v)))"
  have r: "TrimLeftSpace v \<noteq> []" "consumeValue (TrimLeftSpace (tl (TrimLeftSpace r1))) = (val, rest)"
    using assms unfolding r1 by (auto simp: consumeMediaParam_def consumeToken_def Let_def HasPrefix_def split: if_splits prod.splits)
  have "length rest \<le> length r1 - 1"
    using consumeValue_length [OF r(2)] TrimLeftSpace_length [of "tl (TrimLeftSpace r1)"] TrimLeftSpace_length [of r1] by simp
  moreover have "length r1 \<le> length (tl (TrimLeftSpace v))"
    unfolding r1 by (rule order_trans [OF length_dropWhile_le TrimLeftSpace_length])
  moreover have "length (tl (TrimLeftSpace v)) < length v"
    using r(1) TrimLeftSpace_length [of v] by (cases "TrimLeftSpace v") auto
  ultimately show ?thesis by linarith
qed

lemma media_params_fuel: "length v \<le> n \<Longrightarrow> n \<le> m \<Longrightarrow> media_params m u v ps = media_params n u v ps"
proof (induction n arbitrary: m v ps)
  case 0
  then show ?case using TrimLeftSpace_length [of "[]"] by (cases m) simp_all
next
  case (Suc n)
  then obtain k where k: "m = Suc k" "n \<le> k" by (cases m) auto
  have "media_params k u rest qs = media_params n u rest qs" if "consumeMediaParam u (TrimLeftSpace v) = Some (key, val, rest)" for key val rest qs
    using consumeMediaParam_length [OF that] TrimLeftSpace_length [of v] Suc k by (intro Suc.IH) auto
  then show ?case unfolding k(1) by (simp add: Let_def split: option.splits prod.splits)
qed

text \<open>As many steps as there are parameters are enough for a continued value.\<close>

definition later_parts :: "(string \<times> string) list \<Rightarrow> string \<Rightarrow> nat \<Rightarrow> string set" where
  "later_parts ps key i = fst ` set ps \<inter> (\<Union>j\<in>{i..}. {key @ ''*'' @ format_nat j, key @ ''*'' @ format_nat j @ ''*''})"

lemma format_nat_no_star: "CHR ''*'' \<notin> set (format_nat n)"
  using format_nat_digits [of n] by (auto simp: list_all_iff is_digit_def)

lemma format_nat_inj: "format_nat i = format_nat j \<longleftrightarrow> i = j"
  by (metis format_nat_value)

lemma format_nat_star: "format_nat i \<noteq> format_nat j @ ''*''" "format_nat j @ ''*'' \<noteq> format_nat i"
  using format_nat_no_star [of i] by (metis in_set_conv_decomp)+

lemma later_parts_less:
  assumes "p \<in> fst ` set ps" "p = key @ ''*'' @ format_nat i \<or> p = key @ ''*'' @ format_nat i @ ''*''"
  shows "card (later_parts ps key (i + 1)) < card (later_parts ps key i)"
proof -
  have "later_parts ps key (i + 1) \<subseteq> later_parts ps key i"
    unfolding later_parts_def by (intro Int_mono UN_mono order_refl) simp
  moreover have "p \<in> later_parts ps key i"
    using assms unfolding later_parts_def by (intro IntI UN_I [of i]) auto
  moreover have "p \<notin> later_parts ps key (i + 1)"
    using assms(2) by (auto simp: later_parts_def format_nat_inj format_nat_star)
  ultimately show ?thesis by (intro psubset_card_mono) (auto simp: later_parts_def)
qed

lemma continued_fuel:
  "card (later_parts ps key i) \<le> n \<Longrightarrow> n \<le> m \<Longrightarrow> continued m u ps key i buf ok = continued n u ps key i buf ok"
proof (induction n arbitrary: m i buf ok)
  case 0
  then have e: "later_parts ps key i = {}" by (simp add: later_parts_def)
  then have "key @ ''*'' @ format_nat i \<notin> fst ` set ps" "key @ ''*'' @ format_nat i @ ''*'' \<notin> fst ` set ps"
    by (auto simp: later_parts_def)
  then show ?case by (cases m) (simp_all add: Let_def flip: map_of_eq_None_iff)
next
  case (Suc n)
  then obtain k where k: "m = Suc k" "n \<le> k" by (cases m) auto
  have "continued k u ps key (i + 1) b True = continued n u ps key (i + 1) b True"
    if "map_of ps p = Some v" "p = key @ ''*'' @ format_nat i \<or> p = key @ ''*'' @ format_nat i @ ''*''" for p v b
  proof (rule Suc.IH [OF _ k(2)])
    from that(1) have "p \<in> fst ` set ps" by (metis domI dom_map_of_conv_image_fst)
    from later_parts_less [OF this that(2)] Suc(2) show "card (later_parts ps key (i + 1)) \<le> n" by simp
  qed
  then show ?case unfolding k(1) by (simp add: Let_def split: option.splits)
qed

lemma continued_enough: "length ps < m \<Longrightarrow> continued m u ps key 0 buf ok = continued (length ps + 1) u ps key 0 buf ok"
proof -
  assume "length ps < m"
  moreover have "card (later_parts ps key 0) \<le> length ps"
    using card_mono [of "fst ` set ps" "later_parts ps key 0"] card_length [of "map fst ps"] by (simp add: later_parts_def)
  ultimately show ?thesis by (intro continued_fuel) auto
qed

section \<open>Floats\<close>

text \<open>
  Whether \<^verbatim>\<open>strconv.ParseFloat(s, 64)\<close> succeeds with a value equal to zero: a decimal or hexadecimal
  literal whose value is at most half the smallest positive float. The exponent stops growing past 10000
  as in the library; \<^verbatim>\<open>inf\<close> and \<^verbatim>\<open>nan\<close> are not zero.
\<close>

datatype saw = SawStart | SawDigit | SawUnderscore | SawOther

fun underscores_between :: "bool \<Rightarrow> saw \<Rightarrow> string \<Rightarrow> bool" where
  "underscores_between hex st [] = (st \<noteq> SawUnderscore)"
| "underscores_between hex st (c # cs) =
     (if is_digit c \<or> (hex \<and> is_hex c) then underscores_between hex SawDigit cs
      else if c = CHR ''_'' then st = SawDigit \<and> underscores_between hex SawUnderscore cs
      else st \<noteq> SawUnderscore \<and> underscores_between hex SawOther cs)"

definition float_exponent :: "string \<Rightarrow> int" where
  "float_exponent ds = foldl (\<lambda>e c. if c = CHR ''_'' then e else if e < 10000 then e * 10 + int (digit_value c) else e) 0 ds"

definition hex_digit_value :: "char \<Rightarrow> nat" where
  "hex_digit_value c = (case hex_value c of None \<Rightarrow> 0 | Some n \<Rightarrow> n)"

definition tiny :: "nat \<Rightarrow> nat \<Rightarrow> int \<Rightarrow> bool" where
  "tiny m b e \<longleftrightarrow> m = 0 \<or> (e < 0 \<and> m * 2 ^ 1075 \<le> b ^ nat (- e))"

definition float_zero :: "string \<Rightarrow> bool" where
  "float_zero s0 =
     (let s = (if s0 \<noteq> [] \<and> (hd s0 = CHR ''+'' \<or> hd s0 = CHR ''-'') then tl s0 else s0);
          hex = (length s > 2 \<and> hd s = CHR ''0'' \<and> lower_char (s ! 1) = CHR ''x'');
          body = (if hex then drop 2 s else s);
          digit = (\<lambda>c. is_digit c \<or> (hex \<and> is_hex c));
          skip = (\<lambda>c. digit c \<or> c = CHR ''_'');
          ip = takeWhile skip body; r1 = dropWhile skip body;
          dot = (r1 \<noteq> [] \<and> hd r1 = CHR ''.'');
          fp = (if dot then takeWhile skip (tl r1) else []);
          r2 = (if dot then dropWhile skip (tl r1) else r1);
          ds = filter digit (ip @ fp);
          m = foldl (\<lambda>n c. n * (if hex then 16 else 10) + hex_digit_value c) 0 ds;
          has_exp = (r2 \<noteq> [] \<and> lower_char (hd r2) = (if hex then CHR ''p'' else CHR ''e''));
          r3 = (if has_exp then tl r2 else r2);
          neg = (has_exp \<and> r3 \<noteq> [] \<and> hd r3 = CHR ''-'');
          ed = (if has_exp \<and> r3 \<noteq> [] \<and> (hd r3 = CHR ''+'' \<or> hd r3 = CHR ''-'') then tl r3 else r3);
          e = (if has_exp then (if neg then - float_exponent ed else float_exponent ed) else 0);
          fd = int (length (filter digit fp))
      in ds \<noteq> [] \<and>
         (if has_exp then ed \<noteq> [] \<and> is_digit (hd ed) \<and> list_all (\<lambda>c. is_digit c \<or> c = CHR ''_'') ed else r2 = [] \<and> \<not> hex) \<and>
         (CHR ''_'' \<in> set s \<longrightarrow> underscores_between hex (if hex then SawDigit else SawStart) body) \<and>
         (if hex then tiny m 2 (e - 4 * fd) else tiny m 10 (e - fd)))"

section \<open>Hosts\<close>

text \<open>\<^verbatim>\<open>net.SplitHostPort\<close>.\<close>

definition SplitHostPort :: "string \<Rightarrow> (string \<times> string) option" where
  "SplitHostPort s =
     (if CHR '':'' \<notin> set s then None
      else let port = rev (takeWhile (\<lambda>c. c \<noteq> CHR '':'') (rev s));
               front = take (length s - length port - 1) s
           in if hd s = CHR ''['' then
                (if CHR '']'' \<notin> set s then None
                 else let host = takeWhile (\<lambda>c. c \<noteq> CHR '']'') (tl s) in
                   if length front \<noteq> length host + 2 then None
                   else if CHR ''['' \<in> set (tl s) \<or> CHR '']'' \<in> set port then None
                   else Some (host, port))
              else if CHR '':'' \<in> set front \<or> CHR ''['' \<in> set s \<or> CHR '']'' \<in> set s then None
              else Some (front, port))"

end
