(* ===== verification/Go_Path.thy ===== *)
theory Go_Path
  imports Go_Strings
begin

text \<open>
  Go's \<^verbatim>\<open>path.Clean\<close> and, for the Unix builds, \<^verbatim>\<open>filepath.Clean\<close> and \<^verbatim>\<open>filepath.Join\<close>. Cleaning
  resolves the elements of a path against a stack; the facts below say that joining plain elements
  (not empty, \<^verbatim>\<open>.\<close> or \<^verbatim>\<open>..\<close>, and without a slash) onto a base only ever pushes them.
\<close>

fun join_slash :: "string list \<Rightarrow> string" where
  "join_slash [] = []"
| "join_slash [x] = x"
| "join_slash (x # y # ys) = x @ CHR ''/'' # join_slash (y # ys)"

definition clean_step :: "bool \<Rightarrow> string list \<Rightarrow> string \<Rightarrow> string list" where
  "clean_step rooted st e =
     (if e = [] \<or> e = ''.'' then st
      else if e = ''..'' then
        (case st of
           prev # rest \<Rightarrow> if prev = ''..'' then ''..'' # st else rest
         | [] \<Rightarrow> if rooted then [] else [''..''])
      else e # st)"

definition clean_stack :: "bool \<Rightarrow> string \<Rightarrow> string list" where
  "clean_stack rooted s = foldl (clean_step rooted) [] (Split s CHR ''/'')"

definition is_rooted :: "string \<Rightarrow> bool" where
  "is_rooted s \<longleftrightarrow> HasPrefix s ''/''"

definition render_path :: "bool \<Rightarrow> string list \<Rightarrow> string" where
  "render_path rooted es =
     (if rooted then CHR ''/'' # join_slash es else if es = [] then ''.'' else join_slash es)"

definition Clean :: "string \<Rightarrow> string" where
  "Clean s = render_path (is_rooted s) (rev (clean_stack (is_rooted s) s))"

definition Join :: "string list \<Rightarrow> string" where
  "Join es = (case dropWhile (\<lambda>e. e = []) es of [] \<Rightarrow> [] | ds \<Rightarrow> Clean (join_slash ds))"

text \<open>\<^verbatim>\<open>filepath.Dir\<close>: everything before the last slash, cleaned.\<close>

definition Dir :: "string \<Rightarrow> string" where
  "Dir p = Clean (rev (dropWhile (\<lambda>c. c \<noteq> CHR ''/'') (rev p)))"

definition plain_elem :: "string \<Rightarrow> bool" where
  "plain_elem e \<longleftrightarrow> e \<noteq> [] \<and> e \<noteq> ''.'' \<and> e \<noteq> ''..'' \<and> CHR ''/'' \<notin> set e"

lemma clean_step_plain [simp]: "plain_elem e \<Longrightarrow> clean_step r st e = e # st"
  by (simp add: clean_step_def plain_elem_def)

lemma set_clean_step: "set (clean_step r st e) \<subseteq> insert e (set st)"
  by (cases st) (simp_all add: clean_step_def subset_insertI2 subset_insertI)

lemma set_clean_stack: "set (clean_stack r s) \<subseteq> set (Split s CHR ''/'')"
proof -
  have "set (foldl (clean_step r) st ps) \<subseteq> set st \<union> set ps" for st ps
  proof (induction ps arbitrary: st)
    case (Cons p ps)
    have "set (foldl (clean_step r) (clean_step r st p) ps) \<subseteq> set (clean_step r st p) \<union> set ps"
      by (rule Cons.IH)
    with set_clean_step [of r st p] show ?case by auto
  qed simp
  from this [of "[]"] show ?thesis by (simp add: clean_stack_def)
qed

lemma foldl_clean_plain: "list_all plain_elem es \<Longrightarrow> foldl (clean_step r) st es = rev es @ st"
  by (induction es arbitrary: st) auto

lemma Split_append_slash: "Split (s @ c # t) c = Split s c @ Split t c"
  by (induction s) (auto split: list.splits)

lemma Split_join_slash:
  "es \<noteq> [] \<Longrightarrow> list_all (\<lambda>e. CHR ''/'' \<notin> set e) es \<Longrightarrow> Split (join_slash es) CHR ''/'' = es"
  by (induction es rule: join_slash.induct) (auto simp: Split_single Split_append)

lemma plain_no_slash: "list_all plain_elem es \<Longrightarrow> list_all (\<lambda>e. CHR ''/'' \<notin> set e) es"
  by (auto simp: list_all_iff plain_elem_def)

lemma clean_stack_append_plain:
  assumes "es \<noteq> []" "list_all plain_elem es"
  shows "clean_stack r (b @ CHR ''/'' # join_slash es) = rev es @ clean_stack r b"
  using assms by (simp add: clean_stack_def Split_append_slash Split_join_slash plain_no_slash
      foldl_clean_plain)

lemma join_slash_append:
  "xs \<noteq> [] \<Longrightarrow> ys \<noteq> [] \<Longrightarrow> join_slash (xs @ ys) = join_slash xs @ CHR ''/'' # join_slash ys"
  by (induction xs rule: join_slash.induct) (auto simp: neq_Nil_conv)

lemma is_rooted_append: "b \<noteq> [] \<Longrightarrow> is_rooted (b @ s) = is_rooted b"
  by (cases b) (auto simp: is_rooted_def HasPrefix_def)

text \<open>Joining plain elements onto a base appends them to the cleaned base.\<close>

lemma Join_plain:
  assumes "b \<noteq> []" "es \<noteq> []" "list_all plain_elem es"
  shows "Join (b # es) = render_path (is_rooted b) (rev (clean_stack (is_rooted b) b) @ es)"
proof -
  have "join_slash (b # es) = b @ CHR ''/'' # join_slash es"
    using assms(2) by (cases es) auto
  then show ?thesis
    using assms by (simp add: Join_def Clean_def is_rooted_append clean_stack_append_plain)
qed

lemma join_slash_inj:
  assumes "list_all (\<lambda>e. CHR ''/'' \<notin> set e) xs" "list_all (\<lambda>e. CHR ''/'' \<notin> set e) ys"
    and "xs \<noteq> []" "ys \<noteq> []" "join_slash xs = join_slash ys"
  shows "xs = ys"
  by (metis Split_join_slash assms)

text \<open>Two such joins onto one base are equal only for the same elements.\<close>

lemma Join_plain_inj:
  assumes "b \<noteq> []" "es \<noteq> []" "es' \<noteq> []" "list_all plain_elem es" "list_all plain_elem es'"
    and eq: "Join (b # es) = Join (b # es')"
  shows "es = es'"
proof -
  let ?st = "rev (clean_stack (is_rooted b) b)"
  have ns: "list_all (\<lambda>e. CHR ''/'' \<notin> set e) ?st"
    using set_clean_stack [of "is_rooted b" b] by (auto simp: list_all_iff dest: Split_pieces)
  from eq have "join_slash (?st @ es) = join_slash (?st @ es')"
    using assms by (auto simp: Join_plain render_path_def split: if_splits)
  then have "?st @ es = ?st @ es'"
    using assms ns by (intro join_slash_inj) (auto simp: plain_no_slash)
  then show ?thesis by simp
qed

end
