(* ===== verification/Sanitise.thy ===== *)
theory Sanitise
  imports Go_Path
begin

text \<open>
  \<^verbatim>\<open>src/internal/sanitise/endpoint.go\<close>: the directory name an endpoint's path is turned into. The
  \<^verbatim>\<open>filepath.Localize\<close> it calls is that of the Unix builds.
\<close>

definition InvalidEndpoint :: string where
  "InvalidEndpoint = ''_invalid''"

definition isSeparator :: "char \<Rightarrow> bool" where
  "isSeparator r \<longleftrightarrow> r = CHR ''/'' \<or> r = CHR 0x5C"

text \<open>The classes \<^verbatim>\<open>[a-zA-Z0-9_-]\<close> and \<^verbatim>\<open>[a-zA-Z0-9._-]\<close> of the pattern.\<close>

definition safe_edge :: "char \<Rightarrow> bool" where
  "safe_edge c \<longleftrightarrow> (let n = byte_of c in
     (97 \<le> n \<and> n \<le> 122) \<or> (65 \<le> n \<and> n \<le> 90) \<or> (48 \<le> n \<and> n \<le> (57 :: nat)) \<or> c = CHR ''_'' \<or> c = CHR ''-'')"

definition safe_inner :: "char \<Rightarrow> bool" where
  "safe_inner c \<longleftrightarrow> safe_edge c \<or> c = CHR ''.''"

text \<open>\<^verbatim>\<open>^[a-zA-Z0-9_-]([a-zA-Z0-9._-]*[a-zA-Z0-9_-])?$\<close>.\<close>

definition safeEndpointPattern :: "string \<Rightarrow> bool" where
  "safeEndpointPattern s \<longleftrightarrow> s \<noteq> [] \<and> safe_edge (hd s) \<and> safe_edge (last s) \<and> list_all safe_inner s"

definition Endpoint :: "string \<Rightarrow> string" where
  "Endpoint endpoint =
     (let s = TrimLeft endpoint CHR ''/'' in
      if \<exists>segment \<in> set (FieldsFunc s isSeparator). segment = ''.'' \<or> segment = ''..'' then InvalidEndpoint
      else let s = ReplaceAll s CHR ''/'' CHR ''_''; s = ReplaceAll s CHR 0x5C CHR ''_'' in
        case Localize s of
          None \<Rightarrow> InvalidEndpoint
        | Some s \<Rightarrow> if \<not> safeEndpointPattern s then InvalidEndpoint else s)"

lemma safe_edge_chars:
  "safe_edge c \<Longrightarrow> c \<noteq> CHR ''/'' \<and> c \<noteq> CHR 0x5C \<and> c \<noteq> CHR ''.'' \<and> c \<noteq> CHR 0x00 \<and> byte_of c < (128 :: nat)"
  by (auto simp: safe_edge_def Let_def)

lemma safe_inner_chars:
  "safe_inner c \<Longrightarrow> c \<noteq> CHR ''/'' \<and> c \<noteq> CHR 0x5C \<and> c \<noteq> CHR 0x00 \<and> byte_of c < (128 :: nat)"
  by (auto simp: safe_inner_def dest: safe_edge_chars)

lemma safe_pattern_plain: "safeEndpointPattern s \<Longrightarrow> plain_elem s"
proof -
  assume s: "safeEndpointPattern s"
  then have "hd s \<noteq> CHR ''.''" and "s \<noteq> []"
    using safe_edge_chars [of "hd s"] by (auto simp: safeEndpointPattern_def)
  moreover have "CHR ''/'' \<notin> set s"
    using s safe_inner_chars [of "CHR ''/''"] by (auto simp: safeEndpointPattern_def list_all_iff)
  ultimately show ?thesis by (auto simp: plain_elem_def)
qed

lemma safe_pattern_ascii: "safeEndpointPattern s \<Longrightarrow> ascii s"
  by (auto simp: safeEndpointPattern_def ascii_def list_all_iff dest: safe_inner_chars)

lemma safe_pattern_no_sep: "safeEndpointPattern s \<Longrightarrow> c \<in> set s \<Longrightarrow> \<not> isSeparator c"
  by (auto simp: safeEndpointPattern_def list_all_iff isSeparator_def dest: safe_inner_chars)

lemma safe_pattern_InvalidEndpoint [simp]: "safeEndpointPattern InvalidEndpoint"
  by (simp add: safeEndpointPattern_def InvalidEndpoint_def safe_inner_def safe_edge_def)

lemma Endpoint_safe [simp]: "safeEndpointPattern (Endpoint e)"
  by (auto simp: Endpoint_def Let_def split: option.splits)

lemma Endpoint_plain [simp]: "plain_elem (Endpoint e)"
  by (simp add: safe_pattern_plain)

lemma fields_acc_no_sep: "\<forall>c \<in> set s. \<not> sep c \<Longrightarrow> fields_acc sep acc s = (if acc = [] \<and> s = [] then [] else [rev acc @ s])"
  by (induction s arbitrary: acc) auto

text \<open>A safe name is its own directory name, so sanitising twice is sanitising once.\<close>

lemma Endpoint_of_safe: "safeEndpointPattern s \<Longrightarrow> Endpoint s = s"
proof -
  assume s: "safeEndpointPattern s"
  then have pl: "plain_elem s" by (rule safe_pattern_plain)
  have ns: "CHR ''/'' \<notin> set s" "CHR 0x5C \<notin> set s" "CHR 0x00 \<notin> set s"
    using s by (auto simp: safeEndpointPattern_def list_all_iff dest: safe_inner_chars)
  have t: "TrimLeft s CHR ''/'' = s"
    using ns by (cases s) (auto simp: TrimLeft_def)
  have f: "FieldsFunc s isSeparator = [s]"
    using pl safe_pattern_no_sep [OF s] by (simp add: FieldsFunc_def fields_acc_no_sep plain_elem_def)
  have r: "ReplaceAll s CHR ''/'' CHR ''_'' = s" "ReplaceAll s CHR 0x5C CHR ''_'' = s"
    using ns by (auto simp: ReplaceAll_def intro!: map_idI)
  have "Localize s = Some s"
    using s pl ns by (simp add: Localize_def ValidPath_def ValidString_ascii safe_pattern_ascii
        valid_elems_Split Split_single plain_elem_def)
  then show ?thesis
    using s pl by (simp add: Endpoint_def Let_def t f r plain_elem_def)
qed

lemma Endpoint_idem [simp]: "Endpoint (Endpoint e) = Endpoint e"
  by (simp add: Endpoint_of_safe)

text \<open>What an accepted path looks like: apart from its leading slashes it has only safe characters and
  separators, and its directory name is it with the separators replaced.\<close>

lemma Endpoint_accepted:
  assumes "Endpoint e \<noteq> InvalidEndpoint"
  shows "Endpoint e = map (\<lambda>c. if isSeparator c then CHR ''_'' else c) (TrimLeft e CHR ''/'')"
    and "\<forall>c \<in> set (TrimLeft e CHR ''/''). safe_inner c \<or> isSeparator c"
proof -
  let ?s = "TrimLeft e CHR ''/''"
  let ?r = "ReplaceAll (ReplaceAll ?s CHR ''/'' CHR ''_'') CHR 0x5C CHR ''_''"
  have r: "?r = map (\<lambda>c. if isSeparator c then CHR ''_'' else c) ?s"
    by (auto simp: ReplaceAll_def isSeparator_def)
  from assms have e: "Endpoint e = ?r" "safeEndpointPattern ?r"
    by (auto simp: Endpoint_def Let_def Localize_def split: if_splits)
  then show "Endpoint e = map (\<lambda>c. if isSeparator c then CHR ''_'' else c) ?s"
    by (simp add: r)
  show "\<forall>c \<in> set ?s. safe_inner c \<or> isSeparator c"
    using e(2) unfolding r by (auto simp: safeEndpointPattern_def list_all_iff)
qed

text \<open>Whatever an endpoint's path holds, its directory name is one plain path element of letters,
  digits, dots, underscores and hyphens, never \<^verbatim>\<open>.\<close> or \<^verbatim>\<open>..\<close> and without separators or NUL; the
  function is idempotent; and a path that is not mapped to the fallback name keeps its characters, with
  each separator after the leading slashes turned into an underscore.\<close>

theorem endpoint_directory_safe:
  "safeEndpointPattern (Endpoint e) \<and> plain_elem (Endpoint e) \<and> Endpoint (Endpoint e) = Endpoint e \<and>
   (Endpoint e \<noteq> InvalidEndpoint \<longrightarrow>
      Endpoint e = map (\<lambda>c. if isSeparator c then CHR ''_'' else c) (TrimLeft e CHR ''/''))"
  using Endpoint_accepted(1) by simp

theorem endpoint_directory_safe_witness:
  "Endpoint ''/org/repo'' \<noteq> InvalidEndpoint \<and> Endpoint ''/org/repo'' = ''org_repo'' \<and>
   Endpoint ''/org/../repo'' = InvalidEndpoint"
proof -
  have "Endpoint ''/org/repo'' \<noteq> InvalidEndpoint" "Endpoint ''/org/../repo'' = InvalidEndpoint" by code_simp+
  with endpoint_directory_safe [of "''/org/repo''"] show ?thesis
    by (simp add: TrimLeft_def isSeparator_def)
qed

end
