(* ===== verification/Storage_Base.thy ===== *)
theory Storage_Base
  imports Sanitise Go_Crypto Go_Time
begin

text \<open>
  What the storage adapters share: object ids (\<^verbatim>\<open>src/storage/oid.go\<close>), the error values callers can
  tell apart, the reader an upload arrives through, and the contract of \<^verbatim>\<open>storage.Adapter\<close>
  (\<^verbatim>\<open>src/storage/adapter.go\<close>) as a locale, with what its clients derive from it.
\<close>

section \<open>Object ids\<close>

text \<open>\<^verbatim>\<open>oidPattern\<close>, \<^verbatim>\<open>^[0-9a-fA-F]{64}$\<close>.\<close>

definition IsValidOID :: "string \<Rightarrow> bool" where
  "IsValidOID oid \<longleftrightarrow> length oid = 64 \<and> list_all is_hex oid"

text \<open>The errors of the storage package, by what \<^verbatim>\<open>errors.Is\<close> and \<^verbatim>\<open>errors.AsType\<close> find in them.\<close>

datatype read_error = ReadDeadlineExceeded | ReadMaxBytes | ReadUnexpectedEOF | ReadOther

datatype store_error =
    ErrContext
  | ErrInvalidOID
  | ErrHashMismatch
  | ErrInsufficientStorage
  | ErrObjectTooLarge
  | ErrNotExist
  | ErrReader read_error
  | ErrIO

definition normaliseOID :: "string \<Rightarrow> store_error + string" where
  "normaliseOID oid = (if \<not> IsValidOID oid then Inl ErrInvalidOID else Inr (map lower_char oid))"

lemma IsValidOID_ascii: "IsValidOID oid \<Longrightarrow> ascii oid"
  by (auto simp: IsValidOID_def ascii_def list_all_iff dest: is_hex_ascii)

lemma IsValidOID_lower [simp]: "IsValidOID (map lower_char oid) = IsValidOID oid"
  by (simp add: IsValidOID_def list_all_iff)

lemma IsValidOID_digest [simp]: "IsValidOID (hex_encode (sha256 m))"
  by (auto simp: IsValidOID_def list_all_iff hex_encode_is_hex)

lemma lower_char_idem [simp]: "lower_char (lower_char c) = lower_char c"
  by (auto simp: lower_char_def Let_def)

lemma lower_char_comp [simp]: "lower_char \<circ> lower_char = lower_char"
  by (simp add: fun_eq_iff)

text \<open>Comparing a digest with an id by \<^verbatim>\<open>strings.EqualFold\<close> is comparing it with the normalised id.\<close>

lemma EqualFold_digest:
  assumes "IsValidOID oid"
  shows "EqualFold u (hex_encode (sha256 m)) oid \<longleftrightarrow> hex_encode (sha256 m) = map lower_char oid"
proof -
  have "ascii (hex_encode (sha256 m))" "ascii oid"
    using assms by (simp_all add: IsValidOID_ascii)
  then show ?thesis by (simp add: EqualFold_ascii)
qed

section \<open>Readers\<close>

text \<open>A request body as \<^verbatim>\<open>Read\<close> delivers it: the chunks of data, and the error it ends with, \<^term>\<open>None\<close> for
  \<^verbatim>\<open>io.EOF\<close>.\<close>

record reader =
  rd_chunks :: "bytes list"
  rd_err :: "read_error option"

definition rd_data :: "reader \<Rightarrow> bytes" where
  "rd_data r = concat (rd_chunks r)"

section \<open>The adapter contract\<close>

text \<open>
  \<^verbatim>\<open>storage.Adapter\<close> seen by a caller whose requests meet no infrastructure failure. \<open>object s ep oid\<close> is
  the content stored under an endpoint and an id, \<open>invar\<close> what the adapter keeps true of its state. A
  \<^verbatim>\<open>Put\<close> that succeeds stores exactly the bytes the reader delivered, only if they hash to the id, and
  touches no other object; one that fails changes no object.
\<close>

locale adapter =
  fixes invar :: "'s \<Rightarrow> bool"
    and object :: "'s \<Rightarrow> string \<Rightarrow> string \<Rightarrow> bytes option"
    and exists_op :: "'s \<Rightarrow> string \<Rightarrow> string \<Rightarrow> store_error + bool"
    and get_op :: "'s \<Rightarrow> string \<Rightarrow> string \<Rightarrow> store_error + (bytes \<times> int)"
    and size_op :: "'s \<Rightarrow> string \<Rightarrow> string \<Rightarrow> store_error + int"
    and put_op :: "'s \<Rightarrow> string \<Rightarrow> string \<Rightarrow> reader \<Rightarrow> 's \<times> store_error option"
  assumes object_cong: "Endpoint ep = Endpoint ep' \<Longrightarrow> map lower_char oid = map lower_char oid' \<Longrightarrow>
      object s ep oid = object s ep' oid'"
    and object_valid: "invar s \<Longrightarrow> object s ep oid = Some d \<Longrightarrow>
      IsValidOID oid \<and> map lower_char oid = hex_encode (sha256 d)"
    and exists_spec: "invar s \<Longrightarrow> IsValidOID oid \<Longrightarrow> exists_op s ep oid = Inr (object s ep oid \<noteq> None)"
    and get_spec: "invar s \<Longrightarrow> IsValidOID oid \<Longrightarrow> get_op s ep oid =
      (case object s ep oid of None \<Rightarrow> Inl ErrNotExist | Some d \<Rightarrow> Inr (d, int (length d)))"
    and size_spec: "invar s \<Longrightarrow> IsValidOID oid \<Longrightarrow> size_op s ep oid =
      (case object s ep oid of None \<Rightarrow> Inl ErrNotExist | Some d \<Rightarrow> Inr (int (length d)))"
    and put_invar: "invar s \<Longrightarrow> put_op s ep oid r = (s', e) \<Longrightarrow> invar s'"
    and put_ok: "invar s \<Longrightarrow> put_op s ep oid r = (s', None) \<Longrightarrow>
      object s' ep oid = Some (rd_data r) \<and> rd_err r = None"
    and put_frame: "invar s \<Longrightarrow> put_op s ep oid r = (s', None) \<Longrightarrow>
      (Endpoint ep', map lower_char oid') \<noteq> (Endpoint ep, map lower_char oid) \<Longrightarrow>
      object s' ep' oid' = object s ep' oid'"
    and put_fail: "invar s \<Longrightarrow> put_op s ep oid r = (s', Some err) \<Longrightarrow> object s' = object s"
begin

text \<open>What is stored after a successful upload is what was sent, and is what a download then yields.\<close>

lemma put_get:
  assumes "invar s" "put_op s ep oid r = (s', None)"
  shows "get_op s' ep oid = Inr (rd_data r, int (length (rd_data r)))"
    and "size_op s' ep oid = Inr (int (length (rd_data r)))"
    and "exists_op s' ep oid = Inr True"
proof -
  have i: "invar s'" by (rule put_invar [OF assms])
  have o: "object s' ep oid = Some (rd_data r)" using put_ok [OF assms] by blast
  have v: "IsValidOID oid" using object_valid [OF i o] by blast
  show "get_op s' ep oid = Inr (rd_data r, int (length (rd_data r)))"
    "size_op s' ep oid = Inr (int (length (rd_data r)))" "exists_op s' ep oid = Inr True"
    using i v by (simp_all add: get_spec size_spec exists_spec o)
qed

lemma put_verified:
  assumes "invar s" "put_op s ep oid r = (s', None)"
  shows "map lower_char oid = hex_encode (sha256 (rd_data r))"
  using object_valid [OF put_invar [OF assms]] put_ok [OF assms] by blast

text \<open>Content addressing: a stored object never changes, it can only be replaced by content with the
  same digest.\<close>

lemma put_content_addressed:
  assumes "invar s" "put_op s ep oid r = (s', e)" "object s ep' oid' = Some d"
  shows "\<exists>d'. object s' ep' oid' = Some d' \<and> sha256 d' = sha256 d"
proof (cases e)
  case None
  show ?thesis
  proof (cases "(Endpoint ep', map lower_char oid') = (Endpoint ep, map lower_char oid)")
    case False
    then show ?thesis using assms None put_frame by auto
  next
    case True
    then have "object s' ep' oid' = Some (rd_data r)"
      using put_ok [of s ep oid r s'] assms None object_cong [of ep' ep oid' oid s'] by auto
    moreover have "hex_encode (sha256 (rd_data r)) = hex_encode (sha256 d)"
      using True object_valid [OF assms(1,3)] put_verified [of s ep oid r s'] assms None by simp
    then have "sha256 (rd_data r) = sha256 d"
      by (metis hex_decode_encode option.inject)
    ultimately show ?thesis by blast
  qed
next
  case (Some x)
  then show ?thesis using assms put_fail by fastforce
qed

end

end
