(* ===== verification/Endpoints.thy ===== *)
theory Endpoints
  imports Go_Url
begin

text \<open>
  The endpoint settings of \<^verbatim>\<open>src/config/config.go\<close> that requests are served under.
\<close>

text \<open>A parsed URL as far as it is used: scheme, host with port, and path.\<close>

record url_parts =
  url_Scheme :: string
  url_Host :: string
  url_Path :: string

record endpoint =
  ep_Name :: string
  ep_URL :: string
  ep_Path :: string
  ep_Visibility :: string
  ep_Authentication :: string
  ep_GitHubAPIURL :: string
  ep_GitHubOwner :: string
  ep_GitHubRepo :: string
  ep_GitHubBaseURL :: "url_parts option"

definition IsPublic :: "unicode_tables \<Rightarrow> endpoint \<Rightarrow> bool" where
  "IsPublic u e \<longleftrightarrow> EqualFold u (ep_Visibility e) ''public''"

definition AuthMethod :: "unicode_tables \<Rightarrow> endpoint \<Rightarrow> string" where
  "AuthMethod u e = ToLower u (ep_Authentication e)"

definition authGitHub :: string where "authGitHub = ''github''"

end
