(* ===== verification/Auth.thy ===== *)
theory Auth
  imports Endpoints Go_Crypto Go_Time
begin

text \<open>
  \<^verbatim>\<open>src/auth\<close>: the authenticator interface, the permissive authenticator, and the GitHub one with its cache.

  The GitHub client library is not part of the repository. What it answers to the four requests the code
  makes is the argument \<^verbatim>\<open>github_api\<close>, one per call to \<^verbatim>\<open>Authenticate\<close>, with the library's error types as the
  constructors of \<^verbatim>\<open>gh_error\<close>. The per-process HMAC key and the clock are arguments too.
\<close>

section \<open>Results\<close>

datatype operation = OperationDownload | OperationUpload

fun operation_name :: "operation \<Rightarrow> string" where
  "operation_name OperationDownload = ''download''"
| "operation_name OperationUpload = ''upload''"

record auth_result =
  res_Authenticated :: bool
  res_Authorized :: bool
  res_Username :: string
  res_Maintainer :: bool

definition no_result :: auth_result where
  "no_result = \<lparr>res_Authenticated = False, res_Authorized = False, res_Username = [], res_Maintainer = False\<rparr>"

text \<open>The errors a caller of \<^verbatim>\<open>Authenticate\<close> tells apart; none of the authenticators here returns another one.\<close>

datatype auth_error = ErrUnavailable | RateLimitedError duration | OtherAuthError

section \<open>The permissive authenticator\<close>

definition None_Authenticate :: "string \<Rightarrow> string \<Rightarrow> operation \<Rightarrow> auth_error + auth_result" where
  "None_Authenticate username password op' =
     (let name = (if username = [] then ''anonymous'' else username)
      in Inr \<lparr>res_Authenticated = True, res_Authorized = True, res_Username = name, res_Maintainer = True\<rparr>)"

section \<open>What GitHub reports\<close>

datatype probe = probeUnchecked | probeAllowed | probeDenied

record access =
  ac_authenticated :: bool
  ac_username :: string
  ac_private :: bool
  ac_pull :: bool
  ac_push :: bool
  ac_maintainer :: bool
  ac_read :: probe
  ac_write :: probe

definition no_access :: access where
  "no_access = \<lparr>ac_authenticated = False, ac_username = [], ac_private = False, ac_pull = False, ac_push = False,
     ac_maintainer = False, ac_read = probeUnchecked, ac_write = probeUnchecked\<rparr>"

definition access_result :: "access \<Rightarrow> operation \<Rightarrow> auth_result" where
  "access_result a op' =
     (let result = no_result\<lparr>res_Authenticated := ac_authenticated a, res_Username := ac_username a\<rparr>
      in case op' of
           OperationDownload \<Rightarrow>
             result\<lparr>res_Authorized := ac_pull a \<and> (\<not> ac_private a \<or> ac_read a = probeAllowed)\<rparr>
         | OperationUpload \<Rightarrow>
             (let authorized = ac_push a \<and> ac_write a = probeAllowed
              in result\<lparr>res_Authorized := authorized, res_Maintainer := authorized \<and> ac_maintainer a\<rparr>))"

definition needsProbe :: "access \<Rightarrow> operation \<Rightarrow> bool" where
  "needsProbe a op' =
     (case op' of
        OperationDownload \<Rightarrow> ac_pull a \<and> ac_private a \<and> ac_read a = probeUnchecked
      | OperationUpload \<Rightarrow> ac_push a \<and> ac_write a = probeUnchecked)"

definition withProbe :: "access \<Rightarrow> operation \<Rightarrow> probe \<Rightarrow> access" where
  "withProbe a op' outcome =
     (case op' of OperationDownload \<Rightarrow> a\<lparr>ac_read := outcome\<rparr> | OperationUpload \<Rightarrow> a\<lparr>ac_write := outcome\<rparr>)"

text \<open>An error response as far as it is looked at: status and the two rate limit headers.\<close>

record gh_response =
  rs_status :: int
  rs_RetryAfter :: string
  rs_RateLimitReset :: string

text \<open>The reset time of a rate limit error is \<^term>\<open>None\<close> for the zero time, and the wait of an abuse error
  \<^term>\<open>None\<close> when the response gave none.\<close>

datatype gh_error =
    GhRateLimit "instant option"
  | GhAbuse "duration option"
  | GhResponse "gh_response option"
  | GhOther

record gh_repo =
  rp_permissions :: "(string \<Rightarrow> bool) option"
  rp_private :: bool

record github_api =
  api_repo :: "string \<Rightarrow> string \<Rightarrow> string \<Rightarrow> gh_error + gh_repo"
  api_user :: "string \<Rightarrow> gh_error + string"
  api_commits :: "string \<Rightarrow> string \<Rightarrow> string \<Rightarrow> gh_error option"
  api_blob :: "string \<Rightarrow> string \<Rightarrow> string \<Rightarrow> gh_error option"

section \<open>Errors and waits\<close>

definition defaultRetryAfter :: duration where "defaultRetryAfter = minute"
definition maxRetryAfter :: duration where "maxRetryAfter = hour"

definition rateLimited :: "duration \<Rightarrow> auth_error" where
  "rateLimited wait = RateLimitedError (min wait maxRetryAfter)"

text \<open>\<^verbatim>\<open>time.Until\<close> saturates, which neither the minimum of a second nor the maximum of an hour lets show.\<close>

definition untilReset :: "instant \<Rightarrow> instant option \<Rightarrow> duration" where
  "untilReset now reset = (case reset of None \<Rightarrow> defaultRetryAfter | Some t \<Rightarrow> max (t - now) second)"

text \<open>The 64-bit product \<^verbatim>\<open>time.Duration(seconds) * time.Second\<close>, and \<^verbatim>\<open>time.Unix(reset, 0)\<close>, which is the
  zero time for the first second of year 1.\<close>

definition wrap64 :: "int \<Rightarrow> int" where
  "wrap64 n = (n + 2 ^ 63) mod 2 ^ 64 - 2 ^ 63"

definition zero_unix :: int where "zero_unix = -62135596800"

definition retryAfter :: "instant \<Rightarrow> gh_response \<Rightarrow> duration" where
  "retryAfter now rsp =
     (case ParseInt (rs_RetryAfter rsp) of
        Some seconds \<Rightarrow>
          if seconds > 0 then wrap64 (seconds * second)
          else (case ParseInt (rs_RateLimitReset rsp) of
                  Some reset \<Rightarrow> untilReset now (if reset = zero_unix then None else Some (reset * second))
                | None \<Rightarrow> defaultRetryAfter)
      | None \<Rightarrow>
          (case ParseInt (rs_RateLimitReset rsp) of
             Some reset \<Rightarrow> untilReset now (if reset = zero_unix then None else Some (reset * second))
           | None \<Rightarrow> defaultRetryAfter))"

definition classifyGitHubError :: "instant \<Rightarrow> gh_error \<Rightarrow> auth_error + access" where
  "classifyGitHubError now err =
     (case err of
        GhRateLimit reset \<Rightarrow> Inl (rateLimited (untilReset now reset))
      | GhAbuse wait \<Rightarrow>
          Inl (rateLimited (case wait of None \<Rightarrow> defaultRetryAfter | Some w \<Rightarrow> if w = 0 then defaultRetryAfter else w))
      | GhResponse (Some rsp) \<Rightarrow>
          if rs_status rsp = 401 then Inr no_access
          else if rs_status rsp = 403 \<or> rs_status rsp = 404 then Inr (no_access\<lparr>ac_authenticated := True\<rparr>)
          else if rs_status rsp = 429 then Inl (rateLimited (retryAfter now rsp))
          else Inl ErrUnavailable
      | _ \<Rightarrow> Inl ErrUnavailable)"

definition isUnauthorized :: "gh_error option \<Rightarrow> bool" where
  "isUnauthorized err = (case err of Some (GhResponse (Some rsp)) \<Rightarrow> rs_status rsp = 401 | _ \<Rightarrow> False)"

definition probeOutcome :: "instant \<Rightarrow> gh_error option \<Rightarrow> auth_error + probe" where
  "probeOutcome now err =
     (case err of
        None \<Rightarrow> Inr probeAllowed
      | Some e \<Rightarrow>
        (let classified = (case classifyGitHubError now e of Inl x \<Rightarrow> Inl x | Inr _ \<Rightarrow> Inr probeDenied)
         in case e of
              GhResponse (Some rsp) \<Rightarrow>
                if rs_status rsp = 409 \<or> rs_status rsp = 422 then Inr probeAllowed
                else if rs_status rsp = 403 \<or> rs_status rsp = 404 then Inr probeDenied
                else classified
            | _ \<Rightarrow> classified))"

section \<open>The cache\<close>

record cache_entry =
  ce_access :: access
  ce_expires :: instant

text \<open>The cache map is nil until the first entry is stored, which also starts the sweeper; \<^verbatim>\<open>gh_stopCh\<close> is its
  stop channel, open or closed.\<close>

record github =
  gh_cacheTTL :: duration
  gh_cache :: "(string \<rightharpoonup> cache_entry) option"
  gh_hits :: "64 word"
  gh_misses :: "64 word"
  gh_stopCh :: "bool option"

definition NewGitHub :: "duration \<Rightarrow> github" where
  "NewGitHub ttl = \<lparr>gh_cacheTTL = ttl, gh_cache = None, gh_hits = 0, gh_misses = 0, gh_stopCh = None\<rparr>"

definition invalidTokenCacheTTL :: duration where "invalidTokenCacheTTL = 10 * second"
definition minSweepInterval :: duration where "minSweepInterval = second"

definition cache_map :: "github \<Rightarrow> string \<rightharpoonup> cache_entry" where
  "cache_map g = (case gh_cache g of None \<Rightarrow> Map.empty | Some m \<Rightarrow> m)"

definition CacheStats :: "github \<Rightarrow> 64 word \<times> 64 word" where
  "CacheStats g = (gh_hits g, gh_misses g)"

definition GitHub_Close :: "github \<Rightarrow> github" where
  "GitHub_Close g = (case gh_stopCh g of None \<Rightarrow> g | Some _ \<Rightarrow> g\<lparr>gh_stopCh := Some False\<rparr>)"

definition cacheLookup :: "github \<Rightarrow> instant \<Rightarrow> string \<Rightarrow> github \<times> access option" where
  "cacheLookup g now key =
     (case cache_map g key of
        None \<Rightarrow> (g, None)
      | Some entry \<Rightarrow>
        if now > ce_expires entry then (g\<lparr>gh_cache := Some ((cache_map g)(key := None))\<rparr>, None)
        else (g, Some (ce_access entry)))"

definition cacheStoreIfEnabled :: "github \<Rightarrow> instant \<Rightarrow> string \<Rightarrow> access \<Rightarrow> github" where
  "cacheStoreIfEnabled g now key acc =
     (let ttl = (if \<not> ac_authenticated acc then min (gh_cacheTTL g) invalidTokenCacheTTL else gh_cacheTTL g) in
      if ttl \<le> 0 then g
      else let g1 = (if gh_cache g = None then g\<lparr>gh_stopCh := Some True\<rparr> else g)
           in g1\<lparr>gh_cache := Some ((cache_map g)(key \<mapsto> \<lparr>ce_access = acc, ce_expires = now + ttl\<rparr>))\<rparr>)"

definition cacheRecordProbe :: "github \<Rightarrow> string \<Rightarrow> operation \<Rightarrow> probe \<Rightarrow> github" where
  "cacheRecordProbe g key op' outcome =
     (case cache_map g key of
        None \<Rightarrow> g
      | Some entry \<Rightarrow>
        g\<lparr>gh_cache := Some ((cache_map g)(key \<mapsto> entry\<lparr>ce_access := withProbe (ce_access entry) op' outcome\<rparr>))\<rparr>)"

definition sweep :: "github \<Rightarrow> instant \<Rightarrow> github" where
  "sweep g now =
     g\<lparr>gh_cache := map_option (\<lambda>m k. case m k of None \<Rightarrow> None | Some v \<Rightarrow> if now > ce_expires v then None else Some v)
        (gh_cache g)\<rparr>"

text \<open>The interval of the sweeper's ticker.\<close>

definition sweep_interval :: "github \<Rightarrow> duration" where
  "sweep_interval g = max (gh_cacheTTL g div 2) minSweepInterval"

definition cacheKey :: "bytes \<Rightarrow> string \<Rightarrow> string \<Rightarrow> string" where
  "cacheKey hmac_key token endpointPath = hex_encode (hmac_sha256 hmac_key token) @ ''|'' @ endpointPath"

section \<open>Authenticate\<close>

text \<open>What one call sees. The clock is read at the cache lookup (\<^verbatim>\<open>ae_lookup\<close>), after the requests of the role lookup, when
  its answer is classified or stored (\<^verbatim>\<open>ae_fetch\<close>), at the second cache lookup before the probe (\<^verbatim>\<open>ae_recheck\<close>), and
  after the probe (\<^verbatim>\<open>ae_probe\<close>). GitHub answers \<^verbatim>\<open>Repositories.Get\<close> at \<^verbatim>\<open>ae_repo\<close>, then \<^verbatim>\<open>Users.Get\<close> at \<^verbatim>\<open>ae_user\<close>, and
  the probe at \<^verbatim>\<open>ae_answer\<close>: instants the code does not read, which say how old an answer really is. Besides, the answers
  themselves, and whether the caller went away while either request ran (the request then runs to its end
  all the same).\<close>

record auth_env =
  ae_lookup :: instant
  ae_repo :: instant
  ae_user :: instant
  ae_fetch :: instant
  ae_recheck :: instant
  ae_answer :: instant
  ae_probe :: instant
  ae_api :: github_api
  ae_left_fetch :: bool
  ae_left_probe :: bool

definition share :: "bool \<Rightarrow> github \<times> (auth_error + access) \<Rightarrow> github \<times> (auth_error + access)" where
  "share left outcome = (case outcome of (g, r) \<Rightarrow> if left then (g, Inl ErrUnavailable) else (g, r))"

definition fetchAccess :: "github \<Rightarrow> auth_env \<Rightarrow> endpoint \<Rightarrow> string \<Rightarrow> string \<Rightarrow> github \<times> (auth_error + access)" where
  "fetchAccess g env ep token key =
     (case api_repo (ae_api env) token (ep_GitHubOwner ep) (ep_GitHubRepo ep) of
        Inl err \<Rightarrow>
          (case classifyGitHubError (ae_fetch env) err of
             Inr denied \<Rightarrow> (cacheStoreIfEnabled g (ae_fetch env) key denied, Inr denied)
           | Inl e \<Rightarrow> (g, Inl e))
      | Inr repo \<Rightarrow>
          (case rp_permissions repo of
             None \<Rightarrow> (g, Inr (no_access\<lparr>ac_authenticated := True\<rparr>))
           | Some perms \<Rightarrow>
             (case api_user (ae_api env) token of
                Inl err \<Rightarrow> (g, classifyGitHubError (ae_fetch env) err)
              | Inr login \<Rightarrow>
                (let granted = no_access\<lparr>ac_authenticated := True, ac_username := login, ac_private := rp_private repo,
                       ac_pull := perms ''pull'', ac_push := perms ''push'',
                       ac_maintainer := perms ''maintain'' \<or> perms ''admin''\<rparr>
                 in (cacheStoreIfEnabled g (ae_fetch env) key granted, Inr granted)))))"

definition lookup :: "github \<Rightarrow> auth_env \<Rightarrow> endpoint \<Rightarrow> string \<Rightarrow> string \<Rightarrow> github \<times> (auth_error + access)" where
  "lookup g env ep token key =
     (case cacheLookup g (ae_lookup env) key of
        (g1, Some cached) \<Rightarrow> (g1\<lparr>gh_hits := gh_hits g1 + 1\<rparr>, Inr cached)
      | (g1, None) \<Rightarrow> share (ae_left_fetch env) (fetchAccess (g1\<lparr>gh_misses := gh_misses g1 + 1\<rparr>) env ep token key))"

definition probe_request :: "github_api \<Rightarrow> endpoint \<Rightarrow> string \<Rightarrow> operation \<Rightarrow> gh_error option" where
  "probe_request api ep token op' =
     (case op' of
        OperationDownload \<Rightarrow> api_commits api token (ep_GitHubOwner ep) (ep_GitHubRepo ep)
      | OperationUpload \<Rightarrow> api_blob api token (ep_GitHubOwner ep) (ep_GitHubRepo ep))"

definition probeContents :: "github \<Rightarrow> auth_env \<Rightarrow> endpoint \<Rightarrow> string \<Rightarrow> string \<Rightarrow> operation \<Rightarrow> access
    \<Rightarrow> github \<times> (auth_error + access)" where
  "probeContents g env ep token key op' acc =
     (let ask = (\<lambda>g1. let err = probe_request (ae_api env) ep token op' in
          if isUnauthorized err then (cacheStoreIfEnabled g1 (ae_probe env) key no_access, Inr no_access)
          else case probeOutcome (ae_probe env) err of
            Inl e \<Rightarrow> (g1, Inl e)
          | Inr outcome \<Rightarrow> (cacheRecordProbe g1 key op' outcome, Inr (withProbe acc op' outcome)))
      in case cacheLookup g (ae_recheck env) key of
           (g1, Some cached) \<Rightarrow> if \<not> needsProbe cached op' then (g1, Inr cached) else ask g1
         | (g1, None) \<Rightarrow> ask g1)"

definition GitHub_Authenticate :: "unicode_tables \<Rightarrow> bytes \<Rightarrow> github \<Rightarrow> auth_env \<Rightarrow> endpoint \<Rightarrow> string \<Rightarrow> string \<Rightarrow> operation
    \<Rightarrow> github \<times> (auth_error + auth_result)" where
  "GitHub_Authenticate u hk g env ep username password op' =
     (if IsPublic u ep \<and> op' = OperationDownload
      then (g, Inr (no_result\<lparr>res_Authenticated := True, res_Authorized := True\<rparr>))
      else if password = [] then (g, Inr no_result)
      else let key = cacheKey hk password (ep_Path ep) in
        case lookup g env ep password key of
          (g1, Inl e) \<Rightarrow> (g1, Inl e)
        | (g1, Inr acc) \<Rightarrow>
          if needsProbe acc op' then
            (case share (ae_left_probe env) (probeContents g1 env ep password key op' acc) of
               (g2, Inl e) \<Rightarrow> (g2, Inl e)
             | (g2, Inr acc2) \<Rightarrow> (g2, Inr (access_result acc2 op')))
          else (g1, Inr (access_result acc op')))"

section \<open>The authenticator as an interface\<close>

text \<open>What the request handlers rely on, whichever authenticator an endpoint has: only authenticated callers
  are authorized and only authorized ones are maintainers.\<close>

locale authenticator =
  fixes invar :: "'s \<Rightarrow> bool"
    and authenticate :: "'s \<Rightarrow> 'e \<Rightarrow> endpoint \<Rightarrow> string \<Rightarrow> string \<Rightarrow> operation \<Rightarrow> 's \<times> (auth_error + auth_result)"
  assumes invar_step: "invar s \<Longrightarrow> invar (fst (authenticate s env ep user pw op'))"
    and authorized_authenticated: "invar s \<Longrightarrow> snd (authenticate s env ep user pw op') = Inr r \<Longrightarrow>
      res_Authorized r \<Longrightarrow> res_Authenticated r"
    and maintainer_authorized: "invar s \<Longrightarrow> snd (authenticate s env ep user pw op') = Inr r \<Longrightarrow>
      res_Maintainer r \<Longrightarrow> res_Authorized r"
begin

lemma maintainer_authenticated:
  "invar s \<Longrightarrow> snd (authenticate s env ep user pw op') = Inr r \<Longrightarrow> res_Maintainer r \<Longrightarrow> res_Authenticated r"
  using authorized_authenticated maintainer_authorized by blast

text \<open>Any number of calls keeps the invariant.\<close>

fun calls :: "'s \<Rightarrow> ('e \<times> endpoint \<times> string \<times> string \<times> operation) list \<Rightarrow> 's" where
  "calls s [] = s"
| "calls s ((env, ep, user, pw, op') # cs) = calls (fst (authenticate s env ep user pw op')) cs"

lemma invar_calls: "invar s \<Longrightarrow> invar (calls s cs)"
  by (induction s cs rule: calls.induct) (auto simp: invar_step)

end

definition None_step :: "unit \<Rightarrow> unit \<Rightarrow> endpoint \<Rightarrow> string \<Rightarrow> string \<Rightarrow> operation \<Rightarrow> unit \<times> (auth_error + auth_result)" where
  "None_step s env ep user pw op' = ((), None_Authenticate user pw op')"

interpretation none_auth: authenticator "\<lambda>_. True" None_step
  by unfold_locales (auto simp: None_step_def None_Authenticate_def)

text \<open>For GitHub the invariant is that a cached role belongs to a valid token.\<close>

definition access_ok :: "access \<Rightarrow> bool" where
  "access_ok a \<longleftrightarrow> (ac_pull a \<or> ac_push a \<longrightarrow> ac_authenticated a)"

definition github_ok :: "github \<Rightarrow> bool" where
  "github_ok g \<longleftrightarrow> (\<forall>k e. cache_map g k = Some e \<longrightarrow> access_ok (ce_access e))"

lemma access_ok_simps [simp]:
  "access_ok no_access" "access_ok (no_access\<lparr>ac_authenticated := b\<rparr>)" "access_ok (withProbe a op' pr) = access_ok a"
  by (auto simp: access_ok_def no_access_def withProbe_def split: operation.split)

lemma cache_map_simps [simp]:
  "cache_map (g\<lparr>gh_hits := n\<rparr>) = cache_map g" "cache_map (g\<lparr>gh_misses := n\<rparr>) = cache_map g"
  "cache_map (g\<lparr>gh_stopCh := b\<rparr>) = cache_map g" "cache_map (g\<lparr>gh_cache := Some m\<rparr>) = m"
  by (simp_all add: cache_map_def)

lemma cacheStore_map:
  "cache_map (cacheStoreIfEnabled g now key acc) k = Some e \<Longrightarrow>
     cache_map g k = Some e \<or> (k = key \<and> ce_access e = acc \<and> ce_expires e \<le> now + gh_cacheTTL g)"
  by (auto simp: cacheStoreIfEnabled_def Let_def split: if_splits)

lemma cacheLookup_map: "cacheLookup g now key = (g1, r) \<Longrightarrow> cache_map g1 k = Some e \<Longrightarrow> cache_map g k = Some e"
  by (auto simp: cacheLookup_def split: option.splits if_splits)

lemma cacheLookup_Some: "cacheLookup g now key = (g1, Some a) \<Longrightarrow> g1 = g \<and> (\<exists>e. cache_map g key = Some e \<and> a = ce_access e \<and> now \<le> ce_expires e)"
  by (auto simp: cacheLookup_def split: option.splits if_splits)

lemma cacheRecord_map:
  "cache_map (cacheRecordProbe g key op' pr) k = Some e \<Longrightarrow>
     \<exists>e0. cache_map g k = Some e0 \<and> ce_expires e = ce_expires e0 \<and>
       (ce_access e = ce_access e0 \<or> (k = key \<and> ce_access e = withProbe (ce_access e0) op' pr))"
  by (auto simp: cacheRecordProbe_def split: option.splits if_splits)

lemma sweep_map: "cache_map (sweep g now) k = Some e \<Longrightarrow> cache_map g k = Some e \<and> now \<le> ce_expires e"
  by (auto simp: sweep_def cache_map_def split: option.splits if_splits)

text \<open>GitHub's answer to a lookup does not depend on the cache.\<close>

definition fetch_answer :: "auth_env \<Rightarrow> endpoint \<Rightarrow> string \<Rightarrow> auth_error + access" where
  "fetch_answer env ep token = snd (fetchAccess (NewGitHub 0) env ep token [])"

lemma fetchAccess_snd: "snd (fetchAccess g env ep token key) = fetch_answer env ep token"
  by (auto simp: fetch_answer_def fetchAccess_def Let_def split: sum.splits option.splits)

lemma fetchAccess_fst: "fst (fetchAccess g env ep token key) = g \<or>
    (\<exists>a. fetch_answer env ep token = Inr a \<and> fst (fetchAccess g env ep token key) = cacheStoreIfEnabled g (ae_fetch env) key a)"
  by (auto simp: fetch_answer_def fetchAccess_def Let_def split: sum.splits option.splits)

lemma gh_ttl [simp]:
  "gh_cacheTTL (cacheStoreIfEnabled g now key a) = gh_cacheTTL g" "gh_cacheTTL (cacheRecordProbe g key op' pr) = gh_cacheTTL g"
  "gh_cacheTTL (fst (cacheLookup g now key)) = gh_cacheTTL g" "gh_cacheTTL (sweep g now) = gh_cacheTTL g"
  by (auto simp: cacheStoreIfEnabled_def cacheRecordProbe_def cacheLookup_def sweep_def Let_def split: option.split)

text \<open>
  The induction behind both invariants of the cache. Let \<open>Q\<close> be a property of a key, an expiry and an access
  that GitHub's answers have when they are stored and that recording a probe keeps. Then every entry and
  every access a call decides on has it.
\<close>

definition entries :: "(string \<Rightarrow> instant \<Rightarrow> access \<Rightarrow> bool) \<Rightarrow> github \<Rightarrow> bool" where
  "entries Q g \<longleftrightarrow> (\<forall>k e. cache_map g k = Some e \<longrightarrow> Q k (ce_expires e) (ce_access e))"

lemma entries_store:
  "entries Q g \<Longrightarrow> (\<And>ex. ex \<le> now + gh_cacheTTL g \<Longrightarrow> Q key ex a) \<Longrightarrow> entries Q (cacheStoreIfEnabled g now key a)"
  unfolding entries_def using cacheStore_map by fastforce

lemma entries_lookup: "entries Q g \<Longrightarrow> cacheLookup g now key = (g1, r) \<Longrightarrow> entries Q g1"
  unfolding entries_def by (meson cacheLookup_map)

lemma entries_record:
  "entries Q g \<Longrightarrow> (\<And>ex a. Q key ex a \<Longrightarrow> Q key ex (withProbe a op' pr)) \<Longrightarrow> entries Q (cacheRecordProbe g key op' pr)"
  unfolding entries_def using cacheRecord_map [of g key op' pr] by fastforce

lemma entries_sweep: "entries Q g \<Longrightarrow> entries Q (sweep g now)"
  unfolding entries_def by (meson sweep_map)

text \<open>The clock does not run backwards during a call, and the cache lifetime is not negative.\<close>

definition timely :: "github \<Rightarrow> auth_env \<Rightarrow> bool" where
  "timely g env \<longleftrightarrow> 0 \<le> gh_cacheTTL g \<and> ae_lookup env \<le> ae_repo env \<and> ae_repo env \<le> ae_user env \<and>
     ae_user env \<le> ae_fetch env \<and> ae_fetch env \<le> ae_recheck env \<and> ae_recheck env \<le> ae_answer env \<and> ae_answer env \<le> ae_probe env"

lemma lookup_entries:
  assumes "lookup g env ep token key = (g1, r)" "entries Q g"
    and fetch: "snd (cacheLookup g (ae_lookup env) key) = None \<longrightarrow>
      (\<forall>ex a. fetch_answer env ep token = Inr a \<longrightarrow> ex \<le> ae_fetch env + gh_cacheTTL g \<longrightarrow> Q key ex a)"
  shows "entries Q g1" "gh_cacheTTL g1 = gh_cacheTTL g"
    and "r = Inr a \<Longrightarrow> \<exists>ex. (timely g env \<longrightarrow> ae_lookup env \<le> ex) \<and> Q key ex a"
proof -
  obtain g0 c where c: "cacheLookup g (ae_lookup env) key = (g0, c)" by force
  have g0: "entries Q g0" "gh_cacheTTL g0 = gh_cacheTTL g"
    using entries_lookup [OF assms(2) c] gh_ttl(3) [of g "ae_lookup env" key] c by simp_all
  let ?g = "g0\<lparr>gh_misses := gh_misses g0 + 1\<rparr>"
  have "entries Q g1 \<and> gh_cacheTTL g1 = gh_cacheTTL g \<and> (\<forall>a. r = Inr a \<longrightarrow> (\<exists>ex. (timely g env \<longrightarrow> ae_lookup env \<le> ex) \<and> Q key ex a))"
  proof (cases c)
    case (Some a)
    then have "g1 = g0\<lparr>gh_hits := gh_hits g0 + 1\<rparr>" "r = Inr a" using assms(1) c by (simp_all add: lookup_def)
    moreover obtain e where "cache_map g key = Some e" "a = ce_access e" "ae_lookup env \<le> ce_expires e"
      using cacheLookup_Some c Some by blast
    ultimately show ?thesis using g0 assms(2) by (auto simp: entries_def)
  next
    case None
    with fetch c have fetch': "\<forall>ex a. fetch_answer env ep token = Inr a \<longrightarrow> ex \<le> ae_fetch env + gh_cacheTTL g \<longrightarrow> Q key ex a" by simp
    have f: "entries Q (fst (fetchAccess ?g env ep token key))" "gh_cacheTTL (fst (fetchAccess ?g env ep token key)) = gh_cacheTTL g"
      using fetchAccess_fst [of ?g env ep token key] g0 fetch' entries_store [of Q ?g "ae_fetch env" key]
      by (auto simp: entries_def [of Q "g0\<lparr>gh_misses := gh_misses g0 + 1\<rparr>"] entries_def [of Q g0])
    have s: "(g1, r) = share (ae_left_fetch env) (fetchAccess ?g env ep token key)" using None assms(1) c by (simp add: lookup_def)
    then have "g1 = fst (fetchAccess ?g env ep token key)" "r = Inr a \<Longrightarrow> fetch_answer env ep token = Inr a" for a
      using fetchAccess_snd [of ?g env ep token key] by (auto simp: share_def split: prod.splits if_splits)
    moreover have "timely g env \<longrightarrow> ae_lookup env \<le> ae_fetch env + gh_cacheTTL g" by (simp add: timely_def)
    ultimately show ?thesis using f fetch' by auto
  qed
  then show "entries Q g1" "gh_cacheTTL g1 = gh_cacheTTL g" "r = Inr a \<Longrightarrow> \<exists>ex. (timely g env \<longrightarrow> ae_lookup env \<le> ex) \<and> Q key ex a" by blast+
qed

definition probe_pending :: "access option \<Rightarrow> operation \<Rightarrow> bool" where
  "probe_pending cached op' \<longleftrightarrow> (case cached of None \<Rightarrow> True | Some a \<Rightarrow> needsProbe a op')"

text \<open>Whether a call asks GitHub for the role, and whether it asks for the probe.\<close>

definition asks_role :: "unicode_tables \<Rightarrow> bytes \<Rightarrow> github \<Rightarrow> auth_env \<Rightarrow> endpoint \<Rightarrow> string \<Rightarrow> operation \<Rightarrow> bool" where
  "asks_role u hk g env ep token op' \<longleftrightarrow> \<not> (IsPublic u ep \<and> op' = OperationDownload) \<and> token \<noteq> [] \<and>
     snd (cacheLookup g (ae_lookup env) (cacheKey hk token (ep_Path ep))) = None"

definition asks_probe :: "unicode_tables \<Rightarrow> bytes \<Rightarrow> github \<Rightarrow> auth_env \<Rightarrow> endpoint \<Rightarrow> string \<Rightarrow> operation \<Rightarrow> bool" where
  "asks_probe u hk g env ep token op' \<longleftrightarrow> \<not> (IsPublic u ep \<and> op' = OperationDownload) \<and> token \<noteq> [] \<and>
     (case lookup g env ep token (cacheKey hk token (ep_Path ep)) of
        (_, Inl _) \<Rightarrow> False
      | (g1, Inr acc) \<Rightarrow> needsProbe acc op' \<and>
          probe_pending (snd (cacheLookup g1 (ae_recheck env) (cacheKey hk token (ep_Path ep)))) op')"

lemma probe_entries:
  assumes "probeContents g env ep token key op' acc = (g1, r)" "entries Q g"
    and acc: "T \<longrightarrow> ae_lookup env \<le> ex0" "Q key ex0 acc" "T \<longrightarrow> ae_lookup env \<le> ae_recheck env"
    and unauth: "\<forall>ex. Q key ex no_access"
    and probe: "probe_pending (snd (cacheLookup g (ae_recheck env) key)) op' \<longrightarrow>
      (\<forall>ex a pr. Q key ex a \<longrightarrow> probeOutcome (ae_probe env) (probe_request (ae_api env) ep token op') = Inr pr \<longrightarrow>
        Q key ex (withProbe a op' pr))"
  shows "entries Q g1" "r = Inr a \<Longrightarrow> \<exists>ex. (T \<longrightarrow> ae_lookup env \<le> ex) \<and> Q key ex a"
proof -
  obtain g0 c where c: "cacheLookup g (ae_recheck env) key = (g0, c)" by force
  have g0: "entries Q g0" by (rule entries_lookup [OF assms(2) c])
  let ?err = "probe_request (ae_api env) ep token op'"
  have "entries Q g1 \<and> (\<forall>a. r = Inr a \<longrightarrow> (\<exists>ex. (T \<longrightarrow> ae_lookup env \<le> ex) \<and> Q key ex a))"
  proof (cases "\<exists>a. c = Some a \<and> \<not> needsProbe a op'")
    case True
    then obtain a where a: "c = Some a" "\<not> needsProbe a op'" by blast
    with assms(1) c have "g1 = g0" "r = Inr a" by (simp_all add: probeContents_def)
    moreover obtain e where "cache_map g key = Some e" "a = ce_access e" "ae_recheck env \<le> ce_expires e"
      using cacheLookup_Some c a(1) by blast
    ultimately show ?thesis using g0 assms(2) acc(3) by (auto simp: entries_def intro!: exI [of _ "ce_expires e"])
  next
    case False
    then have "(g1, r) = (if isUnauthorized ?err then (cacheStoreIfEnabled g0 (ae_probe env) key no_access, Inr no_access)
        else case probeOutcome (ae_probe env) ?err of Inl e \<Rightarrow> (g0, Inl e)
          | Inr outcome \<Rightarrow> (cacheRecordProbe g0 key op' outcome, Inr (withProbe acc op' outcome)))"
      using assms(1) c by (auto simp: probeContents_def Let_def split: option.splits)
    then consider "g1 = cacheStoreIfEnabled g0 (ae_probe env) key no_access" "r = Inr no_access"
      | e where "g1 = g0" "r = Inl e"
      | pr where "probeOutcome (ae_probe env) ?err = Inr pr" "g1 = cacheRecordProbe g0 key op' pr" "r = Inr (withProbe acc op' pr)"
      by (auto split: if_splits sum.splits)
    then show ?thesis
    proof cases
      case 1
      with unauth entries_store [OF g0] show ?thesis by auto
    next
      case 2
      with g0 show ?thesis by simp
    next
      case (3 pr)
      have "probe_pending c op'" using False by (auto simp: probe_pending_def split: option.split)
      with 3 probe c have p: "Q key ex a \<Longrightarrow> Q key ex (withProbe a op' pr)" for ex a by simp
      have "entries Q (cacheRecordProbe g0 key op' pr)" by (rule entries_record [OF g0 p])
      moreover have "Q key ex0 (withProbe acc op' pr)" by (rule p [OF acc(2)])
      ultimately show ?thesis using 3 acc(1) by blast
    qed
  qed
  then show "entries Q g1" "r = Inr a \<Longrightarrow> \<exists>ex. (T \<longrightarrow> ae_lookup env \<le> ex) \<and> Q key ex a" by blast+
qed

lemma Authenticate_entries:
  assumes "GitHub_Authenticate u hk g env ep user token op' = (g', r)" "entries Q g"
    and fetch: "asks_role u hk g env ep token op' \<longrightarrow>
      (\<forall>ex a. fetch_answer env ep token = Inr a \<longrightarrow> ex \<le> ae_fetch env + gh_cacheTTL g \<longrightarrow> Q (cacheKey hk token (ep_Path ep)) ex a)"
    and unauth: "\<forall>ex. Q (cacheKey hk token (ep_Path ep)) ex no_access"
    and probe: "asks_probe u hk g env ep token op' \<longrightarrow>
      (\<forall>ex a pr. Q (cacheKey hk token (ep_Path ep)) ex a \<longrightarrow>
        probeOutcome (ae_probe env) (probe_request (ae_api env) ep token op') = Inr pr \<longrightarrow>
        Q (cacheKey hk token (ep_Path ep)) ex (withProbe a op' pr))"
  shows "entries Q g'"
    and "r = Inr res \<Longrightarrow> (IsPublic u ep \<and> op' = OperationDownload) \<or> (token = [] \<and> res = no_result) \<or>
      (\<exists>ex a. res = access_result a op' \<and> (timely g env \<longrightarrow> ae_lookup env \<le> ex) \<and> Q (cacheKey hk token (ep_Path ep)) ex a)"
proof -
  let ?key = "cacheKey hk token (ep_Path ep)"
  have "entries Q g' \<and> (\<forall>res. r = Inr res \<longrightarrow> (IsPublic u ep \<and> op' = OperationDownload) \<or> (token = [] \<and> res = no_result) \<or>
      (\<exists>ex a. res = access_result a op' \<and> (timely g env \<longrightarrow> ae_lookup env \<le> ex) \<and> Q ?key ex a))"
  proof (cases "(IsPublic u ep \<and> op' = OperationDownload) \<or> token = []")
    case True
    with assms(1,2) show ?thesis by (auto simp: GitHub_Authenticate_def split: if_splits)
  next
    case False
    obtain g1 r1 where l: "lookup g env ep token ?key = (g1, r1)" by force
    from fetch False have fetch': "snd (cacheLookup g (ae_lookup env) ?key) = None \<longrightarrow>
        (\<forall>ex a. fetch_answer env ep token = Inr a \<longrightarrow> ex \<le> ae_fetch env + gh_cacheTTL g \<longrightarrow> Q ?key ex a)" by (simp add: asks_role_def)
    note le = lookup_entries [OF l assms(2) fetch']
    show ?thesis
    proof (cases r1)
      case (Inl e)
      with False assms(1) l le show ?thesis by (auto simp: GitHub_Authenticate_def)
    next
      case (Inr acc)
      obtain ex0 where ex0: "timely g env \<longrightarrow> ae_lookup env \<le> ex0" "Q ?key ex0 acc" using le(3) [OF Inr] by auto
      show ?thesis
      proof (cases "needsProbe acc op'")
        case no: False
        with False Inr assms(1) l have "g' = g1" "r = Inr (access_result acc op')"
          by (auto simp: GitHub_Authenticate_def split: if_splits)
        with le(1) ex0 show ?thesis by blast
      next
        case True
        obtain g2 r2 where p: "probeContents g1 env ep token ?key op' acc = (g2, r2)" by force
        have t: "timely g env \<longrightarrow> ae_lookup env \<le> ae_recheck env" by (auto simp: timely_def)
        have "probe_pending (snd (cacheLookup g1 (ae_recheck env) ?key)) op' \<longrightarrow>
            (\<forall>ex a pr. Q ?key ex a \<longrightarrow> probeOutcome (ae_probe env) (probe_request (ae_api env) ep token op') = Inr pr \<longrightarrow>
              Q ?key ex (withProbe a op' pr))"
          using probe False l Inr True by (simp add: asks_probe_def)
        note pe = probe_entries [OF p le(1) ex0(1,2) t unauth this]
        have "g' = g2" "r = Inr res \<Longrightarrow> \<exists>a. r2 = Inr a \<and> res = access_result a op'" for res
          using assms(1) False l Inr True p
          by (auto simp: GitHub_Authenticate_def share_def split: sum.splits if_splits)
        with pe show ?thesis by blast
      qed
    qed
  qed
  then show "entries Q g'" "r = Inr res \<Longrightarrow> (IsPublic u ep \<and> op' = OperationDownload) \<or> (token = [] \<and> res = no_result) \<or>
      (\<exists>ex a. res = access_result a op' \<and> (timely g env \<longrightarrow> ae_lookup env \<le> ex) \<and> Q ?key ex a)" by blast+
qed

section \<open>What GitHub said\<close>

text \<open>The role GitHub reports for a token, and what counts as a passed contents probe.\<close>

definition role_answer :: "github_api \<Rightarrow> endpoint \<Rightarrow> string \<Rightarrow> access \<Rightarrow> bool" where
  "role_answer api ep token a \<longleftrightarrow>
     (\<exists>repo perms. api_repo api token (ep_GitHubOwner ep) (ep_GitHubRepo ep) = Inr repo \<and> rp_permissions repo = Some perms \<and>
        api_user api token = Inr (ac_username a) \<and> ac_private a = rp_private repo \<and> ac_pull a = perms ''pull'' \<and>
        ac_push a = perms ''push'' \<and> ac_maintainer a = (perms ''maintain'' \<or> perms ''admin''))"

definition probe_allows :: "github_api \<Rightarrow> endpoint \<Rightarrow> string \<Rightarrow> operation \<Rightarrow> bool" where
  "probe_allows api ep token op' \<longleftrightarrow>
     (case probe_request api ep token op' of
        None \<Rightarrow> True
      | Some (GhResponse (Some rsp)) \<Rightarrow> rs_status rsp \<in> {409, 422}
      | _ \<Rightarrow> False)"

lemma probeOutcome_allowed:
  "probeOutcome now (probe_request api ep token op') = Inr probeAllowed \<longleftrightarrow> probe_allows api ep token op'"
  by (auto simp: probeOutcome_def probe_allows_def Let_def split: option.splits gh_error.splits sum.splits)

lemma role_answer_withProbe [simp]: "role_answer api ep token (withProbe a op' pr) = role_answer api ep token a"
  by (simp add: role_answer_def withProbe_def split: operation.split)

lemma classify_no_role: "classifyGitHubError now err = Inr a \<Longrightarrow> \<not> ac_pull a \<and> \<not> ac_push a"
  by (auto simp: classifyGitHubError_def no_access_def split: gh_error.splits option.splits if_splits)

lemma fetch_answer_role:
  assumes "fetch_answer env ep token = Inr a"
  shows "(ac_pull a \<or> ac_push a \<longrightarrow> ac_authenticated a \<and> role_answer (ae_api env) ep token a \<and>
      ac_read a = probeUnchecked \<and> ac_write a = probeUnchecked)"
proof (cases "\<exists>repo perms login. api_repo (ae_api env) token (ep_GitHubOwner ep) (ep_GitHubRepo ep) = Inr repo \<and>
    rp_permissions repo = Some perms \<and> api_user (ae_api env) token = Inr login")
  case True
  then show ?thesis
    using assms by (auto simp: fetch_answer_def fetchAccess_def role_answer_def no_access_def Let_def)
next
  case False
  with assms have "\<not> ac_pull a \<and> \<not> ac_push a"
    by (auto simp: fetch_answer_def fetchAccess_def no_access_def Let_def dest: classify_no_role
        split: sum.splits option.splits)
  then show ?thesis by simp
qed

lemma fetch_answer_ok: "fetch_answer env ep token = Inr a \<Longrightarrow> access_ok a"
  using fetch_answer_role by (auto simp: access_ok_def)

lemma GitHub_public:
  "IsPublic u ep \<and> op' = OperationDownload \<Longrightarrow>
     GitHub_Authenticate u hk g env ep user pw op' = (g, Inr (no_result\<lparr>res_Authenticated := True, res_Authorized := True\<rparr>))"
  by (simp add: GitHub_Authenticate_def)

lemma access_result_laws:
  "res_Authorized (access_result a op') \<Longrightarrow> access_ok a \<Longrightarrow> res_Authenticated (access_result a op')"
  "res_Maintainer (access_result a op') \<Longrightarrow> res_Authorized (access_result a op')"
  by (auto simp: access_result_def access_ok_def no_result_def Let_def split: operation.splits)

lemma no_result_simps [simp]: "\<not> res_Authorized no_result" "\<not> res_Maintainer no_result"
  by (simp_all add: no_result_def)

interpretation github_auth: authenticator github_ok "GitHub_Authenticate u hk" for u hk
proof (unfold_locales, goal_cases)
  case (1 s env ep user pw op')
  have "entries (\<lambda>_ _. access_ok) (fst (GitHub_Authenticate u hk s env ep user pw op'))"
    by (rule Authenticate_entries(1) [OF surjective_pairing, where Q = "\<lambda>_ _. access_ok"])
      (use 1 in \<open>auto simp: entries_def github_ok_def intro: fetch_answer_ok\<close>)
  then show ?case by (simp add: entries_def github_ok_def)
next
  case (2 s env ep user pw op' r)
  have "(IsPublic u ep \<and> op' = OperationDownload) \<or> (pw = [] \<and> r = no_result) \<or>
      (\<exists>ex a. r = access_result a op' \<and> (timely s env \<longrightarrow> ae_lookup env \<le> ex) \<and> access_ok a)"
    by (rule Authenticate_entries(2) [OF surjective_pairing _ _ _ _ 2(2), where Q = "\<lambda>_ _. access_ok"])
      (use 2(1) in \<open>auto simp: entries_def github_ok_def intro: fetch_answer_ok\<close>)
  then show ?case
  proof (elim disjE exE conjE)
    assume "IsPublic u ep" "op' = OperationDownload"
    with GitHub_public [of u ep op' hk s env user pw] 2 show ?case by auto
  qed (use 2(3) access_result_laws in auto)
next
  case (3 s env ep user pw op' r)
  have "(IsPublic u ep \<and> op' = OperationDownload) \<or> (pw = [] \<and> r = no_result) \<or>
      (\<exists>ex a. r = access_result a op' \<and> (timely s env \<longrightarrow> ae_lookup env \<le> ex) \<and> True)"
    by (rule Authenticate_entries(2) [OF surjective_pairing _ _ _ _ 3(2), where Q = "\<lambda>_ _ _. True"]) (simp_all add: entries_def)
  then show ?case
  proof (elim disjE exE conjE)
    assume "IsPublic u ep" "op' = OperationDownload"
    with GitHub_public [of u ep op' hk s env user pw] 3 show ?case by auto
  qed (use 3(3) access_result_laws in auto)
qed

section \<open>The age of a decision\<close>

text \<open>An answer GitHub gave to a question of a call, about a role or a probe: since when it stood (for a role, since the first of
  its two requests was answered), when the call was through with it, what GitHub said, and whom it was about.\<close>

record gh_answer =
  qa_since :: instant
  qa_until :: instant
  qa_api :: github_api
  qa_endpoint :: endpoint
  qa_token :: string
  qa_probe :: "operation option"

type_synonym gh_history = "gh_answer set"

text \<open>The answers a call gets: only to the questions it asks.\<close>

definition seen :: "unicode_tables \<Rightarrow> bytes \<Rightarrow> github \<Rightarrow> auth_env \<Rightarrow> endpoint \<Rightarrow> string \<Rightarrow> operation \<Rightarrow> gh_history" where
  "seen u hk g env ep token op' =
     (if asks_role u hk g env ep token op'
      then {\<lparr>qa_since = ae_repo env, qa_until = ae_fetch env, qa_api = ae_api env, qa_endpoint = ep, qa_token = token, qa_probe = None\<rparr>}
      else {}) \<union>
     (if asks_probe u hk g env ep token op'
      then {\<lparr>qa_since = ae_answer env, qa_until = ae_probe env, qa_api = ae_api env, qa_endpoint = ep, qa_token = token, qa_probe = Some op'\<rparr>}
      else {})"

text \<open>A history of one authenticator: calls for configured endpoints and sweeps, in the order of the clock,
  with every answer GitHub gave.\<close>

inductive gh_reach :: "unicode_tables \<Rightarrow> bytes \<Rightarrow> (string \<Rightarrow> endpoint) \<Rightarrow> duration \<Rightarrow> github \<Rightarrow> gh_history \<Rightarrow> instant \<Rightarrow> bool"
  for u hk epof ttl where
  start: "gh_reach u hk epof ttl (NewGitHub ttl) {} t"
| auth: "gh_reach u hk epof ttl g H t \<Longrightarrow> t \<le> ae_lookup env \<Longrightarrow> timely g env \<Longrightarrow>
    GitHub_Authenticate u hk g env (epof p) user token op' = (g', r) \<Longrightarrow>
    gh_reach u hk epof ttl g' (H \<union> seen u hk g env (epof p) token op') (ae_probe env)"
| sweep: "gh_reach u hk epof ttl g H t \<Longrightarrow> t \<le> now \<Longrightarrow> gh_reach u hk epof ttl (sweep g now) H now"

text \<open>An access is justified until \<open>ex\<close> if GitHub reported its role, and passed the probes it records, recently enough: the
  cache lifetime counts from the moment the lookup was through, so an answer's age is at most the cache lifetime and the
  time from GitHub's answer to the end of that lookup. The cache knows tokens only by their HMAC, so this is about the
  tokens with the same HMAC.\<close>

definition evidence :: "bytes \<Rightarrow> gh_history \<Rightarrow> duration \<Rightarrow> endpoint \<Rightarrow> string \<Rightarrow> instant \<Rightarrow> operation option
    \<Rightarrow> (github_api \<Rightarrow> string \<Rightarrow> bool) \<Rightarrow> bool" where
  "evidence hk H ttl ep token ex question P \<longleftrightarrow>
     (\<exists>x \<in> H. qa_endpoint x = ep \<and> qa_probe x = question \<and> hmac_sha256 hk (qa_token x) = hmac_sha256 hk token \<and>
        P (qa_api x) (qa_token x) \<and> qa_since x \<le> qa_until x \<and> ex - qa_since x \<le> ttl + (qa_until x - qa_since x))"

definition justified :: "bytes \<Rightarrow> gh_history \<Rightarrow> duration \<Rightarrow> endpoint \<Rightarrow> string \<Rightarrow> instant \<Rightarrow> access \<Rightarrow> bool" where
  "justified hk H ttl ep token ex a \<longleftrightarrow>
     (ac_pull a \<or> ac_push a \<longrightarrow> evidence hk H ttl ep token ex None (\<lambda>api tk. role_answer api ep tk a)) \<and>
     (ac_pull a \<and> ac_read a = probeAllowed \<longrightarrow>
       evidence hk H ttl ep token ex (Some OperationDownload) (\<lambda>api tk. probe_allows api ep tk OperationDownload)) \<and>
     (ac_push a \<and> ac_write a = probeAllowed \<longrightarrow>
       evidence hk H ttl ep token ex (Some OperationUpload) (\<lambda>api tk. probe_allows api ep tk OperationUpload))"

definition entry_justified :: "bytes \<Rightarrow> (string \<Rightarrow> endpoint) \<Rightarrow> gh_history \<Rightarrow> duration \<Rightarrow> string \<Rightarrow> instant \<Rightarrow> access \<Rightarrow> bool" where
  "entry_justified hk epof H ttl k ex a \<longleftrightarrow> (\<exists>token p. k = cacheKey hk token p \<and> justified hk H ttl (epof p) token ex a)"

lemma cacheKey_inject:
  "cacheKey hk token p = cacheKey hk token' p' \<longleftrightarrow> hmac_sha256 hk token = hmac_sha256 hk token' \<and> p = p'"
proof
  assume "cacheKey hk token p = cacheKey hk token' p'"
  then have "hex_encode (hmac_sha256 hk token) = hex_encode (hmac_sha256 hk token') \<and> p = p'"
    by (simp add: cacheKey_def append_eq_append_conv)
  then show "hmac_sha256 hk token = hmac_sha256 hk token' \<and> p = p'" by (metis hex_decode_encode option.inject)
qed (simp add: cacheKey_def)

lemma evidence_mono: "evidence hk H ttl ep token ex q P \<Longrightarrow> H \<subseteq> H' \<Longrightarrow> evidence hk H' ttl ep token ex q P"
  unfolding evidence_def by blast

lemma evidenceI:
  "\<lparr>qa_since = t0, qa_until = t1, qa_api = api, qa_endpoint = ep, qa_token = token, qa_probe = q\<rparr> \<in> H \<Longrightarrow> t0 \<le> t1 \<Longrightarrow> ex \<le> t1 + ttl \<Longrightarrow>
     P api token \<Longrightarrow> evidence hk H ttl ep token ex q P"
  unfolding evidence_def by force

lemma justified_mono: "justified hk H ttl ep token ex a \<Longrightarrow> H \<subseteq> H' \<Longrightarrow> justified hk H' ttl ep token ex a"
  unfolding justified_def using evidence_mono by blast

lemma justified_no_access [simp]: "justified hk H ttl ep token ex no_access"
  by (simp add: justified_def no_access_def)

lemma justified_same_token:
  "hmac_sha256 hk token' = hmac_sha256 hk token \<Longrightarrow> justified hk H ttl ep token' ex a = justified hk H ttl ep token ex a"
  by (simp add: justified_def evidence_def)

lemma entry_justified_key: "entry_justified hk epof H ttl (cacheKey hk token p) ex a = justified hk H ttl (epof p) token ex a"
  unfolding entry_justified_def cacheKey_inject by (metis justified_same_token)

lemma justified_withProbe:
  assumes "justified hk H ttl ep token ex a" "probeOutcome now (probe_request api ep token op') = Inr pr"
    and "\<lparr>qa_since = t0, qa_until = now, qa_api = api, qa_endpoint = ep, qa_token = token, qa_probe = Some op'\<rparr> \<in> H"
    and "t0 \<le> now" "\<forall>x \<in> H. qa_until x \<le> now"
  shows "justified hk H ttl ep token ex (withProbe a op' pr)"
proof -
  have "ex \<le> now + ttl" if "ac_pull a \<or> ac_push a"
    using assms(1,5) that by (fastforce simp: justified_def evidence_def)
  then have "evidence hk H ttl ep token ex (Some op') (\<lambda>api tk. probe_allows api ep tk op')"
    if "ac_pull a \<or> ac_push a" "pr = probeAllowed"
    using that assms(2,4) probeOutcome_allowed by (intro evidenceI [OF assms(3)]) auto
  then show ?thesis
    using assms(1) by (cases op') (auto simp: justified_def role_answer_def withProbe_def)
qed

lemma cacheLookup_ttl: "cacheLookup g now key = (g1, c) \<Longrightarrow> gh_cacheTTL g1 = gh_cacheTTL g"
  using gh_ttl(3) [of g now key] by simp

lemma fetchAccess_ttl: "gh_cacheTTL (fst (fetchAccess g env ep token key)) = gh_cacheTTL g"
  using fetchAccess_fst [of g env ep token key] by auto

lemma fst_share [simp]: "fst (share left x) = fst x"
  by (simp add: share_def split: prod.split)

lemma lookup_ttl: "gh_cacheTTL (fst (lookup g env ep token key)) = gh_cacheTTL g"
proof (cases "cacheLookup g (ae_lookup env) key")
  case (Pair g1 c)
  then show ?thesis
    using cacheLookup_ttl [OF Pair] by (cases c) (simp_all add: lookup_def fetchAccess_ttl)
qed

lemma probeContents_ttl: "gh_cacheTTL (fst (probeContents g env ep token key op' acc)) = gh_cacheTTL g"
proof (cases "cacheLookup g (ae_recheck env) key")
  case (Pair g1 c)
  then show ?thesis
    using cacheLookup_ttl [OF Pair]
    by (cases c) (simp_all add: probeContents_def Let_def split: sum.split)
qed

lemma Authenticate_ttl: "gh_cacheTTL (fst (GitHub_Authenticate u hk g env ep user token op')) = gh_cacheTTL g"
proof -
  obtain g1 r1 where l: "lookup g env ep token (cacheKey hk token (ep_Path ep)) = (g1, r1)" by force
  then have "gh_cacheTTL g1 = gh_cacheTTL g" using lookup_ttl [of g env ep token "cacheKey hk token (ep_Path ep)"] by simp
  moreover have "gh_cacheTTL (fst (case x of (g2, Inl e) \<Rightarrow> (g2, Inl e) | (g2, Inr a) \<Rightarrow> (g2, Inr (f a)))) = gh_cacheTTL (fst x)"
    for x :: "github \<times> (auth_error + access)" and f :: "access \<Rightarrow> auth_result"
    by (simp split: prod.split sum.split)
  ultimately show ?thesis
    by (cases r1) (simp_all add: GitHub_Authenticate_def l probeContents_ttl)
qed

text \<open>One call, with what was seen before it and during it.\<close>

lemma seen_until:
  assumes "\<forall>x \<in> H. qa_until x \<le> t" "t \<le> ae_lookup env" "timely g env"
  shows "\<forall>x \<in> H \<union> seen u hk g' env ep token op'. qa_until x \<le> ae_probe env"
proof
  fix x
  assume x: "x \<in> H \<union> seen u hk g' env ep token op'"
  have o: "t \<le> ae_probe env" "ae_fetch env \<le> ae_probe env" using assms(2,3) by (simp_all add: timely_def)
  from x show "qa_until x \<le> ae_probe env"
  proof
    assume "x \<in> H"
    with assms(1) o(1) show ?thesis by force
  qed (use o(2) in \<open>auto simp: seen_def split: if_splits\<close>)
qed

lemma call_justified:
  fixes u hk g env epof p token op'
  defines "new \<equiv> seen u hk g env (epof p) token op'"
  assumes "entries (entry_justified hk epof H ttl) g" "\<forall>x \<in> H. qa_until x \<le> t" "gh_cacheTTL g = ttl"
    and "t \<le> ae_lookup env" "timely g env" "ep_Path (epof p) = p"
    and "GitHub_Authenticate u hk g env (epof p) user token op' = (g', r)"
  shows "entries (entry_justified hk epof (H \<union> new) ttl) g'"
    and "r = Inr res \<Longrightarrow> (IsPublic u (epof p) \<and> op' = OperationDownload) \<or> (token = [] \<and> res = no_result) \<or>
      (\<exists>ex a. res = access_result a op' \<and> (timely g env \<longrightarrow> ae_lookup env \<le> ex) \<and>
        entry_justified hk epof (H \<union> new) ttl (cacheKey hk token p) ex a)"
proof -
  let ?H = "H \<union> new"
  let ?Q = "\<lambda>k ex a. entry_justified hk epof ?H ttl k ex a"
  have ent: "entries ?Q g"
    using assms(2) justified_mono [of hk H ttl _ _ _ _ ?H] unfolding entries_def entry_justified_def by blast
  have late: "\<forall>x \<in> ?H. qa_until x \<le> ae_probe env"
    unfolding new_def by (rule seen_until [OF assms(3,5,6)])
  have order: "ae_repo env \<le> ae_fetch env" "ae_answer env \<le> ae_probe env" using assms(6) by (simp_all add: timely_def)
  have fetch: "asks_role u hk g env (epof p) token op' \<longrightarrow>
      (\<forall>ex a. fetch_answer env (epof p) token = Inr a \<longrightarrow> ex \<le> ae_fetch env + gh_cacheTTL g \<longrightarrow> ?Q (cacheKey hk token p) ex a)"
  proof (intro impI allI)
    fix ex a
    assume ask: "asks_role u hk g env (epof p) token op'" and a: "fetch_answer env (epof p) token = Inr a" "ex \<le> ae_fetch env + gh_cacheTTL g"
    then have "\<lparr>qa_since = ae_repo env, qa_until = ae_fetch env, qa_api = ae_api env, qa_endpoint = epof p, qa_token = token, qa_probe = None\<rparr> \<in> ?H"
      by (simp add: new_def seen_def)
    from evidenceI [OF this order(1)] a(2) assms(4)
    have "role_answer (ae_api env) (epof p) token a \<Longrightarrow> evidence hk ?H ttl (epof p) token ex None (\<lambda>api tk. role_answer api (epof p) tk a)" by simp
    with fetch_answer_role [OF a(1)] show "?Q (cacheKey hk token p) ex a"
      unfolding entry_justified_key justified_def by auto
  qed
  have unauth: "\<forall>ex. ?Q (cacheKey hk token p) ex no_access" by (simp add: entry_justified_key)
  have probe: "asks_probe u hk g env (epof p) token op' \<longrightarrow>
      (\<forall>ex a pr. ?Q (cacheKey hk token p) ex a \<longrightarrow>
        probeOutcome (ae_probe env) (probe_request (ae_api env) (epof p) token op') = Inr pr \<longrightarrow>
        ?Q (cacheKey hk token p) ex (withProbe a op' pr))"
  proof (intro impI allI)
    fix ex a pr
    assume "asks_probe u hk g env (epof p) token op'"
    then have "\<lparr>qa_since = ae_answer env, qa_until = ae_probe env, qa_api = ae_api env, qa_endpoint = epof p, qa_token = token, qa_probe = Some op'\<rparr> \<in> ?H"
      by (simp add: new_def seen_def)
    note w = justified_withProbe [OF _ _ this order(2) late]
    assume "?Q (cacheKey hk token p) ex a" "probeOutcome (ae_probe env) (probe_request (ae_api env) (epof p) token op') = Inr pr"
    then show "?Q (cacheKey hk token p) ex (withProbe a op' pr)" unfolding entry_justified_key by (rule w)
  qed
  note A = Authenticate_entries [OF assms(8) ent, unfolded assms(7), OF fetch unauth probe]
  show "entries (entry_justified hk epof ?H ttl) g'" by (rule A(1))
  show "r = Inr res \<Longrightarrow> (IsPublic u (epof p) \<and> op' = OperationDownload) \<or> (token = [] \<and> res = no_result) \<or>
      (\<exists>ex a. res = access_result a op' \<and> (timely g env \<longrightarrow> ae_lookup env \<le> ex) \<and> ?Q (cacheKey hk token p) ex a)"
    by (rule A(2))
qed

lemma reach_justified:
  assumes "gh_reach u hk epof ttl g H t" "\<forall>p. ep_Path (epof p) = p"
  shows "gh_cacheTTL g = ttl \<and> (\<forall>x \<in> H. qa_until x \<le> t) \<and> entries (entry_justified hk epof H ttl) g"
  using assms(1)
proof induction
  case (start t)
  show ?case by (simp add: NewGitHub_def entries_def cache_map_def)
next
  case (auth g H t env p user token op' g' r)
  let ?new = "seen u hk g env (epof p) token op'"
  from auth.IH have IH: "gh_cacheTTL g = ttl" "\<forall>x \<in> H. qa_until x \<le> t" "entries (entry_justified hk epof H ttl) g" by blast+
  have "\<forall>x \<in> H \<union> ?new. qa_until x \<le> ae_probe env"
    by (rule seen_until [OF IH(2) auth.hyps(2,3)])
  moreover have "gh_cacheTTL g' = ttl"
    using Authenticate_ttl [of u hk g env "epof p" user token op'] auth.hyps(4) IH(1) by simp
  moreover have "entries (entry_justified hk epof (H \<union> ?new) ttl) g'"
    using call_justified(1) [OF IH(3,2,1) auth.hyps(2,3) _ auth.hyps(4)] assms(2) by blast
  ultimately show ?case by blast
next
  case (sweep g H t now)
  then have "\<forall>x \<in> H. qa_until x \<le> now" by fastforce
  with sweep.IH show ?case by (auto intro: entries_sweep)
qed

text \<open>What an authorization rests on: a role GitHub reported and, where the repository is private or written to,
  a probe that passed.\<close>

definition grounds :: "bytes \<Rightarrow> gh_history \<Rightarrow> duration \<Rightarrow> endpoint \<Rightarrow> string \<Rightarrow> instant \<Rightarrow> operation \<Rightarrow> access \<Rightarrow> bool" where
  "grounds hk H ttl ep token now op' a \<longleftrightarrow>
     evidence hk H ttl ep token now None (\<lambda>api tk. role_answer api ep tk a) \<and>
     (case op' of
        OperationDownload \<Rightarrow> ac_pull a \<and>
          (ac_private a \<longrightarrow> evidence hk H ttl ep token now (Some OperationDownload) (\<lambda>api tk. probe_allows api ep tk OperationDownload))
      | OperationUpload \<Rightarrow> ac_push a \<and>
          evidence hk H ttl ep token now (Some OperationUpload) (\<lambda>api tk. probe_allows api ep tk OperationUpload))"

lemma evidence_earlier: "evidence hk H ttl ep token ex q P \<Longrightarrow> now \<le> ex \<Longrightarrow> evidence hk H ttl ep token now q P"
  unfolding evidence_def by force

lemma justified_grounds:
  assumes "justified hk H ttl ep token ex a" "now \<le> ex" "res_Authorized (access_result a op')"
  shows "grounds hk H ttl ep token now op' a"
  using assms evidence_earlier [OF _ assms(2)]
  by (cases op') (auto simp: justified_def grounds_def access_result_def no_result_def Let_def)

text \<open>C15: At any moment of the life of the GitHub authenticator, whatever calls and sweeps came before, a caller is
  authorized only for a download from a public endpoint, which is allowed without asking GitHub, or if GitHub, asked about
  this endpoint, reported a role on its repository that allows the operation and, for uploads and for private
  repositories, answered the contents probe favourably, both for a token with the HMAC of the token presented. When the call looks
  into the cache, each of these answers is at most as old as the cache lifetime and the time it took the lookup it
  comes from to get from that answer to its end (for a role, the user request in between included). The user name and
  the maintainer flag are those of that role. Calls follow one another here, each on a clock that does not run
  backwards.\<close>

theorem github_decision_fresh:
  assumes "gh_reach u hk epof ttl g H t" "\<forall>p. ep_Path (epof p) = p"
    and "t \<le> ae_lookup env" "timely g env"
    and "GitHub_Authenticate u hk g env (epof p) user token op' = (g', Inr res)" "res_Authorized res"
  shows "IsPublic u (epof p) \<and> op' = OperationDownload \<or>
    (\<exists>a. grounds hk (H \<union> seen u hk g env (epof p) token op') ttl (epof p) token (ae_lookup env) op' a \<and>
      res_Username res = ac_username a \<and> res_Maintainer res = (op' = OperationUpload \<and> ac_maintainer a))"
proof (cases "IsPublic u (epof p) \<and> op' = OperationDownload")
  case False
  note I = reach_justified [OF assms(1,2)]
  have "token = [] \<and> res = no_result \<or>
      (\<exists>ex a. res = access_result a op' \<and> (timely g env \<longrightarrow> ae_lookup env \<le> ex) \<and>
        entry_justified hk epof (H \<union> seen u hk g env (epof p) token op') ttl (cacheKey hk token p) ex a)"
    using call_justified(2) [where epof = epof and p = p and H = H, OF _ _ _ assms(3,4) _ assms(5)] I assms(2) False by blast
  then obtain ex a where a: "res = access_result a op'" "ae_lookup env \<le> ex"
    "justified hk (H \<union> seen u hk g env (epof p) token op') ttl (epof p) token ex a"
    using assms(4,6) by (auto simp: entry_justified_key)
  have "grounds hk (H \<union> seen u hk g env (epof p) token op') ttl (epof p) token (ae_lookup env) op' a"
    using justified_grounds [OF a(3,2)] assms(6) a(1) by simp
  moreover have "res_Username res = ac_username a \<and> res_Maintainer res = (op' = OperationUpload \<and> ac_maintainer a)"
    using assms(6) by (auto simp: a(1) access_result_def no_result_def Let_def split: operation.split)
  ultimately show ?thesis by blast
qed simp

section \<open>Exact decisions\<close>

text \<open>Right after GitHub reported a role, the probe is asked whatever the cache holds.\<close>

lemma probe_after_fetch:
  assumes "cache_map g1 key = None \<or> (\<exists>e. cache_map g1 key = Some e \<and> ce_access e = acc)" "needsProbe acc op'"
  shows "snd (probeContents g1 env ep token key op' acc) =
    (let err = probe_request (ae_api env) ep token op' in
     if isUnauthorized err then Inr no_access else map_sum id (withProbe acc op') (probeOutcome (ae_probe env) err))"
  using assms
  by (auto simp: probeContents_def cacheLookup_def Let_def split: option.splits sum.splits if_splits)

lemma cache_map_after_fetch:
  assumes "cache_map g key = None" "lookup g env ep token key = (g1, Inr acc)"
  shows "cache_map g1 key = None \<or> (\<exists>e. cache_map g1 key = Some e \<and> ce_access e = acc)"
proof -
  have "fst (share (ae_left_fetch env) (fetchAccess (g\<lparr>gh_misses := gh_misses g + 1\<rparr>) env ep token key)) = g1"
    "snd (share (ae_left_fetch env) (fetchAccess (g\<lparr>gh_misses := gh_misses g + 1\<rparr>) env ep token key)) = Inr acc"
    using assms by (simp_all add: lookup_def cacheLookup_def)
  then have "fst (fetchAccess (g\<lparr>gh_misses := gh_misses g + 1\<rparr>) env ep token key) = g1" "fetch_answer env ep token = Inr acc"
    using fetchAccess_snd [of "g\<lparr>gh_misses := gh_misses g + 1\<rparr>" env ep token key]
    by (auto simp: share_def split: prod.splits if_splits)
  then show ?thesis
    using fetchAccess_fst [of "g\<lparr>gh_misses := gh_misses g + 1\<rparr>" env ep token key] assms(1) cacheStore_map [of _ _ key acc key]
    by (cases "cache_map g1 key") fastforce+
qed

lemma lookup_miss:
  "cache_map g key = None \<Longrightarrow> \<not> ae_left_fetch env \<Longrightarrow> snd (lookup g env ep token key) = fetch_answer env ep token"
  by (simp add: lookup_def cacheLookup_def share_def fetchAccess_snd split: prod.split)

definition decide :: "auth_env \<Rightarrow> endpoint \<Rightarrow> string \<Rightarrow> operation \<Rightarrow> auth_error + auth_result" where
  "decide env ep token op' =
     (case fetch_answer env ep token of
        Inl e \<Rightarrow> Inl e
      | Inr acc \<Rightarrow>
        if needsProbe acc op' then
          (let err = probe_request (ae_api env) ep token op' in
           if isUnauthorized err then Inr (access_result no_access op')
           else map_sum id (\<lambda>pr. access_result (withProbe acc op' pr) op') (probeOutcome (ae_probe env) err))
        else Inr (access_result acc op'))"

lemma uncached_decide:
  assumes "cache_map g (cacheKey hk token (ep_Path ep)) = None" "\<not> ae_left_fetch env" "\<not> ae_left_probe env" "token \<noteq> []"
    and "\<not> (IsPublic u ep \<and> op' = OperationDownload)"
  shows "snd (GitHub_Authenticate u hk g env ep user token op') = decide env ep token op'"
proof -
  let ?key = "cacheKey hk token (ep_Path ep)"
  obtain g1 r1 where l: "lookup g env ep token ?key = (g1, r1)" by force
  have r1: "r1 = fetch_answer env ep token" using lookup_miss [OF assms(1,2), of ep token] l by simp
  show ?thesis
  proof (cases "\<exists>acc. r1 = Inr acc \<and> needsProbe acc op'")
    case True
    then obtain acc where acc: "r1 = Inr acc" "needsProbe acc op'" by blast
    obtain g2 r2 where p: "probeContents g1 env ep token ?key op' acc = (g2, r2)" by force
    have "r2 = (let err = probe_request (ae_api env) ep token op' in
        if isUnauthorized err then Inr no_access else map_sum id (withProbe acc op') (probeOutcome (ae_probe env) err))"
      using probe_after_fetch [OF cache_map_after_fetch [OF assms(1)], of env ep token g1 acc op' env ep token] l acc p by simp
    moreover have "decide env ep token op' = map_sum id (\<lambda>a. access_result a op') r2"
      unfolding decide_def calculation r1 [symmetric] acc(1)
      using acc(2) by (simp add: Let_def sum.map_comp comp_def id_def)
    moreover have "snd (GitHub_Authenticate u hk g env ep user token op') = map_sum id (\<lambda>a. access_result a op') r2"
      using assms(3,4,5) l acc p by (cases r2) (auto simp: GitHub_Authenticate_def Let_def share_def)
    ultimately show ?thesis by simp
  next
    case False
    then show ?thesis
      using assms(4,5) l by (cases r1) (auto simp: GitHub_Authenticate_def Let_def decide_def r1 [symmetric])
  qed
qed

lemma decide_granted:
  assumes "role_answer (ae_api env) ep token a"
  shows "(\<exists>res. decide env ep token op' = Inr res \<and> res_Authorized res) \<longleftrightarrow>
    (case op' of
         OperationDownload \<Rightarrow> ac_pull a \<and> (\<not> ac_private a \<or> probe_allows (ae_api env) ep token OperationDownload)
       | OperationUpload \<Rightarrow> ac_push a \<and> probe_allows (ae_api env) ep token OperationUpload)"
proof -
  from assms obtain repo perms login where r: "api_repo (ae_api env) token (ep_GitHubOwner ep) (ep_GitHubRepo ep) = Inr repo"
    "rp_permissions repo = Some perms" "api_user (ae_api env) token = Inr login" by (auto simp: role_answer_def)
  define acc where "acc = no_access\<lparr>ac_authenticated := True, ac_username := login, ac_private := rp_private repo,
    ac_pull := perms ''pull'', ac_push := perms ''push'', ac_maintainer := perms ''maintain'' \<or> perms ''admin''\<rparr>"
  have f: "fetch_answer env ep token = Inr acc" using r by (simp add: fetch_answer_def fetchAccess_def acc_def Let_def)
  have a: "ac_private a = ac_private acc" "ac_pull a = ac_pull acc" "ac_push a = ac_push acc"
    using assms r by (simp_all add: role_answer_def acc_def)
  have "ac_read acc = probeUnchecked" "ac_write acc = probeUnchecked" by (simp_all add: acc_def no_access_def)
  moreover have "\<not> (isUnauthorized (probe_request (ae_api env) ep token op') \<and> probe_allows (ae_api env) ep token op')"
    by (auto simp: isUnauthorized_def probe_allows_def split: option.splits gh_error.splits)
  ultimately show ?thesis
    using probeOutcome_allowed [of "ae_probe env" "ae_api env" ep token op']
    by (cases op'; cases "probeOutcome (ae_probe env) (probe_request (ae_api env) ep token op')")
      (auto simp: a decide_def f needsProbe_def access_result_def withProbe_def no_result_def no_access_def Let_def)
qed

lemma decide_denied:
  assumes "\<And>a. \<not> role_answer (ae_api env) ep token a"
  shows "\<not> (\<exists>res. decide env ep token op' = Inr res \<and> res_Authorized res)"
proof (cases "fetch_answer env ep token")
  case (Inr a)
  have "\<not> ac_pull a \<and> \<not> ac_push a" using fetch_answer_role [OF Inr] assms by blast
  then show ?thesis
    by (cases op') (auto simp: decide_def Inr needsProbe_def access_result_def no_result_def Let_def)
qed (simp add: decide_def)

text \<open>C16: When the cache holds nothing for a token and the caller waits for the answers, the GitHub authenticator authorizes
  the caller exactly in these cases: a download from a public endpoint, whatever GitHub would say; or, with a token
  that is not empty, if GitHub reports permissions and a user for it, the permissions include the one the operation
  needs (pull for downloads, push for uploads), and the contents probe passes for uploads and for downloads of private
  repositories.\<close>

theorem github_authorizes_iff:
  assumes "cache_map g (cacheKey hk token (ep_Path ep)) = None" "\<not> ae_left_fetch env" "\<not> ae_left_probe env"
  shows "(\<exists>res. snd (GitHub_Authenticate u hk g env ep user token op') = Inr res \<and> res_Authorized res) \<longleftrightarrow>
    IsPublic u ep \<and> op' = OperationDownload \<or>
    token \<noteq> [] \<and> (\<exists>a. role_answer (ae_api env) ep token a \<and>
      (case op' of
         OperationDownload \<Rightarrow> ac_pull a \<and> (\<not> ac_private a \<or> probe_allows (ae_api env) ep token OperationDownload)
       | OperationUpload \<Rightarrow> ac_push a \<and> probe_allows (ae_api env) ep token OperationUpload))"
proof (cases "IsPublic u ep \<and> op' = OperationDownload \<or> token = []")
  case True
  then show ?thesis by (auto simp: GitHub_Authenticate_def)
next
  case False
  then have d: "snd (GitHub_Authenticate u hk g env ep user token op') = decide env ep token op'"
    by (intro uncached_decide assms) simp_all
  show ?thesis
  proof (cases "\<exists>a. role_answer (ae_api env) ep token a")
    case True
    with False show ?thesis unfolding d using decide_granted by blast
  next
    case none: False
    with False show ?thesis unfolding d using decide_denied by blast
  qed
qed

section \<open>Waits\<close>

text \<open>A rate limit error asks the client to wait at most an hour. It asks for at least a second unless
  GitHub's abuse error says otherwise or the Retry-After header holds so many seconds that their product
  with a second leaves the 64-bit range.\<close>

theorem rate_limit_wait:
  assumes "classifyGitHubError now err = Inl (RateLimitedError w)"
  shows "w \<le> hour \<and> ((\<forall>d. err \<noteq> GhAbuse (Some d)) \<longrightarrow>
    (\<forall>rsp s. err = GhResponse (Some rsp) \<longrightarrow> ParseInt (rs_RetryAfter rsp) = Some s \<longrightarrow> s \<le> 9223372036) \<longrightarrow> second \<le> w)"
proof -
  have w: "wrap64 (s * second) = s * second" if "0 < s" "s \<le> 9223372036" for s
    using that by (simp add: wrap64_def second_def)
  have "second \<le> min (retryAfter now rsp) maxRetryAfter"
    if "\<forall>s. ParseInt (rs_RetryAfter rsp) = Some s \<longrightarrow> s \<le> 9223372036" for rsp
    using that w
    by (auto simp: retryAfter_def untilReset_def defaultRetryAfter_def maxRetryAfter_def hour_def minute_def second_def
        split: option.splits)
  then show ?thesis
    using assms
    by (auto simp: classifyGitHubError_def rateLimited_def untilReset_def defaultRetryAfter_def maxRetryAfter_def hour_def
        minute_def second_def split: gh_error.splits option.splits if_splits)
qed

text \<open>A Retry-After header just past that bound makes the wait negative instead of the maximum of an hour.\<close>

theorem retry_after_overflow:
  "classifyGitHubError now (GhResponse (Some \<lparr>rs_status = 429, rs_RetryAfter = ''9223372037'', rs_RateLimitReset = reset\<rparr>)) =
   Inl (RateLimitedError (-9223372036709551616))"
  by (simp add: classifyGitHubError_def rateLimited_def retryAfter_def ParseInt_def parse_digits_def Let_def is_digit_def
      digit_value_def wrap64_def maxRetryAfter_def hour_def minute_def second_def int64_range_def)

section \<open>Witnesses\<close>

definition demo_endpoint :: "string \<Rightarrow> endpoint" where
  "demo_endpoint p = \<lparr>ep_Name = ''demo'', ep_URL = ''https://github.com/org/repo'', ep_Path = p, ep_Visibility = ''private'',
     ep_Authentication = authGitHub, ep_GitHubAPIURL = [], ep_GitHubOwner = ''org'', ep_GitHubRepo = ''repo'',
     ep_GitHubBaseURL = None\<rparr>"

text \<open>GitHub granting a role and the write probe, and GitHub being down.\<close>

definition demo_api :: github_api where
  "demo_api = \<lparr>api_repo = (\<lambda>_ _ _. Inr \<lparr>rp_permissions = Some (\<lambda>p. p = ''pull'' \<or> p = ''push''), rp_private = True\<rparr>),
     api_user = (\<lambda>_. Inr ''alice''), api_commits = (\<lambda>_ _ _. None),
     api_blob = (\<lambda>_ _ _. Some (GhResponse (Some \<lparr>rs_status = 422, rs_RetryAfter = [], rs_RateLimitReset = []\<rparr>)))\<rparr>"

definition down_api :: github_api where
  "down_api = \<lparr>api_repo = (\<lambda>_ _ _. Inl GhOther), api_user = (\<lambda>_. Inl GhOther), api_commits = (\<lambda>_ _ _. Some GhOther),
     api_blob = (\<lambda>_ _ _. Some GhOther)\<rparr>"

definition demo_auth_env :: "instant \<Rightarrow> github_api \<Rightarrow> auth_env" where
  "demo_auth_env t api = \<lparr>ae_lookup = t, ae_repo = t + 1, ae_user = t + 2, ae_fetch = t + 3, ae_recheck = t + 4,
     ae_answer = t + 5, ae_probe = t + 6, ae_api = api, ae_left_fetch = False, ae_left_probe = False\<rparr>"

definition demo_call :: "github \<Rightarrow> instant \<Rightarrow> github_api \<Rightarrow> github \<times> (auth_error + auth_result)" where
  "demo_call g t api = GitHub_Authenticate ascii_tables [] g (demo_auth_env t api) (demo_endpoint ''/org/repo'') ''x'' ''token'' OperationUpload"

lemmas demo_auth_defs = demo_call_def demo_auth_env_def demo_api_def down_api_def demo_endpoint_def NewGitHub_def GitHub_Authenticate_def
  lookup_def cacheLookup_def cache_map_def share_def fetchAccess_def cacheStoreIfEnabled_def probeContents_def probe_request_def
  isUnauthorized_def probeOutcome_def cacheRecordProbe_def needsProbe_def withProbe_def access_result_def no_access_def
  no_result_def Let_def

text \<open>The first call asks GitHub; the second is answered by the cache although GitHub is down.\<close>

lemma demo_first_call: "snd (demo_call (NewGitHub minute) 0 demo_api) =
    Inr \<lparr>res_Authenticated = True, res_Authorized = True, res_Username = ''alice'', res_Maintainer = False\<rparr>"
  by (simp add: demo_auth_defs minute_def second_def)

lemma demo_second_call: "snd (demo_call (fst (demo_call (NewGitHub minute) 0 demo_api)) (30 * second) down_api) =
    Inr \<lparr>res_Authenticated = True, res_Authorized = True, res_Username = ''alice'', res_Maintainer = False\<rparr>"
  by (simp add: demo_auth_defs minute_def second_def)

theorem github_decision_fresh_witness:
  "\<exists>H g. gh_reach ascii_tables [] demo_endpoint minute g H 6 \<and>
     (\<exists>a. grounds [] (H \<union> seen ascii_tables [] g (demo_auth_env (30 * second) down_api) (demo_endpoint ''/org/repo'') ''token'' OperationUpload)
       minute (demo_endpoint ''/org/repo'') ''token'' (30 * second) OperationUpload a \<and> ac_username a = ''alice'')"
proof -
  let ?g = "fst (demo_call (NewGitHub minute) 0 demo_api)" and ?env = "demo_auth_env (30 * second) down_api"
  let ?H = "{} \<union> seen ascii_tables [] (NewGitHub minute) (demo_auth_env 0 demo_api) (demo_endpoint ''/org/repo'') ''token'' OperationUpload"
  have t0: "timely (NewGitHub minute) (demo_auth_env 0 demo_api)" "(0::instant) \<le> ae_lookup (demo_auth_env 0 demo_api)"
    by (simp_all add: timely_def NewGitHub_def demo_auth_env_def minute_def second_def)
  have r: "gh_reach ascii_tables [] demo_endpoint minute ?g ?H (ae_probe (demo_auth_env 0 demo_api))"
    by (rule gh_reach.auth [OF gh_reach.start t0(2,1), where user = "''x''"])
      (unfold demo_call_def, rule surjective_pairing)
  have ttl: "gh_cacheTTL ?g = minute" by (simp add: demo_call_def Authenticate_ttl NewGitHub_def)
  then have t: "ae_probe (demo_auth_env 0 demo_api) \<le> ae_lookup ?env" "timely ?g ?env"
    by (simp_all add: timely_def demo_auth_env_def minute_def second_def)
  have c: "GitHub_Authenticate ascii_tables [] ?g ?env (demo_endpoint ''/org/repo'') ''x'' ''token'' OperationUpload =
      (fst (demo_call ?g (30 * second) down_api),
       Inr \<lparr>res_Authenticated = True, res_Authorized = True, res_Username = ''alice'', res_Maintainer = False\<rparr>)"
    using demo_second_call by (simp add: prod_eq_iff demo_call_def)
  have "\<forall>p. ep_Path (demo_endpoint p) = p" by (simp add: demo_endpoint_def)
  from github_decision_fresh [OF r this t c] r show ?thesis
    by (intro exI [of _ ?H] exI [of _ ?g]) (auto simp: demo_auth_env_def)
qed

theorem github_authorizes_iff_witness:
  "\<exists>res. snd (GitHub_Authenticate ascii_tables [] (NewGitHub minute) (demo_auth_env 0 demo_api) (demo_endpoint ''/org/repo'')
     ''x'' ''token'' OperationUpload) = Inr res \<and> res_Authorized res"
proof -
  have "role_answer demo_api (demo_endpoint ''/org/repo'') ''token''
      (no_access\<lparr>ac_username := ''alice'', ac_private := True, ac_pull := True, ac_push := True\<rparr>)"
    by (simp add: role_answer_def demo_api_def no_access_def)
  moreover have "probe_allows demo_api (demo_endpoint ''/org/repo'') ''token'' OperationUpload"
    by (simp add: probe_allows_def demo_api_def probe_request_def)
  ultimately show ?thesis
    using github_authorizes_iff [of "NewGitHub minute" "[]" "''token''" "demo_endpoint ''/org/repo''" "demo_auth_env 0 demo_api"
        ascii_tables "''x''" OperationUpload]
    by (fastforce simp: demo_auth_env_def NewGitHub_def cache_map_def)
qed

theorem rate_limit_wait_witness:
  "classifyGitHubError 0 (GhRateLimit (Some (7 * hour))) = Inl (RateLimitedError hour) \<and> second \<le> hour"
proof -
  have c: "classifyGitHubError 0 (GhRateLimit (Some (7 * hour))) = Inl (RateLimitedError hour)"
    by (simp add: classifyGitHubError_def rateLimited_def untilReset_def maxRetryAfter_def hour_def minute_def second_def)
  with rate_limit_wait [OF c] show ?thesis by simp
qed

end
