(* ===== verification/Http.thy ===== *)
theory Http
  imports Lfs_Models Go_Mime Storage_Base Auth
begin

text \<open>
  HTTP as the handlers of \<^verbatim>\<open>src/lfs/handler.go\<close> see it: requests, responses, the request body with the
  readers wrapped around it (\<^verbatim>\<open>src/lfs/body.go\<close>, \<^verbatim>\<open>src/lfs/idle.go\<close>), the checks of the headers, and the
  writers of JSON responses.

  What the handlers use of the standard library beyond the modelled parts is in the record \<^verbatim>\<open>golib\<close>: the
  Unicode tables, \<^verbatim>\<open>url.Parse\<close> (host and host name of the parsed URL, or an error) and \<^verbatim>\<open>http.ServeContent\<close>
  for requests with range or precondition headers.
\<close>

section \<open>Requests and responses\<close>

text \<open>A body arrives in pieces, each after a wait; the last wait is the one for its end or error.\<close>

record stream =
  st_pieces :: "(duration \<times> bytes) list"
  st_wait :: duration
  st_err :: "read_error option"

text \<open>\<^verbatim>\<open>rq_Header\<close> is \<^verbatim>\<open>Header.Get\<close>, \<^verbatim>\<open>rq_RequestURI\<close> is \<^verbatim>\<open>URL.RequestURI()\<close>, and \<^verbatim>\<open>rq_RequestID\<close> what the request id
  middleware put into the context.\<close>

record request =
  rq_Method :: string
  rq_Header :: "string \<Rightarrow> string"
  rq_Host :: string
  rq_TLS :: bool
  rq_RequestURI :: string
  rq_RawQuery :: string
  rq_PathValue :: "string \<Rightarrow> string"
  rq_ContentLength :: int
  rq_Body :: stream
  rq_RequestID :: string

datatype body = BodyJson json | BodyText string | BodyBytes bytes | BodyEmpty

record response =
  rsp_Status :: int
  rsp_Header :: "(string \<times> string) list"
  rsp_Body :: body

record golib =
  lib_unicode :: unicode_tables
  lib_url_parse :: "string \<Rightarrow> (string \<times> string) option"
  lib_serve :: "request \<Rightarrow> (string \<times> string) list \<Rightarrow> bytes \<Rightarrow> response"

section \<open>Bodies\<close>

text \<open>\<^verbatim>\<open>http.MaxBytesReader\<close>: the first \<open>n\<close> bytes, then an error if there is a further one.\<close>

fun limit_pieces :: "nat \<Rightarrow> (duration \<times> bytes) list \<Rightarrow> (duration \<times> bytes) list \<times> duration option" where
  "limit_pieces n [] = ([], None)"
| "limit_pieces n ((w, c) # cs) =
     (if length c \<le> n then apfst ((#) (w, c)) (limit_pieces (n - length c) cs)
      else ([(w, take n c)], Some 0))"

definition MaxBytesReader :: "int \<Rightarrow> stream \<Rightarrow> stream" where
  "MaxBytesReader n st =
     (case limit_pieces (nat n) (st_pieces st) of
        (ps, None) \<Rightarrow> st\<lparr>st_pieces := ps\<rparr>
      | (ps, Some w) \<Rightarrow> \<lparr>st_pieces = ps, st_wait = w, st_err = Some ReadMaxBytes\<rparr>)"

text \<open>Reading a stream without deadlines, and through \<^verbatim>\<open>idleTimeoutReader\<close>: every read has up to the timeout,
  so that the first longer wait ends the body with a deadline error.\<close>

definition stream_reader :: "stream \<Rightarrow> reader" where
  "stream_reader st = \<lparr>rd_chunks = map snd (st_pieces st), rd_err = st_err st\<rparr>"

fun idle_reads :: "duration \<Rightarrow> (duration \<times> bytes) list \<Rightarrow> bytes list \<times> bool" where
  "idle_reads timeout [] = ([], False)"
| "idle_reads timeout ((w, c) # cs) =
     (if w > timeout then ([], True) else apfst ((#) c) (idle_reads timeout cs))"

definition idleTimeoutReader :: "duration \<Rightarrow> stream \<Rightarrow> reader" where
  "idleTimeoutReader timeout st =
     (case idle_reads timeout (st_pieces st) of
        (cs, True) \<Rightarrow> \<lparr>rd_chunks = cs, rd_err = Some ReadDeadlineExceeded\<rparr>
      | (cs, False) \<Rightarrow>
        \<lparr>rd_chunks = cs, rd_err = (if st_wait st > timeout then Some ReadDeadlineExceeded else st_err st)\<rparr>)"

definition withIdleTimeout :: "bool \<Rightarrow> stream \<Rightarrow> duration \<Rightarrow> reader" where
  "withIdleTimeout deadlines st timeout =
     (if timeout \<le> 0 then stream_reader st
      else if \<not> deadlines then stream_reader st
      else idleTimeoutReader timeout st)"

text \<open>\<^verbatim>\<open>readErrorRecorder\<close>: what it holds after a storage write that failed with \<open>e\<close>. A read error that came with
  the last data may have been followed by a failure to write that data; \<open>hidden\<close> says whether one was.\<close>

definition readErrorRecorder :: "bool \<Rightarrow> store_error \<Rightarrow> bool" where
  "readErrorRecorder hidden e = (case e of ErrReader _ \<Rightarrow> True | _ \<Rightarrow> hidden)"

definition maxRequestBodyBytes :: int where "maxRequestBodyBytes = 1048576"

text \<open>
  \<^verbatim>\<open>json.UnmarshalRead\<close> of a body capped at \<^verbatim>\<open>maxRequestBodyBytes\<close>. The decoder reads as it parses, so a body
  over the cap is reported as too large only if the decoder did not reject it before; \<open>early\<close> says
  whether it did.
\<close>

datatype body_error = BodyTooLarge | BodyInvalid

definition UnmarshalRead :: "bool \<Rightarrow> stream \<Rightarrow> (json \<Rightarrow> 'a option) \<Rightarrow> body_error + 'a" where
  "UnmarshalRead early st decode =
     (let r = stream_reader (MaxBytesReader maxRequestBodyBytes st) in
      case rd_err r of
        Some ReadMaxBytes \<Rightarrow> if early then Inl BodyInvalid else Inl BodyTooLarge
      | Some _ \<Rightarrow> Inl BodyInvalid
      | None \<Rightarrow>
        (case json_parse (rd_data r) of
           None \<Rightarrow> Inl BodyInvalid
         | Some v \<Rightarrow> (case decode v of None \<Rightarrow> Inl BodyInvalid | Some x \<Rightarrow> Inr x)))"

section \<open>Writing responses\<close>

definition lfsMediaType :: string where "lfsMediaType = ''application/vnd.git-lfs+json''"
definition hashAlgo :: string where "hashAlgo = ''sha256''"
definition msgInternalError :: string where "msgInternalError = ''internal error''"
definition documentationURL :: string where "documentationURL = ''https://github.com/refringe/anchor-lfs/wiki''"

definition set_header :: "string \<Rightarrow> string \<Rightarrow> (string \<times> string) list \<Rightarrow> (string \<times> string) list" where
  "set_header k v hs = filter (\<lambda>(k', _). k' \<noteq> k) hs @ [(k, v)]"

text \<open>\<^verbatim>\<open>writeJSON\<close>, on the headers set before. A value with a string that is not UTF-8 cannot be marshalled;
  \<^verbatim>\<open>http.Error\<close> then answers in plain text.\<close>

definition writeJSON :: "(string \<times> string) list \<Rightarrow> int \<Rightarrow> json \<Rightarrow> response" where
  "writeJSON hs status v =
     (if \<not> json_valid v
      then \<lparr>rsp_Status = 500,
            rsp_Header = set_header ''X-Content-Type-Options'' ''nosniff'' (set_header ''Content-Type'' ''text/plain; charset=utf-8'' hs),
            rsp_Body = BodyText (msgInternalError @ [newline])\<rparr>
      else \<lparr>rsp_Status = status,
            rsp_Header = set_header ''Cache-Control'' ''no-store'' (set_header ''Content-Type'' lfsMediaType hs),
            rsp_Body = BodyJson v\<rparr>)"

definition writeError_with :: "(string \<times> string) list \<Rightarrow> request \<Rightarrow> int \<Rightarrow> string \<Rightarrow> response" where
  "writeError_with hs r status message = writeJSON hs status (error_response_json message (rq_RequestID r) documentationURL)"

definition writeError :: "request \<Rightarrow> int \<Rightarrow> string \<Rightarrow> response" where
  "writeError r status message = writeError_with [] r status message"

definition WriteHeader :: "int \<Rightarrow> response" where
  "WriteHeader status = \<lparr>rsp_Status = status, rsp_Header = [], rsp_Body = BodyEmpty\<rparr>"

definition NotFoundHandler :: "request \<Rightarrow> response" where
  "NotFoundHandler r = writeError r 404 ''no Git LFS endpoint at this path''"

section \<open>Reading headers\<close>

definition acceptsEntry :: "unicode_tables \<Rightarrow> string \<Rightarrow> bool" where
  "acceptsEntry u entry =
     (case ParseMediaType u entry of
        (mediaType, params, err) \<Rightarrow>
          \<not> err \<and> \<not> float_zero (param_value u params ''q'') \<and>
          (mediaType = lfsMediaType \<or> mediaType = ''application/*'' \<or> mediaType = ''*/*''))"

definition acceptsLFSMediaType :: "unicode_tables \<Rightarrow> string \<Rightarrow> bool" where
  "acceptsLFSMediaType u accept \<longleftrightarrow> list_ex (acceptsEntry u) (Split accept CHR '','')"

definition contentTypeOK :: "unicode_tables \<Rightarrow> request \<Rightarrow> bool" where
  "contentTypeOK u r \<longleftrightarrow> fst (ParseMediaType u (rq_Header r ''Content-Type'')) = lfsMediaType"

definition expected :: "string \<Rightarrow> string" where
  "expected name = ''expected '' @ name @ '': '' @ lfsMediaType"

text \<open>The checks that answer a request early return that answer on the left.\<close>

definition requireAccept :: "golib \<Rightarrow> request \<Rightarrow> response + unit" where
  "requireAccept lib r =
     (if \<not> acceptsLFSMediaType (lib_unicode lib) (rq_Header r ''Accept'')
      then Inl (writeError r 406 (expected ''Accept'')) else Inr ())"

definition requireContentType :: "golib \<Rightarrow> request \<Rightarrow> response + unit" where
  "requireContentType lib r =
     (if \<not> contentTypeOK (lib_unicode lib) r then Inl (writeError r 415 (expected ''Content-Type'')) else Inr ())"

definition requireLFSMediaType :: "golib \<Rightarrow> request \<Rightarrow> response + unit" where
  "requireLFSMediaType lib r =
     (case requireAccept lib r of Inl x \<Rightarrow> Inl x | Inr _ \<Rightarrow> requireContentType lib r)"

text \<open>\<^verbatim>\<open>Request.BasicAuth\<close>.\<close>

definition BasicAuth :: "request \<Rightarrow> (string \<times> string) option" where
  "BasicAuth r =
     (let auth = rq_Header r ''Authorization'' in
      if length auth < 6 \<or> map lower_char (take 6 auth) \<noteq> ''basic '' then None
      else case StdDecode (drop 6 auth) of
        None \<Rightarrow> None
      | Some cs \<Rightarrow> (case Cut cs CHR '':'' of (user, pw, found) \<Rightarrow> if found then Some (user, pw) else None))"

text \<open>\<^verbatim>\<open>isValidForwardedHost\<close> and \<^verbatim>\<open>requestBaseURL\<close>.\<close>

definition isValidForwardedHost :: "golib \<Rightarrow> string \<Rightarrow> bool" where
  "isValidForwardedHost lib host =
     (if host = [] then False
      else case lib_url_parse lib (''http://'' @ host) of
        None \<Rightarrow> False
      | Some (uHost, hostname) \<Rightarrow>
        if uHost = [] then False
        else if hostname = [] then False
        else case SplitHostPort host of
          Some (h, p) \<Rightarrow> h \<noteq> [] \<and> p \<noteq> []
        | None \<Rightarrow> uHost = host)"

definition base_url_of :: "golib \<Rightarrow> string \<Rightarrow> request \<Rightarrow> string" where
  "base_url_of lib baseURL r =
     (if baseURL \<noteq> [] then baseURL
      else let scheme0 = (if rq_TLS r then ''https'' else ''http'');
               proto = rq_Header r ''X-Forwarded-Proto'';
               scheme = (if proto = ''http'' \<or> proto = ''https'' then proto else scheme0);
               fwdHost = rq_Header r ''X-Forwarded-Host'';
               host = (if isValidForwardedHost lib fwdHost then fwdHost else rq_Host r)
           in scheme @ ''://'' @ host)"

definition isValidLockPath :: "string \<Rightarrow> bool" where
  "isValidLockPath path \<longleftrightarrow> path \<noteq> ''.'' \<and> ValidPath path \<and> CHR 0x00 \<notin> set path"

text \<open>\<^verbatim>\<open>http.ServeContent\<close> without range and precondition headers on a GET: the whole content.\<close>

definition plain_get :: "request \<Rightarrow> bool" where
  "plain_get r \<longleftrightarrow> rq_Method r = ''GET'' \<and>
     list_all (\<lambda>h. rq_Header r h = []) [''Range'', ''If-Range'', ''If-Match'', ''If-None-Match'', ''If-Modified-Since'', ''If-Unmodified-Since'']"

definition ServeContent :: "golib \<Rightarrow> request \<Rightarrow> (string \<times> string) list \<Rightarrow> bytes \<Rightarrow> response" where
  "ServeContent lib r hs data =
     (if plain_get r
      then \<lparr>rsp_Status = 200,
            rsp_Header = set_header ''Content-Length'' (format_nat (length data)) (set_header ''Accept-Ranges'' ''bytes'' hs),
            rsp_Body = BodyBytes data\<rparr>
      else lib_serve lib r hs data)"

section \<open>Facts about bodies\<close>

lemma limit_pieces_fits:
  "length (concat (map snd ps)) \<le> n \<Longrightarrow> limit_pieces n ps = (ps, None)"
  by (induction n ps rule: limit_pieces.induct) auto

lemma limit_pieces_over:
  "length (concat (map snd ps)) > n \<Longrightarrow> \<exists>qs. limit_pieces n ps = (qs, Some 0) \<and> concat (map snd qs) = take n (concat (map snd ps))"
proof (induction n ps rule: limit_pieces.induct)
  case (2 n w c cs)
  show ?case
  proof (cases "length c \<le> n")
    case True
    with "2.prems" have "n - length c < length (concat (map snd cs))" by auto
    with "2.IH" True obtain qs where "limit_pieces (n - length c) cs = (qs, Some 0)"
      "concat (map snd qs) = take (n - length c) (concat (map snd cs))" by blast
    with True show ?thesis by simp
  qed simp
qed simp

text \<open>The reader an upload is stored from never delivers more than the limit, and ends without an error only
  when the whole body was within it.\<close>

definition stream_data :: "stream \<Rightarrow> bytes" where
  "stream_data st = concat (map snd (st_pieces st))"

lemma MaxBytesReader_fits: "length (stream_data st) \<le> nat n \<Longrightarrow> MaxBytesReader n st = st"
  by (simp add: MaxBytesReader_def stream_data_def limit_pieces_fits)

lemma MaxBytesReader_over:
  assumes "length (stream_data st) > nat n"
  shows "stream_data (MaxBytesReader n st) = take (nat n) (stream_data st)" "st_err (MaxBytesReader n st) = Some ReadMaxBytes"
  using limit_pieces_over [of "nat n" "st_pieces st"] assms
  by (auto simp: MaxBytesReader_def stream_data_def)

lemma idle_reads_data:
  "idle_reads t ps = (cs, late) \<Longrightarrow> \<exists>rest. concat (map snd ps) = concat cs @ rest \<and> (\<not> late \<longrightarrow> rest = [])"
proof (induction t ps arbitrary: cs rule: idle_reads.induct)
  case (2 t w c ps)
  show ?case
  proof (cases "w > t")
    case False
    obtain ds l where r: "idle_reads t ps = (ds, l)" by force
    with 2(2) False have "cs = c # ds" "l = late" by auto
    with 2(1) [OF False] r show ?thesis by force
  qed (use 2(2) in auto)
qed auto

lemma withIdleTimeout_data:
  "\<exists>rest. stream_data st = rd_data (withIdleTimeout dl st t) @ rest \<and>
     (rd_err (withIdleTimeout dl st t) = None \<longrightarrow> rest = [] \<and> st_err st = None)"
proof -
  obtain cs late where "idle_reads t (st_pieces st) = (cs, late)" by force
  with idle_reads_data [OF this] show ?thesis
    by (cases late) (auto simp: withIdleTimeout_def stream_reader_def idleTimeoutReader_def rd_data_def stream_data_def)
qed

lemma upload_reader_data:
  assumes "rd_err (withIdleTimeout dl (MaxBytesReader n st) t) = None"
  shows "rd_data (withIdleTimeout dl (MaxBytesReader n st) t) = stream_data st" "length (stream_data st) \<le> nat n"
    and "st_err st = None"
proof -
  from withIdleTimeout_data [of "MaxBytesReader n st" dl t] assms
  have d: "stream_data (MaxBytesReader n st) = rd_data (withIdleTimeout dl (MaxBytesReader n st) t)" "st_err (MaxBytesReader n st) = None"
    by auto
  show l: "length (stream_data st) \<le> nat n" using MaxBytesReader_over(2) [of n st] d(2) by force
  show "rd_data (withIdleTimeout dl (MaxBytesReader n st) t) = stream_data st" "st_err st = None"
    using d MaxBytesReader_fits [OF l] by simp_all
qed

end
