(* ===== verification/Handler.thy ===== *)
theory Handler
  imports Http
begin

text \<open>
  \<^verbatim>\<open>src/lfs/handler.go\<close> and \<^verbatim>\<open>src/lfs/batch.go\<close>: the handlers of the Git LFS API for one endpoint, from the
  request to the response, on the state of the three components they call. The interfaces they call
  through (\<^verbatim>\<open>storage.Adapter\<close>, \<^verbatim>\<open>storage.PresignedURLProvider\<close>, \<^verbatim>\<open>auth.Authenticator\<close>, \<^verbatim>\<open>LockStore\<close>) are
  records of operations, like the interface values of the code; an operation carries the failures its
  call meets.
\<close>

section \<open>Interfaces and state\<close>

record 's presigner =
  ps_PresignGet :: "'s \<Rightarrow> string \<Rightarrow> string \<Rightarrow> duration \<Rightarrow> store_error + string"
  ps_PresignPut :: "'s \<Rightarrow> string \<Rightarrow> string \<Rightarrow> int \<Rightarrow> duration \<Rightarrow> store_error + (string \<times> (string \<times> string) list)"

text \<open>\<^verbatim>\<open>op_Get\<close> returns the content, its size and whether the reader can seek.\<close>

record 's adapter_ops =
  op_Exists :: "'s \<Rightarrow> string \<Rightarrow> string \<Rightarrow> store_error + bool"
  op_Get :: "'s \<Rightarrow> string \<Rightarrow> string \<Rightarrow> store_error + (reader \<times> int \<times> bool)"
  op_Put :: "'s \<Rightarrow> string \<Rightarrow> string \<Rightarrow> reader \<Rightarrow> int \<Rightarrow> 's \<times> store_error option"
  op_Size :: "'s \<Rightarrow> string \<Rightarrow> string \<Rightarrow> store_error + int"
  op_AvailableSpace :: "'s \<Rightarrow> store_error + 64 word"
  op_Presign :: "'s presigner option"

record 'l lock_ops =
  lo_Create :: "'l \<Rightarrow> string \<Rightarrow> string \<Rightarrow> string \<Rightarrow> 'l \<times> lock \<times> lock_error option"
  lo_List :: "'l \<Rightarrow> string \<Rightarrow> list_options \<Rightarrow> 'l \<times> (lock_error + (lock list \<times> string))"
  lo_Unlock :: "'l \<Rightarrow> string \<Rightarrow> string \<Rightarrow> string \<Rightarrow> bool \<Rightarrow> 'l \<times> lock \<times> lock_error option"

type_synonym 'a auth_op = "'a \<Rightarrow> endpoint \<Rightarrow> string \<Rightarrow> string \<Rightarrow> operation \<Rightarrow> 'a \<times> (auth_error + auth_result)"

text \<open>\<^verbatim>\<open>h_store i\<close> is the adapter as the lookup for the object at position \<open>i\<close> of a batch meets it.\<close>

record ('s, 'a, 'l) handler =
  h_endpoint :: endpoint
  h_store :: "nat \<Rightarrow> 's adapter_ops"
  h_auth :: "'a auth_op"
  h_baseURL :: string
  h_maxUploadSize :: int
  h_signer :: url_signer
  h_lockStore :: "'l lock_ops"
  h_uploadIdleTimeout :: duration

definition NewHandler :: "endpoint \<Rightarrow> (nat \<Rightarrow> 's adapter_ops) \<Rightarrow> 'a auth_op \<Rightarrow> string \<Rightarrow> int \<Rightarrow> url_signer \<Rightarrow> 'l lock_ops
    \<Rightarrow> duration \<Rightarrow> ('s, 'a, 'l) handler" where
  "NewHandler ep store auth baseURL maxUploadSize signer lockStore idle =
     \<lparr>h_endpoint = ep, h_store = store, h_auth = auth, h_baseURL = baseURL, h_maxUploadSize = maxUploadSize,
      h_signer = signer, h_lockStore = lockStore, h_uploadIdleTimeout = idle\<rparr>"

record ('s, 'a, 'l) world =
  w_store :: 's
  w_auth :: 'a
  w_locks :: 'l

text \<open>What one request meets: whether the client is gone when the batch reaches an object, the clock at the
  signature of the request or of the verify action (position 0) and of each object, whether the JSON
  decoder stopped before the size cap, whether the connection supports read deadlines, whether a read
  error hid behind a failed write, and whether the context had ended when an upload failed.\<close>

record http_env =
  he_gone :: "nat \<Rightarrow> bool"
  he_now :: "nat \<Rightarrow> instant"
  he_early :: bool
  he_deadlines :: bool
  he_hidden :: bool
  he_ctx :: bool

section \<open>Credentials and signatures\<close>

definition requestBaseURL :: "golib \<Rightarrow> ('s, 'a, 'l) handler \<Rightarrow> request \<Rightarrow> string" where
  "requestBaseURL lib h r = base_url_of lib (h_baseURL h) r"

definition authenticate :: "('s, 'a, 'l) handler \<Rightarrow> request \<Rightarrow> operation \<Rightarrow> 'a \<Rightarrow> 'a \<times> (auth_error + auth_result)" where
  "authenticate h r op' a =
     (case BasicAuth r of
        Some (username, password) \<Rightarrow> h_auth h a (h_endpoint h) username password op'
      | None \<Rightarrow> h_auth h a (h_endpoint h) [] [] op')"

text \<open>\<^verbatim>\<open>max(1, int(math.Ceil(d.Seconds())))\<close>; floats hold the seconds of waits up to \<^verbatim>\<open>maxRetryAfter\<close> exactly
  enough for the ceiling to be the integer one.\<close>

definition retry_seconds :: "duration \<Rightarrow> int" where
  "retry_seconds d = max 1 (- ((- d) div second))"

definition credentials_answer :: "request \<Rightarrow> auth_error + auth_result \<Rightarrow> response + auth_result" where
  "credentials_answer r res =
     (case res of
        Inl (RateLimitedError d) \<Rightarrow>
          Inl (writeError_with [(''Retry-After'', FormatInt (retry_seconds d))] r 429 ''authentication service rate limit exceeded'')
      | Inl ErrUnavailable \<Rightarrow> Inl (writeError r 502 ''authentication service unavailable'')
      | Inl OtherAuthError \<Rightarrow> Inl (writeError r 500 msgInternalError)
      | Inr result \<Rightarrow>
          if \<not> res_Authenticated result
          then Inl (writeError_with [(''LFS-Authenticate'', ''Basic realm='' @ [CHR 0x22] @ ''Anchor LFS'' @ [CHR 0x22])] r 401 ''credentials needed'')
          else Inr result)"

definition requireCredentials :: "('s, 'a, 'l) handler \<Rightarrow> request \<Rightarrow> operation \<Rightarrow> ('s, 'a, 'l) world
    \<Rightarrow> ('s, 'a, 'l) world \<times> (response + auth_result)" where
  "requireCredentials h r op' w =
     (case authenticate h r op' (w_auth w) of (a, res) \<Rightarrow> (w\<lparr>w_auth := a\<rparr>, credentials_answer r res))"

definition requireAuthResult :: "('s, 'a, 'l) handler \<Rightarrow> request \<Rightarrow> operation \<Rightarrow> ('s, 'a, 'l) world
    \<Rightarrow> ('s, 'a, 'l) world \<times> (response + auth_result)" where
  "requireAuthResult h r op' w =
     (case requireCredentials h r op' w of
        (w1, Inr result) \<Rightarrow>
          if \<not> res_Authorized result then (w1, Inl (writeError r 403 ''insufficient permissions'')) else (w1, Inr result)
      | (w1, Inl x) \<Rightarrow> (w1, Inl x))"

definition requireAuth :: "('s, 'a, 'l) handler \<Rightarrow> request \<Rightarrow> operation \<Rightarrow> ('s, 'a, 'l) world
    \<Rightarrow> ('s, 'a, 'l) world \<times> (response + unit)" where
  "requireAuth h r op' w = (case requireAuthResult h r op' w of (w1, res) \<Rightarrow> (w1, map_sum id (\<lambda>_. ()) res))"

definition opDownload :: string where "opDownload = ''download''"
definition opUpload :: string where "opUpload = ''upload''"
definition opVerify :: string where "opVerify = ''verify''"

definition requireValidSignature :: "golib \<Rightarrow> ('s, 'a, 'l) handler \<Rightarrow> http_env \<Rightarrow> request \<Rightarrow> string \<Rightarrow> response + unit" where
  "requireValidSignature lib h env r operation =
     (case Verify (h_signer h) (he_now env 0) operation (requestBaseURL lib h r) (rq_RequestURI r) of
        Some _ \<Rightarrow> Inl (writeError r 403 ''invalid or expired URL'')
      | None \<Rightarrow> Inr ())"

section \<open>Batches\<close>

definition signed_action :: "signed_url \<Rightarrow> lfs_action" where
  "signed_action s = \<lparr>act_Href = su_Href s, act_Header = [], act_ExpiresIn = su_ExpiresIn s, act_ExpiresAt = su_ExpiresAt s\<rparr>"

definition verifyAction :: "('s, 'a, 'l) handler \<Rightarrow> http_env \<Rightarrow> string \<Rightarrow> lfs_action" where
  "verifyAction h env baseURL =
     signed_action (Sign (h_signer h) (he_now env 0) opVerify baseURL (ep_Path (h_endpoint h) @ ''/objects/verify''))"

definition validateObject :: "lfs_object \<Rightarrow> string" where
  "validateObject obj =
     (if \<not> IsValidOID (obj_OID obj) then ''invalid object id''
      else if obj_Size obj < 0 then ''size must be non-negative''
      else [])"

definition object_answer :: "lfs_object \<Rightarrow> object_response" where
  "object_answer obj = \<lparr>or_OID = obj_OID obj, or_Size = obj_Size obj, or_Authenticated = None, or_Actions = [], or_Error = None\<rparr>"

definition object_fails :: "lfs_object \<Rightarrow> int \<Rightarrow> string \<Rightarrow> object_response" where
  "object_fails obj code message = (object_answer obj)\<lparr>or_Error := Some \<lparr>oe_Code = code, oe_Message = message\<rparr>\<rparr>"

definition object_acts :: "lfs_object \<Rightarrow> (string \<times> lfs_action) list \<Rightarrow> object_response" where
  "object_acts obj actions = (object_answer obj)\<lparr>or_Authenticated := Some True, or_Actions := actions\<rparr>"

definition object_path :: "('s, 'a, 'l) handler \<Rightarrow> lfs_object \<Rightarrow> string" where
  "object_path h obj = ep_Path (h_endpoint h) @ ''/objects/'' @ obj_OID obj"

definition presigned_action :: "('s, 'a, 'l) handler \<Rightarrow> string \<Rightarrow> (string \<times> string) list \<Rightarrow> lfs_action" where
  "presigned_action h href header =
     \<lparr>act_Href = href, act_Header = header, act_ExpiresIn = whole_seconds (Expiry (h_signer h)), act_ExpiresAt = []\<rparr>"

definition processDownload :: "('s, 'a, 'l) handler \<Rightarrow> http_env \<Rightarrow> nat \<Rightarrow> lfs_object \<Rightarrow> string \<Rightarrow> 's \<Rightarrow> object_response" where
  "processDownload h env i obj baseURL s =
     (case op_Size (h_store h i) s (ep_Path (h_endpoint h)) (obj_OID obj) of
        Inl ErrNotExist \<Rightarrow> object_fails obj 404 ''object not found''
      | Inl _ \<Rightarrow> object_fails obj 500 msgInternalError
      | Inr found \<Rightarrow>
        if found \<noteq> obj_Size obj
        then object_fails obj 422
          (''object size mismatch: expected '' @ FormatInt (obj_Size obj) @ '', found '' @ FormatInt found)
        else case op_Presign (h_store h i) of
          Some p \<Rightarrow>
            (case ps_PresignGet p s (ep_Path (h_endpoint h)) (obj_OID obj) (Expiry (h_signer h)) of
               Inl _ \<Rightarrow> object_fails obj 500 msgInternalError
             | Inr href \<Rightarrow> object_acts obj [(opDownload, presigned_action h href [])])
        | None \<Rightarrow>
            object_acts obj [(opDownload, signed_action
              (Sign (h_signer h) (he_now env (Suc i)) opDownload baseURL (object_path h obj)))])"

definition processUpload :: "('s, 'a, 'l) handler \<Rightarrow> http_env \<Rightarrow> nat \<Rightarrow> lfs_object \<Rightarrow> string \<Rightarrow> lfs_action \<Rightarrow> 's \<Rightarrow> object_response" where
  "processUpload h env i obj baseURL verify s =
     (if obj_Size obj > h_maxUploadSize h
      then object_fails obj 422 (''object exceeds maximum upload size of '' @ FormatInt (h_maxUploadSize h) @ '' bytes'')
      else case op_Size (h_store h i) s (ep_Path (h_endpoint h)) (obj_OID obj) of
        Inr found \<Rightarrow>
          if found = obj_Size obj then object_answer obj
          else object_fails obj 422
            (''object size mismatch: expected '' @ FormatInt (obj_Size obj) @ '', found '' @ FormatInt found)
      | Inl e \<Rightarrow>
        if e \<noteq> ErrNotExist then object_fails obj 500 msgInternalError
        else case op_Presign (h_store h i) of
          Some p \<Rightarrow>
            (case ps_PresignPut p s (ep_Path (h_endpoint h)) (obj_OID obj) (obj_Size obj) (Expiry (h_signer h)) of
               Inl ErrObjectTooLarge \<Rightarrow> object_fails obj 422 ''object exceeds the maximum size for a direct upload to storage''
             | Inl _ \<Rightarrow> object_fails obj 500 msgInternalError
             | Inr (href, header) \<Rightarrow> object_acts obj [(opUpload, presigned_action h href header), (opVerify, verify)])
        | None \<Rightarrow>
            object_acts obj [(opUpload, signed_action
              (Sign (h_signer h) (he_now env (Suc i)) opUpload baseURL (object_path h obj))), (opVerify, verify)])"

definition processObject :: "('s, 'a, 'l) handler \<Rightarrow> http_env \<Rightarrow> string \<Rightarrow> nat \<Rightarrow> lfs_object \<Rightarrow> string \<Rightarrow> lfs_action \<Rightarrow> 's \<Rightarrow> object_response" where
  "processObject h env operation i obj baseURL verify s =
     (let msg = validateObject obj in
      if msg \<noteq> [] then
        \<lparr>or_OID = obj_OID obj, or_Size = max (obj_Size obj) 0, or_Authenticated = None, or_Actions = [],
         or_Error = Some \<lparr>oe_Code = 422, oe_Message = msg\<rparr>\<rparr>
      else if operation = opDownload then processDownload h env i obj baseURL s
      else processUpload h env i obj baseURL verify s)"

text \<open>The objects before the client went away, each at its position; up to \<^verbatim>\<open>batchConcurrency\<close> of them are looked
  up at a time, which only shows in what \<^verbatim>\<open>h_store\<close> answers.\<close>

fun batch_loop :: "('s, 'a, 'l) handler \<Rightarrow> http_env \<Rightarrow> string \<Rightarrow> string \<Rightarrow> lfs_action \<Rightarrow> 's \<Rightarrow> nat \<Rightarrow> lfs_object list \<Rightarrow> object_response list" where
  "batch_loop h env operation baseURL verify s i [] = []"
| "batch_loop h env operation baseURL verify s i (obj # objs) =
     (if he_gone env i then []
      else processObject h env operation i obj baseURL verify s #
        batch_loop h env operation baseURL verify s (Suc i) objs)"

definition zero_action :: lfs_action where
  "zero_action = \<lparr>act_Href = [], act_Header = [], act_ExpiresIn = 0, act_ExpiresAt = []\<rparr>"

definition processBatch :: "('s, 'a, 'l) handler \<Rightarrow> http_env \<Rightarrow> batch_request \<Rightarrow> string \<Rightarrow> 's \<Rightarrow> batch_response" where
  "processBatch h env req baseURL s =
     (let verify = (if br_Operation req = opUpload then verifyAction h env baseURL else zero_action)
      in \<lparr>bp_Transfer = ''basic'', bp_Objects = batch_loop h env (br_Operation req) baseURL verify s 0 (br_Objects req),
          bp_HashAlgo = hashAlgo\<rparr>)"

definition unsupportedHashAlgo :: "lfs_object list \<Rightarrow> batch_response" where
  "unsupportedHashAlgo objects =
     \<lparr>bp_Transfer = ''basic'',
      bp_Objects = map (\<lambda>obj. \<lparr>or_OID = obj_OID obj, or_Size = max (obj_Size obj) 0, or_Authenticated = None, or_Actions = [],
        or_Error = Some \<lparr>oe_Code = 409, oe_Message = ''unsupported hash algorithm; only 'sha256' is supported''\<rparr>\<rparr>) objects,
      bp_HashAlgo = hashAlgo\<rparr>"

text \<open>The sum of the sizes of the objects to upload, stopping at the largest 64-bit number.\<close>

fun space_needed :: "64 word \<Rightarrow> object_response list \<Rightarrow> 64 word" where
  "space_needed needed [] = needed"
| "space_needed needed (obj # objs) =
     space_needed (if map_of (or_Actions obj) opUpload \<noteq> None
       then needed + min (word_of_int (or_Size obj)) (- 1 - needed) else needed) objs"

definition hasSpaceFor :: "('s, 'a, 'l) handler \<Rightarrow> object_response list \<Rightarrow> 's \<Rightarrow> bool" where
  "hasSpaceFor h objects s =
     (let needed = space_needed 0 objects in
      if needed = 0 then True
      else case op_AvailableSpace (h_store h 0) s of
        Inl _ \<Rightarrow> True
      | Inr avail \<Rightarrow> needed \<le> avail)"

definition maxObjectsPerBatch :: nat where "maxObjectsPerBatch = 1000"

text \<open>The part of \<^verbatim>\<open>BatchHandler\<close> before the credentials are looked at.\<close>

definition batch_request_of :: "golib \<Rightarrow> http_env \<Rightarrow> request \<Rightarrow> response + batch_request" where
  "batch_request_of lib env r =
     (case requireAccept lib r of
        Inl x \<Rightarrow> Inl x
      | Inr _ \<Rightarrow>
        (case requireContentType lib r of
           Inl x \<Rightarrow> Inl x
         | Inr _ \<Rightarrow>
           (case UnmarshalRead (he_early env) (rq_Body r) batch_request_value of
              Inl BodyTooLarge \<Rightarrow> Inl (writeError r 413 ''request body too large'')
            | Inl BodyInvalid \<Rightarrow> Inl (writeError r 422 ''invalid request body'')
            | Inr req \<Rightarrow>
              if length (br_Objects req) > maxObjectsPerBatch
              then Inl (writeError r 413 (''batch request contains '' @ format_nat (length (br_Objects req)) @
                '' objects; maximum is '' @ format_nat maxObjectsPerBatch))
              else if br_Operation req \<noteq> opDownload \<and> br_Operation req \<noteq> opUpload
              then Inl (writeError r 422 ''invalid operation'')
              else if br_Transfers req \<noteq> [] \<and> \<not> list_ex (\<lambda>t. EqualFold (lib_unicode lib) t ''basic'') (br_Transfers req)
              then Inl (writeError r 422 ''unsupported transfer adapter; only 'basic' is supported'')
              else Inr req)))"

definition BatchHandler :: "golib \<Rightarrow> ('s, 'a, 'l) handler \<Rightarrow> http_env \<Rightarrow> request \<Rightarrow> ('s, 'a, 'l) world \<Rightarrow> ('s, 'a, 'l) world \<times> response" where
  "BatchHandler lib h env r w =
     (case batch_request_of lib env r of
        Inl x \<Rightarrow> (w, x)
      | Inr req \<Rightarrow>
        (let op' = (if br_Operation req = opUpload then OperationUpload else OperationDownload) in
         case requireCredentials h r op' w of
           (w1, Inl x) \<Rightarrow> (w1, x)
         | (w1, Inr result) \<Rightarrow>
           if \<not> res_Authorized result \<and> op' = OperationDownload then (w1, writeError r 404 ''repository not found'')
           else if \<not> res_Authorized result then (w1, writeError r 403 ''insufficient permissions'')
           else if br_HashAlgo req \<noteq> [] \<and> br_HashAlgo req \<noteq> hashAlgo
           then (w1, writeJSON [] 200 (batch_response_json (unsupportedHashAlgo (br_Objects req))))
           else let resp = processBatch h env req (requestBaseURL lib h r) (w_store w1) in
             if br_Operation req = opUpload \<and> \<not> hasSpaceFor h (bp_Objects resp) (w_store w1)
             then (w1, writeError r 507 ''insufficient storage for requested uploads'')
             else (w1, writeJSON [] 200 (batch_response_json resp))))"

section \<open>Transfers\<close>

definition download_headers :: "string \<Rightarrow> (string \<times> string) list" where
  "download_headers oid =
     [(''Content-Type'', ''application/octet-stream''), (''Cache-Control'', ''no-store''), (''ETag'', [CHR 0x22] @ oid @ [CHR 0x22])]"

definition DownloadHandler :: "golib \<Rightarrow> ('s, 'a, 'l) handler \<Rightarrow> http_env \<Rightarrow> request \<Rightarrow> ('s, 'a, 'l) world \<Rightarrow> ('s, 'a, 'l) world \<times> response" where
  "DownloadHandler lib h env r w =
     (let oid = rq_PathValue r ''oid'' in
      if \<not> IsValidOID oid then (w, NotFoundHandler r)
      else case requireValidSignature lib h env r opDownload of
        Inl x \<Rightarrow> (w, x)
      | Inr _ \<Rightarrow>
        (case op_Get (h_store h 0) (w_store w) (ep_Path (h_endpoint h)) oid of
           Inl ErrNotExist \<Rightarrow> (w, writeError r 404 ''object not found'')
         | Inl _ \<Rightarrow> (w, writeError r 500 msgInternalError)
         | Inr (rd, len, seeks) \<Rightarrow>
           if seeks then (w, ServeContent lib r (download_headers oid) (rd_data rd))
           else (w, \<lparr>rsp_Status = 200, rsp_Header = set_header ''Content-Length'' (FormatInt len) (download_headers oid),
                     rsp_Body = BodyBytes (rd_data rd)\<rparr>)))"

definition upload_failure :: "('s, 'a, 'l) handler \<Rightarrow> http_env \<Rightarrow> request \<Rightarrow> store_error \<Rightarrow> response" where
  "upload_failure h env r err =
     (if err = ErrReader ReadDeadlineExceeded
      then writeError r 408 (''no upload data received for '' @ duration_string (h_uploadIdleTimeout h))
      else if err = ErrHashMismatch then writeError r 400 ''SHA-256 hash mismatch''
      else if err = ErrInsufficientStorage then writeError r 507 ''insufficient storage''
      else if err = ErrReader ReadMaxBytes
      then writeError r 413 (''object exceeds maximum upload size of '' @ FormatInt (h_maxUploadSize h) @ '' bytes'')
      else if err = ErrObjectTooLarge then writeError r 413 ''object exceeds the maximum size storage accepts''
      else if readErrorRecorder (he_hidden env) err \<or> he_ctx env
      then writeError r 400 ''upload interrupted before the object was complete''
      else writeError r 500 msgInternalError)"

definition upload_reader :: "('s, 'a, 'l) handler \<Rightarrow> http_env \<Rightarrow> request \<Rightarrow> reader" where
  "upload_reader h env r =
     withIdleTimeout (he_deadlines env) (MaxBytesReader (h_maxUploadSize h) (rq_Body r)) (h_uploadIdleTimeout h)"

definition UploadHandler :: "golib \<Rightarrow> ('s, 'a, 'l) handler \<Rightarrow> http_env \<Rightarrow> request \<Rightarrow> ('s, 'a, 'l) world \<Rightarrow> ('s, 'a, 'l) world \<times> response" where
  "UploadHandler lib h env r w =
     (let oid = rq_PathValue r ''oid'' in
      if \<not> IsValidOID oid then (w, NotFoundHandler r)
      else case requireValidSignature lib h env r opUpload of
        Inl x \<Rightarrow> (w, x)
      | Inr _ \<Rightarrow>
        if rq_ContentLength r > h_maxUploadSize h
        then (w, writeError r 413 (''object exceeds maximum upload size of '' @ FormatInt (h_maxUploadSize h) @ '' bytes''))
        else case op_Exists (h_store h 0) (w_store w) (ep_Path (h_endpoint h)) oid of
          Inl _ \<Rightarrow> (w, writeError r 500 msgInternalError)
        | Inr True \<Rightarrow> (w, WriteHeader 200)
        | Inr False \<Rightarrow>
          (case op_Put (h_store h 0) (w_store w) (ep_Path (h_endpoint h)) oid (upload_reader h env r) (rq_ContentLength r) of
             (s, Some err) \<Rightarrow> (w\<lparr>w_store := s\<rparr>, upload_failure h env r err)
           | (s, None) \<Rightarrow> (w\<lparr>w_store := s\<rparr>, WriteHeader 200)))"

definition VerifyHandler :: "golib \<Rightarrow> ('s, 'a, 'l) handler \<Rightarrow> http_env \<Rightarrow> request \<Rightarrow> ('s, 'a, 'l) world \<Rightarrow> ('s, 'a, 'l) world \<times> response" where
  "VerifyHandler lib h env r w =
     (case requireValidSignature lib h env r opVerify of
        Inl x \<Rightarrow> (w, x)
      | Inr _ \<Rightarrow>
        (case requireContentType lib r of
           Inl x \<Rightarrow> (w, x)
         | Inr _ \<Rightarrow>
           (case UnmarshalRead (he_early env) (rq_Body r) verify_request_value of
              Inl _ \<Rightarrow> (w, writeError r 422 ''invalid request body'')
            | Inr req \<Rightarrow>
              if \<not> IsValidOID (vr_OID req) then (w, writeError r 422 ''invalid object id'')
              else case op_Size (h_store h 0) (w_store w) (ep_Path (h_endpoint h)) (vr_OID req) of
                Inl ErrNotExist \<Rightarrow> (w, writeError r 404 ''object not found'')
              | Inl _ \<Rightarrow> (w, writeError r 500 msgInternalError)
              | Inr found \<Rightarrow>
                if found \<noteq> vr_Size req
                then (w, writeError r 422 (''size mismatch: expected '' @ FormatInt (vr_Size req) @ '', got '' @ FormatInt found))
                else (w, WriteHeader 200))))"

section \<open>Locks\<close>

definition CreateLockHandler :: "golib \<Rightarrow> ('s, 'a, 'l) handler \<Rightarrow> http_env \<Rightarrow> request \<Rightarrow> ('s, 'a, 'l) world \<Rightarrow> ('s, 'a, 'l) world \<times> response" where
  "CreateLockHandler lib h env r w =
     (case requireAuthResult h r OperationUpload w of
        (w1, Inl x) \<Rightarrow> (w1, x)
      | (w1, Inr result) \<Rightarrow>
        (case requireLFSMediaType lib r of
           Inl x \<Rightarrow> (w1, x)
         | Inr _ \<Rightarrow>
           (case UnmarshalRead (he_early env) (rq_Body r) create_lock_request_value of
              Inl _ \<Rightarrow> (w1, writeError r 422 ''invalid request body'')
            | Inr req \<Rightarrow>
              if \<not> isValidLockPath (cl_Path req) then (w1, writeError r 422 ''invalid lock path'')
              else case lo_Create (h_lockStore h) (w_locks w1) (ep_Path (h_endpoint h)) (cl_Path req) (res_Username result) of
                (l, lock, err) \<Rightarrow>
                  (let w2 = w1\<lparr>w_locks := l\<rparr> in
                   case err of
                     None \<Rightarrow> (w2, writeJSON [] 201 (create_lock_response_json lock [] [] []))
                   | Some ErrLockExists \<Rightarrow>
                     (w2, writeJSON [] 409 (create_lock_response_json lock ''already created lock'' (rq_RequestID r) documentationURL))
                   | Some _ \<Rightarrow> (w2, writeError r 500 msgInternalError)))))"

definition ListLocksHandler :: "golib \<Rightarrow> ('s, 'a, 'l) handler \<Rightarrow> http_env \<Rightarrow> request \<Rightarrow> ('s, 'a, 'l) world \<Rightarrow> ('s, 'a, 'l) world \<times> response" where
  "ListLocksHandler lib h env r w =
     (case requireAuth h r OperationDownload w of
        (w1, Inl x) \<Rightarrow> (w1, x)
      | (w1, Inr _) \<Rightarrow>
        (case requireAccept lib r of
           Inl x \<Rightarrow> (w1, x)
         | Inr _ \<Rightarrow>
           (let query = URL_Query (rq_RawQuery r); v = values_get query ''limit'';
                limit = (if v = [] then Some 0 else case ParseInt v of None \<Rightarrow> None | Some n \<Rightarrow> if n < 0 then None else Some n)
            in case limit of
                 None \<Rightarrow> (w1, writeError r 422 ''invalid limit parameter'')
               | Some n \<Rightarrow>
                 (case lo_List (h_lockStore h) (w_locks w1) (ep_Path (h_endpoint h))
                         \<lparr>opt_Path = values_get query ''path'', opt_ID = values_get query ''id'', opt_Cursor = values_get query ''cursor'',
                          opt_Limit = n, opt_Refspec = values_get query ''refspec''\<rparr> of
                    (l, res) \<Rightarrow>
                      (let w2 = w1\<lparr>w_locks := l\<rparr> in
                       case res of
                         Inl ErrInvalidLockCursor \<Rightarrow> (w2, writeError r 422 ''invalid cursor'')
                       | Inl _ \<Rightarrow> (w2, writeError r 500 msgInternalError)
                       | Inr (locks, nextCursor) \<Rightarrow> (w2, writeJSON [] 200 (list_locks_response_json locks nextCursor)))))))"

definition VerifyLocksHandler :: "golib \<Rightarrow> ('s, 'a, 'l) handler \<Rightarrow> http_env \<Rightarrow> request \<Rightarrow> ('s, 'a, 'l) world \<Rightarrow> ('s, 'a, 'l) world \<times> response" where
  "VerifyLocksHandler lib h env r w =
     (case requireAuthResult h r OperationUpload w of
        (w1, Inl x) \<Rightarrow> (w1, x)
      | (w1, Inr result) \<Rightarrow>
        (case requireLFSMediaType lib r of
           Inl x \<Rightarrow> (w1, x)
         | Inr _ \<Rightarrow>
           (case UnmarshalRead (he_early env) (rq_Body r) verify_locks_request_value of
              Inl _ \<Rightarrow> (w1, writeError r 422 ''invalid request body'')
            | Inr req \<Rightarrow>
              (case lo_List (h_lockStore h) (w_locks w1) (ep_Path (h_endpoint h))
                      \<lparr>opt_Path = [], opt_ID = [], opt_Cursor = vl_Cursor req, opt_Limit = vl_Limit req, opt_Refspec = []\<rparr> of
                 (l, res) \<Rightarrow>
                   (let w2 = w1\<lparr>w_locks := l\<rparr> in
                    case res of
                      Inl ErrInvalidLockCursor \<Rightarrow> (w2, writeError r 422 ''invalid cursor'')
                    | Inl _ \<Rightarrow> (w2, writeError r 500 msgInternalError)
                    | Inr (locks, nextCursor) \<Rightarrow>
                      (let mine = (\<lambda>l. EqualFold (lib_unicode lib) (owner_Name (lk_Owner l)) (res_Username result))
                       in (w2, writeJSON [] 200 (verify_locks_response_json (filter mine locks) (filter (\<lambda>l. \<not> mine l) locks) nextCursor))))))))"

definition UnlockHandler :: "golib \<Rightarrow> ('s, 'a, 'l) handler \<Rightarrow> http_env \<Rightarrow> request \<Rightarrow> ('s, 'a, 'l) world \<Rightarrow> ('s, 'a, 'l) world \<times> response" where
  "UnlockHandler lib h env r w =
     (case requireAuthResult h r OperationUpload w of
        (w1, Inl x) \<Rightarrow> (w1, x)
      | (w1, Inr result) \<Rightarrow>
        (case requireLFSMediaType lib r of
           Inl x \<Rightarrow> (w1, x)
         | Inr _ \<Rightarrow>
           (case UnmarshalRead (he_early env) (rq_Body r) unlock_request_value of
              Inl _ \<Rightarrow> (w1, writeError r 422 ''invalid request body'')
            | Inr req \<Rightarrow>
              (let id' = rq_PathValue r ''id'' in
               if id' = [] then (w1, writeError r 422 ''missing lock id'')
               else case lo_Unlock (h_lockStore h) (w_locks w1) (ep_Path (h_endpoint h)) id' (res_Username result)
                           (ul_Force req \<and> res_Maintainer result) of
                 (l, lock, err) \<Rightarrow>
                   (let w2 = w1\<lparr>w_locks := l\<rparr> in
                    case err of
                      None \<Rightarrow> (w2, writeJSON [] 200 (unlock_response_json lock))
                    | Some ErrLockNotFound \<Rightarrow> (w2, writeError r 404 ''lock not found'')
                    | Some ErrLockNotOwner \<Rightarrow>
                      (if ul_Force req
                       then (w2, writeError r 403 ''forcing an unlock of another user's lock requires the maintain or admin permission'')
                       else (w2, writeError r 403 ''lock is owned by another user''))
                    | Some _ \<Rightarrow> (w2, writeError r 500 msgInternalError))))))"

end
