(* ===== verification/Local_Storage.thy ===== *)
theory Local_Storage
  imports Storage_Base
begin

text \<open>
  \<^verbatim>\<open>src/storage/local.go\<close> and \<^verbatim>\<open>src/storage/local_unix.go\<close>: objects as files of a directory tree.

  The state of a \<^verbatim>\<open>Local\<close> is its base path, the set of temporary files being written, the regular
  files of the disk with their contents and modification times, and its directories. \<^verbatim>\<open>Put\<close> is a plan, the sequence of
  effects it has in order, the directories it makes included, so that a crash or another goroutine can be put between
  any two of them; running the whole plan is the call. What the operating system may answer (a cancelled context, a
  failing call, the random names \<^verbatim>\<open>CreateTemp\<close> tries) is the argument \<^verbatim>\<open>put_env\<close>.
\<close>

section \<open>The disk\<close>

record disk_file =
  f_data :: bytes
  f_mtime :: instant

type_synonym disk = "string \<rightharpoonup> disk_file"

datatype fs_op = OpCreate string | OpAppend string bytes | OpRename string string | OpRemove string

fun apply_op :: "instant \<Rightarrow> disk \<Rightarrow> fs_op \<Rightarrow> disk" where
  "apply_op now d (OpCreate p) = d(p \<mapsto> \<lparr>f_data = [], f_mtime = now\<rparr>)"
| "apply_op now d (OpAppend p bs) =
     (case d p of None \<Rightarrow> d | Some f \<Rightarrow> d(p \<mapsto> \<lparr>f_data = f_data f @ bs, f_mtime = now\<rparr>))"
| "apply_op now d (OpRename p q) = (case d p of None \<Rightarrow> d | Some f \<Rightarrow> (d(p := None))(q \<mapsto> f))"
| "apply_op now d (OpRemove p) = d(p := None)"

text \<open>\<^verbatim>\<open>os.CreateTemp(dir, prefix + "*")\<close>: the first name of those drawn that no file has.\<close>

definition CreateTemp :: "disk \<Rightarrow> string \<Rightarrow> string \<Rightarrow> nat list \<Rightarrow> string option" where
  "CreateTemp d dir prefix names =
     find (\<lambda>p. d p = None) (map (\<lambda>n. dir @ ''/'' @ prefix @ format_nat n) names)"

section \<open>The adapter's state\<close>

record local =
  basePath :: string
  writing :: "string set"
  disk :: disk
  directories :: "string set"

definition TempFilePrefix :: string where "TempFilePrefix = ''.tmp-''"
definition uploadTempDir :: string where "uploadTempDir = ''.tmp''"

text \<open>\<^verbatim>\<open>NewLocal\<close>, on a disk with its directories.\<close>

definition NewLocal :: "string \<Rightarrow> disk \<Rightarrow> string set \<Rightarrow> local" where
  "NewLocal base d ds = \<lparr>basePath = base, writing = {}, disk = d, directories = ds\<rparr>"

definition Writing :: "local \<Rightarrow> string \<Rightarrow> bool" where
  "Writing l path \<longleftrightarrow> path \<in> writing l"

definition filePath :: "local \<Rightarrow> string \<Rightarrow> string \<Rightarrow> store_error + string" where
  "filePath l endpoint oid =
     (case normaliseOID oid of
        Inl e \<Rightarrow> Inl e
      | Inr oid \<Rightarrow> Inr (Join [basePath l, Endpoint endpoint, take 2 oid, take 2 (drop 2 oid), oid]))"

text \<open>\<^verbatim>\<open>filepath.Rel\<close>: the elements of the target below the common part, after going up from the base;
  \<^term>\<open>None\<close> when one path is absolute and the other not, or the base goes up through unknown directories.\<close>

fun strip_common :: "string list \<Rightarrow> string list \<Rightarrow> string list \<times> string list" where
  "strip_common (x # xs) (y # ys) = (if x = y then strip_common xs ys else (x # xs, y # ys))"
| "strip_common xs ys = (xs, ys)"

definition path_elems :: "string \<Rightarrow> string list" where
  "path_elems p = rev (clean_stack (is_rooted p) p)"

definition Rel :: "string \<Rightarrow> string \<Rightarrow> string option" where
  "Rel base targ =
     (if Clean base = Clean targ then Some ''.''
      else if is_rooted base \<noteq> is_rooted targ then None
      else case strip_common (path_elems base) (path_elems targ) of
        (bs, ts) \<Rightarrow> if bs \<noteq> [] \<and> hd bs = ''..'' then None
                    else Some (join_slash (replicate (length bs) ''..'' @ ts)))"

datatype put_step = Mkdir string | Track string | Untrack string | Fs fs_op

fun apply_step :: "instant \<Rightarrow> local \<Rightarrow> put_step \<Rightarrow> local" where
  "apply_step now l (Mkdir d) = l\<lparr>directories := insert d (directories l)\<rparr>"
| "apply_step now l (Track k) = l\<lparr>writing := insert k (writing l)\<rparr>"
| "apply_step now l (Untrack k) = l\<lparr>writing := writing l - {k}\<rparr>"
| "apply_step now l (Fs op) = l\<lparr>disk := apply_op now (disk l) op\<rparr>"

definition run_steps :: "instant \<Rightarrow> local \<Rightarrow> put_step list \<Rightarrow> local" where
  "run_steps now l steps = foldl (apply_step now) l steps"

text \<open>A directory with all the ones above it, from the top, and \<^verbatim>\<open>os.MkdirAll\<close>: it makes those of them that are missing, one
  after the other, or stops with an error after the number of them that \<open>fault\<close> says.\<close>

definition dir_chain :: "string \<Rightarrow> string list" where
  "dir_chain path = map (\<lambda>n. render_path (is_rooted path) (take n (path_elems path))) [1..<Suc (length (path_elems path))]"

definition MkdirAll :: "string set \<Rightarrow> string \<Rightarrow> nat option \<Rightarrow> put_step list \<times> bool" where
  "MkdirAll ds path fault =
     (let missing = map Mkdir (filter (\<lambda>d. d \<notin> ds) (dir_chain path))
      in case fault of None \<Rightarrow> (missing, False) | Some n \<Rightarrow> (take n missing, True))"

text \<open>\<^verbatim>\<open>trackWriting\<close> and the function it returns.\<close>

definition trackWriting :: "local \<Rightarrow> string \<Rightarrow> put_step list \<times> put_step list" where
  "trackWriting l tmpPath =
     (case Rel (basePath l) tmpPath of None \<Rightarrow> ([], []) | Some key \<Rightarrow> ([Track key], [Untrack key]))"

section \<open>Operations\<close>

text \<open>\<^verbatim>\<open>ctx\<close> and \<open>fault\<close> say whether the context is cancelled and whether the system call fails for a
  reason other than a missing file.\<close>

definition Exists :: "local \<Rightarrow> bool \<Rightarrow> bool \<Rightarrow> string \<Rightarrow> string \<Rightarrow> store_error + bool" where
  "Exists l ctx fault endpoint oid =
     (if ctx then Inl ErrContext
      else case filePath l endpoint oid of
        Inl e \<Rightarrow> Inl e
      | Inr path \<Rightarrow>
        if fault then Inl ErrIO
        else (case disk l path of Some _ \<Rightarrow> Inr True | None \<Rightarrow> Inr False))"

definition Get :: "local \<Rightarrow> bool \<Rightarrow> bool \<Rightarrow> string \<Rightarrow> string \<Rightarrow> store_error + (bytes \<times> int)" where
  "Get l ctx fault endpoint oid =
     (if ctx then Inl ErrContext
      else case filePath l endpoint oid of
        Inl e \<Rightarrow> Inl e
      | Inr path \<Rightarrow>
        if fault then Inl ErrIO
        else (case disk l path of
                None \<Rightarrow> Inl ErrNotExist
              | Some f \<Rightarrow> Inr (f_data f, int (length (f_data f)))))"

definition Size :: "local \<Rightarrow> bool \<Rightarrow> bool \<Rightarrow> string \<Rightarrow> string \<Rightarrow> store_error + int" where
  "Size l ctx fault endpoint oid =
     (if ctx then Inl ErrContext
      else case filePath l endpoint oid of
        Inl e \<Rightarrow> Inl e
      | Inr path \<Rightarrow>
        if fault then Inl ErrIO
        else (case disk l path of
                None \<Rightarrow> Inl ErrNotExist
              | Some f \<Rightarrow> Inr (int (length (f_data f)))))"

text \<open>\<^verbatim>\<open>AvailableSpace\<close> multiplies two 64-bit numbers of \<^verbatim>\<open>statfs\<close>, wrapping around.\<close>

definition AvailableSpace :: "bool \<Rightarrow> (64 word \<times> 64 word) option \<Rightarrow> store_error + 64 word" where
  "AvailableSpace ctx statfs =
     (if ctx then Inl ErrContext
      else case statfs of None \<Rightarrow> Inl ErrIO | Some (bavail, bsize) \<Rightarrow> Inr (bavail * bsize))"

definition Check :: "bool \<Rightarrow> (64 word \<times> 64 word) option \<Rightarrow> store_error option" where
  "Check ctx statfs = (case AvailableSpace ctx statfs of Inl e \<Rightarrow> Some e | Inr _ \<Rightarrow> None)"

text \<open>\<^verbatim>\<open>CheckWritableDir\<close>: creating a file in the directory and removing it again.\<close>

definition CheckWritableDir :: "disk \<Rightarrow> string \<Rightarrow> nat list \<Rightarrow> bool \<Rightarrow> instant \<Rightarrow> disk \<times> store_error option" where
  "CheckWritableDir d dir names remove_fails now =
     (case CreateTemp d dir ''.write-check-'' names of
        None \<Rightarrow> (d, Some ErrIO)
      | Some name \<Rightarrow>
        (let d' = apply_op now d (OpCreate name) in
         if remove_fails then (d', Some ErrIO) else (apply_op now d' (OpRemove name), None)))"

datatype write_error = NoSpace | WriteOther

record put_env =
  pe_ctx :: bool
  pe_mkdir :: "nat option"
  pe_mkdir_tmp :: "nat option"
  pe_names :: "nat list"
  pe_write :: "(nat \<times> nat \<times> write_error) option"
  pe_sync :: "write_error option"
  pe_close :: bool
  pe_rename :: bool
  pe_remove :: bool
  pe_now :: instant

text \<open>\<^verbatim>\<open>io.Copy\<close> into the temporary file, chunk by chunk; the fault \<open>(i, n, e)\<close> makes the write of chunk
  \<open>i\<close> stop after \<open>n\<close> bytes with error \<open>e\<close>.\<close>

fun copy_steps :: "string \<Rightarrow> bytes list \<Rightarrow> (nat \<times> nat \<times> write_error) option \<Rightarrow> put_step list \<times> write_error option" where
  "copy_steps tmp [] fault = ([], None)"
| "copy_steps tmp (c # cs) fault =
     (case fault of
        Some (0, n, e) \<Rightarrow> ([Fs (OpAppend tmp (take n c))], Some e)
      | _ \<Rightarrow>
        (let (steps, r) = copy_steps tmp cs (map_option (\<lambda>(i, ne). (i - 1, ne)) fault)
         in (Fs (OpAppend tmp c) # steps, r)))"

definition write_failure :: "write_error \<Rightarrow> store_error" where
  "write_failure e = (case e of NoSpace \<Rightarrow> ErrInsufficientStorage | WriteOther \<Rightarrow> ErrIO)"

text \<open>The part of \<^verbatim>\<open>Put\<close> between creating the temporary file and the deferred clean-up.\<close>

definition put_body :: "unicode_tables \<Rightarrow> string \<Rightarrow> string \<Rightarrow> string \<Rightarrow> reader \<Rightarrow> put_env
    \<Rightarrow> put_step list \<times> store_error option" where
  "put_body u destPath oid tmp r env =
     (case copy_steps tmp (rd_chunks r) (pe_write env) of
        (steps, Some e) \<Rightarrow> (steps, Some (write_failure e))
      | (steps, None) \<Rightarrow>
        (case rd_err r of
           Some e \<Rightarrow> (steps, Some (ErrReader e))
         | None \<Rightarrow>
           (case pe_sync env of
              Some e \<Rightarrow> (steps, Some (write_failure e))
            | None \<Rightarrow>
              if pe_close env then (steps, Some ErrIO)
              else if \<not> EqualFold u (hex_encode (sha256 (rd_data r))) oid then (steps, Some ErrHashMismatch)
              else if pe_rename env then (steps, Some ErrIO)
              else (steps @ [Fs (OpRename tmp destPath)], None))))"

definition put_plan :: "unicode_tables \<Rightarrow> local \<Rightarrow> string \<Rightarrow> string \<Rightarrow> reader \<Rightarrow> put_env
    \<Rightarrow> put_step list \<times> store_error option" where
  "put_plan u l endpoint oid r env =
     (if pe_ctx env then ([], Some ErrContext)
      else case filePath l endpoint oid of
        Inl e \<Rightarrow> ([], Some e)
      | Inr destPath \<Rightarrow>
        (case MkdirAll (directories l) (Dir destPath) (pe_mkdir env) of (mk, failed) \<Rightarrow>
         if failed then (mk, Some ErrIO)
         else
          (let tmpDir = Join [basePath l, Endpoint endpoint, uploadTempDir] in
           case MkdirAll (directories l \<union> set (dir_chain (Dir destPath))) tmpDir (pe_mkdir_tmp env) of (mk', failed') \<Rightarrow>
           if failed' then (mk @ mk', Some ErrIO)
           else case CreateTemp (disk l) tmpDir TempFilePrefix (pe_names env) of
             None \<Rightarrow> (mk @ mk', Some ErrIO)
           | Some tmp \<Rightarrow>
             (let (track, untrack) = trackWriting l tmp;
                  (steps, err) = put_body u destPath oid tmp r env;
                  cleanup = (if pe_remove env then [] else [Fs (OpRemove tmp)])
              in ((mk @ mk') @ Fs (OpCreate tmp) # track @ steps @ cleanup @ untrack, err)))))"

definition Put :: "unicode_tables \<Rightarrow> local \<Rightarrow> string \<Rightarrow> string \<Rightarrow> reader \<Rightarrow> put_env \<Rightarrow> local \<times> store_error option" where
  "Put u l endpoint oid r env =
     (case put_plan u l endpoint oid r env of (steps, err) \<Rightarrow> (run_steps (pe_now env) l steps, err))"

section \<open>Paths\<close>

lemma valid_oid_parts:
  assumes "IsValidOID oid"
  shows "list_all plain_elem [take 2 oid, take 2 (drop 2 oid), oid]"
proof -
  have h: "\<And>c. c \<in> set oid \<Longrightarrow> is_hex c" and len: "length oid = 64"
    using assms by (auto simp: IsValidOID_def list_all_iff)
  have nh: "\<not> is_hex CHR ''/''" "\<not> is_hex CHR ''.''"
    by (simp_all add: is_hex_def hex_value_def)
  have pl: "plain_elem s" if "s \<noteq> []" "set s \<subseteq> set oid" for s
    using that h nh by (auto simp: plain_elem_def)
  have "set (take 2 (drop 2 oid)) \<subseteq> set oid"
    by (meson order_trans set_drop_subset set_take_subset)
  then show ?thesis
    using len by (auto intro!: pl dest: in_set_takeD)
qed

definition object_elems :: "string \<Rightarrow> string \<Rightarrow> string list" where
  "object_elems endpoint oid = (let o' = map lower_char oid in
     [Endpoint endpoint, take 2 o', take 2 (drop 2 o'), o'])"

lemma object_elems_plain: "IsValidOID oid \<Longrightarrow> list_all plain_elem (object_elems ep oid)"
  using valid_oid_parts [of "map lower_char oid"] by (simp add: object_elems_def Let_def)

lemma filePath_valid: "IsValidOID oid \<Longrightarrow> filePath l ep oid = Inr (Join (basePath l # object_elems ep oid))"
  by (simp add: filePath_def normaliseOID_def object_elems_def Let_def)

lemma filePath_invalid: "\<not> IsValidOID oid \<Longrightarrow> filePath l ep oid = Inl ErrInvalidOID"
  by (simp add: filePath_def normaliseOID_def)

lemma filePath_Inr_iff:
  "filePath l ep oid = Inr p \<longleftrightarrow> IsValidOID oid \<and> p = Join (basePath l # object_elems ep oid)"
  by (cases "IsValidOID oid") (auto simp: filePath_valid filePath_invalid)

lemma object_elems_inj:
  "object_elems ep oid = object_elems ep' oid' \<longleftrightarrow>
     Endpoint ep = Endpoint ep' \<and> map lower_char oid = map lower_char oid'"
  by (auto simp: object_elems_def Let_def)

text \<open>Two objects share a path only when they share the endpoint's directory and the normalised id.\<close>

lemma filePath_inj:
  assumes "basePath l \<noteq> []" "filePath l ep oid = Inr p" "filePath l ep' oid' = Inr p"
  shows "Endpoint ep = Endpoint ep' \<and> map lower_char oid = map lower_char oid'"
proof -
  have "object_elems ep oid = object_elems ep' oid'"
    using assms by (intro Join_plain_inj [of "basePath l"])
      (auto simp: filePath_Inr_iff object_elems_plain, auto simp: object_elems_def Let_def)
  then show ?thesis by (simp add: object_elems_inj)
qed

section \<open>The temporary file\<close>

definition temp_elems :: "string \<Rightarrow> nat \<Rightarrow> string list" where
  "temp_elems endpoint n = [Endpoint endpoint, uploadTempDir, TempFilePrefix @ format_nat n]"

lemma temp_elems_plain: "list_all plain_elem (temp_elems ep n)"
proof -
  have "CHR ''/'' \<notin> set (format_nat n)"
    using format_nat_digits(1) [of n] by (auto simp: list_all_iff is_digit_def)
  then show ?thesis
    by (simp add: temp_elems_def uploadTempDir_def TempFilePrefix_def plain_elem_def
        Endpoint_plain [unfolded plain_elem_def])
qed

lemma render_path_snoc:
  "es \<noteq> [] \<Longrightarrow> render_path r (es @ [e]) = render_path r es @ CHR ''/'' # e"
  by (simp add: render_path_def join_slash_append)

lemma temp_path_eq:
  assumes "basePath l \<noteq> []"
  shows "Join [basePath l, Endpoint ep, uploadTempDir] @ ''/'' @ TempFilePrefix @ format_nat n
    = Join (basePath l # temp_elems ep n)"
proof -
  have "list_all plain_elem (temp_elems ep n)" by (rule temp_elems_plain)
  then show ?thesis
    using assms render_path_snoc [of "rev (clean_stack (is_rooted (basePath l)) (basePath l)) @
        [Endpoint ep, uploadTempDir]" "is_rooted (basePath l)" "TempFilePrefix @ format_nat n"]
    by (simp add: Join_plain temp_elems_def)
qed

text \<open>A temporary file is never at an object's path.\<close>

lemma temp_path_not_object:
  assumes "basePath l \<noteq> []" "filePath l ep' oid = Inr p"
  shows "Join (basePath l # temp_elems ep n) \<noteq> p"
proof
  assume eq: "Join (basePath l # temp_elems ep n) = p"
  have "temp_elems ep n = object_elems ep' oid"
    using assms eq by (intro Join_plain_inj [of "basePath l"])
      (auto simp: filePath_Inr_iff object_elems_plain temp_elems_plain,
        auto simp: temp_elems_def object_elems_def Let_def)
  then show False by (simp add: temp_elems_def object_elems_def Let_def)
qed

lemma CreateTemp_Some:
  assumes "CreateTemp d dir prefix names = Some p"
  shows "d p = None" "\<exists>n. p = dir @ ''/'' @ prefix @ format_nat n"
  using assms by (auto simp: CreateTemp_def find_Some_iff)

section \<open>The objects of a store\<close>

definition object :: "local \<Rightarrow> string \<Rightarrow> string \<Rightarrow> bytes option" where
  "object l ep oid = (case filePath l ep oid of Inl _ \<Rightarrow> None | Inr p \<Rightarrow> map_option f_data (disk l p))"

text \<open>The invariant: whatever is at an object's path hashes to the object's id.\<close>

definition store_wf :: "local \<Rightarrow> bool" where
  "store_wf l \<longleftrightarrow> basePath l \<noteq> [] \<and>
     (\<forall>ep oid d. object l ep oid = Some d \<longrightarrow> map lower_char oid = hex_encode (sha256 d))"

fun step_path_only :: "string \<Rightarrow> put_step \<Rightarrow> bool" where
  "step_path_only p (Fs (OpCreate q)) \<longleftrightarrow> q = p"
| "step_path_only p (Fs (OpAppend q bs)) \<longleftrightarrow> q = p"
| "step_path_only p (Fs (OpRemove q)) \<longleftrightarrow> q = p"
| "step_path_only p (Fs (OpRename q r)) \<longleftrightarrow> False"
| "step_path_only p (Mkdir d) \<longleftrightarrow> True"
| "step_path_only p (Track k) \<longleftrightarrow> True"
| "step_path_only p (Untrack k) \<longleftrightarrow> True"

lemma run_steps_simps [simp]:
  "run_steps now l [] = l"
  "run_steps now l (s # ss) = run_steps now (apply_step now l s) ss"
  "run_steps now l (ss @ ts) = run_steps now (run_steps now l ss) ts"
  by (simp_all add: run_steps_def)

lemma basePath_apply_step [simp]: "basePath (apply_step now l s) = basePath l"
  by (cases s) auto

lemma basePath_run_steps [simp]: "basePath (run_steps now l ss) = basePath l"
  by (induction ss arbitrary: l) auto

lemma filePath_run_steps [simp]: "filePath (run_steps now l ss) = filePath l"
  by (intro ext) (simp add: filePath_def split: sum.split)

lemma filePath_update [simp]:
  "filePath (l\<lparr>disk := d\<rparr>) = filePath l" "filePath (l\<lparr>writing := w\<rparr>) = filePath l" "filePath (l\<lparr>directories := ds\<rparr>) = filePath l"
  by (intro ext; simp add: filePath_def split: sum.split)+

lemma run_path_only:
  "list_all (step_path_only p) ss \<Longrightarrow> q \<noteq> p \<Longrightarrow> disk (run_steps now l ss) q = disk l q"
proof (induction ss arbitrary: l)
  case (Cons s ss)
  then have "disk (apply_step now l s) q = disk l q"
    by (cases s; cases "case s of Fs op \<Rightarrow> op | _ \<Rightarrow> OpRemove p") (auto split: option.splits)
  with Cons show ?case by simp
qed simp

text \<open>The steps that make directories are the ones that change them, and change nothing else.\<close>

definition is_mkdir :: "put_step \<Rightarrow> bool" where
  "is_mkdir s \<longleftrightarrow> (\<exists>d. s = Mkdir d)"

lemma run_steps_dirs: "directories (run_steps now l ss) = directories l \<union> {d. Mkdir d \<in> set ss}"
proof (induction ss arbitrary: l)
  case (Cons s ss)
  then show ?case by (cases s) auto
qed simp

lemma run_mkdirs:
  assumes "list_all is_mkdir ss"
  shows "disk (run_steps now l ss) = disk l" "writing (run_steps now l ss) = writing l" "list_all (step_path_only p) ss"
proof -
  have "disk (run_steps now l ss) = disk l \<and> writing (run_steps now l ss) = writing l \<and> list_all (step_path_only p) ss"
    using assms by (induction ss arbitrary: l) (auto simp: is_mkdir_def)
  then show "disk (run_steps now l ss) = disk l" "writing (run_steps now l ss) = writing l" "list_all (step_path_only p) ss" by blast+
qed

text \<open>The directories a call may make: the object's and the one for temporary files, each with the ones above it.\<close>

definition put_dirs :: "local \<Rightarrow> string \<Rightarrow> string \<Rightarrow> string set" where
  "put_dirs l ep oid =
     (case filePath l ep oid of
        Inl _ \<Rightarrow> {}
      | Inr dest \<Rightarrow> set (dir_chain (Dir dest)) \<union> set (dir_chain (Join [basePath l, Endpoint ep, uploadTempDir])))"

lemma MkdirAll_steps:
  assumes "MkdirAll ds path fault = (mk, failed)"
  shows "list_all is_mkdir mk \<and> {d. Mkdir d \<in> set mk} \<subseteq> set (dir_chain path)"
proof -
  let ?missing = "filter (\<lambda>d. d \<notin> ds) (dir_chain path)"
  have "mk = map Mkdir (take (case fault of None \<Rightarrow> length ?missing | Some n \<Rightarrow> n) ?missing)"
    using assms by (auto simp: MkdirAll_def Let_def take_map split: option.splits)
  moreover have "set (take n ?missing) \<subseteq> set (dir_chain path)" for n using set_take_subset [of n ?missing] by auto
  ultimately show ?thesis by (auto simp: is_mkdir_def list_all_iff)
qed

text \<open>Steps that touch one file outside the object tree change no object.\<close>

lemma object_path_only:
  assumes "list_all (step_path_only p) ss" "\<And>ep oid. filePath l ep oid \<noteq> Inr p"
  shows "object (run_steps now l ss) ep oid = object l ep oid"
proof (cases "filePath l ep oid")
  case (Inr q)
  then have "q \<noteq> p" using assms(2) by auto
  then show ?thesis using assms(1) Inr by (simp add: object_def run_path_only)
qed (simp add: object_def)

section \<open>The plan\<close>

lemma copy_steps_Cons_cases:
  assumes "copy_steps p (c # cs) fault = (ss, e)"
  obtains n w where "ss = [Fs (OpAppend p (take n c))]" "e = Some w"
  | ss' fault' where "ss = Fs (OpAppend p c) # ss'" "copy_steps p cs fault' = (ss', e)"
  using assms by (auto split: option.splits prod.splits nat.splits)

lemma copy_steps_only: "copy_steps p cs fault = (ss, e) \<Longrightarrow> list_all (step_path_only p) ss"
proof (induction cs arbitrary: fault ss)
  case (Cons c cs)
  from Cons.prems show ?case
    by (cases rule: copy_steps_Cons_cases) (auto dest: Cons.IH)
qed simp

lemma copy_steps_data:
  "copy_steps p cs fault = (ss, None) \<Longrightarrow> disk l p = Some f \<Longrightarrow>
     map_option f_data (disk (run_steps now l ss) p) = Some (f_data f @ concat cs)"
proof (induction cs arbitrary: fault ss l f)
  case (Cons c cs)
  from Cons.prems(1) show ?case
  proof (cases rule: copy_steps_Cons_cases)
    case (2 ss' fault')
    have "disk (apply_step now l (Fs (OpAppend p c))) p = Some \<lparr>f_data = f_data f @ c, f_mtime = now\<rparr>"
      using Cons.prems(2) by simp
    from Cons.IH [OF 2(2) this] show ?thesis by (simp add: 2(1))
  qed simp
qed simp

lemma put_body_only:
  "put_body u dest oid tmp r env = (ss, Some e) \<Longrightarrow> list_all (step_path_only tmp) ss"
  by (auto simp: put_body_def split: prod.splits option.splits if_splits dest: copy_steps_only)

lemma put_body_ok:
  assumes "put_body u dest oid tmp r env = (ss, None)"
  obtains cs where "ss = cs @ [Fs (OpRename tmp dest)]" "copy_steps tmp (rd_chunks r) (pe_write env) = (cs, None)"
    "rd_err r = None" "EqualFold u (hex_encode (sha256 (rd_data r))) oid"
  using assms by (auto simp: put_body_def split: prod.splits option.splits if_splits)

lemma trackWriting_only:
  "trackWriting l tmp = (t, t') \<Longrightarrow> list_all (step_path_only p) t \<and> list_all (step_path_only p) t'"
  by (auto simp: trackWriting_def split: option.splits)

text \<open>The shape of every plan: it makes directories, and fails; or it makes directories, works on one fresh temporary file and,
  when it succeeds, renames that file, then holding all the data, to the object's path.\<close>

lemma put_plan_shape:
  assumes "put_plan u l ep oid r env = (ss, err)"
  obtains (early) "list_all is_mkdir ss" "err \<noteq> None" "{d. Mkdir d \<in> set ss} \<subseteq> put_dirs l ep oid"
  | (full) mk dest tmp track untrack body cleanup where
    "list_all is_mkdir mk" "{d. Mkdir d \<in> set mk} \<subseteq> put_dirs l ep oid" "filePath l ep oid = Inr dest"
    "CreateTemp (disk l) (Join [basePath l, Endpoint ep, uploadTempDir]) TempFilePrefix (pe_names env) = Some tmp"
    "trackWriting l tmp = (track, untrack)" "put_body u dest oid tmp r env = (body, err)"
    "cleanup = (if pe_remove env then [] else [Fs (OpRemove tmp)])"
    "ss = mk @ Fs (OpCreate tmp) # track @ body @ cleanup @ untrack"
proof (cases "pe_ctx env \<or> (\<forall>dest. filePath l ep oid \<noteq> Inr dest)")
  case True
  with assms have "ss = []" "err \<noteq> None" by (auto simp: put_plan_def split: sum.splits if_splits)
  then show thesis by (intro early) simp_all
next
  case False
  let ?tmpDir = "Join [basePath l, Endpoint ep, uploadTempDir]"
  from False obtain dest where d: "\<not> pe_ctx env" "filePath l ep oid = Inr dest" by blast
  obtain mk f where mk: "MkdirAll (directories l) (Dir dest) (pe_mkdir env) = (mk, f)" by fastforce
  obtain mk' f' where mk': "MkdirAll (directories l \<union> set (dir_chain (Dir dest))) ?tmpDir (pe_mkdir_tmp env) = (mk', f')" by fastforce
  obtain body err' where b: "\<And>tmp. put_body u dest oid tmp r env = (body tmp, err' tmp)"
    by (rule that [of "\<lambda>tmp. fst (put_body u dest oid tmp r env)" "\<lambda>tmp. snd (put_body u dest oid tmp r env)"]) simp
  obtain track untrack where t: "\<And>tmp. trackWriting l tmp = (track tmp, untrack tmp)"
    by (rule that [of "\<lambda>tmp. fst (trackWriting l tmp)" "\<lambda>tmp. snd (trackWriting l tmp)"]) simp
  have m: "list_all is_mkdir mk" "list_all is_mkdir (mk @ mk')" "{d. Mkdir d \<in> set mk} \<subseteq> put_dirs l ep oid"
    "{d. Mkdir d \<in> set (mk @ mk')} \<subseteq> put_dirs l ep oid"
    using MkdirAll_steps [OF mk] MkdirAll_steps [OF mk'] d(2) by (auto simp: put_dirs_def)
  from assms consider "ss = mk" "err \<noteq> None" | "ss = mk @ mk'" "err \<noteq> None"
    | tmp where "CreateTemp (disk l) ?tmpDir TempFilePrefix (pe_names env) = Some tmp" "err = err' tmp"
      "ss = (mk @ mk') @ Fs (OpCreate tmp) # track tmp @ body tmp @ (if pe_remove env then [] else [Fs (OpRemove tmp)]) @ untrack tmp"
    by (auto simp: put_plan_def d mk mk' b t Let_def split: if_splits option.splits)
  then show thesis
  proof cases
    case (3 tmp)
    show thesis by (rule full [OF m(2,4) d(2) 3(1) t _ refl 3(3)]) (simp add: b 3(2))
  qed (use early m in blast)+
qed

lemma put_temp:
  assumes "basePath l \<noteq> []"
    and "CreateTemp (disk l) (Join [basePath l, Endpoint ep, uploadTempDir]) TempFilePrefix names = Some tmp"
  shows "disk l tmp = None" "filePath l ep' oid \<noteq> Inr tmp" "\<exists>n. tmp = Join (basePath l # temp_elems ep n)"
proof -
  obtain n where n: "tmp = Join (basePath l # temp_elems ep n)"
    using CreateTemp_Some(2) [OF assms(2)] temp_path_eq [OF assms(1)] by metis
  show "disk l tmp = None" using CreateTemp_Some(1) [OF assms(2)] .
  show "filePath l ep' oid \<noteq> Inr tmp"
    using temp_path_not_object [OF assms(1)] n by blast
  show "\<exists>n. tmp = Join (basePath l # temp_elems ep n)" using n by blast
qed

text \<open>A plan that fails works on one file outside the object tree throughout.\<close>

lemma put_plan_err:
  assumes "basePath l \<noteq> []" "put_plan u l ep oid r env = (ss, Some e)"
  obtains n where "list_all (step_path_only (Join (basePath l # temp_elems ep n))) ss"
    "\<And>ep' oid. filePath l ep' oid \<noteq> Inr (Join (basePath l # temp_elems ep n))"
proof -
  have f: "filePath l ep' oid' \<noteq> Inr (Join (basePath l # temp_elems ep n))" for ep' oid' n
    using temp_path_not_object [OF assms(1)] by blast
  from assms(2) show ?thesis
  proof (cases rule: put_plan_shape)
    case early
    then show ?thesis using that [of 0] run_mkdirs(3) f by blast
  next
    case (full mk dest tmp track untrack body cleanup)
    obtain n where n: "tmp = Join (basePath l # temp_elems ep n)" using put_temp(3) [OF assms(1) full(4)] by blast
    have "list_all (step_path_only tmp) ss"
      using full(7,8) run_mkdirs(3) [OF full(1)] put_body_only [OF full(6)] trackWriting_only [OF full(5)] by auto
    with n f show ?thesis using that by blast
  qed
qed

text \<open>A plan that succeeds fills that file and moves it into place.\<close>

lemma put_plan_ok:
  assumes "basePath l \<noteq> []" "put_plan u l ep oid r env = (ss, None)"
  obtains dest tmp pre post where "ss = pre @ Fs (OpRename tmp dest) # post"
    "list_all (step_path_only tmp) pre" "list_all (step_path_only tmp) post"
    "\<And>ep oid. filePath l ep oid \<noteq> Inr tmp" "disk l tmp = None" "filePath l ep oid = Inr dest"
    "map_option f_data (disk (run_steps now l pre) tmp) = Some (rd_data r)"
    "rd_err r = None" "map lower_char oid = hex_encode (sha256 (rd_data r))"
  using assms(2)
proof (cases rule: put_plan_shape)
  case (full mk dest tmp track untrack body cleanup)
  from put_body_ok [OF full(6)] obtain cs where cs: "body = cs @ [Fs (OpRename tmp dest)]"
    "copy_steps tmp (rd_chunks r) (pe_write env) = (cs, None)" "rd_err r = None"
    "EqualFold u (hex_encode (sha256 (rd_data r))) oid" .
  let ?pre = "mk @ Fs (OpCreate tmp) # track @ cs" and ?post = "cleanup @ untrack"
  have "list_all (step_path_only tmp) ?pre" "list_all (step_path_only tmp) ?post"
    using full(7) run_mkdirs(3) [OF full(1)] copy_steps_only [OF cs(2)] trackWriting_only [OF full(5)] by auto
  moreover have "disk (run_steps now (apply_step now (run_steps now l mk) (Fs (OpCreate tmp))) track) tmp
      = Some \<lparr>f_data = [], f_mtime = now\<rparr>"
    using full(5) by (auto simp: trackWriting_def split: option.splits)
  from copy_steps_data [OF cs(2) this, of now]
  have "map_option f_data (disk (run_steps now l ?pre) tmp) = Some (rd_data r)"
    by (simp add: rd_data_def)
  moreover have "IsValidOID oid" using full(3) by (simp add: filePath_Inr_iff)
  then have "map lower_char oid = hex_encode (sha256 (rd_data r))"
    using cs(4) by (simp add: EqualFold_digest)
  ultimately show ?thesis
    using that [of ?pre tmp dest ?post] full(3,8) cs(1,3) put_temp(1,2) [OF assms(1) full(4)] by auto
qed simp

section \<open>What Put does to the objects\<close>

definition put_object :: "local \<Rightarrow> string \<Rightarrow> string \<Rightarrow> bytes \<Rightarrow> string \<Rightarrow> string \<Rightarrow> bytes option" where
  "put_object l ep oid d ep' oid' =
     (if Endpoint ep' = Endpoint ep \<and> map lower_char oid' = map lower_char oid then Some d
      else object l ep' oid')"

lemma IsValidOID_cong: "map lower_char oid = map lower_char oid' \<Longrightarrow> IsValidOID oid = IsValidOID oid'"
  by (metis IsValidOID_lower)

lemma object_cong:
  "Endpoint ep = Endpoint ep' \<Longrightarrow> map lower_char oid = map lower_char oid' \<Longrightarrow> object l ep oid = object l ep' oid'"
  using IsValidOID_cong [of oid oid'] by (simp add: object_def filePath_def normaliseOID_def)

lemma rename_object:
  assumes "basePath l \<noteq> []" "filePath l ep oid = Inr dest" "\<And>ep oid. filePath l ep oid \<noteq> Inr tmp"
    and "disk l tmp = Some f"
  shows "object (apply_step now l (Fs (OpRename tmp dest))) = put_object l ep oid (f_data f)"
proof (intro ext)
  fix ep' oid'
  show "object (apply_step now l (Fs (OpRename tmp dest))) ep' oid' = put_object l ep oid (f_data f) ep' oid'"
  proof (cases "filePath l ep' oid'")
    case (Inl e)
    then have "\<not> IsValidOID oid'" by (metis Inl_Inr_False filePath_valid)
    moreover have "IsValidOID oid" using assms(2) by (simp add: filePath_Inr_iff)
    ultimately have "map lower_char oid' \<noteq> map lower_char oid" using IsValidOID_cong by blast
    with Inl show ?thesis by (simp add: object_def put_object_def)
  next
    case (Inr q)
    then have q: "q \<noteq> tmp" using assms(3) by auto
    have "q = dest \<longleftrightarrow> Endpoint ep' = Endpoint ep \<and> map lower_char oid' = map lower_char oid"
    proof
      assume "q = dest"
      then show "Endpoint ep' = Endpoint ep \<and> map lower_char oid' = map lower_char oid"
        using filePath_inj [OF assms(1)] Inr assms(2) by blast
    next
      assume "Endpoint ep' = Endpoint ep \<and> map lower_char oid' = map lower_char oid"
      then have "object_elems ep' oid' = object_elems ep oid" by (simp add: object_elems_inj)
      then show "q = dest" using Inr assms(2) by (simp add: filePath_Inr_iff)
    qed
    with Inr q assms(4) show ?thesis by (simp add: object_def put_object_def)
  qed
qed

lemma object_take_path_only:
  assumes "list_all (step_path_only p) ss" "\<And>ep oid. filePath l ep oid \<noteq> Inr p"
  shows "object (run_steps now l (take k ss)) = object l"
proof (intro ext)
  fix ep oid
  have "list_all (step_path_only p) (take k ss)"
    using assms(1) by (auto simp: list_all_iff dest: in_set_takeD)
  then show "object (run_steps now l (take k ss)) ep oid = object l ep oid"
    by (rule object_path_only) (rule assms(2))
qed

lemma object_path_only_ext:
  "list_all (step_path_only p) ss \<Longrightarrow> (\<And>ep oid. filePath l ep oid \<noteq> Inr p) \<Longrightarrow>
     object (run_steps now l ss) = object l"
  by (intro ext) (rule object_path_only)

text \<open>A successful plan has one step that changes the objects: before it they are the old ones, after it
  the new object is there.\<close>

lemma put_plan_objects:
  assumes "basePath l \<noteq> []" "put_plan u l ep oid r env = (ss, None)"
  obtains pre st post where "ss = pre @ st # post"
    "\<And>k. object (run_steps now l (take k pre)) = object l"
    "\<And>k. object (run_steps now l (pre @ st # take k post)) = put_object l ep oid (rd_data r)"
proof (rule put_plan_ok [OF assms, where now = now], goal_cases)
  case (1 dest tmp pre post)
  note p = 1(2-)
  let ?st = "Fs (OpRename tmp dest)"
  let ?l1 = "run_steps now l pre" and ?l2 = "apply_step now (run_steps now l pre) ?st"
  obtain f where f: "disk ?l1 tmp = Some f" "f_data f = rd_data r" using p(7) by auto
  have o1: "object ?l1 = object l" by (rule object_path_only_ext [OF p(2,4)])
  have "object ?l2 = put_object ?l1 ep oid (rd_data r)"
    using rename_object [of ?l1 ep oid dest tmp f now] assms(1) p f by simp
  also have "\<dots> = put_object l ep oid (rd_data r)"
    by (intro ext) (simp add: put_object_def o1)
  finally have "object (run_steps now ?l2 (take k post)) = put_object l ep oid (rd_data r)" for k
    using object_take_path_only [of tmp post ?l2 now k] p(3,4) by simp
  then show ?case
    using object_take_path_only [OF p(2,4)] p(1) by (intro 1(1) [of pre ?st post]) simp_all
qed

text \<open>Wherever a call to \<^verbatim>\<open>Put\<close> is cut off, the objects are those before it or, if it was to succeed,
  those with its object added; a call that runs to its end is the case of the whole plan.\<close>

lemma put_prefix_object:
  assumes "basePath l \<noteq> []" "put_plan u l ep oid r env = (ss, err)"
  shows "object (run_steps now l (take k ss)) = object l \<or>
    err = None \<and> object (run_steps now l (take k ss)) = put_object l ep oid (rd_data r)"
proof (cases err)
  case (Some e)
  show ?thesis
    by (rule put_plan_err [OF assms(1) assms(2) [unfolded Some]]) (blast intro: object_take_path_only)
next
  case None
  show ?thesis
  proof (rule put_plan_objects [OF assms(1) assms(2) [unfolded None], where now = now], goal_cases)
    case (1 pre st post)
    have "take k ss = (if k \<le> length pre then take k pre else pre @ st # take (k - length pre - 1) post)"
      using 1(1) by (cases "k - length pre") simp_all
    then show ?case using 1(2,3) None by auto
  qed
qed

lemma put_object_final:
  assumes "basePath l \<noteq> []" "Put u l ep oid r env = (l', None)"
  shows "object l' = put_object l ep oid (rd_data r)"
proof -
  obtain ss where ss: "put_plan u l ep oid r env = (ss, None)" "l' = run_steps (pe_now env) l ss"
    using assms(2) by (auto simp: Put_def split: prod.splits)
  show ?thesis
  proof (rule put_plan_objects [OF assms(1) ss(1), where now = "pe_now env"], goal_cases)
    case (1 pre st post)
    from 1(3) [of "length post"] show ?case by (simp add: ss(2) 1(1))
  qed
qed

lemma put_plan_verified:
  assumes "basePath l \<noteq> []" "put_plan u l ep oid r env = (ss, None)"
  shows "map lower_char oid = hex_encode (sha256 (rd_data r))" "rd_err r = None"
  by (rule put_plan_ok [OF assms]; simp)+

section \<open>The adapter contract holds\<close>

lemma store_wf_put_object:
  assumes "store_wf l" "basePath l' = basePath l" "map lower_char oid = hex_encode (sha256 d)"
    and "object l' = put_object l ep oid d"
  shows "store_wf l'"
  using assms by (auto simp: store_wf_def put_object_def)

lemma store_wf_object_eq:
  "store_wf l \<Longrightarrow> basePath l' = basePath l \<Longrightarrow> object l' = object l \<Longrightarrow> store_wf l'"
  by (simp add: store_wf_def)

lemma Put_basePath: "Put u l ep oid r env = (l', e) \<Longrightarrow> basePath l' = basePath l"
  by (auto simp: Put_def split: prod.splits)

lemma Put_err_object:
  assumes "basePath l \<noteq> []" "Put u l ep oid r env = (l', Some e)"
  shows "object l' = object l"
proof -
  obtain ss where ss: "put_plan u l ep oid r env = (ss, Some e)" "l' = run_steps (pe_now env) l ss"
    using assms(2) by (auto simp: Put_def split: prod.splits)
  show ?thesis
    using put_prefix_object [OF assms(1) ss(1), of "pe_now env" "length ss"] ss(2) by simp
qed

lemma Put_ok_verified:
  assumes "basePath l \<noteq> []" "Put u l ep oid r env = (l', None)"
  shows "map lower_char oid = hex_encode (sha256 (rd_data r))" "rd_err r = None"
  using assms put_plan_verified [of l u ep oid r env] by (auto simp: Put_def split: prod.splits)

interpretation local_adapter: adapter store_wf object "\<lambda>l. Exists l False False" "\<lambda>l. Get l False False"
  "\<lambda>l. Size l False False" "\<lambda>l ep oid r. Put u l ep oid r env" for u env
proof (unfold_locales, goal_cases)
  case (1 ep ep' oid oid' s)
  then show ?case by (rule object_cong)
next
  case (2 s ep oid d)
  then show ?case
    by (auto simp: store_wf_def object_def filePath_Inr_iff split: sum.splits)
next
  case (3 s oid ep)
  then show ?case by (simp add: Exists_def object_def filePath_valid split: option.split)
next
  case (4 s oid ep)
  then show ?case by (simp add: Get_def object_def filePath_valid split: option.split)
next
  case (5 s oid ep)
  then show ?case by (simp add: Size_def object_def filePath_valid split: option.split)
next
  case (6 s ep oid r s' e)
  then have b: "basePath s \<noteq> []" by (simp add: store_wf_def)
  show ?case
  proof (cases e)
    case None
    with 6(2) have p: "Put u s ep oid r env = (s', None)" by simp
    show ?thesis
      using store_wf_put_object [OF 6(1) Put_basePath [OF p] Put_ok_verified(1) [OF b p]
          put_object_final [OF b p]] .
  next
    case (Some x)
    with 6(2) have p: "Put u s ep oid r env = (s', Some x)" by simp
    show ?thesis
      using store_wf_object_eq [OF 6(1) Put_basePath [OF p] Put_err_object [OF b p]] .
  qed
next
  case (7 s ep oid r s')
  then have b: "basePath s \<noteq> []" by (simp add: store_wf_def)
  with 7 show ?case
    using put_object_final [OF b, of u ep oid r env s'] Put_ok_verified(2) [OF b, of u ep oid r env s']
    by (simp add: put_object_def)
next
  case (8 s ep oid r s' ep' oid')
  then have b: "basePath s \<noteq> []" by (simp add: store_wf_def)
  with 8 show ?case
    using put_object_final [OF b, of u ep oid r env s'] by (auto simp: put_object_def)
next
  case (9 s ep oid r s' err)
  then have b: "basePath s \<noteq> []" by (simp add: store_wf_def)
  with 9 show ?case using Put_err_object by blast
qed

lemmas local_put_get = local_adapter.put_get local_adapter.put_verified

section \<open>Success and failure\<close>

text \<open>No failure of the system, a free name for the temporary file, and content that matches the id.\<close>

definition fault_free :: "put_env \<Rightarrow> bool" where
  "fault_free env \<longleftrightarrow> \<not> pe_ctx env \<and> pe_mkdir env = None \<and> pe_mkdir_tmp env = None \<and> pe_write env = None \<and>
     pe_sync env = None \<and> \<not> pe_close env \<and> \<not> pe_rename env \<and> \<not> pe_remove env"

definition temp_available :: "local \<Rightarrow> string \<Rightarrow> put_env \<Rightarrow> bool" where
  "temp_available l ep env \<longleftrightarrow>
     CreateTemp (disk l) (Join [basePath l, Endpoint ep, uploadTempDir]) TempFilePrefix (pe_names env) \<noteq> None"

lemma copy_steps_no_fault: "\<exists>ss. copy_steps tmp cs None = (ss, None)"
  by (induction cs) auto

lemma Put_fault_free:
  assumes "fault_free env" "temp_available l ep env" "IsValidOID oid"
  shows "snd (Put u l ep oid r env) =
    (case rd_err r of
       Some e \<Rightarrow> Some (ErrReader e)
     | None \<Rightarrow> if hex_encode (sha256 (rd_data r)) = map lower_char oid then None else Some ErrHashMismatch)"
proof -
  obtain tmp where tmp: "CreateTemp (disk l) (Join [basePath l, Endpoint ep, uploadTempDir]) TempFilePrefix
      (pe_names env) = Some tmp"
    using assms(2) by (auto simp: temp_available_def)
  obtain ss where "copy_steps tmp (rd_chunks r) None = (ss, None)"
    using copy_steps_no_fault by blast
  then show ?thesis
    using assms(1,3) tmp
    by (simp add: Put_def put_plan_def MkdirAll_def put_body_def fault_free_def filePath_valid EqualFold_digest Let_def
        split: prod.split option.split)
qed

fun is_fs :: "put_step \<Rightarrow> bool" where
  "is_fs (Fs op) = True"
| "is_fs _ = False"

lemma writing_fs: "list_all is_fs ss \<Longrightarrow> writing (run_steps now l ss) = writing l"
proof (induction ss arbitrary: l)
  case (Cons s ss)
  then show ?case by (cases s) auto
qed simp

lemma disk_not_fs: "list_all (\<lambda>s. \<not> is_fs s) ss \<Longrightarrow> disk (run_steps now l ss) = disk l"
proof (induction ss arbitrary: l)
  case (Cons s ss)
  then show ?case by (cases s) auto
qed simp

lemma copy_steps_fs: "copy_steps p cs fault = (ss, e) \<Longrightarrow> list_all is_fs ss"
proof (induction cs arbitrary: fault ss)
  case (Cons c cs)
  from Cons.prems show ?case by (cases rule: copy_steps_Cons_cases) (auto dest: Cons.IH)
qed simp

lemma put_body_fs: "put_body u dest oid tmp r env = (ss, e) \<Longrightarrow> list_all is_fs ss"
  by (auto simp: put_body_def split: prod.splits option.splits if_splits dest: copy_steps_fs)

lemma trackWriting_cases:
  "trackWriting l tmp = (t, t') \<Longrightarrow> (t = [] \<and> t' = []) \<or> (\<exists>k. t = [Track k] \<and> t' = [Untrack k])"
  by (auto simp: trackWriting_def split: option.splits)

lemma Put_writing:
  assumes "Put u l ep oid r env = (l', e)"
  shows "writing l' \<subseteq> writing l"
proof -
  obtain ss where ss: "put_plan u l ep oid r env = (ss, e)" "l' = run_steps (pe_now env) l ss"
    using assms by (auto simp: Put_def split: prod.splits)
  from ss(1) show ?thesis
  proof (cases rule: put_plan_shape)
    case early
    then show ?thesis by (simp add: ss(2) run_mkdirs)
  next
    case (full mk dest tmp track untrack body cleanup)
    have "list_all is_fs (body @ cleanup)" using put_body_fs [OF full(6)] full(7) by simp
    from writing_fs [OF this] show ?thesis
      using trackWriting_cases [OF full(5)] run_mkdirs(2) [OF full(1)] by (auto simp: ss(2) full(8))
  qed
qed

lemma Put_dirs:
  assumes "Put u l ep oid r env = (l', e)"
  shows "directories l \<subseteq> directories l'" "directories l' \<subseteq> directories l \<union> put_dirs l ep oid"
proof -
  obtain ss where ss: "put_plan u l ep oid r env = (ss, e)" "l' = run_steps (pe_now env) l ss"
    using assms by (auto simp: Put_def split: prod.splits)
  have "{d. Mkdir d \<in> set ss} \<subseteq> put_dirs l ep oid"
    using ss(1)
  proof (cases rule: put_plan_shape)
    case (full mk dest tmp track untrack body cleanup)
    have "Mkdir d \<notin> set (track @ body @ cleanup @ untrack)" for d
      using put_body_fs [OF full(6)] trackWriting_cases [OF full(5)] by (auto simp: full(7) list_all_iff)
    with full(2) show ?thesis by (auto simp: full(8))
  qed
  then show "directories l \<subseteq> directories l'" "directories l' \<subseteq> directories l \<union> put_dirs l ep oid" by (auto simp: ss(2) run_steps_dirs)
qed

text \<open>A call that fails changes at most its temporary file, and not even that when the file can be removed.\<close>

lemma Put_err_disk:
  assumes "basePath l \<noteq> []" "Put u l ep oid r env = (l', Some e)"
  shows "\<exists>n. \<forall>p. p \<noteq> Join (basePath l # temp_elems ep n) \<longrightarrow> disk l' p = disk l p"
    and "\<not> pe_remove env \<Longrightarrow> disk l' = disk l"
proof -
  obtain ss where ss: "put_plan u l ep oid r env = (ss, Some e)" "l' = run_steps (pe_now env) l ss"
    using assms(2) by (auto simp: Put_def split: prod.splits)
  show "\<exists>n. \<forall>p. p \<noteq> Join (basePath l # temp_elems ep n) \<longrightarrow> disk l' p = disk l p"
    by (rule put_plan_err [OF assms(1) ss(1)]) (metis run_path_only ss(2))
  assume rm: "\<not> pe_remove env"
  from ss(1) show "disk l' = disk l"
  proof (cases rule: put_plan_shape)
    case early
    then show ?thesis by (simp add: ss(2) run_mkdirs)
  next
    case (full mk dest tmp track untrack body cleanup)
    have only: "list_all (step_path_only tmp) ss"
      using put_body_only [OF full(6)] trackWriting_only [OF full(5)] run_mkdirs(3) [OF full(1)] by (simp add: full(7,8))
    have "list_all (\<lambda>s. \<not> is_fs s) untrack" using trackWriting_cases [OF full(5)] by auto
    then have "disk l' tmp = None"
      using rm by (simp add: ss(2) full(7,8) disk_not_fs)
    moreover have "disk l tmp = None" by (rule put_temp(1) [OF assms(1) full(4)])
    ultimately have "disk l' q = disk l q" for q
      using run_path_only [OF only, of q "pe_now env" l] by (cases "q = tmp") (auto simp: ss(2))
    then show ?thesis by (rule ext)
  qed
qed

section \<open>Properties\<close>

text \<open>C1: At whatever point a call to \<^verbatim>\<open>Local.Put\<close> is cut off (a crash after any of its effects), every
  file at an object's path still hashes to the object's id: no reader ever sees a partial or unverified
  object.\<close>

theorem put_crash_safe:
  assumes "store_wf l" "put_plan u l endpoint oid r env = (steps, err)"
  shows "store_wf (run_steps now l (take k steps))"
proof -
  have b: "basePath l \<noteq> []" using assms(1) by (simp add: store_wf_def)
  from put_prefix_object [OF b assms(2), of now k] show ?thesis
  proof
    assume "object (run_steps now l (take k steps)) = object l"
    from store_wf_object_eq [OF assms(1) basePath_run_steps this] show ?thesis .
  next
    assume a: "err = None \<and> object (run_steps now l (take k steps)) = put_object l endpoint oid (rd_data r)"
    then have "map lower_char oid = hex_encode (sha256 (rd_data r))"
      using put_plan_verified(1) [OF b] assms(2) by blast
    from store_wf_put_object [OF assms(1) basePath_run_steps this] a show ?thesis by blast
  qed
qed

text \<open>C11: A \<^verbatim>\<open>Local.Put\<close> that returns no error has stored exactly the bytes its reader delivered, which
  hash to the id; a \<^verbatim>\<open>Get\<close>, \<^verbatim>\<open>Size\<close> or \<^verbatim>\<open>Exists\<close> afterwards, in either case of the id, reports them.\<close>

theorem put_then_get:
  assumes "store_wf l" "Put u l endpoint oid r env = (l', None)"
  shows "Get l' False False endpoint oid = Inr (rd_data r, int (length (rd_data r))) \<and>
    Size l' False False endpoint (map lower_char oid) = Inr (int (length (rd_data r))) \<and>
    Exists l' False False endpoint oid = Inr True \<and>
    map lower_char oid = hex_encode (sha256 (rd_data r)) \<and> rd_err r = None"
proof -
  note g = local_adapter.put_get [OF assms]
  have "Size l' False False endpoint (map lower_char oid) = Size l' False False endpoint oid"
    by (simp add: Size_def filePath_def normaliseOID_def)
  moreover have "map lower_char oid = hex_encode (sha256 (rd_data r))" "rd_err r = None"
    using assms Put_ok_verified [of l u endpoint oid r env l'] by (simp_all add: store_wf_def)
  ultimately show ?thesis using g by simp
qed

text \<open>C29: A \<^verbatim>\<open>Local.Put\<close> that fails leaves every file as it was, so no object appears, changes or disappears; only if the
  system also refuses to remove it, its temporary file stays, one file in the endpoint's directory for temporary files
  with the prefix of temporary files in its name. No temporary file is left marked as being written. Directories are not
  removed: a failing call may leave behind the ones it made, which are the object's directory, the one for temporary
  files, and the ones above these two.\<close>

theorem put_failure_leaves_no_trace:
  assumes "store_wf l" "Put u l endpoint oid r env = (l', Some e)"
  shows "(\<not> pe_remove env \<longrightarrow> disk l' = disk l) \<and>
    (\<exists>n. \<forall>p. p \<noteq> Join [basePath l, Endpoint endpoint, uploadTempDir] @ ''/'' @ TempFilePrefix @ format_nat n \<longrightarrow> disk l' p = disk l p) \<and>
    object l' = object l \<and> writing l' \<subseteq> writing l \<and> directories l \<subseteq> directories l' \<and>
    directories l' - directories l \<subseteq>
      (case filePath l endpoint oid of
         Inl _ \<Rightarrow> {}
       | Inr dest \<Rightarrow> set (dir_chain (Dir dest)) \<union> set (dir_chain (Join [basePath l, Endpoint endpoint, uploadTempDir])))"
proof -
  have b: "basePath l \<noteq> []" using assms(1) by (simp add: store_wf_def)
  show ?thesis
    using Put_err_disk [OF b assms(2)] Put_err_object [OF b assms(2)] Put_writing [OF assms(2)] Put_dirs [OF assms(2)]
    unfolding temp_path_eq [OF b] put_dirs_def by blast
qed

text \<open>Without failures of the system, \<^verbatim>\<open>Local.Put\<close> succeeds exactly when the reader reaches its end
  and the content hashes to the id; otherwise it reports the reader's error or a hash mismatch.\<close>

theorem put_result:
  assumes "fault_free env" "temp_available l endpoint env" "IsValidOID oid"
  shows "snd (Put u l endpoint oid r env) =
    (case rd_err r of
       Some e \<Rightarrow> Some (ErrReader e)
     | None \<Rightarrow> if hex_encode (sha256 (rd_data r)) = map lower_char oid then None else Some ErrHashMismatch)"
  using assms by (rule Put_fault_free)

text \<open>The path of an object is the base directory followed by four plain elements (the endpoint's
  directory, two shards, the lower-case id), so it never leaves the base directory, and two requests
  name the same file only if they have the same endpoint directory and the same id up to case.\<close>

theorem object_path_contained:
  assumes "basePath l \<noteq> []" "filePath l endpoint oid = Inr p"
  shows "p = render_path (is_rooted (basePath l)) (path_elems (basePath l) @ object_elems endpoint oid) \<and>
    list_all plain_elem (object_elems endpoint oid) \<and>
    (filePath l endpoint' oid' = Inr p \<longleftrightarrow>
      Endpoint endpoint' = Endpoint endpoint \<and> map lower_char oid' = map lower_char oid)"
proof (intro conjI)
  have v: "IsValidOID oid" and p: "p = Join (basePath l # object_elems endpoint oid)"
    using assms(2) by (simp_all add: filePath_Inr_iff)
  show pl: "list_all plain_elem (object_elems endpoint oid)" using v by (rule object_elems_plain)
  have "object_elems endpoint oid \<noteq> []" by (simp add: object_elems_def Let_def)
  then show "p = render_path (is_rooted (basePath l)) (path_elems (basePath l) @ object_elems endpoint oid)"
    using assms(1) pl by (simp add: p Join_plain path_elems_def)
  show "filePath l endpoint' oid' = Inr p \<longleftrightarrow>
      Endpoint endpoint' = Endpoint endpoint \<and> map lower_char oid' = map lower_char oid" (is "?l \<longleftrightarrow> ?r")
  proof
    show "?l \<Longrightarrow> ?r" using filePath_inj [OF assms(1) _ assms(2)] by blast
    assume ?r
    then have "IsValidOID oid'" using v IsValidOID_cong by blast
    moreover have "object_elems endpoint' oid' = object_elems endpoint oid"
      using \<open>?r\<close> by (simp add: object_elems_inj)
    ultimately show ?l by (simp add: filePath_valid p)
  qed
qed

section \<open>Witnesses\<close>

definition demo_local :: local where
  "demo_local = NewLocal ''data'' Map.empty {''data''}"

definition demo_env :: put_env where
  "demo_env = \<lparr>pe_ctx = False, pe_mkdir = None, pe_mkdir_tmp = None, pe_names = [7], pe_write = None,
     pe_sync = None, pe_close = False, pe_rename = False, pe_remove = False, pe_now = 0\<rparr>"

definition demo_oid :: string where
  "demo_oid = hex_encode (sha256 ''hello'')"

definition demo_reader :: reader where
  "demo_reader = \<lparr>rd_chunks = [''he'', ''llo''], rd_err = None\<rparr>"

lemma demo_facts:
  "store_wf demo_local" "fault_free demo_env" "temp_available demo_local ''/org/repo'' demo_env"
  "IsValidOID demo_oid" "rd_data demo_reader = ''hello''" "rd_err demo_reader = None"
  by (simp_all add: store_wf_def demo_local_def NewLocal_def object_def fault_free_def demo_env_def
      temp_available_def CreateTemp_def demo_oid_def demo_reader_def rd_data_def split: sum.split)

lemma demo_put_ok: "snd (Put ascii_tables demo_local ''/org/repo'' demo_oid demo_reader demo_env) = None"
  by (subst Put_fault_free) (simp_all add: demo_facts, simp add: demo_oid_def)

lemma demo_put_interrupted:
  "snd (Put ascii_tables demo_local ''/org/repo'' demo_oid \<lparr>rd_chunks = [''he''], rd_err = Some ReadOther\<rparr> demo_env)
     = Some (ErrReader ReadOther)"
  by (subst Put_fault_free) (simp_all add: demo_facts)

theorem put_crash_safe_witness:
  "store_wf (run_steps 0 demo_local
     (take 3 (fst (put_plan ascii_tables demo_local ''/org/repo'' demo_oid demo_reader demo_env))))"
  using put_crash_safe [OF demo_facts(1) surjective_pairing] .

theorem put_then_get_witness:
  "Get (fst (Put ascii_tables demo_local ''/org/repo'' demo_oid demo_reader demo_env)) False False
     ''/org/repo'' demo_oid = Inr (''hello'', 5)"
proof -
  have "Put ascii_tables demo_local ''/org/repo'' demo_oid demo_reader demo_env =
      (fst (Put ascii_tables demo_local ''/org/repo'' demo_oid demo_reader demo_env), None)"
    using demo_put_ok by (metis prod.collapse)
  from put_then_get [OF demo_facts(1) this] show ?thesis by (simp add: demo_facts)
qed

theorem put_failure_leaves_no_trace_witness:
  "disk (fst (Put ascii_tables demo_local ''/org/repo'' demo_oid
     \<lparr>rd_chunks = [''he''], rd_err = Some ReadOther\<rparr> demo_env)) = Map.empty"
proof -
  let ?p = "Put ascii_tables demo_local ''/org/repo'' demo_oid \<lparr>rd_chunks = [''he''], rd_err = Some ReadOther\<rparr> demo_env"
  have "?p = (fst ?p, Some (ErrReader ReadOther))" using demo_put_interrupted by (metis prod.collapse)
  moreover have "\<not> pe_remove demo_env" by (simp add: demo_env_def)
  ultimately have "disk (fst ?p) = disk demo_local"
    using put_failure_leaves_no_trace [OF demo_facts(1)] by blast
  then show ?thesis by (simp add: demo_local_def NewLocal_def)
qed

theorem put_result_witness:
  "snd (Put ascii_tables demo_local ''/org/repo'' demo_oid demo_reader demo_env) = None"
  by (subst put_result) (simp_all add: demo_facts, simp add: demo_oid_def)

theorem object_path_contained_witness:
  "list_all plain_elem (object_elems ''/org/repo'' demo_oid)"
proof -
  have "filePath demo_local ''/org/repo'' demo_oid = Inr (Join (''data'' # object_elems ''/org/repo'' demo_oid))"
    by (simp add: filePath_valid demo_facts) (simp add: demo_local_def NewLocal_def)
  moreover have "basePath demo_local \<noteq> []" by (simp add: demo_local_def NewLocal_def)
  ultimately show ?thesis using object_path_contained by blast
qed

end
