(* ===== verification/Object_Transfer.thy ===== *)
theory Object_Transfer
  imports Handler Local_Storage
begin

text \<open>
  The transfer of objects: what the handlers of \<^verbatim>\<open>src/lfs/handler.go\<close> and \<^verbatim>\<open>src/lfs/batch.go\<close> rely on in a
  store, as a locale that allows failures, its interpretation on the local store, and the properties of
  uploads, downloads, verification and batches.
\<close>

section \<open>The store behind a handler\<close>

text \<open>What an operation of the adapter says when it does not fail. An upload that fails changes no object.\<close>

locale object_store =
  fixes ops :: "'s adapter_ops"
    and invar :: "'s \<Rightarrow> bool"
    and objects :: "'s \<Rightarrow> string \<Rightarrow> string \<Rightarrow> bytes option"
  assumes objects_cong: "Endpoint ep = Endpoint ep' \<Longrightarrow> map lower_char oid = map lower_char oid' \<Longrightarrow>
      objects s ep oid = objects s ep' oid'"
    and objects_hash: "invar s \<Longrightarrow> objects s ep oid = Some d \<Longrightarrow> map lower_char oid = hex_encode (sha256 d)"
    and exists_law: "invar s \<Longrightarrow> op_Exists ops s ep oid = Inr b \<Longrightarrow> b = (objects s ep oid \<noteq> None)"
    and get_law: "invar s \<Longrightarrow> op_Get ops s ep oid = Inr (rd, n, seeks) \<Longrightarrow> rd_err rd = None \<Longrightarrow>
      objects s ep oid = Some (rd_data rd) \<and> n = int (length (rd_data rd))"
    and size_law: "invar s \<Longrightarrow> op_Size ops s ep oid = Inr n \<Longrightarrow> \<exists>d. objects s ep oid = Some d \<and> n = int (length d)"
    and size_missing: "invar s \<Longrightarrow> op_Size ops s ep oid = Inl ErrNotExist \<Longrightarrow> objects s ep oid = None"
    and put_law: "invar s \<Longrightarrow> op_Put ops s ep oid r n = (s', None) \<Longrightarrow>
      invar s' \<and> rd_err r = None \<and> objects s' ep oid = Some (rd_data r)"
    and put_frame_law: "invar s \<Longrightarrow> op_Put ops s ep oid r n = (s', None) \<Longrightarrow>
      (Endpoint ep', map lower_char oid') \<noteq> (Endpoint ep, map lower_char oid) \<Longrightarrow> objects s' ep' oid' = objects s ep' oid'"
    and put_fail_law: "invar s \<Longrightarrow> op_Put ops s ep oid r n = (s', Some e) \<Longrightarrow> invar s' \<and> objects s' = objects s"
begin

text \<open>Objects are never lost and never change their digest.\<close>

lemma put_digests:
  assumes "invar s" "op_Put ops s ep oid r n = (s', e)" "objects s ep' oid' = Some d"
  shows "\<exists>d'. objects s' ep' oid' = Some d' \<and> sha256 d' = sha256 d"
proof (cases "e = None \<and> (Endpoint ep', map lower_char oid') = (Endpoint ep, map lower_char oid)")
  case True
  then have "objects s' ep' oid' = Some (rd_data r)" and i: "invar s'"
    using put_law [OF assms(1)] assms(2) objects_cong [of ep' ep oid' oid s'] by auto
  with objects_hash [OF i this(1)] objects_hash [OF assms(1,3)]
  have "hex_encode (sha256 (rd_data r)) = hex_encode (sha256 d)" by simp
  then have "sha256 (rd_data r) = sha256 d" by (metis hex_decode_encode option.inject)
  with \<open>objects s' ep' oid' = Some (rd_data r)\<close> show ?thesis by blast
next
  case False
  then have "objects s' ep' oid' = objects s ep' oid'"
    using put_frame_law [OF assms(1), of ep oid r n s' ep' oid'] put_fail_law [OF assms(1)] assms(2) by (cases e) auto
  with assms(3) show ?thesis by simp
qed

end

section \<open>The local store behind a handler\<close>

text \<open>The failures one request meets: a cancelled context and failing system calls, what \<^verbatim>\<open>statfs\<close> reports, and
  what a write runs into.\<close>

record local_env =
  lv_ctx :: bool
  lv_fault :: bool
  lv_statfs :: "(64 word \<times> 64 word) option"
  lv_put :: put_env

definition local_ops :: "unicode_tables \<Rightarrow> local_env \<Rightarrow> local adapter_ops" where
  "local_ops u e =
     \<lparr>op_Exists = (\<lambda>l. Exists l (lv_ctx e) (lv_fault e)),
      op_Get = (\<lambda>l ep oid. map_sum id (\<lambda>(d, n). (\<lparr>rd_chunks = [d], rd_err = None\<rparr>, n, True)) (Get l (lv_ctx e) (lv_fault e) ep oid)),
      op_Put = (\<lambda>l ep oid r n. Put u l ep oid r (lv_put e)),
      op_Size = (\<lambda>l. Size l (lv_ctx e) (lv_fault e)),
      op_AvailableSpace = (\<lambda>l. AvailableSpace (lv_ctx e) (lv_statfs e)),
      op_Presign = None\<rparr>"

lemmas local_ops_simps [simp] = local_ops_def [THEN arg_cong, of op_Presign, simplified]

interpretation local_objects: object_store "local_ops u e" store_wf object for u e
proof (unfold_locales, goal_cases)
  case (1 ep ep' oid oid' s)
  then show ?case by (rule object_cong)
next
  case (2 s ep oid d)
  then show ?case using local_adapter.object_valid by blast
next
  case (3 s ep oid b)
  then show ?case by (auto simp: local_ops_def Exists_def object_def split: if_splits sum.splits option.splits)
next
  case (4 s ep oid rd n seeks)
  then show ?case
    by (auto simp: local_ops_def Get_def object_def rd_data_def map_sum_def split: if_splits sum.splits option.splits)
next
  case (5 s ep oid n)
  then show ?case by (auto simp: local_ops_def Size_def object_def split: if_splits sum.splits option.splits)
next
  case (6 s ep oid)
  then show ?case
    by (auto simp: local_ops_def Size_def object_def filePath_def normaliseOID_def split: if_splits sum.splits option.splits)
next
  case (7 s ep oid r n s')
  then show ?case
    using local_adapter.put_invar local_adapter.put_ok by (fastforce simp: local_ops_def)
next
  case (8 s ep oid r n s' ep' oid')
  then show ?case using local_adapter.put_frame by (fastforce simp: local_ops_def)
next
  case (9 s ep oid r n s' e)
  then show ?case using local_adapter.put_invar local_adapter.put_fail by (fastforce simp: local_ops_def)
qed

section \<open>Answers\<close>

lemma writeJSON_status: "rsp_Status (writeJSON hs n v) = (if json_valid v then n else 500)"
  by (simp add: writeJSON_def)

lemma writeError_not_200 [simp]: "n \<noteq> 200 \<Longrightarrow> rsp_Status (writeError r n m) \<noteq> 200"
  "n \<noteq> 200 \<Longrightarrow> rsp_Status (writeError_with hs r n m) \<noteq> 200"
  by (auto simp: writeError_def writeError_with_def writeJSON_status)

lemma WriteHeader_status [simp]: "rsp_Status (WriteHeader n) = n"
  by (simp add: WriteHeader_def)

lemma NotFound_not_200 [simp]: "rsp_Status (NotFoundHandler r) \<noteq> 200"
  by (simp add: NotFoundHandler_def)

lemma upload_failure_not_200 [simp]: "rsp_Status (upload_failure h env r err) \<noteq> 200"
  by (simp add: upload_failure_def)

lemma requireValidSignature_simps:
  "requireValidSignature lib h env r op = Inr () \<longleftrightarrow>
     Verify (h_signer h) (he_now env 0) op (requestBaseURL lib h r) (rq_RequestURI r) = None"
  "requireValidSignature lib h env r op = Inl x \<Longrightarrow> rsp_Status x \<noteq> 200"
  by (auto simp: requireValidSignature_def split: option.splits)

text \<open>The ways through \<^verbatim>\<open>UploadHandler\<close>.\<close>

lemma UploadHandler_cases:
  assumes "UploadHandler lib h env r w = (w', x)"
  obtains (refused) "w' = w" "rsp_Status x \<noteq> 200"
  | (present) "IsValidOID (rq_PathValue r ''oid'')" "requireValidSignature lib h env r opUpload = Inr ()"
      "op_Exists (h_store h 0) (w_store w) (ep_Path (h_endpoint h)) (rq_PathValue r ''oid'') = Inr True" "w' = w" "x = WriteHeader 200"
  | (stored) s e where "IsValidOID (rq_PathValue r ''oid'')" "requireValidSignature lib h env r opUpload = Inr ()"
      "rq_ContentLength r \<le> h_maxUploadSize h"
      "op_Exists (h_store h 0) (w_store w) (ep_Path (h_endpoint h)) (rq_PathValue r ''oid'') = Inr False"
      "op_Put (h_store h 0) (w_store w) (ep_Path (h_endpoint h)) (rq_PathValue r ''oid'') (upload_reader h env r) (rq_ContentLength r) = (s, e)"
      "w' = w\<lparr>w_store := s\<rparr>" "x = (case e of None \<Rightarrow> WriteHeader 200 | Some err \<Rightarrow> upload_failure h env r err)"
proof (cases "IsValidOID (rq_PathValue r ''oid'') \<and> requireValidSignature lib h env r opUpload = Inr () \<and>
    rq_ContentLength r \<le> h_maxUploadSize h")
  case False
  have "w' = w \<and> rsp_Status x \<noteq> 200"
  proof (cases "requireValidSignature lib h env r opUpload")
    case (Inl y)
    then show ?thesis
      using assms requireValidSignature_simps(2) [OF Inl] by (auto simp: UploadHandler_def Let_def split: if_splits)
  qed (use assms False in \<open>auto simp: UploadHandler_def Let_def split: if_splits\<close>)
  then show thesis using refused by blast
next
  case True
  show thesis
  proof (cases "op_Exists (h_store h 0) (w_store w) (ep_Path (h_endpoint h)) (rq_PathValue r ''oid'')")
    case (Inl e)
    with assms True show thesis by (intro refused) (auto simp: UploadHandler_def Let_def)
  next
    case (Inr b)
    obtain s e where p: "op_Put (h_store h 0) (w_store w) (ep_Path (h_endpoint h)) (rq_PathValue r ''oid'')
        (upload_reader h env r) (rq_ContentLength r) = (s, e)" by force
    show thesis
    proof (cases b)
      case True
      with assms Inr \<open>_ \<and> _\<close> show thesis by (intro present) (auto simp: UploadHandler_def Let_def)
    next
      case False
      with assms Inr p \<open>_ \<and> _\<close> show thesis
        by (intro stored [of s e]) (auto simp: UploadHandler_def Let_def split: option.splits)
    qed
  qed
qed

section \<open>Uploads\<close>

context object_store
begin

lemma upload_keeps:
  assumes "h_store h 0 = ops" "invar (w_store w)" "UploadHandler lib h env r w = (w', x)"
  shows "invar (w_store w') \<and> w_auth w' = w_auth w \<and> w_locks w' = w_locks w \<and>
    (\<forall>ep oid d. objects (w_store w) ep oid = Some d \<longrightarrow> (\<exists>d'. objects (w_store w') ep oid = Some d' \<and> sha256 d' = sha256 d))"
  using assms(3)
proof (cases rule: UploadHandler_cases)
  case (stored s e)
  note put = stored(5) [unfolded assms(1)]
  have "invar s" using put_law [OF assms(2)] put_fail_law [OF assms(2)] put by (cases e) auto
  with put_digests [OF assms(2) put] stored(6) show ?thesis by simp
qed (use assms(2) in auto)

lemma upload_ok:
  assumes "h_store h 0 = ops" "invar (w_store w)" "UploadHandler lib h env r w = (w', x)" "rsp_Status x = 200"
  shows "\<exists>d. objects (w_store w') (ep_Path (h_endpoint h)) (rq_PathValue r ''oid'') = Some d \<and>
    map lower_char (rq_PathValue r ''oid'') = hex_encode (sha256 d) \<and>
    (objects (w_store w) (ep_Path (h_endpoint h)) (rq_PathValue r ''oid'') = None \<longrightarrow>
      d = stream_data (rq_Body r) \<and> int (length d) \<le> max 0 (h_maxUploadSize h))"
  using assms(3)
proof (cases rule: UploadHandler_cases)
  case refused
  with assms(4) show ?thesis by simp
next
  case present
  from exists_law [OF assms(2) present(3) [unfolded assms(1)]] obtain d where
    d: "objects (w_store w) (ep_Path (h_endpoint h)) (rq_PathValue r ''oid'') = Some d" by auto
  with objects_hash [OF assms(2) d] present(4) show ?thesis by simp
next
  case (stored s e)
  with assms(4) have e: "e = None" by (cases e) auto
  note put = stored(5) [unfolded assms(1) e]
  note law = put_law [OF assms(2) put]
  from law have rd: "rd_data (upload_reader h env r) = stream_data (rq_Body r)"
    "length (stream_data (rq_Body r)) \<le> nat (h_maxUploadSize h)"
    using upload_reader_data [of "he_deadlines env" "h_maxUploadSize h" "rq_Body r" "h_uploadIdleTimeout h"]
    by (auto simp: upload_reader_def)
  from law objects_hash [of s] rd stored(6) show ?thesis by auto
qed

text \<open>A download that is answered in full carries content with the digest asked for.\<close>

lemma download_ok:
  assumes "h_store h 0 = ops" "invar (w_store w)" "DownloadHandler lib h env r w = (w', x)" "plain_get r"
    and "rsp_Status x = 200"
    and complete: "\<forall>rd n seeks. op_Get ops (w_store w) (ep_Path (h_endpoint h)) (rq_PathValue r ''oid'') = Inr (rd, n, seeks) \<longrightarrow> rd_err rd = None"
  shows "w' = w \<and> (\<exists>d. objects (w_store w) (ep_Path (h_endpoint h)) (rq_PathValue r ''oid'') = Some d \<and>
    rsp_Body x = BodyBytes d \<and> hex_encode (sha256 d) = map lower_char (rq_PathValue r ''oid'')) \<and>
    Verify (h_signer h) (he_now env 0) opDownload (requestBaseURL lib h r) (rq_RequestURI r) = None"
proof (cases "requireValidSignature lib h env r opDownload")
  case (Inl y)
  with assms(3,5) requireValidSignature_simps(2) [OF Inl] show ?thesis
    by (auto simp: DownloadHandler_def Let_def split: if_splits)
next
  case (Inr z)
  then have v: "Verify (h_signer h) (he_now env 0) opDownload (requestBaseURL lib h r) (rq_RequestURI r) = None"
    by (simp add: requireValidSignature_simps(1) [symmetric])
  show ?thesis
  proof (cases "op_Get ops (w_store w) (ep_Path (h_endpoint h)) (rq_PathValue r ''oid'')")
    case (Inl e)
    with assms(1,3,5) Inr show ?thesis
      by (cases e) (auto simp: DownloadHandler_def Let_def split: if_splits)
  next
    case got: (Inr t)
    obtain rd n seeks where t: "t = (rd, n, seeks)" by (cases t) auto
    have o: "objects (w_store w) (ep_Path (h_endpoint h)) (rq_PathValue r ''oid'') = Some (rd_data rd)"
      using get_law [OF assms(2) got [unfolded t]] complete got t by auto
    have "w' = w \<and> rsp_Body x = BodyBytes (rd_data rd)"
      using assms(1,3,4,5) Inr got t
      by (auto simp: DownloadHandler_def Let_def ServeContent_def split: if_splits)
    with o objects_hash [OF assms(2) o] v show ?thesis by auto
  qed
qed

end

section \<open>Batches\<close>

lemma plain_path_append: "plain_path p \<Longrightarrow> list_all (\<lambda>c. c \<noteq> CHR ''?'' \<and> c \<noteq> CHR ''%'' \<and> \<not> ctl_byte c) q \<Longrightarrow> plain_path (p @ q)"
  unfolding plain_path_def HasPrefix_def list_all_iff by (cases p) (simp_all, blast)

lemma IsValidOID_plain: "IsValidOID oid \<Longrightarrow> list_all (\<lambda>c. c \<noteq> CHR ''?'' \<and> c \<noteq> CHR ''%'' \<and> \<not> ctl_byte c) oid"
proof -
  have "\<not> is_hex CHR ''?''" "\<not> is_hex CHR ''%''" by (simp_all add: is_hex_def hex_value_def)
  moreover have "\<not> ctl_byte c" if "is_hex c" for c
    using that by (auto simp: is_hex_def hex_value_def Let_def ctl_byte_def split: if_splits)
  ultimately show "IsValidOID oid \<Longrightarrow> list_all (\<lambda>c. c \<noteq> CHR ''?'' \<and> c \<noteq> CHR ''%'' \<and> \<not> ctl_byte c) oid" by (auto simp: IsValidOID_def list_all_iff)
qed

lemma object_path_plain:
  assumes "plain_path (ep_Path (h_endpoint h))" "IsValidOID (obj_OID obj)"
  shows "plain_path (object_path h obj)"
proof -
  have "list_all (\<lambda>c. c \<noteq> CHR ''?'' \<and> c \<noteq> CHR ''%'' \<and> \<not> ctl_byte c) ''/objects/''" by (simp add: ctl_byte_def)
  then show ?thesis
    unfolding object_path_def append_assoc [symmetric]
    by (rule plain_path_append [OF plain_path_append [OF assms(1)] IsValidOID_plain [OF assms(2)]])
qed

lemma verify_path_plain:
  assumes "plain_path (ep_Path (h_endpoint h))"
  shows "plain_path (ep_Path (h_endpoint h) @ ''/objects/verify'')"
  by (intro plain_path_append assms) (simp add: ctl_byte_def)

text \<open>The loop, position by position.\<close>

lemma batch_loop_nth:
  "k < length (batch_loop h env op base v s i objs) \<Longrightarrow>
     batch_loop h env op base v s i objs ! k = processObject h env op (i + k) (objs ! k) base v s"
proof (induction objs arbitrary: i k)
  case (Cons obj objs)
  then show ?case by (cases k) (auto split: if_splits)
qed simp

lemma batch_loop_length: "length (batch_loop h env op base v s i objs) \<le> length objs"
  by (induction objs arbitrary: i) (auto simp: le_SucI)

lemma batch_loop_all: "\<forall>k. \<not> he_gone env k \<Longrightarrow> length (batch_loop h env op base v s i objs) = length objs"
  by (induction objs arbitrary: i) auto

lemma batch_loop_gone: "k < length (batch_loop h env op base v s i objs) \<Longrightarrow> \<not> he_gone env (i + k)"
proof (induction objs arbitrary: i k)
  case (Cons obj objs)
  then show ?case by (cases k) (fastforce split: if_splits)+
qed simp

lemma object_answer_simps [simp]:
  "or_OID (object_answer obj) = obj_OID obj" "or_OID (object_fails obj c m) = obj_OID obj" "or_OID (object_acts obj as) = obj_OID obj"
  "or_Actions (object_answer obj) = []" "or_Actions (object_fails obj c m) = []" "or_Actions (object_acts obj as) = as"
  "or_Size (object_acts obj as) = obj_Size obj"
  "or_Error (object_answer obj) = None" "or_Error (object_acts obj as) = None" "or_Error (object_fails obj c m) \<noteq> None"
  by (simp_all add: object_answer_def object_fails_def object_acts_def)

text \<open>The action for the object at position i itself: what the store's presigner answered for it, or a URL of this
  server signed at that moment.\<close>

definition object_action :: "('s, 'a, 'l) handler \<Rightarrow> http_env \<Rightarrow> nat \<Rightarrow> lfs_object \<Rightarrow> string \<Rightarrow> 's \<Rightarrow> string \<Rightarrow> lfs_action \<Rightarrow> bool" where
  "object_action h env i obj base s k a \<longleftrightarrow>
     (case op_Presign (h_store h i) of
        None \<Rightarrow> a = signed_action (Sign (h_signer h) (he_now env (Suc i)) k base (object_path h obj))
      | Some p \<Rightarrow>
          k = opDownload \<and>
            (\<exists>href. ps_PresignGet p s (ep_Path (h_endpoint h)) (obj_OID obj) (Expiry (h_signer h)) = Inr href \<and>
              a = presigned_action h href []) \<or>
          k = opUpload \<and>
            (\<exists>href header. ps_PresignPut p s (ep_Path (h_endpoint h)) (obj_OID obj) (obj_Size obj) (Expiry (h_signer h)) = Inr (href, header) \<and>
              a = presigned_action h href header))"

lemma processDownload_cases:
  "(\<exists>c m. processDownload h env i obj base s = object_fails obj c m) \<or>
   (op_Size (h_store h i) s (ep_Path (h_endpoint h)) (obj_OID obj) = Inr (obj_Size obj) \<and>
    (\<exists>a. processDownload h env i obj base s = object_acts obj [(opDownload, a)] \<and> object_action h env i obj base s opDownload a))"
  by (simp add: processDownload_def object_action_def split: sum.split store_error.split option.split) blast

lemma processUpload_cases:
  "(\<exists>c m. processUpload h env i obj base v s = object_fails obj c m) \<or>
   (op_Size (h_store h i) s (ep_Path (h_endpoint h)) (obj_OID obj) = Inr (obj_Size obj) \<and> processUpload h env i obj base v s = object_answer obj) \<or>
   (op_Size (h_store h i) s (ep_Path (h_endpoint h)) (obj_OID obj) = Inl ErrNotExist \<and> obj_Size obj \<le> h_maxUploadSize h \<and>
    (\<exists>a. processUpload h env i obj base v s = object_acts obj [(opUpload, a), (opVerify, v)] \<and> object_action h env i obj base s opUpload a))"
proof (cases "op_Size (h_store h i) s (ep_Path (h_endpoint h)) (obj_OID obj)")
  case (Inl e)
  then show ?thesis
    by (cases "e = ErrNotExist"; cases "op_Presign (h_store h i)")
      (auto simp: processUpload_def object_action_def split: sum.split store_error.split prod.split)
qed (auto simp: processUpload_def)

lemma op_names_differ [simp]:
  "opVerify \<noteq> opDownload" "opVerify \<noteq> opUpload" "opDownload \<noteq> opVerify" "opUpload \<noteq> opVerify"
  "opDownload \<noteq> opUpload" "opUpload \<noteq> opDownload"
  by (simp_all add: opDownload_def opUpload_def opVerify_def)

lemma processObject_actions:
  assumes "(k, a) \<in> set (or_Actions (processObject h env op i obj base v s))" "op \<in> {opDownload, opUpload}"
  shows "IsValidOID (obj_OID obj) \<and> (k = op \<and> object_action h env i obj base s k a \<or> op = opUpload \<and> k = opVerify \<and> a = v)"
proof -
  have v: "IsValidOID (obj_OID obj)" "validateObject obj = []"
    using assms(1) by (auto simp: processObject_def validateObject_def Let_def split: if_splits)
  with assms processDownload_cases [of h env i obj base s] processUpload_cases [of h env i obj base v s] show ?thesis
    by (auto simp: processObject_def)
qed

lemma signed_action_accepted:
  assumes "plain_path path" "int64_range (Unix (now + sg_expiry sg))" "Unix later \<le> Unix (now + sg_expiry sg)"
    and "act_Href (signed_action (Sign sg now k base path)) = base @ uri"
  shows "Verify sg later k base uri = None"
  using assms by (subst Sign_accepted [of path now sg k base uri]) (auto simp: signed_action_def not_less)

lemma object_action_honoured:
  assumes "object_action h env i obj base s k a" "op_Presign (h_store h i) = None"
    and "IsValidOID (obj_OID obj)" "plain_path (ep_Path (h_endpoint h))" "int64_range (Unix (he_now env (Suc i) + sg_expiry (h_signer h)))"
    and "act_Href a = base @ uri" "Unix later \<le> Unix (he_now env (Suc i) + sg_expiry (h_signer h))"
  shows "Verify (h_signer h) later k base uri = None"
  by (rule signed_action_accepted [OF object_path_plain [OF assms(4,3)] assms(5,7)])
    (use assms(1,2,6) in \<open>simp add: object_action_def\<close>)

lemma verifyAction_honoured:
  assumes "plain_path (ep_Path (h_endpoint h))" "int64_range (Unix (he_now env 0 + sg_expiry (h_signer h)))"
    and "act_Href (verifyAction h env base) = base @ uri" "Unix later \<le> Unix (he_now env 0 + sg_expiry (h_signer h))"
  shows "Verify (h_signer h) later opVerify base uri = None"
  by (rule signed_action_accepted [OF verify_path_plain [OF assms(1)] assms(2,4)])
    (use assms(3) in \<open>simp add: verifyAction_def\<close>)

section \<open>Space\<close>

definition space_total :: "object_response list \<Rightarrow> nat" where
  "space_total objs = sum_list (map (\<lambda>x. nat (or_Size x)) (filter (\<lambda>x. map_of (or_Actions x) opUpload \<noteq> None) objs))"

lemma saturating_add:
  fixes n :: "64 word"
  assumes "0 \<le> k" "k < 2 ^ 64"
  shows "unat (n + min (word_of_int k) (- 1 - n)) = min (unat n + nat k) (2 ^ 64 - 1)"
proof -
  have u: "unat (word_of_int k :: 64 word) = nat k"
    using assms by (simp add: unat_eq_nat_uint uint_word_of_int take_bit_int_eq_self)
  have "unat (- 1 :: 64 word) = 2 ^ 64 - 1" by (simp add: unsigned_minus_1_eq_mask mask_eq_exp_minus_1)
  then have m: "unat (- 1 - n) = 2 ^ 64 - 1 - unat n" using unat_sub [of n "- 1"] by simp
  have l: "unat n \<le> 2 ^ 64 - 1" using unsigned_less [of n, where ?'a = nat] by simp
  let ?m = "min (word_of_int k) (- 1 - n)"
  have mm: "unat ?m = min (nat k) (2 ^ 64 - 1 - unat n)"
    using u m by (simp add: min_def word_le_nat_alt)
  then have "unat n + unat ?m < 2 ^ LENGTH(64)" using l by auto
  then have s: "unat (n + ?m) = unat n + unat ?m" by (rule unat_add_lem [THEN iffD1])
  have "unat n + min a (b - unat n) = min (unat n + a) b" if "unat n \<le> b" for a b
    using that by (auto simp: min_def)
  then show ?thesis unfolding s mm using l by blast
qed

lemma space_needed_total:
  assumes "\<forall>x \<in> set objs. 0 \<le> or_Size x \<and> or_Size x < 2 ^ 63"
  shows "unat (space_needed n objs) = min (unat n + space_total objs) (2 ^ 64 - 1)"
  using assms
proof (induction objs arbitrary: n)
  case Nil
  then show ?case using unsigned_less [of n, where ?'a = nat] by (simp add: space_total_def)
next
  case (Cons x objs)
  show ?case
  proof (cases "map_of (or_Actions x) opUpload")
    case None
    with Cons show ?thesis by (simp add: space_total_def)
  next
    case (Some a)
    have "unat (n + min (word_of_int (or_Size x)) (- 1 - n)) = min (unat n + nat (or_Size x)) (2 ^ 64 - 1)"
      by (rule saturating_add) (use Cons.prems in auto)
    with Cons Some show ?thesis by (auto simp: space_total_def)
  qed
qed

lemma upload_needs_signature:
  assumes "UploadHandler lib h env r w = (w', x)" "w' \<noteq> w \<or> rsp_Status x = 200"
  shows "IsValidOID (rq_PathValue r ''oid'') \<and>
    Verify (h_signer h) (he_now env 0) opUpload (requestBaseURL lib h r) (rq_RequestURI r) = None"
  using assms(1) by (cases rule: UploadHandler_cases) (use assms(2) in \<open>auto simp: requireValidSignature_simps\<close>)



section \<open>Properties\<close>

text \<open>C9: Whatever fails underneath, an upload through \<^verbatim>\<open>UploadHandler\<close> on the local store keeps every file at an
  object's path hashing to the object's id, loses no object and changes none to other content than one with
  the same digest, and touches neither locks nor authentication. If it is answered with 200, the object is
  stored and hashes to the id of the URL; if it was not stored before, it is exactly the request's body,
  within the maximum upload size.\<close>

theorem upload_stores:
  assumes "h_store h 0 = local_ops u e" "store_wf (w_store w)" "UploadHandler lib h env r w = (w', x)"
  shows "store_wf (w_store w') \<and> w_auth w' = w_auth w \<and> w_locks w' = w_locks w \<and>
    (\<forall>ep oid d. object (w_store w) ep oid = Some d \<longrightarrow> (\<exists>d'. object (w_store w') ep oid = Some d' \<and> sha256 d' = sha256 d)) \<and>
    (rsp_Status x = 200 \<longrightarrow>
      (\<exists>d. object (w_store w') (ep_Path (h_endpoint h)) (rq_PathValue r ''oid'') = Some d \<and>
        map lower_char (rq_PathValue r ''oid'') = hex_encode (sha256 d) \<and>
        (object (w_store w) (ep_Path (h_endpoint h)) (rq_PathValue r ''oid'') = None \<longrightarrow>
          d = stream_data (rq_Body r) \<and> int (length d) \<le> max 0 (h_maxUploadSize h))))"
  using local_objects.upload_keeps [OF assms] local_objects.upload_ok [OF assms] by blast

text \<open>Whatever the store, an upload changes anything or is answered with 200 only if the request's URL carries
  a signature of this server for an upload to this URL that has not expired; without a valid object id it
  is refused.\<close>

theorem upload_requires_signature:
  assumes "UploadHandler lib h env r w = (w', x)" "w' \<noteq> w \<or> rsp_Status x = 200"
  shows "IsValidOID (rq_PathValue r ''oid'') \<and>
    Verify (h_signer h) (he_now env 0) opUpload (requestBaseURL lib h r) (rq_RequestURI r) = None"
  using assms by (rule upload_needs_signature)

text \<open>With the local store, a GET that asks for the whole object and is answered with 200 carries exactly the
  bytes stored under the endpoint and the id, which hash to the id, its URL carries a valid signature for a
  download, and the server's state is unchanged.\<close>

theorem download_serves_object:
  assumes "h_store h 0 = local_ops u e" "store_wf (w_store w)" "DownloadHandler lib h env r w = (w', x)"
    and "plain_get r" "rsp_Status x = 200"
  shows "w' = w \<and>
    (\<exists>d. object (w_store w) (ep_Path (h_endpoint h)) (rq_PathValue r ''oid'') = Some d \<and> rsp_Body x = BodyBytes d \<and>
      hex_encode (sha256 d) = map lower_char (rq_PathValue r ''oid'')) \<and>
    Verify (h_signer h) (he_now env 0) opDownload (requestBaseURL lib h r) (rq_RequestURI r) = None"
proof -
  have "\<forall>rd n seeks. op_Get (local_ops u e) (w_store w) (ep_Path (h_endpoint h)) (rq_PathValue r ''oid'') = Inr (rd, n, seeks) \<longrightarrow>
      rd_err rd = None"
    by (auto simp: local_ops_def map_sum_def split: sum.splits)
  then show ?thesis by (rule local_objects.download_ok [OF assms])
qed

definition smooth :: "local_env \<Rightarrow> bool" where
  "smooth e \<longleftrightarrow> \<not> lv_ctx e \<and> \<not> lv_fault e \<and> fault_free (lv_put e)"

lemma smooth_ops:
  assumes "smooth e" "store_wf l" "IsValidOID oid"
  shows "op_Size (local_ops u e) l ep oid = (case object l ep oid of None \<Rightarrow> Inl ErrNotExist | Some d \<Rightarrow> Inr (int (length d)))"
    and "op_Exists (local_ops u e) l ep oid = Inr (object l ep oid \<noteq> None)"
    and "op_Get (local_ops u e) l ep oid =
      (case object l ep oid of None \<Rightarrow> Inl ErrNotExist | Some d \<Rightarrow> Inr (\<lparr>rd_chunks = [d], rd_err = None\<rparr>, int (length d), True))"
  using assms local_adapter.size_spec [of l oid ep] local_adapter.exists_spec [of l oid ep] local_adapter.get_spec [of l oid ep]
  by (auto simp: local_ops_def smooth_def split: option.splits)

lemma upload_round_trip:
  assumes "h_store h 0 = local_ops u e" "store_wf (w_store w)" "smooth e"
    and "temp_available (w_store w) (ep_Path (h_endpoint h)) (lv_put e)"
    and "object (w_store w) (ep_Path (h_endpoint h)) (rq_PathValue r ''oid'') = None"
    and "IsValidOID (rq_PathValue r ''oid'')" "requireValidSignature lib h env r opUpload = Inr ()"
    and "rq_ContentLength r \<le> h_maxUploadSize h" "rd_err (upload_reader h env r) = None"
    and "hex_encode (sha256 (stream_data (rq_Body r))) = map lower_char (rq_PathValue r ''oid'')"
    and "map lower_char (rq_PathValue r2 ''oid'') = map lower_char (rq_PathValue r ''oid'')"
    and "requireValidSignature lib h env2 r2 opDownload = Inr ()" "plain_get r2"
  shows "\<exists>w'. UploadHandler lib h env r w = (w', WriteHeader 200) \<and>
    (\<exists>x. DownloadHandler lib h env2 r2 w' = (w', x) \<and> rsp_Status x = 200 \<and> rsp_Body x = BodyBytes (stream_data (rq_Body r)))"
proof -
  let ?ep = "ep_Path (h_endpoint h)" and ?oid = "rq_PathValue r ''oid''"
  have d: "rd_data (upload_reader h env r) = stream_data (rq_Body r)"
    using upload_reader_data(1) assms(9) by (simp add: upload_reader_def)
  obtain s err where p: "Put u (w_store w) ?ep ?oid (upload_reader h env r) (lv_put e) = (s, err)" by force
  with Put_fault_free [OF _ assms(4,6), of u "upload_reader h env r"] assms(3,9,10) d
  have err: "err = None" by (simp add: smooth_def)
  have x: "op_Exists (h_store h 0) (w_store w) ?ep ?oid = Inr False"
    using smooth_ops(2) [OF assms(3,2,6)] assms(1,5) by simp
  have up: "UploadHandler lib h env r w = (w\<lparr>w_store := s\<rparr>, WriteHeader 200)"
    using assms(1,6,7,8) x p err by (auto simp: UploadHandler_def local_ops_def)
  have o: "object s ?ep ?oid = Some (stream_data (rq_Body r))" and wf: "store_wf s"
    using local_adapter.put_ok [OF assms(2), of u ?ep ?oid] local_adapter.put_invar [OF assms(2) p] p err d by auto
  have v2: "IsValidOID (rq_PathValue r2 ''oid'')" using assms(6,11) IsValidOID_cong by blast
  have "object s ?ep (rq_PathValue r2 ''oid'') = Some (stream_data (rq_Body r))"
    using o object_cong [OF refl assms(11)] by simp
  with smooth_ops(3) [OF assms(3) wf v2] have
    "op_Get (h_store h 0) s ?ep (rq_PathValue r2 ''oid'') =
      Inr (\<lparr>rd_chunks = [stream_data (rq_Body r)], rd_err = None\<rparr>, int (length (stream_data (rq_Body r))), True)"
    by (simp add: assms(1))
  with assms(12,13) v2 have "\<exists>x. DownloadHandler lib h env2 r2 (w\<lparr>w_store := s\<rparr>) = (w\<lparr>w_store := s\<rparr>, x) \<and>
      rsp_Status x = 200 \<and> rsp_Body x = BodyBytes (stream_data (rq_Body r))"
    by (simp add: DownloadHandler_def ServeContent_def rd_data_def)
  with up show ?thesis by blast
qed

text \<open>C8: The round trip through the handlers: with a signed URL and without failures of the system, uploading a new
  object whose body is complete, in time, within the limit and hashes to the id is answered with 200, and a
  signed download of the same id (in either case) then returns exactly that body.\<close>

theorem upload_then_download:
  assumes "h_store h 0 = local_ops u e" "store_wf (w_store w)" "smooth e"
    and "temp_available (w_store w) (ep_Path (h_endpoint h)) (lv_put e)"
    and "object (w_store w) (ep_Path (h_endpoint h)) (rq_PathValue r ''oid'') = None"
    and "IsValidOID (rq_PathValue r ''oid'')" "requireValidSignature lib h env r opUpload = Inr ()"
    and "rq_ContentLength r \<le> h_maxUploadSize h" "rd_err (upload_reader h env r) = None"
    and "hex_encode (sha256 (stream_data (rq_Body r))) = map lower_char (rq_PathValue r ''oid'')"
    and "map lower_char (rq_PathValue r2 ''oid'') = map lower_char (rq_PathValue r ''oid'')"
    and "requireValidSignature lib h env2 r2 opDownload = Inr ()" "plain_get r2"
  shows "\<exists>w'. UploadHandler lib h env r w = (w', WriteHeader 200) \<and>
    (\<exists>x. DownloadHandler lib h env2 r2 w' = (w', x) \<and> rsp_Status x = 200 \<and> rsp_Body x = BodyBytes (stream_data (rq_Body r)))"
  using assms by (rule upload_round_trip)

lemma processBatch_objects:
  defines "v h env req base \<equiv> (if br_Operation req = opUpload then verifyAction h env base else zero_action)"
  assumes "n < length (bp_Objects (processBatch h env req base s))"
  shows "n < length (br_Objects req)"
    and "bp_Objects (processBatch h env req base s) ! n =
      processObject h env (br_Operation req) n (br_Objects req ! n) base (v h env req base) s"
proof -
  let ?b = "batch_loop h env (br_Operation req) base (v h env req base) s 0 (br_Objects req)"
  have b: "bp_Objects (processBatch h env req base s) = ?b" by (simp add: processBatch_def Let_def v_def)
  with assms(2) have n: "n < length ?b" by simp
  then show "n < length (br_Objects req)" by (rule order_less_le_trans) (rule batch_loop_length)
  show "bp_Objects (processBatch h env req base s) ! n =
      processObject h env (br_Operation req) n (br_Objects req ! n) base (v h env req base) s"
    using batch_loop_nth [OF n] b by simp
qed

lemma processBatch_all: "\<forall>k. \<not> he_gone env k \<Longrightarrow> length (bp_Objects (processBatch h env req base s)) = length (br_Objects req)"
  by (simp add: processBatch_def batch_loop_all)

lemma processObject_OID [simp]: "or_OID (processObject h env op i obj base v s) = obj_OID obj"
  unfolding processObject_def Let_def
  using processDownload_cases [of h env i obj base s] processUpload_cases [of h env i obj base v s] by auto

lemma signed_href_prefix: "HasPrefix (act_Href (signed_action (Sign sg now k base path))) (base @ path @ ''?'')"
  by (simp add: HasPrefix_def signed_action_def Sign_def Let_def)

text \<open>C12: Every action a batch offers, on whatever store, leads to its object. Where the store presigns URLs, the download or
  upload action is exactly the URL (and for an upload the headers) that the presigner answered for this endpoint,
  this object and the configured lifetime, and no signature of this server is involved. Every other action (all of
  them without presigned URLs, and the verify action always) is a URL of this server, under the request's base URL
  and the object's or the verify path, and a request to it passes the signature check for the action's operation
  provided it reaches the server under the same base URL and not after the expiry that was signed. The endpoint's
  path is one without a query, an escape or a control character, the operation is download or upload, and the
  expiry times are within 64 bits.\<close>

theorem batch_actions_honoured:
  assumes "plain_path (ep_Path (h_endpoint h))" "br_Operation req \<in> {opDownload, opUpload}"
    and "\<forall>i. int64_range (Unix (he_now env i + sg_expiry (h_signer h)))"
    and "base = requestBaseURL lib h r" "n < length (bp_Objects (processBatch h env req base s))"
    and "(k, a) \<in> set (or_Actions (bp_Objects (processBatch h env req base s) ! n))"
  shows "case if k = opVerify then None else op_Presign (h_store h n) of
      Some p \<Rightarrow>
        k = opDownload \<and>
          (\<exists>href. ps_PresignGet p s (ep_Path (h_endpoint h)) (obj_OID (br_Objects req ! n)) (Expiry (h_signer h)) = Inr href \<and>
            a = presigned_action h href []) \<or>
        k = opUpload \<and>
          (\<exists>href header. ps_PresignPut p s (ep_Path (h_endpoint h)) (obj_OID (br_Objects req ! n)) (obj_Size (br_Objects req ! n))
              (Expiry (h_signer h)) = Inr (href, header) \<and>
            a = presigned_action h href header)
    | None \<Rightarrow>
        HasPrefix (act_Href a) (base @ ep_Path (h_endpoint h) @
          (if k = opVerify then ''/objects/verify'' else ''/objects/'' @ obj_OID (br_Objects req ! n)) @ ''?'') \<and>
        (\<forall>env' r'. requestBaseURL lib h r' = base \<longrightarrow> act_Href a = base @ rq_RequestURI r' \<longrightarrow>
          Unix (he_now env' 0) \<le> Unix (he_now env (if k = opVerify then 0 else Suc n) + sg_expiry (h_signer h)) \<longrightarrow>
          requireValidSignature lib h env' r' k = Inr ())"
proof -
  let ?obj = "br_Objects req ! n"
  consider (object) "IsValidOID (obj_OID ?obj)" "k = br_Operation req" "object_action h env n ?obj base s k a"
    | (verify) "k = opVerify" "a = verifyAction h env base"
    using processObject_actions [OF assms(6) [unfolded processBatch_objects(2) [OF assms(5)]] assms(2)] by auto
  then show ?thesis
  proof cases
    case verify
    then show ?thesis
      using verifyAction_honoured [OF assms(1) spec [OF assms(3)], of base]
        signed_href_prefix [of "h_signer h" "he_now env 0" opVerify base "ep_Path (h_endpoint h) @ ''/objects/verify''"]
      by (simp add: requireValidSignature_simps verifyAction_def)
  next
    case object
    show ?thesis
    proof (cases "op_Presign (h_store h n)")
      case None
      then show ?thesis
        using object assms(2) object_action_honoured [OF object(3) None object(1) assms(1) spec [OF assms(3)]]
          signed_href_prefix [of _ _ k base "object_path h ?obj"]
        by (auto simp: requireValidSignature_simps object_action_def object_path_def)
    qed (use object assms(2) in \<open>auto simp: object_action_def\<close>)
  qed
qed

lemma processObject_offers:
  assumes "op_Presign (h_store h n) = None" "op \<in> {opDownload, opUpload}"
    and "IsValidOID (obj_OID obj) \<Longrightarrow> op_Size (h_store h n) s (ep_Path (h_endpoint h)) (obj_OID obj) =
      (case found of None \<Rightarrow> Inl ErrNotExist | Some d \<Rightarrow> Inr (int (length d)))"
  defines "valid \<equiv> IsValidOID (obj_OID obj) \<and> 0 \<le> obj_Size obj \<and> (op = opUpload \<longrightarrow> obj_Size obj \<le> h_maxUploadSize h)"
    and "there \<equiv> map_option (int \<circ> length) found = Some (obj_Size obj)"
  shows "or_Actions (processObject h env op n obj base v s) =
      (if op = opDownload \<and> valid \<and> there
       then [(opDownload, signed_action (Sign (h_signer h) (he_now env (Suc n)) opDownload base (object_path h obj)))]
       else if op = opUpload \<and> valid \<and> found = None
       then [(opUpload, signed_action (Sign (h_signer h) (he_now env (Suc n)) opUpload base (object_path h obj))), (opVerify, v)]
       else []) \<and>
    (or_Error (processObject h env op n obj base v s) = None \<longleftrightarrow> valid \<and> (there \<or> op = opUpload \<and> found = None))"
proof (cases "IsValidOID (obj_OID obj) \<and> 0 \<le> obj_Size obj")
  case False
  then have "validateObject obj \<noteq> []" by (auto simp: validateObject_def)
  with False show ?thesis by (auto simp: valid_def processObject_def Let_def)
next
  case True
  then have "validateObject obj = []" by (simp add: validateObject_def)
  with True assms(1,2,3) show ?thesis
    by (cases found; cases "op = opDownload")
      (auto simp: valid_def there_def processObject_def processDownload_def processUpload_def)
qed

text \<open>C17: A batch for downloads or uploads, on a sound local store and without failures of it, answers its objects in the order of the request, all of them
  unless the client leaves. The actions are exactly these: for a download, one download URL signed for the object,
  if the object is valid and stored with the size claimed; for an upload, an upload URL signed for the object and
  the verify action, if it is valid, not larger than the maximum upload size and not stored; and none otherwise. An
  object is answered with an error unless it gets actions or is an upload that is stored already with the size
  claimed.\<close>

theorem batch_offers:
  assumes "\<forall>i. h_store h i = local_ops u (e i) \<and> smooth (e i)" "store_wf s" "br_Operation req \<in> {opDownload, opUpload}"
    and "n < length (bp_Objects (processBatch h env req base s))"
  shows "let ans = bp_Objects (processBatch h env req base s) ! n; obj = br_Objects req ! n;
      found = object s (ep_Path (h_endpoint h)) (obj_OID obj);
      valid = (IsValidOID (obj_OID obj) \<and> 0 \<le> obj_Size obj \<and> (br_Operation req = opUpload \<longrightarrow> obj_Size obj \<le> h_maxUploadSize h));
      there = (map_option (int \<circ> length) found = Some (obj_Size obj))
    in n < length (br_Objects req) \<and>
      ((\<forall>k. \<not> he_gone env k) \<longrightarrow> length (bp_Objects (processBatch h env req base s)) = length (br_Objects req)) \<and>
      or_OID ans = obj_OID obj \<and>
      or_Actions ans =
        (if br_Operation req = opDownload \<and> valid \<and> there
         then [(opDownload, signed_action (Sign (h_signer h) (he_now env (Suc n)) opDownload base (object_path h obj)))]
         else if br_Operation req = opUpload \<and> valid \<and> found = None
         then [(opUpload, signed_action (Sign (h_signer h) (he_now env (Suc n)) opUpload base (object_path h obj))),
               (opVerify, verifyAction h env base)]
         else []) \<and>
      (or_Error ans = None \<longleftrightarrow> valid \<and> (there \<or> br_Operation req = opUpload \<and> found = None))"
proof -
  let ?oid = "obj_OID (br_Objects req ! n)"
  have size: "IsValidOID ?oid \<Longrightarrow> op_Size (h_store h n) s (ep_Path (h_endpoint h)) ?oid =
      (case object s (ep_Path (h_endpoint h)) ?oid of None \<Rightarrow> Inl ErrNotExist | Some d \<Rightarrow> Inr (int (length d)))"
    using assms(1,2) smooth_ops(1) [of "e n" s ?oid u] by simp
  have p: "op_Presign (h_store h n) = None" using assms(1) by simp
  show ?thesis
    unfolding Let_def processBatch_objects(2) [OF assms(4)]
    using processObject_offers [OF p assms(3) size, of env base] processBatch_objects(1) [OF assms(4)] processBatch_all [of env h req base s]
    by (cases "br_Operation req = opUpload") simp_all
qed

text \<open>C34: \<^verbatim>\<open>hasSpaceFor\<close> compares the available space with the exact sum of the sizes of the objects to upload, capped
  at the largest 64-bit number, however many and large they are; it lets a batch pass that uploads nothing or
  whose store cannot tell.\<close>

theorem has_space_exact:
  assumes "\<forall>x \<in> set objs. 0 \<le> or_Size x \<and> or_Size x < 2 ^ 63"
  shows "hasSpaceFor h objs s \<longleftrightarrow>
    (case op_AvailableSpace (h_store h 0) s of
       Inl _ \<Rightarrow> True
     | Inr avail \<Rightarrow> min (space_total objs) (2 ^ 64 - 1) \<le> unat avail)"
proof -
  have n: "unat (space_needed 0 objs) = min (space_total objs) (2 ^ 64 - 1)"
    using space_needed_total [OF assms, of 0] by simp
  have "space_needed 0 objs = 0 \<longleftrightarrow> unat (space_needed 0 objs) = 0" by (simp add: unat_eq_0)
  then show ?thesis
    using n by (auto simp: hasSpaceFor_def Let_def word_le_nat_alt split: sum.split)
qed

section \<open>Witnesses\<close>

definition demo_lib :: golib where
  "demo_lib = \<lparr>lib_unicode = ascii_tables, lib_url_parse = (\<lambda>_. None), lib_serve = (\<lambda>_ _ _. WriteHeader 416)\<rparr>"

definition demo_local_env :: local_env where
  "demo_local_env = \<lparr>lv_ctx = False, lv_fault = False, lv_statfs = Some (1000, 4096), lv_put = demo_env\<rparr>"

definition no_locks :: "unit lock_ops" where
  "no_locks = \<lparr>lo_Create = (\<lambda>_ _ _ _. ((), zero_lock, Some ErrLockIO)), lo_List = (\<lambda>_ _ _. ((), Inl ErrLockIO)),
     lo_Unlock = (\<lambda>_ _ _ _ _. ((), zero_lock, Some ErrLockIO))\<rparr>"

definition demo_handler :: "(local, unit, unit) handler" where
  "demo_handler = NewHandler (demo_endpoint ''/org/repo'') (\<lambda>_. local_ops ascii_tables demo_local_env) (\<lambda>s. None_step s ())
     ''https://host'' 100 demo_signer no_locks minute"

definition demo_http_env :: http_env where
  "demo_http_env = \<lparr>he_gone = (\<lambda>_. False), he_now = (\<lambda>_. 0), he_early = False, he_deadlines = True, he_hidden = False, he_ctx = False\<rparr>"

definition demo_object :: lfs_object where "demo_object = \<lparr>obj_OID = demo_oid, obj_Size = 5\<rparr>"

definition demo_request_uri :: "string \<Rightarrow> string" where
  "demo_request_uri op =
     drop 12 (su_Href (Sign demo_signer 0 op ''https://host'' (object_path demo_handler demo_object)))"

definition demo_request :: "string \<Rightarrow> string \<Rightarrow> request" where
  "demo_request meth op = \<lparr>rq_Method = meth, rq_Header = (\<lambda>_. []), rq_Host = ''host'', rq_TLS = True,
     rq_RequestURI = demo_request_uri op, rq_RawQuery = [], rq_PathValue = (\<lambda>_. demo_oid), rq_ContentLength = 5,
     rq_Body = \<lparr>st_pieces = [(0, ''he''), (1, ''llo'')], st_wait = 0, st_err = None\<rparr>, rq_RequestID = []\<rparr>"

definition demo_world :: "(local, unit, unit) world" where
  "demo_world = \<lparr>w_store = demo_local, w_auth = (), w_locks = ()\<rparr>"

lemmas demo_handler_simps = demo_handler_def NewHandler_def demo_endpoint_def

lemma demo_path_plain: "plain_path (object_path demo_handler demo_object)" "plain_path (ep_Path (h_endpoint demo_handler))"
proof -
  show p: "plain_path (ep_Path (h_endpoint demo_handler))"
    by (simp add: demo_handler_simps plain_path_def HasPrefix_def ctl_byte_def)
  show "plain_path (object_path demo_handler demo_object)"
    by (rule object_path_plain [OF p]) (simp add: demo_object_def demo_facts)
qed

lemma demo_base: "requestBaseURL demo_lib demo_handler r = ''https://host''"
  by (simp add: requestBaseURL_def base_url_of_def demo_handler_simps)

lemma demo_href: "su_Href (Sign demo_signer 0 op ''https://host'' (object_path demo_handler demo_object)) =
    ''https://host'' @ demo_request_uri op"
  by (simp add: demo_request_uri_def Sign_def Let_def)

lemma demo_signature: "requireValidSignature demo_lib demo_handler demo_http_env (demo_request meth op) op = Inr ()"
proof -
  have r: "rq_RequestURI (demo_request meth op) = demo_request_uri op" "he_now demo_http_env 0 = 0" "h_signer demo_handler = demo_signer"
    by (simp_all add: demo_request_def demo_http_env_def demo_handler_simps)
  have e: "int64_range (Unix (0 + sg_expiry demo_signer))" "\<not> Unix (0 + sg_expiry demo_signer) < Unix 0"
    by (simp_all add: demo_signer_def Unix_def minute_def second_def int64_range_def)
  show ?thesis
    unfolding requireValidSignature_simps(1) demo_base r
    using Sign_accepted [OF demo_path_plain(1) e(1) demo_href, of 0 op] e(2) by simp
qed

lemma demo_smooth: "smooth demo_local_env" "h_store demo_handler i = local_ops ascii_tables demo_local_env"
  by (simp_all add: smooth_def demo_local_env_def demo_facts demo_handler_simps)

lemma demo_object_absent: "object demo_local ep oid = None"
  by (simp add: object_def demo_local_def NewLocal_def split: sum.split)

lemma demo_upload_reader: "rd_err (upload_reader demo_handler demo_http_env (demo_request meth op)) = None"
  "stream_data (rq_Body (demo_request meth op)) = ''hello''"
  by (simp_all add: upload_reader_def withIdleTimeout_def idleTimeoutReader_def MaxBytesReader_def demo_handler_simps
      demo_request_def demo_http_env_def stream_data_def minute_def second_def)

lemma demo_ready:
  "store_wf (w_store demo_world)" "temp_available (w_store demo_world) (ep_Path (h_endpoint demo_handler)) (lv_put demo_local_env)"
  "rq_ContentLength (demo_request meth op) \<le> h_maxUploadSize demo_handler" "rq_PathValue (demo_request meth op) x = demo_oid"
  using demo_facts by (simp_all add: demo_world_def demo_handler_simps demo_local_env_def demo_request_def)

lemma demo_round_trip_ready:
  "object (w_store demo_world) ep oid = None" "plain_get (demo_request ''GET'' opDownload)"
  "hex_encode (sha256 (stream_data (rq_Body (demo_request ''PUT'' opUpload)))) = map lower_char (rq_PathValue (demo_request ''PUT'' opUpload) ''oid'')"
  "IsValidOID (rq_PathValue (demo_request ''PUT'' opUpload) ''oid'')"
  "map lower_char (rq_PathValue (demo_request ''GET'' opDownload) ''oid'') = map lower_char (rq_PathValue (demo_request ''PUT'' opUpload) ''oid'')"
proof -
  show "hex_encode (sha256 (stream_data (rq_Body (demo_request ''PUT'' opUpload)))) = map lower_char (rq_PathValue (demo_request ''PUT'' opUpload) ''oid'')"
    by (simp add: demo_upload_reader demo_ready, simp add: demo_oid_def)
qed (simp_all add: demo_world_def demo_object_absent demo_ready demo_facts, simp add: plain_get_def demo_request_def)

lemmas demo_round_trip_facts = demo_smooth(2) demo_ready(1) demo_smooth(1) demo_ready(2) demo_round_trip_ready(1,4) demo_signature demo_ready(3)
  demo_upload_reader(1) demo_round_trip_ready(3,5) demo_signature demo_round_trip_ready(2)

lemma demo_round_trip:
  "\<exists>w' x. UploadHandler demo_lib demo_handler demo_http_env (demo_request ''PUT'' opUpload) demo_world = (w', WriteHeader 200) \<and>
     DownloadHandler demo_lib demo_handler demo_http_env (demo_request ''GET'' opDownload) w' = (w', x) \<and>
     rsp_Status x = 200 \<and> rsp_Body x = BodyBytes ''hello''"
  using upload_round_trip [OF demo_round_trip_facts] by (auto simp: demo_upload_reader)

theorem upload_then_download_witness:
  "\<exists>w' x. UploadHandler demo_lib demo_handler demo_http_env (demo_request ''PUT'' opUpload) demo_world = (w', WriteHeader 200) \<and>
     DownloadHandler demo_lib demo_handler demo_http_env (demo_request ''GET'' opDownload) w' = (w', x) \<and>
     rsp_Status x = 200 \<and> rsp_Body x = BodyBytes ''hello''"
  using upload_then_download [OF demo_round_trip_facts] by (auto simp: demo_upload_reader)

lemma demo_upload_keeps:
  "UploadHandler demo_lib demo_handler demo_http_env r demo_world = (w', x) \<Longrightarrow> store_wf (w_store w')"
  using local_objects.upload_keeps [OF demo_smooth(2) demo_ready(1)] by blast

theorem upload_stores_witness:
  "store_wf (w_store (fst (UploadHandler demo_lib demo_handler demo_http_env (demo_request ''PUT'' opUpload) demo_world)))"
  using upload_stores [OF demo_smooth(2) demo_ready(1) surjective_pairing] by blast

theorem upload_requires_signature_witness:
  "Verify demo_signer 0 opUpload ''https://host'' (demo_request_uri opUpload) = None"
proof -
  obtain w' where "UploadHandler demo_lib demo_handler demo_http_env (demo_request ''PUT'' opUpload) demo_world = (w', WriteHeader 200)"
    using demo_round_trip by blast
  from upload_requires_signature [OF this] show ?thesis
    by (simp add: demo_base) (simp add: demo_request_def demo_http_env_def demo_handler_simps)
qed

theorem download_serves_object_witness:
  "hex_encode (sha256 ''hello'') = map lower_char demo_oid"
proof -
  obtain w' x where w: "UploadHandler demo_lib demo_handler demo_http_env (demo_request ''PUT'' opUpload) demo_world = (w', WriteHeader 200)"
    "DownloadHandler demo_lib demo_handler demo_http_env (demo_request ''GET'' opDownload) w' = (w', x)"
    "rsp_Status x = 200" "rsp_Body x = BodyBytes ''hello''"
    using demo_round_trip by blast
  have "store_wf (w_store w')" by (rule demo_upload_keeps [OF w(1)])
  moreover have "plain_get (demo_request ''GET'' opDownload)" by (simp add: plain_get_def demo_request_def)
  ultimately show ?thesis
    using download_serves_object [OF demo_smooth(2) _ w(2) _ w(3)] w(4) by (auto simp: demo_ready)
qed

definition demo_batch :: batch_request where
  "demo_batch = \<lparr>br_Operation = opUpload, br_Transfers = [], br_Ref = None, br_Objects = [demo_object], br_HashAlgo = []\<rparr>"

lemma demo_batch_response:
  "bp_Objects (processBatch demo_handler demo_http_env demo_batch ''https://host'' demo_local) =
    [object_acts demo_object [(opUpload, signed_action (Sign demo_signer 0 opUpload ''https://host'' (object_path demo_handler demo_object))),
      (opVerify, verifyAction demo_handler demo_http_env ''https://host'')]]"
proof -
  have v: "validateObject demo_object = []" by (simp add: validateObject_def demo_object_def demo_facts)
  have m: "\<not> h_maxUploadSize demo_handler < obj_Size demo_object" "h_signer demo_handler = demo_signer" "he_now demo_http_env i = 0"
    "\<not> he_gone demo_http_env i" for i
    by (simp_all add: demo_handler_simps demo_object_def demo_http_env_def)
  have z: "op_Size (local_ops ascii_tables demo_local_env) demo_local (ep_Path (h_endpoint demo_handler)) (obj_OID demo_object) = Inl ErrNotExist"
    using smooth_ops(1) [OF demo_smooth(1) demo_facts(1,4)] by (simp add: demo_object_absent demo_object_def)
  show ?thesis
    by (simp add: processBatch_def demo_batch_def processObject_def v processUpload_def m z demo_smooth(2) Let_def opUpload_def opDownload_def)
qed

theorem batch_actions_honoured_witness:
  "requireValidSignature demo_lib demo_handler demo_http_env (demo_request ''PUT'' opUpload) opUpload = Inr () \<and>
   HasPrefix (act_Href (verifyAction demo_handler demo_http_env ''https://host'')) ''https://host/org/repo/objects/verify?''"
proof -
  let ?a = "signed_action (Sign demo_signer 0 opUpload ''https://host'' (object_path demo_handler demo_object))"
  let ?r = "demo_request ''PUT'' opUpload" and ?v = "verifyAction demo_handler demo_http_env ''https://host''"
  have e: "\<forall>i. int64_range (Unix (he_now demo_http_env i + sg_expiry (h_signer demo_handler)))"
    "Unix (he_now demo_http_env 0) \<le> Unix (he_now demo_http_env (Suc 0) + sg_expiry (h_signer demo_handler))"
    by (simp_all add: demo_http_env_def demo_handler_simps demo_signer_def Unix_def minute_def second_def int64_range_def)
  have o: "br_Operation demo_batch \<in> {opDownload, opUpload}" by (simp add: demo_batch_def)
  have n: "0 < length (bp_Objects (processBatch demo_handler demo_http_env demo_batch ''https://host'' demo_local))"
    by (simp add: demo_batch_response)
  note honoured = batch_actions_honoured [OF demo_path_plain(2) o e(1) demo_base [symmetric, of ?r] n]
  have p: "op_Presign (h_store demo_handler 0) = None" by (simp add: demo_smooth(2))
  have "act_Href ?a = ''https://host'' @ rq_RequestURI ?r"
    by (simp add: signed_action_def demo_href, simp add: demo_request_def)
  then have "requireValidSignature demo_lib demo_handler demo_http_env ?r opUpload = Inr ()"
    using honoured [of opUpload ?a] p e(2) by (simp add: demo_batch_response demo_base)
  moreover have "HasPrefix (act_Href ?v) (''https://host'' @ ep_Path (h_endpoint demo_handler) @ ''/objects/verify?'')"
    using honoured [of opVerify ?v] by (simp add: demo_batch_response)
  ultimately show ?thesis by (simp add: demo_handler_simps)
qed

theorem batch_offers_witness:
  "or_Actions (bp_Objects (processBatch demo_handler demo_http_env demo_batch ''https://host'' demo_local) ! 0) =
    [(opUpload, signed_action (Sign demo_signer 0 opUpload ''https://host'' (object_path demo_handler demo_object))),
     (opVerify, verifyAction demo_handler demo_http_env ''https://host'')]"
proof -
  have "\<forall>i. h_store demo_handler i = local_ops ascii_tables demo_local_env \<and> smooth demo_local_env" by (simp add: demo_smooth)
  moreover have "br_Operation demo_batch \<in> {opDownload, opUpload}" by (simp add: demo_batch_def)
  moreover have "0 < length (bp_Objects (processBatch demo_handler demo_http_env demo_batch ''https://host'' demo_local))"
    by (simp add: demo_batch_response)
  moreover have "IsValidOID (obj_OID demo_object)" "0 \<le> obj_Size demo_object" "obj_Size demo_object \<le> h_maxUploadSize demo_handler"
    "h_signer demo_handler = demo_signer" "he_now demo_http_env (Suc 0) = 0"
    by (simp_all add: demo_object_def demo_facts demo_handler_simps demo_http_env_def)
  ultimately show ?thesis
    using batch_offers [OF _ demo_facts(1), of demo_handler ascii_tables "\<lambda>_. demo_local_env" demo_batch 0 demo_http_env "''https://host''"]
    by (simp add: Let_def demo_batch_def demo_object_absent)
qed

theorem has_space_exact_witness:
  "hasSpaceFor demo_handler (bp_Objects (processBatch demo_handler demo_http_env demo_batch ''https://host'' demo_local)) demo_local"
proof -
  have "list_all (\<lambda>x. 0 \<le> or_Size x \<and> or_Size x < 2 ^ 63)
      (bp_Objects (processBatch demo_handler demo_http_env demo_batch ''https://host'' demo_local))"
    unfolding demo_batch_response by (simp add: demo_object_def)
  then show ?thesis
    unfolding list_all_iff
    by (subst has_space_exact)
      (simp_all add: demo_batch_response space_total_def demo_smooth(2) local_ops_def AvailableSpace_def demo_local_env_def demo_object_def)
qed

end
