(* ===== verification/S3_Storage.thy ===== *)
theory S3_Storage
  imports Object_Transfer
begin

text \<open>
  \<^verbatim>\<open>src/storage/s3.go\<close>: objects in an S3-compatible bucket.

  The client of the AWS SDK is the argument \<^verbatim>\<open>s3_client\<close>, a record of the calls of \<^verbatim>\<open>s3API\<close> on a service state
  of any type; what the adapter relies on in the service is stated separately, as \<^verbatim>\<open>s3_laws\<close>. A call that fails
  says what the adapter looks at in the error. Uploads read the body as \<^verbatim>\<open>io.ReadFull\<close> and \<^verbatim>\<open>fill\<close> do, hash all they
  read, and upload in one request or in parts.
\<close>

section \<open>The client\<close>

record s3_error =
  se_NotFound :: bool
  se_NoSuchKey :: bool
  se_status :: "int option"
  se_context :: bool

record part_tag =
  pt_ETag :: string
  pt_ChecksumCRC32 :: string

record 'b s3_api =
  api_HeadBucket :: "'b \<Rightarrow> string \<Rightarrow> s3_error option"
  api_HeadObject :: "'b \<Rightarrow> string \<Rightarrow> string \<Rightarrow> s3_error + int option"
  api_GetObject :: "'b \<Rightarrow> string \<Rightarrow> string \<Rightarrow> s3_error + (reader \<times> int option)"
  api_PutObject :: "'b \<Rightarrow> string \<Rightarrow> string \<Rightarrow> bytes \<Rightarrow> 'b \<times> s3_error option"
  api_CreateMultipartUpload :: "'b \<Rightarrow> string \<Rightarrow> string \<Rightarrow> 'b \<times> (s3_error + string)"
  api_UploadPart :: "'b \<Rightarrow> string \<Rightarrow> string \<Rightarrow> string \<Rightarrow> nat \<Rightarrow> bytes \<Rightarrow> 'b \<times> (s3_error + part_tag)"
  api_CompleteMultipartUpload :: "'b \<Rightarrow> string \<Rightarrow> string \<Rightarrow> string \<Rightarrow> (nat \<times> part_tag) list \<Rightarrow> 'b \<times> s3_error option"
  api_AbortMultipartUpload :: "'b \<Rightarrow> string \<Rightarrow> string \<Rightarrow> string \<Rightarrow> 'b \<times> s3_error option"

text \<open>The presigning client: bucket, key, then content length and checksum for an upload, and the options of the call.\<close>

record presign_options =
  po_Expires :: duration
  po_DisableHeaderHoisting :: bool

definition withSignedHeaders :: "presign_options \<Rightarrow> presign_options" where
  "withSignedHeaders po = po\<lparr>po_DisableHeaderHoisting := True\<rparr>"

text \<open>\<^verbatim>\<open>s3.WithPresignExpires\<close> on the options a call starts with.\<close>

definition presign_expires :: "duration \<Rightarrow> presign_options" where
  "presign_expires expiry = \<lparr>po_Expires = expiry, po_DisableHeaderHoisting = False\<rparr>"

record s3_presigner =
  pr_PresignGetObject :: "string \<Rightarrow> string \<Rightarrow> presign_options \<Rightarrow> s3_error + string"
  pr_PresignPutObject :: "string \<Rightarrow> string \<Rightarrow> int \<Rightarrow> string \<Rightarrow> presign_options \<Rightarrow> s3_error + (string \<times> (string \<times> string list) list)"

record 'b s3 =
  s3_client :: "'b s3_api"
  s3_bucket :: string
  s3_prefix :: string
  s3_streamPartSize :: int

record s3_config =
  sc_Bucket :: string
  sc_Region :: string
  sc_Endpoint :: string
  sc_AccessKeyID :: string
  sc_SecretAccessKey :: string
  sc_Prefix :: string
  sc_PresignedURLs :: bool
  sc_ForcePathStyle :: bool
  sc_MaxUploadSize :: int

definition s3PartSize :: int where "s3PartSize = 8388608"
definition s3MaxParts :: int where "s3MaxParts = 10000"
definition s3MaxPutSize :: int where "s3MaxPutSize = 5368709120"
definition s3MaxPartSize :: int where "s3MaxPartSize = 5368709120"

text \<open>For a negative size both quotients leave the smallest part size.\<close>

definition partSizeFor :: "int \<Rightarrow> int" where
  "partSizeFor n = min s3MaxPartSize (max s3PartSize (n div s3MaxParts + min (n mod s3MaxParts) 1))"

text \<open>What \<^verbatim>\<open>newS3Client\<close> tells the SDK. Without static credentials the SDK looks for others, and without a base endpoint it
  derives one from the region.\<close>

record s3_client_options =
  co_Region :: string
  co_MaxIdleConnsPerHost :: nat
  co_Credentials :: "(string \<times> string) option"
  co_BaseEndpoint :: "string option"
  co_UsePathStyle :: bool

definition s3MaxIdleConns :: nat where "s3MaxIdleConns = 64"

definition client_options :: "s3_config \<Rightarrow> s3_client_options" where
  "client_options cfg =
     \<lparr>co_Region = sc_Region cfg, co_MaxIdleConnsPerHost = s3MaxIdleConns,
      co_Credentials = (if sc_AccessKeyID cfg \<noteq> [] \<and> sc_SecretAccessKey cfg \<noteq> [] then Some (sc_AccessKeyID cfg, sc_SecretAccessKey cfg) else None),
      co_BaseEndpoint = (if sc_Endpoint cfg \<noteq> [] then Some (sc_Endpoint cfg) else None),
      co_UsePathStyle = sc_ForcePathStyle cfg\<rparr>"

text \<open>The argument \<open>sdk\<close> is the SDK: the client for the options, with the presigner on it, or \<^term>\<open>None\<close> if it cannot load its
  configuration.\<close>

definition newS3Client :: "(s3_client_options \<Rightarrow> 'c option) \<Rightarrow> s3_config \<Rightarrow> 'c option" where
  "newS3Client sdk cfg = sdk (client_options cfg)"

definition NewS3 :: "(s3_client_options \<Rightarrow> ('b s3_api \<times> s3_presigner) option) \<Rightarrow> s3_config \<Rightarrow> ('b s3 \<times> s3_presigner option) option" where
  "NewS3 sdk cfg =
     (case newS3Client sdk cfg of
        None \<Rightarrow> None
      | Some (client, presigner) \<Rightarrow>
        Some (\<lparr>s3_client = client, s3_bucket = sc_Bucket cfg, s3_prefix = sc_Prefix cfg,
                s3_streamPartSize = partSizeFor (sc_MaxUploadSize cfg)\<rparr>,
              if sc_PresignedURLs cfg then Some presigner else None))"

section \<open>Reading\<close>

definition objectKey :: "'b s3 \<Rightarrow> string \<Rightarrow> string \<Rightarrow> store_error + string" where
  "objectKey s endpoint oid =
     (case normaliseOID oid of
        Inl e \<Rightarrow> Inl e
      | Inr oid \<Rightarrow> Inr (s3_prefix s @ Endpoint endpoint @ ''/'' @ take 2 oid @ ''/'' @ take 2 (drop 2 oid) @ ''/'' @ oid))"

definition isS3NotFound :: "s3_error \<Rightarrow> bool" where
  "isS3NotFound e \<longleftrightarrow> se_NotFound e \<or> se_NoSuchKey e \<or> se_status e = Some 404"

text \<open>An error of the client as callers of the adapter tell it apart.\<close>

definition s3_failure :: "s3_error \<Rightarrow> store_error" where
  "s3_failure e = (if se_context e then ErrContext else ErrIO)"

definition S3_Exists :: "'b s3 \<Rightarrow> 'b \<Rightarrow> string \<Rightarrow> string \<Rightarrow> store_error + bool" where
  "S3_Exists s b endpoint oid =
     (case objectKey s endpoint oid of
        Inl e \<Rightarrow> Inl e
      | Inr key \<Rightarrow>
        (case api_HeadObject (s3_client s) b (s3_bucket s) key of
           Inl e \<Rightarrow> if isS3NotFound e then Inr False else Inl (s3_failure e)
         | Inr _ \<Rightarrow> Inr True))"

definition S3_Get :: "'b s3 \<Rightarrow> 'b \<Rightarrow> string \<Rightarrow> string \<Rightarrow> store_error + (reader \<times> int)" where
  "S3_Get s b endpoint oid =
     (case objectKey s endpoint oid of
        Inl e \<Rightarrow> Inl e
      | Inr key \<Rightarrow>
        (case api_GetObject (s3_client s) b (s3_bucket s) key of
           Inl e \<Rightarrow> if isS3NotFound e then Inl ErrNotExist else Inl (s3_failure e)
         | Inr (body, contentLength) \<Rightarrow> Inr (body, case contentLength of None \<Rightarrow> 0 | Some n \<Rightarrow> n)))"

definition S3_Size :: "'b s3 \<Rightarrow> 'b \<Rightarrow> string \<Rightarrow> string \<Rightarrow> store_error + int" where
  "S3_Size s b endpoint oid =
     (case objectKey s endpoint oid of
        Inl e \<Rightarrow> Inl e
      | Inr key \<Rightarrow>
        (case api_HeadObject (s3_client s) b (s3_bucket s) key of
           Inl e \<Rightarrow> if isS3NotFound e then Inl ErrNotExist else Inl (s3_failure e)
         | Inr contentLength \<Rightarrow> Inr (case contentLength of None \<Rightarrow> 0 | Some n \<Rightarrow> n)))"

definition S3_Check :: "'b s3 \<Rightarrow> 'b \<Rightarrow> store_error option" where
  "S3_Check s b = map_option s3_failure (api_HeadBucket (s3_client s) b (s3_bucket s))"

definition S3_AvailableSpace :: "store_error + 64 word" where
  "S3_AvailableSpace = Inr (- 1)"

section \<open>Writing\<close>

text \<open>What is left of a body: the bytes and the error after them.\<close>

type_synonym body_rest = "bytes \<times> read_error option"

text \<open>\<^verbatim>\<open>io.ReadFull\<close> into a buffer of \<open>k\<close> bytes. A body that ends early is an error of its own; other errors are
  those of the body.\<close>

definition ReadFull :: "nat \<Rightarrow> body_rest \<Rightarrow> bytes \<times> body_rest \<times> store_error option" where
  "ReadFull k body =
     (case body of (d, e) \<Rightarrow>
        if k \<le> length d then (take k d, (drop k d, e), None)
        else (d, ([], e), Some (case e of None \<Rightarrow> ErrIO | Some x \<Rightarrow> ErrReader x)))"

datatype fill_result = FillFull | FillEOF | FillErr read_error

text \<open>\<^verbatim>\<open>fill\<close>. \<open>joined\<close> says that the body's end or error comes with its last bytes, not in a read of its own.\<close>

definition fill :: "bool \<Rightarrow> nat \<Rightarrow> body_rest \<Rightarrow> bytes \<times> body_rest \<times> fill_result" where
  "fill joined k body =
     (case body of (d, e) \<Rightarrow>
        if k < length d \<or> (k = length d \<and> \<not> joined) then (take k d, (drop k d, e), FillFull)
        else (d, ([], e), case e of None \<Rightarrow> FillEOF | Some x \<Rightarrow> FillErr x))"

definition verifyOID :: "unicode_tables \<Rightarrow> bytes \<Rightarrow> string \<Rightarrow> store_error option" where
  "verifyOID u hashed oid = (if EqualFold u (hex_encode (sha256 hashed)) oid then None else Some ErrHashMismatch)"

definition putObject :: "unicode_tables \<Rightarrow> 'b s3 \<Rightarrow> string \<Rightarrow> string \<Rightarrow> bytes \<Rightarrow> bytes \<Rightarrow> 'b \<Rightarrow> 'b \<times> store_error option" where
  "putObject u s key oid data hashed b =
     (case verifyOID u hashed oid of
        Some e \<Rightarrow> (b, Some e)
      | None \<Rightarrow> apsnd (map_option s3_failure) (api_PutObject (s3_client s) b (s3_bucket s) key data))"

text \<open>One round's data: the buffered bytes, or a part read from the body; what is left, the size still expected, and
  a read error.\<close>

definition next_part :: "bool \<Rightarrow> nat \<Rightarrow> int \<Rightarrow> bytes \<Rightarrow> body_rest \<Rightarrow> bytes \<times> body_rest \<times> int \<times> store_error option" where
  "next_part joined partSize n buffered body =
     (if buffered \<noteq> [] then (buffered, body, n, None)
      else if n > 0 then (case ReadFull (min partSize (nat n)) body of (c, rest, e) \<Rightarrow> (c, rest, n, e))
      else (case fill joined partSize body of
         (c, rest, FillFull) \<Rightarrow> (c, rest, n, None)
       | (c, rest, FillEOF) \<Rightarrow> (c, rest, 0, None)
       | (c, rest, FillErr x) \<Rightarrow> (c, rest, n, Some (ErrReader x))))"

lemma ReadFull_ok: "ReadFull k body = (c, rest, None) \<Longrightarrow> length c = k \<and> fst body = c @ fst rest \<and> snd rest = snd body"
  by (auto simp: ReadFull_def split: prod.splits if_splits)

lemma fill_ok: "fill joined k body = (c, rest, r) \<Longrightarrow> fst body = c @ fst rest \<and> snd rest = snd body"
  by (auto simp: fill_def split: prod.splits if_splits)

lemma next_part_shorter:
  assumes "next_part joined partSize n [] body = (c, rest, n', None)" "c \<noteq> []" "n \<noteq> 0"
  shows "(n > 0 \<longrightarrow> n' = n \<and> int (length c) \<le> n) \<and> (n < 0 \<longrightarrow> n' \<le> 0) \<and> length (fst rest) < length (fst body)"
proof (cases "n > 0")
  case True
  with assms(1) have "ReadFull (min partSize (nat n)) body = (c, rest, None)" "n' = n"
    by (auto simp: next_part_def split: prod.splits)
  moreover from this(1) have "length c = min partSize (nat n)" "fst body = c @ fst rest"
    using ReadFull_ok by blast+
  moreover have "0 < length c" using assms(2) by simp
  ultimately show ?thesis using True by simp
next
  case False
  with assms(1) have "\<exists>r. fill joined partSize body = (c, rest, r)" "n' = n \<or> n' = 0"
    by (auto simp: next_part_def split: prod.splits fill_result.splits)
  with fill_ok [of joined partSize body c rest] assms(2,3) False show ?thesis by auto
qed

lemma next_part_measure:
  assumes "next_part joined partSize n [] body = (c, rest, n', None)" "c \<noteq> []" "n \<noteq> 0"
  shows "nat (if n' > 0 then n' - int (length c) else n') < nat n \<or>
    (nat (if n' > 0 then n' - int (length c) else n') = nat n \<and> length (fst rest) < length (fst body))"
  using next_part_shorter [OF assms] assms(2,3) by (cases "n > 0") auto

text \<open>
  The loop of \<^verbatim>\<open>putMultipart\<close>: \<open>number\<close> is the next part, \<open>n\<close> the bytes still expected (negative when unknown),
  \<open>hashed\<close> all that was read, \<open>parts\<close> what was uploaded. The result is an error, or what was hashed and uploaded.
\<close>

function part_loop :: "'b s3 \<Rightarrow> string \<Rightarrow> string \<Rightarrow> bool \<Rightarrow> nat \<Rightarrow> nat \<Rightarrow> int \<Rightarrow> bytes \<Rightarrow> body_rest \<Rightarrow> bytes
    \<Rightarrow> (nat \<times> part_tag) list \<Rightarrow> 'b \<Rightarrow> 'b \<times> (store_error + (bytes \<times> (nat \<times> part_tag) list))" where
  "part_loop s key uploadId joined partSize number n buffered body hashed parts b =
     (if n = 0 then (b, Inr (hashed, parts))
      else case next_part joined partSize n buffered body of
        (c, rest, n', Some e) \<Rightarrow> (b, Inl e)
      | (c, rest, n', None) \<Rightarrow>
        (let hashed' = (if buffered \<noteq> [] then hashed else hashed @ c) in
         if c = [] then (b, Inr (hashed', parts))
         else if int number > s3MaxParts then (b, Inl ErrObjectTooLarge)
         else case api_UploadPart (s3_client s) b (s3_bucket s) key uploadId number c of
           (b', Inl e) \<Rightarrow> (b', Inl (s3_failure e))
         | (b', Inr tag) \<Rightarrow>
           part_loop s key uploadId joined partSize (number + 1) (if n' > 0 then n' - int (length c) else n') [] rest
             hashed' (parts @ [(number, tag)]) b'))"
  by pat_completeness auto
termination
  by (relation "measures [\<lambda>(s, key, uid, j, ps, k, n, buf, body, h, p, b). if buf = [] then 0 else 1,
    \<lambda>(s, key, uid, j, ps, k, n, buf, body, h, p, b). nat n,
    \<lambda>(s, key, uid, j, ps, k, n, buf, body, h, p, b). length (fst body)]")
    (auto dest!: next_part_measure [OF sym] split: if_splits)

declare part_loop.simps [simp del]

text \<open>The deferred abort of a multipart upload that failed.\<close>

definition abort_upload :: "'b s3 \<Rightarrow> string \<Rightarrow> string \<Rightarrow> 'b \<Rightarrow> store_error \<Rightarrow> 'b \<times> store_error option" where
  "abort_upload s key uploadId b e =
     (fst (api_AbortMultipartUpload (s3_client s) b (s3_bucket s) key uploadId), Some e)"

definition putMultipart :: "unicode_tables \<Rightarrow> 'b s3 \<Rightarrow> string \<Rightarrow> string \<Rightarrow> bool \<Rightarrow> nat \<Rightarrow> int \<Rightarrow> bytes \<Rightarrow> body_rest \<Rightarrow> 'b
    \<Rightarrow> 'b \<times> store_error option" where
  "putMultipart u s key oid joined partSize n buffered body b =
     (case api_CreateMultipartUpload (s3_client s) b (s3_bucket s) key of
        (b1, Inl e) \<Rightarrow> (b1, Some (s3_failure e))
      | (b1, Inr uploadId) \<Rightarrow>
        (case part_loop s key uploadId joined partSize 1 n buffered body buffered [] b1 of
           (b2, Inl e) \<Rightarrow> abort_upload s key uploadId b2 e
         | (b2, Inr (hashed, parts)) \<Rightarrow>
           (case verifyOID u hashed oid of
              Some e \<Rightarrow> abort_upload s key uploadId b2 e
            | None \<Rightarrow>
              (case api_CompleteMultipartUpload (s3_client s) b2 (s3_bucket s) key uploadId parts of
                 (b3, Some e) \<Rightarrow> abort_upload s key uploadId b3 (s3_failure e)
               | (b3, None) \<Rightarrow> (b3, None)))))"

definition putUnknownSize :: "unicode_tables \<Rightarrow> 'b s3 \<Rightarrow> string \<Rightarrow> string \<Rightarrow> bool \<Rightarrow> body_rest \<Rightarrow> 'b \<Rightarrow> 'b \<times> store_error option" where
  "putUnknownSize u s key oid joined body b =
     (let size' = nat (max (s3_streamPartSize s) s3PartSize) in
      case fill joined size' body of
        (c, rest, FillEOF) \<Rightarrow> putObject u s key oid c c b
      | (c, rest, FillErr x) \<Rightarrow> (b, Some (ErrReader x))
      | (c, rest, FillFull) \<Rightarrow> putMultipart u s key oid joined size' (- 1) c rest b)"

definition S3_Put :: "unicode_tables \<Rightarrow> bool \<Rightarrow> 'b s3 \<Rightarrow> 'b \<Rightarrow> string \<Rightarrow> string \<Rightarrow> reader \<Rightarrow> int \<Rightarrow> 'b \<times> store_error option" where
  "S3_Put u joined s b endpoint oid reader n =
     (case objectKey s endpoint oid of
        Inl e \<Rightarrow> (b, Some e)
      | Inr key \<Rightarrow>
        (let body = (rd_data reader, rd_err reader) in
         if n > s3MaxParts * s3MaxPartSize then (b, Some ErrObjectTooLarge)
         else if n < 0 then putUnknownSize u s key oid joined body b
         else let partSize = partSizeFor n in
           if n > partSize then putMultipart u s key oid joined (nat partSize) n [] body b
           else (case ReadFull (nat n) body of
              (c, rest, Some e) \<Rightarrow> (b, Some e)
            | (c, rest, None) \<Rightarrow> putObject u s key oid c c b)))"

section \<open>Presigning\<close>

definition PresignGet :: "'b s3 \<Rightarrow> s3_presigner \<Rightarrow> string \<Rightarrow> string \<Rightarrow> duration \<Rightarrow> store_error + string" where
  "PresignGet s p endpoint oid expiry =
     (case objectKey s endpoint oid of
        Inl e \<Rightarrow> Inl e
      | Inr key \<Rightarrow> map_sum s3_failure id (pr_PresignGetObject p (s3_bucket s) key (presign_expires expiry)))"

definition signed_header :: "(string \<times> string list) list \<Rightarrow> (string \<times> string) list" where
  "signed_header hs =
     map (\<lambda>(name, vs). (name, hd vs)) (filter (\<lambda>(name, vs). name \<noteq> ''Host'' \<and> name \<noteq> ''Content-Length'' \<and> vs \<noteq> []) hs)"

definition PresignPut :: "'b s3 \<Rightarrow> s3_presigner \<Rightarrow> string \<Rightarrow> string \<Rightarrow> int \<Rightarrow> duration
    \<Rightarrow> store_error + (string \<times> (string \<times> string) list)" where
  "PresignPut s p endpoint oid n expiry =
     (case objectKey s endpoint oid of
        Inl e \<Rightarrow> Inl e
      | Inr key \<Rightarrow>
        if n > s3MaxPutSize then Inl ErrObjectTooLarge
        else (case hex_decode oid of
          None \<Rightarrow> Inl ErrIO
        | Some digest \<Rightarrow>
          (case pr_PresignPutObject p (s3_bucket s) key n (StdEncode digest) (withSignedHeaders (presign_expires expiry)) of
             Inl e \<Rightarrow> Inl (s3_failure e)
           | Inr (url, headers) \<Rightarrow> Inr (url, signed_header headers))))"

text \<open>The adapter as the handlers call it.\<close>

definition s3_ops :: "unicode_tables \<Rightarrow> bool \<Rightarrow> 'b s3 \<Rightarrow> s3_presigner option \<Rightarrow> 'b adapter_ops" where
  "s3_ops u joined s p =
     \<lparr>op_Exists = S3_Exists s,
      op_Get = (\<lambda>b ep oid. map_sum id (\<lambda>(rd, n). (rd, n, False)) (S3_Get s b ep oid)),
      op_Put = S3_Put u joined s,
      op_Size = S3_Size s,
      op_AvailableSpace = (\<lambda>_. S3_AvailableSpace),
      op_Presign = map_option (\<lambda>p. \<lparr>ps_PresignGet = (\<lambda>_. PresignGet s p), ps_PresignPut = (\<lambda>_. PresignPut s p)\<rparr>) p\<rparr>"

section \<open>What the service promises\<close>

text \<open>
  \<open>obj b bucket key\<close> is the content of an object and \<open>part b uploadId number\<close> a part of an unfinished upload with
  its tag. A write that reports an error may have happened all the same.
\<close>

definition stored :: "('b \<Rightarrow> string \<Rightarrow> string \<Rightarrow> bytes option) \<Rightarrow> 'b \<Rightarrow> 'b \<Rightarrow> string \<Rightarrow> string \<Rightarrow> bytes \<Rightarrow> bool" where
  "stored obj b b' bucket key d \<longleftrightarrow>
     obj b' bucket key = Some d \<and> (\<forall>bk k. (bk, k) \<noteq> (bucket, key) \<longrightarrow> obj b' bk k = obj b bk k)"

definition parts_hold :: "('b \<Rightarrow> string \<Rightarrow> nat \<Rightarrow> (bytes \<times> part_tag) option) \<Rightarrow> 'b \<Rightarrow> string \<Rightarrow> (nat \<times> part_tag) list \<Rightarrow> bytes list \<Rightarrow> bool" where
  "parts_hold part b uid ps cs \<longleftrightarrow> sorted_wrt (<) (map fst ps) \<and> list_all2 (\<lambda>p c. part b uid (fst p) = Some (c, snd p)) ps cs"

definition put_object_law where
  "put_object_law api obj \<longleftrightarrow> (\<forall>b bk k d b' e. api_PutObject api b bk k d = (b', e) \<longrightarrow>
     stored obj b b' bk k d \<or> (e \<noteq> None \<and> obj b' = obj b))"

definition create_law where
  "create_law api obj \<longleftrightarrow> (\<forall>b bk k b' r. api_CreateMultipartUpload api b bk k = (b', r) \<longrightarrow> obj b' = obj b)"

definition abort_law where
  "abort_law api obj \<longleftrightarrow> (\<forall>b bk k uid b' e. api_AbortMultipartUpload api b bk k uid = (b', e) \<longrightarrow> obj b' = obj b)"

definition upload_part_law where
  "upload_part_law api obj part \<longleftrightarrow> (\<forall>b bk k uid n d b' r. api_UploadPart api b bk k uid n d = (b', r) \<longrightarrow>
     obj b' = obj b \<and> (\<forall>n'. n' \<noteq> n \<longrightarrow> part b' uid n' = part b uid n') \<and> (\<forall>t. r = Inr t \<longrightarrow> part b' uid n = Some (d, t)))"

definition complete_law where
  "complete_law api obj part \<longleftrightarrow> (\<forall>b bk k uid ps b' e cs. api_CompleteMultipartUpload api b bk k uid ps = (b', e) \<longrightarrow>
     parts_hold part b uid ps cs \<longrightarrow> stored obj b b' bk k (concat cs) \<or> (e \<noteq> None \<and> obj b' = obj b))"

definition read_laws where
  "read_laws api obj \<longleftrightarrow> (\<forall>b bk k.
     (\<forall>len. api_HeadObject api b bk k = Inr len \<longrightarrow> (\<exists>d. obj b bk k = Some d \<and> len = Some (int (length d)))) \<and>
     (\<forall>e. api_HeadObject api b bk k = Inl e \<longrightarrow> isS3NotFound e \<longrightarrow> obj b bk k = None) \<and>
     (\<forall>rd len. api_GetObject api b bk k = Inr (rd, len) \<longrightarrow>
        (\<exists>d. obj b bk k = Some d \<and> len = Some (int (length d)) \<and> (rd_err rd = None \<longrightarrow> rd_data rd = d))) \<and>
     (\<forall>e. api_GetObject api b bk k = Inl e \<longrightarrow> isS3NotFound e \<longrightarrow> obj b bk k = None))"

definition s3_laws :: "'b s3_api \<Rightarrow> ('b \<Rightarrow> string \<Rightarrow> string \<Rightarrow> bytes option) \<Rightarrow>
    ('b \<Rightarrow> string \<Rightarrow> nat \<Rightarrow> (bytes \<times> part_tag) option) \<Rightarrow> bool" where
  "s3_laws api obj part \<longleftrightarrow> put_object_law api obj \<and> create_law api obj \<and> abort_law api obj \<and>
     upload_part_law api obj part \<and> complete_law api obj part \<and> read_laws api obj"

section \<open>Part sizes\<close>

lemma part_constants [simp]: "0 < s3PartSize" "0 < s3MaxParts" "0 < s3MaxPartSize" "s3PartSize \<le> s3MaxPartSize"
  by (simp_all add: s3PartSize_def s3MaxParts_def s3MaxPartSize_def)

lemma partSizeFor_bounds: "s3PartSize \<le> partSizeFor n" "partSizeFor n \<le> s3MaxPartSize" "0 < partSizeFor n"
  by (auto simp: partSizeFor_def less_le_trans [OF part_constants(1)])

text \<open>The part size fits every size the service accepts into the allowed number of parts.\<close>

lemma partSizeFor_enough:
  assumes "n \<le> s3MaxParts * s3MaxPartSize"
  shows "n \<le> s3MaxParts * partSizeFor n"
proof -
  define q r where qr: "q = n div s3MaxParts" "r = n mod s3MaxParts"
  have r: "0 \<le> r" "r < s3MaxParts" by (simp_all add: qr)
  have "n = s3MaxParts * q + r" by (simp add: qr)
  also have "\<dots> \<le> s3MaxParts * (q + min r 1)"
    using r by (cases "r = 0") (auto simp: distrib_left min_def)
  also have "\<dots> \<le> s3MaxParts * max s3PartSize (q + min r 1)"
    by (intro mult_left_mono) (auto intro: less_imp_le)
  finally show ?thesis
    using assms by (auto simp: partSizeFor_def qr min_def)
qed

section \<open>The part loop\<close>

lemma next_part_cases:
  assumes "next_part joined ps n buf (d, e) = (c, rest, n', None)" "n \<noteq> 0" "0 < ps" "n < 0 \<or> buf = []"
  obtains (buffered) "buf \<noteq> []" "c = buf" "rest = (d, e)" "n' = n" "n < 0"
  | (known) m where "buf = []" "0 < n" "m = min ps (nat n)" "m \<le> length d" "c = take m d" "rest = (drop m d, e)" "n' = n" "c \<noteq> []"
  | (more) "buf = []" "n < 0" "ps \<le> length d" "c = take ps d" "rest = (drop ps d, e)" "n' = n" "c \<noteq> []"
  | (last) "buf = []" "n < 0" "length d \<le> ps" "c = d" "rest = ([], e)" "n' = 0" "e = None"
proof (cases "buf = []")
  case False
  then show thesis using assms by (intro buffered) (simp_all add: next_part_def)
next
  case True
  show thesis
  proof (cases "0 < n")
    case pos: True
    with True assms(1,2) have "ReadFull (min ps (nat n)) (d, e) = (c, rest, None)" "n' = n"
      by (auto simp: next_part_def split: prod.splits)
    moreover from this(1) have "min ps (nat n) \<le> length d" "c = take (min ps (nat n)) d" "rest = (drop (min ps (nat n)) d, e)"
      by (auto simp: ReadFull_def split: if_splits)
    ultimately show thesis using True pos assms(3) by (intro known [of "min ps (nat n)"]) auto
  next
    case neg: False
    with assms(2) have "n < 0" by simp
    show thesis
    proof (cases "ps < length d \<or> (ps = length d \<and> \<not> joined)")
      case True
      with \<open>buf = []\<close> \<open>n < 0\<close> assms(1) have "c = take ps d" "rest = (drop ps d, e)" "n' = n"
        by (simp_all add: next_part_def fill_def)
      with True \<open>buf = []\<close> \<open>n < 0\<close> assms(3) show thesis by (intro more) auto
    next
      case False
      with \<open>buf = []\<close> \<open>n < 0\<close> assms(1) have "e = None" "c = d" "rest = ([], e)" "n' = 0"
        by (cases e, simp_all add: next_part_def fill_def)+
      with False \<open>buf = []\<close> \<open>n < 0\<close> show thesis by (intro last) auto
    qed
  qed
qed

lemma parts_hold_snoc:
  assumes "upload_part_law api obj part" "api_UploadPart api b bk k uid number c = (b', Inr t)"
    and "parts_hold part b uid ps cs" "\<forall>p \<in> set ps. fst p < number"
  shows "parts_hold part b' uid (ps @ [(number, t)]) (cs @ [c])"
proof -
  have u: "part b' uid number = Some (c, t)" "\<And>m. m \<noteq> number \<Longrightarrow> part b' uid m = part b uid m"
    using assms(1,2) unfolding upload_part_law_def by blast+
  have "list_all2 (\<lambda>p c. part b uid (fst p) = Some (c, snd p)) ps cs" using assms(3) by (simp add: parts_hold_def)
  then have "list_all2 (\<lambda>p c. part b' uid (fst p) = Some (c, snd p)) ps cs"
    by (rule list.rel_mono_strong) (use assms(4) u(2) in force)
  with u(1) assms(3,4) show ?thesis
    by (auto simp: parts_hold_def sorted_wrt_append list_all2_appendI)
qed

text \<open>The bytes an upload of expected size \<open>n\<close> reads from a body, and when it reads them to the end.\<close>

definition expected_bytes :: "int \<Rightarrow> bytes \<Rightarrow> bytes" where
  "expected_bytes n d = (if n < 0 then d else take (nat n) d)"

definition complete_body :: "int \<Rightarrow> body_rest \<Rightarrow> bool" where
  "complete_body n body \<longleftrightarrow> (if n < 0 then snd body = None else nat n \<le> length (fst body))"

lemma expected_bytes_step:
  assumes "0 < n" "m = min ps (nat n)" "m \<le> length d"
  shows "take m d @ expected_bytes (n - int (length (take m d))) (drop m d) = expected_bytes n d"
    and "complete_body (n - int (length (take m d))) (drop m d, e) \<Longrightarrow> complete_body n (d, e)"
proof -
  have l: "length (take m d) = m" "nat (n - int m) = nat n - m" "m \<le> nat n" "\<not> n - int m < 0" using assms by (auto simp: min_def)
  then show "take m d @ expected_bytes (n - int (length (take m d))) (drop m d) = expected_bytes n d"
    using assms(1) by (simp add: expected_bytes_def take_add [symmetric])
  show "complete_body (n - int (length (take m d))) (drop m d, e) \<Longrightarrow> complete_body n (d, e)"
    using l(1,2,4) assms(1,3) l(3) by (simp add: complete_body_def)
qed

text \<open>One round of the loop.\<close>

lemma part_loop_stop: "part_loop s key uid joined ps number 0 buf body hashed parts b = (b, Inr (hashed, parts))"
  by (simp add: part_loop.simps)

lemma part_loop_round:
  assumes "n \<noteq> 0" "next_part joined ps n buf body = (c, rest, n', err)"
  shows "err = Some x \<Longrightarrow> part_loop s key uid joined ps number n buf body hashed parts b = (b, Inl x)"
    and "err = None \<Longrightarrow> c = [] \<Longrightarrow> part_loop s key uid joined ps number n buf body hashed parts b = (b, Inr (hashed, parts))"
    and "err = None \<Longrightarrow> c \<noteq> [] \<Longrightarrow> int number > s3MaxParts \<Longrightarrow>
      part_loop s key uid joined ps number n buf body hashed parts b = (b, Inl ErrObjectTooLarge)"
    and "err = None \<Longrightarrow> c \<noteq> [] \<Longrightarrow> \<not> int number > s3MaxParts \<Longrightarrow>
      api_UploadPart (s3_client s) b (s3_bucket s) key uid number c = (b1, Inl f) \<Longrightarrow>
      part_loop s key uid joined ps number n buf body hashed parts b = (b1, Inl (s3_failure f))"
    and "err = None \<Longrightarrow> c \<noteq> [] \<Longrightarrow> \<not> int number > s3MaxParts \<Longrightarrow>
      api_UploadPart (s3_client s) b (s3_bucket s) key uid number c = (b1, Inr tag) \<Longrightarrow>
      part_loop s key uid joined ps number n buf body hashed parts b =
      part_loop s key uid joined ps (number + 1) (if n' > 0 then n' - int (length c) else n') [] rest
        (if buf \<noteq> [] then hashed else hashed @ c) (parts @ [(number, tag)]) b1"
  using assms by (simp_all add: part_loop.simps [of s key uid joined ps number n])

text \<open>What a round takes from the body, in all its cases.\<close>

lemma next_part_expected:
  assumes "next_part joined ps n buf (d, e) = (c, rest, n', None)" "n \<noteq> 0" "0 < ps" "n < 0 \<or> buf = []"
    and "n1 = (if n' > 0 then n' - int (length c) else n')" "h1 = (if buf \<noteq> [] then h else h @ c)"
  shows "c = [] \<Longrightarrow> h = h @ expected_bytes n d \<and> complete_body n (d, e) \<and> buf = []"
    and "h1 @ expected_bytes n1 (fst rest) = h @ expected_bytes n d"
    and "complete_body n1 rest \<Longrightarrow> complete_body n (d, e)"
    and "h = w @ buf \<Longrightarrow> h1 = w @ c"
proof -
  have "(c = [] \<longrightarrow> h = h @ expected_bytes n d \<and> complete_body n (d, e) \<and> buf = []) \<and>
    h1 @ expected_bytes n1 (fst rest) = h @ expected_bytes n d \<and> (complete_body n1 rest \<longrightarrow> complete_body n (d, e)) \<and>
    (h = w @ buf \<longrightarrow> h1 = w @ c)"
    using assms(1-4)
  proof (cases rule: next_part_cases)
    case buffered
    with assms(5,6) show ?thesis by auto
  next
    case (known m)
    then show ?thesis using assms(5,6) expected_bytes_step [OF known(2,3,4)] by auto
  next
    case more
    with assms(5,6) show ?thesis by (auto simp: expected_bytes_def complete_body_def)
  next
    case last
    with assms(5,6) show ?thesis by (auto simp: expected_bytes_def complete_body_def)
  qed
  then show "c = [] \<Longrightarrow> h = h @ expected_bytes n d \<and> complete_body n (d, e) \<and> buf = []"
    "h1 @ expected_bytes n1 (fst rest) = h @ expected_bytes n d" "complete_body n1 rest \<Longrightarrow> complete_body n (d, e)"
    "h = w @ buf \<Longrightarrow> h1 = w @ c"
    by auto
qed

text \<open>The loop touches no object, and when it succeeds the parts it uploaded are the bytes it hashed.\<close>

lemma part_loop_spec:
  "part_loop s key uid joined ps number n buf body hashed parts b = (b', res) \<Longrightarrow>
    upload_part_law (s3_client s) obj part \<Longrightarrow> 0 < ps \<Longrightarrow> parts_hold part b uid parts cs \<Longrightarrow>
    \<forall>p \<in> set parts. fst p < number \<Longrightarrow> n < 0 \<or> buf = [] \<Longrightarrow> hashed = concat cs @ buf \<Longrightarrow>
    obj b' = obj b \<and> (\<forall>h ps'. res = Inr (h, ps') \<longrightarrow>
      (\<exists>cs'. parts_hold part b' uid ps' cs' \<and> concat cs' = h) \<and> h = hashed @ expected_bytes n (fst body) \<and> complete_body n body)"
proof (induction s key uid joined ps number n buf body hashed parts b arbitrary: b' res cs rule: part_loop.induct)
  case (1 s key uid joined ps number n buf body hashed parts b)
  note pre = "1.prems"
  obtain d e where body: "body = (d, e)" by (cases body)
  obtain c rest n' err where np: "next_part joined ps n buf body = (c, rest, n', err)" by (rule prod_cases4)
  show ?case
  proof (cases "n = 0 \<or> err \<noteq> None")
    case True
    show ?thesis
    proof (cases "n = 0")
      case True
      with pre show ?thesis by (auto simp: part_loop_stop expected_bytes_def complete_body_def)
    next
      case False
      with \<open>n = 0 \<or> err \<noteq> None\<close> obtain x where "err = Some x" by auto
      from part_loop_round(1) [OF False np this, of s key uid number hashed parts b] pre(1) show ?thesis by auto
    qed
  next
    case False
    then have n0: "n \<noteq> 0" and ok: "err = None" by auto
    note nx = next_part_expected [OF np [unfolded body ok] n0 pre(3,6) refl refl]
    note round = part_loop_round(2-) [OF n0 np ok]
    show ?thesis
    proof (cases "c = [] \<or> int number > s3MaxParts")
      case True
      with pre round(1) [of s key uid number hashed parts b] round(2) [of number s key uid hashed parts b] nx(1) [of hashed]
      show ?thesis by (cases "c = []") (auto simp: body)
    next
      case False
      then have c: "c \<noteq> []" "\<not> int number > s3MaxParts" by auto
      obtain b1 r where up: "api_UploadPart (s3_client s) b (s3_bucket s) key uid number c = (b1, r)" by (rule prod.exhaust)
      have o1: "obj b1 = obj b" using pre(2) up unfolding upload_part_law_def by blast
      show ?thesis
      proof (cases r)
        case (Inl f)
        with round(3) [OF c up [unfolded Inl]] pre(1) o1 show ?thesis by auto
      next
        case (Inr tag)
        note up = up [unfolded Inr]
        let ?n1 = "if n' > 0 then n' - int (length c) else n'"
        let ?h1 = "if buf \<noteq> [] then hashed else hashed @ c"
        note IH = "1.IH" [OF n0 np [symmetric, unfolded ok] refl refl refl refl c up [symmetric] refl]
        have "part_loop s key uid joined ps (number + 1) ?n1 [] rest ?h1 (parts @ [(number, tag)]) b1 = (b', res)"
          using round(4) [OF c up] pre(1) by simp
        moreover have "parts_hold part b1 uid (parts @ [(number, tag)]) (cs @ [c])"
          by (rule parts_hold_snoc [OF pre(2) up pre(4,5)])
        moreover have "\<forall>p \<in> set (parts @ [(number, tag)]). fst p < number + 1" using pre(5) by force
        moreover have "?h1 = concat (cs @ [c]) @ []" using nx(4) [OF pre(7)] by simp
        ultimately have R: "obj b' = obj b1 \<and> (\<forall>h ps'. res = Inr (h, ps') \<longrightarrow>
            (\<exists>cs'. parts_hold part b' uid ps' cs' \<and> concat cs' = h) \<and> h = ?h1 @ expected_bytes ?n1 (fst rest) \<and> complete_body ?n1 rest)"
          by (intro IH [OF _ pre(2,3) _ _ disjI2 [OF refl]])
        show ?thesis
          unfolding body fst_conv nx(2) [of hashed, symmetric] using R [unfolded o1] nx(3) by blast
      qed
    qed
  qed
qed

section \<open>Uploads\<close>

text \<open>The two ways an upload may leave the bucket: with the verified object at its key and nothing else changed, or
  as it was.\<close>

definition upload_outcome :: "('b \<Rightarrow> string \<Rightarrow> string \<Rightarrow> bytes option) \<Rightarrow> 'b \<Rightarrow> 'b \<Rightarrow> string \<Rightarrow> string \<Rightarrow> string \<Rightarrow> bytes \<Rightarrow> bool
    \<Rightarrow> store_error option \<Rightarrow> bool" where
  "upload_outcome obj b b' bucket key oid d fin e \<longleftrightarrow>
     (stored obj b b' bucket key d \<and> hex_encode (sha256 d) = map lower_char oid \<and> fin) \<or> (e \<noteq> None \<and> obj b' = obj b)"

lemma upload_unchanged: "obj b' = obj b \<Longrightarrow> upload_outcome obj b b' bk k oid d c (Some e)"
  by (simp add: upload_outcome_def)

lemma stored_cong: "obj b1 = obj b \<Longrightarrow> obj b3 = obj b2 \<Longrightarrow> stored obj b1 b2 bk k d \<Longrightarrow> stored obj b b3 bk k d"
  by (simp add: stored_def)

lemma verifyOID_ok: "IsValidOID oid \<Longrightarrow> verifyOID u d oid = None \<longleftrightarrow> hex_encode (sha256 d) = map lower_char oid"
  by (simp add: verifyOID_def EqualFold_digest)

lemma putObject_outcome:
  assumes "put_object_law (s3_client s) obj" "IsValidOID oid" "putObject u s key oid d d b = (b', e)" "c"
  shows "upload_outcome obj b b' (s3_bucket s) key oid d c e"
proof (cases "verifyOID u d oid")
  case None
  obtain b1 f where p: "api_PutObject (s3_client s) b (s3_bucket s) key d = (b1, f)" by (rule prod.exhaust)
  then have "stored obj b b1 (s3_bucket s) key d \<or> (f \<noteq> None \<and> obj b1 = obj b)"
    using assms(1) unfolding put_object_law_def by blast
  with assms(2-4) None p show ?thesis
    by (auto simp: putObject_def upload_outcome_def verifyOID_ok)
next
  case (Some x)
  with assms(3) show ?thesis by (auto simp: putObject_def upload_outcome_def)
qed

lemma abort_outcome:
  assumes "abort_law (s3_client s) obj" "abort_upload s key uid b1 x = (b', e)"
  shows "obj b' = obj b1 \<and> e = Some x"
proof -
  obtain b2 f where a: "api_AbortMultipartUpload (s3_client s) b1 (s3_bucket s) key uid = (b2, f)" by (rule prod.exhaust)
  then have "obj b2 = obj b1" using assms(1) unfolding abort_law_def by blast
  with a assms(2) show ?thesis by (auto simp: abort_upload_def)
qed

lemma putMultipart_outcome:
  assumes laws: "s3_laws (s3_client s) obj part" and "IsValidOID oid" "0 < ps" "n < 0 \<or> buf = []"
    and run: "putMultipart u s key oid joined ps n buf body b = (b', e)"
  shows "upload_outcome obj b b' (s3_bucket s) key oid (buf @ expected_bytes n (fst body)) (complete_body n body) e"
proof -
  note law = laws [unfolded s3_laws_def]
  obtain b1 r where c: "api_CreateMultipartUpload (s3_client s) b (s3_bucket s) key = (b1, r)" by (rule prod.exhaust)
  then have o1: "obj b1 = obj b" using law unfolding create_law_def by blast
  show ?thesis
  proof (cases r)
    case (Inl x)
    with c run o1 show ?thesis by (auto simp: putMultipart_def upload_outcome_def)
  next
    case (Inr uid)
    obtain b2 res where l: "part_loop s key uid joined ps 1 n buf body buf [] b1 = (b2, res)" by (rule prod.exhaust)
    have spec: "obj b2 = obj b1 \<and> (\<forall>h ps'. res = Inr (h, ps') \<longrightarrow>
        (\<exists>cs'. parts_hold part b2 uid ps' cs' \<and> concat cs' = h) \<and> h = buf @ expected_bytes n (fst body) \<and> complete_body n body)"
      using part_loop_spec [OF l, of obj part "[]"] law assms(3,4) by (simp add: parts_hold_def)
    show ?thesis
    proof (cases res)
      case (Inl x)
      with c \<open>r = Inr uid\<close> l run have "abort_upload s key uid b2 x = (b', e)" by (simp add: putMultipart_def)
      from abort_outcome [OF _ this] law spec o1 show ?thesis by (auto simp: upload_outcome_def)
    next
      case (Inr hp)
      obtain h ps' where hp: "hp = (h, ps')" by (cases hp)
      from spec Inr hp obtain cs where cs: "parts_hold part b2 uid ps' cs" "concat cs = h"
        and h: "h = buf @ expected_bytes n (fst body)" and fin: "complete_body n body" by blast
      note run = run [unfolded putMultipart_def c prod.case \<open>r = Inr uid\<close> sum.case l \<open>res = Inr hp\<close> hp]
      show ?thesis
      proof (cases "verifyOID u h oid")
        case (Some x)
        with run have "abort_upload s key uid b2 x = (b', e)" by simp
        from abort_outcome [OF _ this] law spec o1 show ?thesis by (auto simp: upload_outcome_def)
      next
        case None
        obtain b3 f where m: "api_CompleteMultipartUpload (s3_client s) b2 (s3_bucket s) key uid ps' = (b3, f)" by (rule prod.exhaust)
        with cs(1) law have s3: "stored obj b2 b3 (s3_bucket s) key (concat cs) \<or> (f \<noteq> None \<and> obj b3 = obj b2)"
          unfolding complete_law_def by blast
        have o2: "obj b2 = obj b" using spec o1 by simp
        have b': "obj b' = obj b3 \<and> (f \<noteq> None \<longrightarrow> e \<noteq> None)"
          using run None m law abort_outcome [of s obj key uid b3 _ b' e] by (cases f) auto
        have "hex_encode (sha256 h) = map lower_char oid" using None verifyOID_ok [OF assms(2)] by blast
        with s3 b' o2 fin show ?thesis
          using stored_cong [of obj b2 b b' b3] by (auto simp: upload_outcome_def cs(2) h [symmetric])
      qed
    qed
  qed
qed

lemma S3_Put_outcome:
  assumes laws: "s3_laws (s3_client s) obj part" and key: "objectKey s ep oid = Inr key"
    and run: "S3_Put u joined s b ep oid r n = (b', e)"
  shows "upload_outcome obj b b' (s3_bucket s) key oid (expected_bytes n (rd_data r)) (complete_body n (rd_data r, rd_err r)) e"
proof -
  have oid: "IsValidOID oid" using key by (auto simp: objectKey_def normaliseOID_def split: if_splits)
  have put: "put_object_law (s3_client s) obj" using laws by (simp add: s3_laws_def)
  let ?body = "(rd_data r, rd_err r)"
  note run = run [unfolded S3_Put_def key sum.case Let_def]
  consider "n > s3MaxParts * s3MaxPartSize" | "n < 0" "\<not> n > s3MaxParts * s3MaxPartSize"
    | "\<not> n < 0" "\<not> n > s3MaxParts * s3MaxPartSize" "n > partSizeFor n"
    | "\<not> n < 0" "\<not> n > s3MaxParts * s3MaxPartSize" "\<not> n > partSizeFor n"
    by linarith
  then show ?thesis
  proof cases
    case 1
    with run show ?thesis by (auto simp: upload_outcome_def)
  next
    case 2
    let ?k = "nat (max (s3_streamPartSize s) s3PartSize)"
    have k: "0 < ?k" by (simp add: less_max_iff_disj)
    obtain c rest f where fl: "fill joined ?k ?body = (c, rest, f)" by (rule prod_cases3)
    have run: "putUnknownSize u s key oid joined ?body b = (b', e)" using run 2 by simp
    show ?thesis
    proof (cases f)
      case FillFull
      with fl have "rd_data r = c @ fst rest" "snd rest = rd_err r" using fill_ok by fastforce+
      moreover have "putMultipart u s key oid joined ?k (- 1) c rest b = (b', e)"
        using run fl FillFull by (simp add: putUnknownSize_def Let_def)
      from putMultipart_outcome [OF laws oid k _ this]
      have "upload_outcome obj b b' (s3_bucket s) key oid (c @ expected_bytes (- 1) (fst rest)) (complete_body (- 1) rest) e" by simp
      ultimately show ?thesis using 2(1) by (simp add: expected_bytes_def complete_body_def)
    next
      case FillEOF
      with fl have c: "c = rd_data r" "rd_err r = None" by (auto simp: fill_def split: if_splits option.splits)
      have "putObject u s key oid c c b = (b', e)" using run fl FillEOF by (simp add: putUnknownSize_def Let_def)
      from putObject_outcome [OF put oid this TrueI] show ?thesis
        using 2(1) c by (simp add: expected_bytes_def complete_body_def)
    next
      case (FillErr x)
      with run fl show ?thesis by (auto simp: putUnknownSize_def upload_outcome_def Let_def)
    qed
  next
    case 3
    have "putMultipart u s key oid joined (nat (partSizeFor n)) n [] ?body b = (b', e)" using run 3 by simp
    from putMultipart_outcome [OF laws oid _ _ this] show ?thesis by (simp add: partSizeFor_bounds)
  next
    case 4
    obtain c rest f where rf: "ReadFull (nat n) ?body = (c, rest, f)" by (rule prod_cases3)
    note run = run [unfolded rf prod.case] and n4 = 4
    show ?thesis
    proof (cases f)
      case None
      with rf have c: "c = take (nat n) (rd_data r)" "nat n \<le> length (rd_data r)" by (auto simp: ReadFull_def split: if_splits)
      have "putObject u s key oid c c b = (b', e)" using run None n4 by simp
      from putObject_outcome [OF put oid this TrueI] show ?thesis
        using n4(1) c by (simp add: expected_bytes_def complete_body_def)
    next
      case (Some x)
      with run n4 show ?thesis by (auto simp: upload_outcome_def)
    qed
  qed
qed

section \<open>Numbers of parts\<close>

lemma s3_failure_not_large [simp]: "s3_failure e \<noteq> ErrObjectTooLarge"
  by (simp add: s3_failure_def)

lemma next_part_not_large: "next_part joined ps n buf body = (c, rest, n', Some x) \<Longrightarrow> x \<noteq> ErrObjectTooLarge"
  by (auto simp: next_part_def ReadFull_def split: if_splits prod.splits fill_result.splits option.splits)

lemma fits_next:
  fixes k m p r r' :: int
  assumes "0 < r \<and> (r' + p \<le> r \<or> r' = 0) \<and> 0 < p" "(k - 1) * p + r \<le> m * p"
  shows "k \<le> m \<and> k * p + r' \<le> m * p"
proof -
  have "(k - 1) * p < m * p" using assms by linarith
  then have k: "k \<le> m" using assms(1) by (simp add: mult_less_cancel_right)
  then have "k * p \<le> m * p" using assms(1) by (simp add: mult_right_mono)
  with assms k show ?thesis by (auto simp: left_diff_distrib)
qed

lemma next_part_fits:
  assumes "next_part joined ps n buf (d, e) = (c, rest, n', None)" "n \<noteq> 0" "0 < ps" "n < 0 \<or> buf = []"
    and "buf = [] \<or> length buf = ps" "c \<noteq> []" "n1 = (if n' > 0 then n' - int (length c) else n')"
  shows "0 < int (length buf + length (expected_bytes n d)) \<and>
    (int (length (expected_bytes n1 (fst rest))) + int ps \<le> int (length buf + length (expected_bytes n d)) \<or>
     int (length (expected_bytes n1 (fst rest))) = 0) \<and> 0 < int ps"
  using assms(1-4)
proof (cases rule: next_part_cases)
  case buffered
  with assms show ?thesis by (auto simp: expected_bytes_def)
next
  case (known m)
  with assms(3,6,7) show ?thesis by (auto simp: expected_bytes_def min_def)
next
  case more
  with assms(3,6,7) show ?thesis by (auto simp: expected_bytes_def)
next
  case last
  with assms(3,6,7) show ?thesis by (auto simp: expected_bytes_def)
qed

text \<open>While what is left fits into the parts that are left, the loop does not run out of them.\<close>

lemma part_loop_fits:
  "0 < ps \<Longrightarrow> n < 0 \<or> buf = [] \<Longrightarrow> buf = [] \<or> length buf = ps \<Longrightarrow> 1 \<le> number \<Longrightarrow>
    (int number - 1) * int ps + int (length buf + length (expected_bytes n (fst body))) \<le> s3MaxParts * int ps \<Longrightarrow>
    snd (part_loop s key uid joined ps number n buf body hashed parts b) \<noteq> Inl ErrObjectTooLarge"
proof (induction s key uid joined ps number n buf body hashed parts b rule: part_loop.induct)
  case (1 s key uid joined ps number n buf body hashed parts b)
  note pre = "1.prems"
  obtain d e where body: "body = (d, e)" by (cases body)
  obtain c rest n' err where np: "next_part joined ps n buf body = (c, rest, n', err)" by (rule prod_cases4)
  show ?case
  proof (cases "n = 0 \<or> err \<noteq> None \<or> c = []")
    case True
    then consider "n = 0" | x where "n \<noteq> 0" "err = Some x" | "n \<noteq> 0" "err = None" "c = []" by auto
    then show ?thesis
    proof cases
      case 1
      then show ?thesis by (simp add: part_loop_stop)
    next
      case (2 x)
      with next_part_not_large np have "x \<noteq> ErrObjectTooLarge" by blast
      with part_loop_round(1) [OF 2(1) np 2(2), of s key uid number hashed parts b] show ?thesis by simp
    next
      case 3
      from part_loop_round(2) [OF 3(1) np 3(2,3), of s key uid number hashed parts b] show ?thesis by simp
    qed
  next
    case False
    then have n0: "n \<noteq> 0" and ok: "err = None" and c: "c \<noteq> []" by auto
    let ?n1 = "if n' > 0 then n' - int (length c) else n'"
    have step: "int number \<le> s3MaxParts \<and> int number * int ps + int (length (expected_bytes ?n1 (fst rest))) \<le> s3MaxParts * int ps"
      using next_part_fits [OF np [unfolded body ok] n0 pre(1,2,3) c refl] pre(5) unfolding body fst_conv
      by (rule fits_next)
    obtain b1 r where up: "api_UploadPart (s3_client s) b (s3_bucket s) key uid number c = (b1, r)" by (rule prod.exhaust)
    show ?thesis
    proof (cases r)
      case (Inl f)
      with part_loop_round(4) [OF n0 np ok c _ up [unfolded Inl]] step show ?thesis by simp
    next
      case (Inr tag)
      note up = up [unfolded Inr]
      have m: "\<not> s3MaxParts < int number" using step by simp
      from "1.IH" [OF n0 np [symmetric, unfolded ok] refl refl refl refl c m up [symmetric] refl pre(1)] step pre(4)
      show ?thesis using part_loop_round(5) [OF n0 np ok c m up] by simp
    qed
  qed
qed

lemma S3_Put_fits:
  assumes "n \<le> s3MaxParts * s3MaxPartSize"
    and "n < 0 \<Longrightarrow> int (length (rd_data r)) \<le> limit \<and> limit \<le> s3MaxParts * s3MaxPartSize \<and> s3_streamPartSize s = partSizeFor limit"
  shows "snd (S3_Put u joined s b ep oid r n) \<noteq> Some ErrObjectTooLarge"
proof (cases "objectKey s ep oid")
  case (Inl e)
  then show ?thesis by (auto simp: S3_Put_def objectKey_def normaliseOID_def split: if_splits)
next
  case (Inr key)
  have po: "snd (putObject u s key oid c c b) \<noteq> Some ErrObjectTooLarge" for c
    by (auto simp: putObject_def verifyOID_def split: option.splits if_splits prod.splits)
  have mp: "snd (putMultipart u s key oid joined ps m buf body b) \<noteq> Some ErrObjectTooLarge"
    if "0 < ps" "m < 0 \<or> buf = []" "buf = [] \<or> length buf = ps"
      "int (length buf + length (expected_bytes m (fst body))) \<le> s3MaxParts * int ps" for ps m buf body
  proof -
    have "snd (part_loop s key uid joined ps 1 m buf body buf [] b1) \<noteq> Inl ErrObjectTooLarge" for uid b1
      by (rule part_loop_fits) (use that in auto)
    then show ?thesis
      by (auto simp: putMultipart_def abort_upload_def verifyOID_def split: prod.splits sum.splits option.splits if_splits)
        (metis snd_conv)+
  qed
  show ?thesis
  proof (cases "n < 0")
    case True
    let ?k = "nat (max (s3_streamPartSize s) s3PartSize)"
    obtain c rest f where fl: "fill joined ?k (rd_data r, rd_err r) = (c, rest, f)" by (rule prod_cases3)
    have "int ?k = partSizeFor limit" using assms(2) True partSizeFor_bounds [of limit] by (simp add: max_absorb1)
    moreover have "int (length (rd_data r)) \<le> s3MaxParts * partSizeFor limit"
      using partSizeFor_enough [of limit] assms(2) [OF True] by linarith
    ultimately have k: "int (length (rd_data r)) \<le> s3MaxParts * int ?k" by (simp only:)
    show ?thesis
    proof (cases f)
      case FillFull
      with fl have "rd_data r = c @ fst rest" "length c = ?k" by (auto simp: fill_def split: if_splits option.splits)
      then have "snd (putMultipart u s key oid joined ?k (- 1) c rest b) \<noteq> Some ErrObjectTooLarge"
        using k by (intro mp) (auto simp: expected_bytes_def less_max_iff_disj)
      then show ?thesis using True Inr assms(1) fl FillFull by (simp add: S3_Put_def putUnknownSize_def Let_def)
    qed (use True Inr assms(1) fl po in \<open>auto simp: S3_Put_def putUnknownSize_def Let_def\<close>)
  next
    case False
    have "snd (putMultipart u s key oid joined (nat (partSizeFor n)) n [] body b) \<noteq> Some ErrObjectTooLarge" for body
      using partSizeFor_enough [OF assms(1)] partSizeFor_bounds [of n] False
      by (intro mp) (auto simp: expected_bytes_def min_def)
    then show ?thesis
      using False Inr assms(1) po by (auto simp: S3_Put_def Let_def ReadFull_def split: option.splits)
  qed
qed

section \<open>Keys and digests\<close>

lemma hex_digit_value: "hex_value c = Some a \<Longrightarrow> hex_digit a = lower_char c \<and> a < 16"
proof -
  assume h: "hex_value c = Some a"
  have "byte_of (hex_digit a) = (byte_of (lower_char c) :: nat) \<and> a < 16"
    using h by (auto simp: hex_value_def hex_digit_def lower_char_def Let_def split: if_splits)
  then show ?thesis by simp
qed

lemma hex_encode_decode: "hex_decode s = Some bs \<Longrightarrow> hex_encode bs = map lower_char s"
proof (induction s arbitrary: bs rule: hex_decode.induct)
  case (3 c d cs)
  then obtain a b r where v: "hex_value c = Some a" "hex_value d = Some b" "hex_decode cs = Some r" "bs = char_of (a * 16 + b) # r"
    by (auto split: option.splits)
  with hex_digit_value [OF v(1)] hex_digit_value [OF v(2)] "3.IH" [OF refl v(1,2,3)] show ?case by simp
qed auto

lemma objectKey_inj:
  assumes "objectKey s ep oid = Inr k" "objectKey s ep' oid' = Inr k"
  shows "Endpoint ep = Endpoint ep' \<and> map lower_char oid = map lower_char oid'"
proof -
  have v: "IsValidOID oid" "IsValidOID oid'" using assms by (auto simp: objectKey_def normaliseOID_def split: if_splits)
  then have l: "length oid = length oid'" by (simp add: IsValidOID_def)
  have ns: "CHR ''/'' \<notin> set (Endpoint p)" for p using Endpoint_plain [of p] by (simp add: plain_elem_def)
  have "Endpoint ep @ CHR ''/'' # take 2 (map lower_char oid) @ ''/'' @ take 2 (drop 2 (map lower_char oid)) @ ''/'' @ map lower_char oid =
      Endpoint ep' @ CHR ''/'' # take 2 (map lower_char oid') @ ''/'' @ take 2 (drop 2 (map lower_char oid')) @ ''/'' @ map lower_char oid'"
    using assms v by (auto simp: objectKey_def normaliseOID_def)
  with l show ?thesis by (simp add: append_char_inject ns append_eq_append_conv)
qed

section \<open>The bucket's objects\<close>

text \<open>Every object at the key of an id has the content the id names.\<close>

definition bucket_sound :: "'b s3 \<Rightarrow> ('b \<Rightarrow> string \<Rightarrow> string \<Rightarrow> bytes option) \<Rightarrow> 'b \<Rightarrow> bool" where
  "bucket_sound s obj b \<longleftrightarrow> (\<forall>ep oid key d. objectKey s ep oid = Inr key \<longrightarrow> obj b (s3_bucket s) key = Some d \<longrightarrow>
     hex_encode (sha256 d) = map lower_char oid)"

lemma bucket_sound_stored:
  assumes "bucket_sound s obj b" "stored obj b b' (s3_bucket s) key d" "objectKey s ep oid = Inr key"
    and "hex_encode (sha256 d) = map lower_char oid"
  shows "bucket_sound s obj b'"
  unfolding bucket_sound_def
proof (intro allI impI)
  fix ep' oid' key' d'
  assume k: "objectKey s ep' oid' = Inr key'" and o: "obj b' (s3_bucket s) key' = Some d'"
  show "hex_encode (sha256 d') = map lower_char oid'"
  proof (cases "key' = key")
    case True
    with o assms(2,4) objectKey_inj [OF assms(3), of ep' oid'] k show ?thesis by (auto simp: stored_def)
  next
    case False
    with o assms(2) have "obj b (s3_bucket s) key' = Some d'" by (simp add: stored_def)
    with assms(1) k show ?thesis by (auto simp: bucket_sound_def)
  qed
qed

lemma bucket_sound_cong: "obj b' = obj b \<Longrightarrow> bucket_sound s obj b' = bucket_sound s obj b"
  by (simp add: bucket_sound_def)

text \<open>Both facts about an upload, for every client of the adapter.\<close>

lemma S3_Put_sound:
  assumes "s3_laws (s3_client s) obj part" "objectKey s ep oid = Inr key"
    and "S3_Put u joined s b ep oid r n = (b', e)"
  shows "((stored obj b b' (s3_bucket s) key (expected_bytes n (rd_data r)) \<and>
       hex_encode (sha256 (expected_bytes n (rd_data r))) = map lower_char oid \<and> complete_body n (rd_data r, rd_err r)) \<or>
      (e \<noteq> None \<and> obj b' = obj b)) \<and>
    (bucket_sound s obj b \<longrightarrow> bucket_sound s obj b')"
proof -
  from S3_Put_outcome [OF assms] have o: "(stored obj b b' (s3_bucket s) key (expected_bytes n (rd_data r)) \<and>
       hex_encode (sha256 (expected_bytes n (rd_data r))) = map lower_char oid \<and> complete_body n (rd_data r, rd_err r)) \<or>
      (e \<noteq> None \<and> obj b' = obj b)"
    by (simp add: upload_outcome_def)
  with bucket_sound_stored [of s obj b b' key "expected_bytes n (rd_data r)" ep oid] bucket_sound_cong [of obj b' b s] assms(2)
  show ?thesis by blast
qed

lemma objectKey_valid:
  assumes "IsValidOID oid"
  obtains key where "objectKey s ep oid = Inr key"
  using assms by (simp add: objectKey_def normaliseOID_def)

lemma S3_Exists_law:
  assumes "s3_laws (s3_client s) obj part" "objectKey s ep oid = Inr key" "S3_Exists s b ep oid = Inr x"
  shows "x = (obj b (s3_bucket s) key \<noteq> None)"
proof -
  have rl: "read_laws (s3_client s) obj" using assms(1) by (simp add: s3_laws_def)
  show ?thesis
  proof (cases "api_HeadObject (s3_client s) b (s3_bucket s) key")
    case (Inl f)
    with rl assms(2,3) show ?thesis unfolding read_laws_def by (auto simp: S3_Exists_def split: if_splits)
  next
    case (Inr len)
    with rl assms(2,3) show ?thesis unfolding read_laws_def by (fastforce simp: S3_Exists_def)
  qed
qed

section \<open>Properties\<close>

text \<open>An upload to S3, in one request or in parts, of known size or streamed, and whatever request to the service fails
  or reports a failure it did not have, leaves the bucket in one of two states: unchanged with an error, or with
  exactly the bytes of the body (all of it, or the announced number) at the key of the id, those bytes hashing to the
  id, and every other object as it was. So every object in the bucket keeps matching its id.\<close>

theorem s3_put_verified:
  assumes "s3_laws (s3_client s) obj part" "objectKey s ep oid = Inr key"
    and "S3_Put u joined s b ep oid r n = (b', e)"
  shows "((stored obj b b' (s3_bucket s) key (expected_bytes n (rd_data r)) \<and>
       hex_encode (sha256 (expected_bytes n (rd_data r))) = map lower_char oid \<and> complete_body n (rd_data r, rd_err r)) \<or>
      (e \<noteq> None \<and> obj b' = obj b)) \<and>
    (bucket_sound s obj b \<longrightarrow> bucket_sound s obj b')"
  using assms by (rule S3_Put_sound)

text \<open>C25: After a successful upload to S3, the object exists, has the size of the uploaded bytes, and downloading it to the
  end yields exactly those bytes, as long as the requests to the service do not fail.\<close>

theorem s3_put_then_get:
  assumes "s3_laws (s3_client s) obj part" "objectKey s ep oid = Inr key"
    and "S3_Put u joined s b ep oid r n = (b', None)"
  shows "S3_Exists s b' ep oid \<noteq> Inr False \<and> S3_Size s b' ep oid \<noteq> Inl ErrNotExist \<and>
    (S3_Size s b' ep oid = Inr m \<longrightarrow> m = int (length (expected_bytes n (rd_data r)))) \<and>
    (S3_Get s b' ep oid = Inr (rd, m') \<longrightarrow> m' = int (length (expected_bytes n (rd_data r))) \<and>
      (rd_err rd = None \<longrightarrow> rd_data rd = expected_bytes n (rd_data r)))"
proof -
  let ?d = "expected_bytes n (rd_data r)"
  have o: "obj b' (s3_bucket s) key = Some ?d"
    using S3_Put_outcome [OF assms] by (simp add: upload_outcome_def stored_def)
  have rl: "read_laws (s3_client s) obj" using assms(1) by (simp add: s3_laws_def)
  have head: "api_HeadObject (s3_client s) b' (s3_bucket s) key = Inr len \<Longrightarrow> len = Some (int (length ?d))"
    "api_HeadObject (s3_client s) b' (s3_bucket s) key = Inl f \<Longrightarrow> \<not> isS3NotFound f"
    "api_GetObject (s3_client s) b' (s3_bucket s) key = Inr (rd', len) \<Longrightarrow>
       len = Some (int (length ?d)) \<and> (rd_err rd' = None \<longrightarrow> rd_data rd' = ?d)" for len f rd'
    using rl o unfolding read_laws_def by fastforce+
  show ?thesis
    using assms(2) head
    by (auto simp: S3_Exists_def S3_Size_def S3_Get_def s3_failure_def split: sum.splits if_splits option.splits)
qed

text \<open>C35: An upload within the size the service accepts is never refused for having too many parts: for an announced size
  the part size grows with it, and a streamed body no longer than the configured maximum fits the part size derived
  from that maximum.\<close>

theorem s3_parts_suffice:
  assumes "n \<le> s3MaxParts * s3MaxPartSize"
    and "n < 0 \<Longrightarrow> int (length (rd_data r)) \<le> limit \<and> limit \<le> s3MaxParts * s3MaxPartSize \<and> s3_streamPartSize s = partSizeFor limit"
  shows "snd (S3_Put u joined s b ep oid r n) \<noteq> Some ErrObjectTooLarge \<and>
    s3PartSize \<le> partSizeFor n \<and> partSizeFor n \<le> s3MaxPartSize \<and> n \<le> s3MaxParts * partSizeFor n"
  using S3_Put_fits [OF assms] partSizeFor_bounds partSizeFor_enough [OF assms(1)] by blast

text \<open>C31: A presigned upload URL is only handed out for a valid id and at most 5 GiB, and is signed for the key of that id
  in this endpoint, for exactly the announced length and for the base64 form of the digest the id spells; the headers
  the client is told to send never include Host or Content-Length.\<close>

theorem s3_presign_binds:
  assumes "PresignPut s p ep oid n expiry = Inr (url, header)"
  shows "n \<le> s3MaxPutSize \<and> (\<exists>key digest signed. objectKey s ep oid = Inr key \<and> hex_encode digest = map lower_char oid \<and>
    pr_PresignPutObject p (s3_bucket s) key n (StdEncode digest) (withSignedHeaders (presign_expires expiry)) = Inr (url, signed)) \<and>
    map_of header ''Host'' = None \<and> map_of header ''Content-Length'' = None"
proof -
  obtain key digest signed where k: "objectKey s ep oid = Inr key" "n \<le> s3MaxPutSize" "hex_decode oid = Some digest"
    "pr_PresignPutObject p (s3_bucket s) key n (StdEncode digest) (withSignedHeaders (presign_expires expiry)) = Inr (url, signed)" "header = signed_header signed"
    using assms by (auto simp: PresignPut_def split: sum.splits if_splits option.splits)
  have "map_of (signed_header signed) x = None" if "x = ''Host'' \<or> x = ''Content-Length''" for x
    using that by (auto simp: signed_header_def map_of_eq_None_iff)
  then have "map_of header ''Host'' = None" "map_of header ''Content-Length'' = None" by (simp_all add: k(5))
  moreover have "\<exists>key digest signed. objectKey s ep oid = Inr key \<and> hex_encode digest = map lower_char oid \<and>
      pr_PresignPutObject p (s3_bucket s) key n (StdEncode digest) (withSignedHeaders (presign_expires expiry)) = Inr (url, signed)"
    by (intro exI [of _ key] exI [of _ digest] exI [of _ signed] conjI k(1,4) hex_encode_decode [OF k(3)])
  ultimately show ?thesis using k(2) by (intro conjI)
qed

text \<open>C10: With S3 behind a handler, whatever requests to the service fail, an upload keeps every object in the bucket
  matching its id and touches neither locks nor authentication, and when it is answered with 200 the bucket holds an
  object at the key of the URL's id that hashes to the id.\<close>

theorem s3_upload_stores:
  assumes "s3_laws (s3_client s) obj part" "h_store h 0 = s3_ops u joined s p" "bucket_sound s obj (w_store w)"
    and "UploadHandler lib h env r w = (w', x)"
  shows "bucket_sound s obj (w_store w') \<and> w_auth w' = w_auth w \<and> w_locks w' = w_locks w \<and>
    (rsp_Status x = 200 \<longrightarrow> (\<exists>key d. objectKey s (ep_Path (h_endpoint h)) (rq_PathValue r ''oid'') = Inr key \<and>
      obj (w_store w') (s3_bucket s) key = Some d \<and> hex_encode (sha256 d) = map lower_char (rq_PathValue r ''oid'')))"
  using assms(4)
proof (cases rule: UploadHandler_cases)
  case refused
  with assms(3) show ?thesis by simp
next
  case present
  from present(1) obtain key where k: "objectKey s (ep_Path (h_endpoint h)) (rq_PathValue r ''oid'') = Inr key"
    by (rule objectKey_valid)
  have "S3_Exists s (w_store w) (ep_Path (h_endpoint h)) (rq_PathValue r ''oid'') = Inr True"
    using present(3) assms(2) by (simp add: s3_ops_def)
  from S3_Exists_law [OF assms(1) k this] obtain d where d: "obj (w_store w) (s3_bucket s) key = Some d" by auto
  with assms(3) k have "hex_encode (sha256 d) = map lower_char (rq_PathValue r ''oid'')" unfolding bucket_sound_def by blast
  with d k present(4) assms(3) show ?thesis by auto
next
  case (stored b e)
  from stored(1) obtain key where k: "objectKey s (ep_Path (h_endpoint h)) (rq_PathValue r ''oid'') = Inr key"
    by (rule objectKey_valid)
  have "S3_Put u joined s (w_store w) (ep_Path (h_endpoint h)) (rq_PathValue r ''oid'') (upload_reader h env r) (rq_ContentLength r) = (b, e)"
    using stored(5) assms(2) by (simp add: s3_ops_def)
  note o = S3_Put_sound [OF assms(1) k this]
  with assms(3) stored(6,7) k show ?thesis by (cases e) (auto simp: S3_Storage.stored_def)
qed

section \<open>A bucket in memory\<close>

text \<open>A service that keeps the laws, for concrete runs.\<close>

record memory_bucket =
  mb_objects :: "string \<times> string \<Rightarrow> bytes option"
  mb_parts :: "string \<Rightarrow> nat \<Rightarrow> (bytes \<times> part_tag) option"

definition memory_missing :: s3_error where
  "memory_missing = \<lparr>se_NotFound = True, se_NoSuchKey = False, se_status = Some 404, se_context = False\<rparr>"

definition memory_tag :: part_tag where "memory_tag = \<lparr>pt_ETag = ''etag'', pt_ChecksumCRC32 = ''crc''\<rparr>"

definition memory_api :: "memory_bucket s3_api" where
  "memory_api =
     \<lparr>api_HeadBucket = (\<lambda>_ _. None),
      api_HeadObject = (\<lambda>b bk k. case mb_objects b (bk, k) of None \<Rightarrow> Inl memory_missing | Some d \<Rightarrow> Inr (Some (int (length d)))),
      api_GetObject = (\<lambda>b bk k. case mb_objects b (bk, k) of None \<Rightarrow> Inl memory_missing
         | Some d \<Rightarrow> Inr (\<lparr>rd_chunks = [d], rd_err = None\<rparr>, Some (int (length d)))),
      api_PutObject = (\<lambda>b bk k d. (b\<lparr>mb_objects := (mb_objects b)((bk, k) \<mapsto> d)\<rparr>, None)),
      api_CreateMultipartUpload = (\<lambda>b bk k. (b\<lparr>mb_parts := (mb_parts b)(k := \<lambda>_. None)\<rparr>, Inr k)),
      api_UploadPart = (\<lambda>b bk k uid n d.
         (b\<lparr>mb_parts := (mb_parts b)(uid := (mb_parts b uid)(n \<mapsto> (d, memory_tag)))\<rparr>, Inr memory_tag)),
      api_CompleteMultipartUpload = (\<lambda>b bk k uid ps.
         (b\<lparr>mb_objects := (mb_objects b)((bk, k) \<mapsto> concat (map (\<lambda>p. fst (the (mb_parts b uid (fst p)))) ps))\<rparr>, None)),
      api_AbortMultipartUpload = (\<lambda>b bk k uid. (b\<lparr>mb_parts := (mb_parts b)(uid := \<lambda>_. None)\<rparr>, None))\<rparr>"

definition memory_object :: "memory_bucket \<Rightarrow> string \<Rightarrow> string \<Rightarrow> bytes option" where
  "memory_object b bk k = mb_objects b (bk, k)"

lemma memory_concat:
  "list_all2 (\<lambda>p c. mb_parts b uid (fst p) = Some (c, snd p)) ps cs \<Longrightarrow>
    concat (map (\<lambda>p. fst (the (mb_parts b uid (fst p)))) ps) = concat cs"
  by (induction rule: list_all2_induct) auto

lemma memory_laws: "s3_laws memory_api memory_object mb_parts"
proof -
  have "complete_law memory_api memory_object mb_parts"
    unfolding complete_law_def
  proof (intro allI impI)
    fix b bk k uid ps b' e cs
    assume "api_CompleteMultipartUpload memory_api b bk k uid ps = (b', e)" and "parts_hold mb_parts b uid ps cs"
    then show "stored memory_object b b' bk k (concat cs) \<or> (e \<noteq> None \<and> memory_object b' = memory_object b)"
      by (auto simp: memory_api_def parts_hold_def stored_def memory_object_def dest!: memory_concat)
  qed
  moreover have "read_laws memory_api memory_object"
    by (auto simp: read_laws_def memory_api_def memory_object_def rd_data_def isS3NotFound_def split: option.splits)
  moreover have "put_object_law memory_api memory_object"
    by (auto simp: put_object_law_def memory_api_def stored_def memory_object_def)
  moreover have "create_law memory_api memory_object" "abort_law memory_api memory_object"
    by (auto simp: create_law_def abort_law_def memory_api_def memory_object_def fun_eq_iff)
  moreover have "upload_part_law memory_api memory_object mb_parts"
    by (auto simp: upload_part_law_def memory_api_def memory_object_def fun_eq_iff)
  ultimately show ?thesis by (simp add: s3_laws_def)
qed

definition memory_s3 :: "memory_bucket s3" where
  "memory_s3 = \<lparr>s3_client = memory_api, s3_bucket = ''bucket'', s3_prefix = ''lfs/'', s3_streamPartSize = partSizeFor 100\<rparr>"

definition empty_bucket :: memory_bucket where
  "empty_bucket = \<lparr>mb_objects = (\<lambda>_. None), mb_parts = (\<lambda>_ _. None)\<rparr>"

definition hello_oid :: string where "hello_oid = hex_encode (sha256 ''hello'')"

definition hello_reader :: reader where "hello_reader = \<lparr>rd_chunks = [''he'', ''llo''], rd_err = None\<rparr>"

definition hello_key :: string where
  "hello_key = ''lfs/'' @ Endpoint ''/org/repo'' @ ''/'' @ take 2 hello_oid @ ''/'' @ take 2 (drop 2 hello_oid) @ ''/'' @ hello_oid"

lemma hello_facts:
  "IsValidOID hello_oid" "map lower_char hello_oid = hello_oid" "rd_data hello_reader = ''hello''" "rd_err hello_reader = None"
  by (simp_all add: hello_oid_def hello_reader_def rd_data_def)

lemma hello_objectKey: "objectKey memory_s3 ''/org/repo'' hello_oid = Inr hello_key"
  by (simp add: objectKey_def normaliseOID_def hello_facts hello_key_def memory_s3_def)

definition hello_put :: "memory_bucket \<times> store_error option" where
  "hello_put = S3_Put ascii_tables False memory_s3 empty_bucket ''/org/repo'' hello_oid hello_reader 5"

lemma hello_put_ok: "hello_put = (fst hello_put, None)"
proof -
  have v: "verifyOID ascii_tables ''hello'' hello_oid = None"
    by (subst verifyOID_ok) (simp_all add: hello_facts, simp add: hello_oid_def)
  have "S3_Put ascii_tables False memory_s3 empty_bucket ''/org/repo'' hello_oid hello_reader 5 =
      putObject ascii_tables memory_s3 hello_key hello_oid ''hello'' ''hello'' empty_bucket"
    by (simp add: S3_Put_def hello_objectKey hello_facts partSizeFor_def s3MaxParts_def s3MaxPartSize_def s3PartSize_def ReadFull_def)
  then show ?thesis
    by (simp add: hello_put_def putObject_def v memory_s3_def memory_api_def)
qed

lemma memory_s3_laws: "s3_laws (s3_client memory_s3) memory_object mb_parts"
  using memory_laws by (simp add: memory_s3_def)

theorem s3_put_verified_witness:
  "memory_object (fst hello_put) ''bucket'' hello_key = Some ''hello'' \<and> bucket_sound memory_s3 memory_object (fst hello_put)"
proof -
  have "bucket_sound memory_s3 memory_object empty_bucket"
    by (simp add: bucket_sound_def memory_object_def empty_bucket_def)
  with s3_put_verified [OF memory_s3_laws hello_objectKey, of ascii_tables False empty_bucket hello_reader 5 "fst hello_put" None]
    hello_put_ok
  show ?thesis
    by (auto simp: hello_put_def stored_def hello_facts expected_bytes_def) (simp_all add: memory_s3_def)
qed

definition memory_handler :: "(memory_bucket, unit, unit) handler" where
  "memory_handler = NewHandler (demo_endpoint ''/org/repo'') (\<lambda>_. s3_ops ascii_tables False memory_s3 None) (\<lambda>s. None_step s ())
     ''https://host'' 100 demo_signer no_locks minute"

theorem s3_upload_stores_witness:
  "bucket_sound memory_s3 memory_object (w_store (fst (UploadHandler demo_lib memory_handler demo_http_env
     (demo_request ''PUT'' opUpload) \<lparr>w_store = empty_bucket, w_auth = (), w_locks = ()\<rparr>)))"
proof -
  have "bucket_sound memory_s3 memory_object (w_store \<lparr>w_store = empty_bucket, w_auth = (), w_locks = ()\<rparr>)"
    by (simp add: bucket_sound_def memory_object_def empty_bucket_def)
  moreover have "h_store memory_handler 0 = s3_ops ascii_tables False memory_s3 None"
    by (simp add: memory_handler_def NewHandler_def)
  ultimately show ?thesis
    using s3_upload_stores [OF memory_s3_laws _ _ surjective_pairing] by blast
qed

theorem s3_put_then_get_witness:
  "S3_Size memory_s3 (fst hello_put) ''/org/repo'' hello_oid \<noteq> Inl ErrNotExist"
  using s3_put_then_get [OF memory_s3_laws hello_objectKey, of ascii_tables False empty_bucket hello_reader 5 "fst hello_put"]
    hello_put_ok by (auto simp: hello_put_def)

theorem s3_parts_suffice_witness: "20000000000 \<le> s3MaxParts * partSizeFor 20000000000"
  using s3_parts_suffice [of 20000000000 hello_reader 0 memory_s3] by (simp add: s3MaxParts_def s3MaxPartSize_def)

definition echo_presigner :: s3_presigner where
  "echo_presigner = \<lparr>pr_PresignGetObject = (\<lambda>bk k d. Inr (''https://'' @ bk @ k)),
     pr_PresignPutObject = (\<lambda>bk k n sum d. Inr (''https://'' @ bk @ k, [(''Host'', [''s3'']), (''X-Amz-Checksum-Sha256'', [sum])]))\<rparr>"

theorem s3_presign_binds_witness:
  "\<exists>url header. PresignPut memory_s3 echo_presigner ''/org/repo'' hello_oid 5 second = Inr (url, header) \<and> map_of header ''Host'' = None"
proof -
  obtain digest where "hex_decode hello_oid = Some digest" by (simp add: hello_oid_def)
  then obtain url header where p: "PresignPut memory_s3 echo_presigner ''/org/repo'' hello_oid 5 second = Inr (url, header)"
    by (simp add: PresignPut_def hello_objectKey s3MaxPutSize_def echo_presigner_def)
  from s3_presign_binds [OF p] p show ?thesis by blast
qed

end
