(* ===== verification/Lock_Store.thy ===== *)
theory Lock_Store
  imports Lock_Json Local_Storage
begin

text \<open>
  \<^verbatim>\<open>FileLockStore\<close> of \<^verbatim>\<open>src/lfs/locks.go\<close> with the advisory file locks of \<^verbatim>\<open>src/lfs/filelock_unix.go\<close>: the
  locks of each endpoint in one JSON file, written atomically, and cached in memory while the file's
  metadata says it has not changed.

  The files are shared by every server process on the directory; the cache belongs to one process. A
  call holds the endpoint's mutex, and an exclusive file lock while it writes; here it is one function of
  the store, and \<^verbatim>\<open>Lock_Threads\<close> cuts it into the steps that other calls may come between. What the operating system answers is the argument
  \<^verbatim>\<open>lock_env\<close>. The lock set a call works on is the very object the cache holds: \<^verbatim>\<open>add\<close> and \<^verbatim>\<open>remove\<close> change
  the cached set before the file is written, which \<^verbatim>\<open>mutate_set\<close> keeps explicit.
\<close>

section \<open>Files\<close>

record file_info =
  fi_ino :: nat
  fi_mtime :: instant
  fi_size :: nat

record lock_file =
  lf_data :: bytes
  lf_ino :: nat
  lf_mtime :: instant

type_synonym lock_fs = "string \<rightharpoonup> lock_file"

text \<open>\<^verbatim>\<open>os.Stat\<close>, and the comparison of \<^verbatim>\<open>loadLocks\<close>: same file, modification time and size.\<close>

definition file_stat :: "lock_file \<Rightarrow> file_info" where
  "file_stat f = \<lparr>fi_ino = lf_ino f, fi_mtime = lf_mtime f, fi_size = length (lf_data f)\<rparr>"

definition same_info :: "file_info \<Rightarrow> file_info \<Rightarrow> bool" where
  "same_info a b \<longleftrightarrow> fi_ino a = fi_ino b \<and> fi_mtime a = fi_mtime b \<and> fi_size a = fi_size b"

datatype lock_op =
    LockCreate string nat instant
  | LockWrite string bytes instant
  | LockRename string string
  | LockRemove string

fun apply_lock_op :: "lock_fs \<Rightarrow> lock_op \<Rightarrow> lock_fs" where
  "apply_lock_op fs (LockCreate p ino now) = fs(p \<mapsto> \<lparr>lf_data = [], lf_ino = ino, lf_mtime = now\<rparr>)"
| "apply_lock_op fs (LockWrite p bs now) =
     (case fs p of None \<Rightarrow> fs | Some f \<Rightarrow> fs(p \<mapsto> f\<lparr>lf_data := lf_data f @ bs, lf_mtime := now\<rparr>))"
| "apply_lock_op fs (LockRename p q) = (case fs p of None \<Rightarrow> fs | Some f \<Rightarrow> (fs(p := None))(q \<mapsto> f))"
| "apply_lock_op fs (LockRemove p) = fs(p := None)"

section \<open>The store\<close>

record cached_locks =
  c_set :: lock_set
  c_data :: bytes
  c_info :: file_info

type_synonym lock_cache = "string \<rightharpoonup> cached_locks"

record lock_store =
  st_base :: string
  st_cache :: lock_cache
  st_fs :: lock_fs

definition NewFileLockStore :: "string \<Rightarrow> lock_fs \<Rightarrow> lock_store" where
  "NewFileLockStore base fs = \<lparr>st_base = base, st_cache = Map.empty, st_fs = fs\<rparr>"

text \<open>How the system calls of one operation turn out. \<^verbatim>\<open>ReadGone\<close> is the file disappearing between the
  \<^verbatim>\<open>Stat\<close> and the read.\<close>

datatype flock_outcome = FlockHeld | FlockOpenFails | FlockFails
datatype read_outcome = ReadOk | ReadGone | ReadFails

record lock_env =
  le_ctx :: bool
  le_flock :: flock_outcome
  le_stat :: bool
  le_read :: read_outcome
  le_mkdir :: bool
  le_names :: "nat list"
  le_write :: "nat option"
  le_sync :: bool
  le_close :: bool
  le_rename :: bool
  le_remove :: bool
  le_restat :: bool
  le_ino :: nat
  le_now :: instant
  le_uuid :: string

definition lockFilePath :: "string \<Rightarrow> string \<Rightarrow> string" where
  "lockFilePath base endpoint = Join [base, ''locks'', Endpoint endpoint, ''locks.json'']"

definition cached :: "lock_store \<Rightarrow> string \<Rightarrow> cached_locks option" where
  "cached s endpoint = st_cache s (Endpoint endpoint)"

definition store_cache :: "lock_store \<Rightarrow> string \<Rightarrow> cached_locks option \<Rightarrow> lock_store" where
  "store_cache s endpoint c = s\<lparr>st_cache := (st_cache s)(Endpoint endpoint := c)\<rparr>"

text \<open>\<^verbatim>\<open>acquireFileLock\<close>: opening the \<^verbatim>\<open>.lock\<close> file creates it; \<open>False\<close> is a failure. Releasing it has no
  lasting effect.\<close>

definition acquireFileLock :: "lock_store \<Rightarrow> lock_env \<Rightarrow> string \<Rightarrow> lock_store \<times> bool" where
  "acquireFileLock s env endpoint =
     (let path = lockFilePath (st_base s) endpoint @ ''.lock'' in
      if le_flock env = FlockOpenFails then (s, False)
      else let s1 = (case st_fs s path of
                 Some _ \<Rightarrow> s
               | None \<Rightarrow> s\<lparr>st_fs := apply_lock_op (st_fs s) (LockCreate path (le_ino env) (le_now env))\<rparr>)
           in (s1, le_flock env = FlockHeld))"

text \<open>\<^verbatim>\<open>flock\<close> retries while the call is interrupted: of the answers the system gives, the first that is
  not an interruption counts.\<close>

datatype flock_answer = Interrupted | Answer bool

fun flock :: "flock_answer list \<Rightarrow> bool option" where
  "flock [] = None"
| "flock (Interrupted # as) = flock as"
| "flock (Answer ok # as) = Some ok"

definition readLocks :: "lock_store \<Rightarrow> lock_env \<Rightarrow> string \<Rightarrow> lock_store \<times> (lock_error + lock_set)" where
  "readLocks s env endpoint =
     (let path = lockFilePath (st_base s) endpoint in
      if le_stat env then (s, Inl ErrLockIO)
      else case st_fs s path of
        None \<Rightarrow> (store_cache s endpoint None, Inr (newLockSet []))
      | Some f \<Rightarrow>
        (case le_read env of
           ReadGone \<Rightarrow> (store_cache (s\<lparr>st_fs := (st_fs s)(path := None)\<rparr>) endpoint None, Inr (newLockSet []))
         | ReadFails \<Rightarrow> (s, Inl ErrLockIO)
         | ReadOk \<Rightarrow>
           (let fresh = (case unmarshal_locks (lf_data f) of
                None \<Rightarrow> (s, Inl ErrLockIO)
              | Some locks \<Rightarrow>
                (let lset = newLockSet locks
                 in (store_cache s endpoint (Some \<lparr>c_set = lset, c_data = lf_data f, c_info = file_stat f\<rparr>), Inr lset)))
            in case cached s endpoint of
                 None \<Rightarrow> fresh
               | Some c \<Rightarrow>
                 if c_data c = lf_data f
                 then (store_cache s endpoint (Some \<lparr>c_set = c_set c, c_data = lf_data f, c_info = file_stat f\<rparr>), Inr (c_set c))
                 else fresh)))"

text \<open>The argument \<open>fast_fails\<close> says whether the \<^verbatim>\<open>os.Stat\<close> that checks the cache fails.\<close>

definition loadLocks :: "lock_store \<Rightarrow> lock_env \<Rightarrow> bool \<Rightarrow> string \<Rightarrow> lock_store \<times> (lock_error + lock_set)" where
  "loadLocks s env fast_fails endpoint =
     (let slow = (case acquireFileLock s env endpoint of
          (s1, ok) \<Rightarrow> if ok then readLocks s1 env endpoint else (s1, Inl ErrLockIO))
      in case cached s endpoint of
           None \<Rightarrow> slow
         | Some c \<Rightarrow>
           (case st_fs s (lockFilePath (st_base s) endpoint) of
              Some f \<Rightarrow> if \<not> fast_fails \<and> same_info (c_info c) (file_stat f) then (s, Inr (c_set c)) else slow
            | None \<Rightarrow> slow))"

definition lock_temp :: "string \<Rightarrow> nat \<Rightarrow> string" where
  "lock_temp path n = Dir path @ ''/'' @ TempFilePrefix @ ''locks-'' @ format_nat n"

text \<open>\<^verbatim>\<open>writeLockFile\<close> as the sequence of its effects; the deferred removal of the temporary file comes
  last on every path.\<close>

definition write_plan :: "lock_fs \<Rightarrow> lock_env \<Rightarrow> string \<Rightarrow> bytes \<Rightarrow> lock_op list \<times> bool" where
  "write_plan fs env path data =
     (if le_mkdir env then ([], False)
      else case find (\<lambda>p. fs p = None) (map (lock_temp path) (le_names env)) of
        None \<Rightarrow> ([], False)
      | Some tmp \<Rightarrow>
        (let create = LockCreate tmp (le_ino env) (le_now env);
             cleanup = (if le_remove env then [] else [LockRemove tmp])
         in case le_write env of
              Some n \<Rightarrow> (create # LockWrite tmp (take n data) (le_now env) # cleanup, False)
            | None \<Rightarrow>
              (let written = [create, LockWrite tmp data (le_now env)]
               in if le_sync env \<or> le_close env \<or> le_rename env then (written @ cleanup, False)
                  else (written @ LockRename tmp path # cleanup, True))))"

definition writeLockFile :: "lock_fs \<Rightarrow> lock_env \<Rightarrow> string \<Rightarrow> bytes \<Rightarrow> lock_fs \<times> bool" where
  "writeLockFile fs env path data =
     (case write_plan fs env path data of (ops, ok) \<Rightarrow> (foldl apply_lock_op fs ops, ok))"

definition saveLocks :: "lock_store \<Rightarrow> lock_env \<Rightarrow> string \<Rightarrow> lock_set \<Rightarrow> lock_store \<times> lock_error option" where
  "saveLocks s env endpoint lset =
     (let path = lockFilePath (st_base s) endpoint in
      case marshal_locks (ls_sorted lset) of
        None \<Rightarrow> (store_cache s endpoint None, Some ErrLockIO)
      | Some data \<Rightarrow>
        (case writeLockFile (st_fs s) env path data of
           (fs, ok) \<Rightarrow>
             (let s1 = s\<lparr>st_fs := fs\<rparr> in
              if \<not> ok then (store_cache s1 endpoint None, Some ErrLockIO)
              else case (le_restat env, fs path) of
                (False, Some f) \<Rightarrow>
                  (store_cache s1 endpoint (Some \<lparr>c_set = lset, c_data = data, c_info = file_stat f\<rparr>), None)
              | _ \<Rightarrow> (store_cache s1 endpoint None, None))))"

text \<open>The effect of changing a lock set in place on the cache entry that shares it.\<close>

definition mutate_set :: "lock_store \<Rightarrow> string \<Rightarrow> lock_set \<Rightarrow> lock_store" where
  "mutate_set s endpoint lset =
     (case cached s endpoint of
        None \<Rightarrow> s
      | Some c \<Rightarrow> store_cache s endpoint (Some (c\<lparr>c_set := lset\<rparr>)))"

definition Create :: "lock_store \<Rightarrow> lock_env \<Rightarrow> string \<Rightarrow> string \<Rightarrow> string \<Rightarrow> lock_store \<times> lock \<times> lock_error option" where
  "Create s env endpoint path ownerName =
     (if le_ctx env then (s, zero_lock, Some ErrLockContext)
      else case acquireFileLock s env endpoint of
        (s1, False) \<Rightarrow> (s1, zero_lock, Some ErrLockIO)
      | (s1, True) \<Rightarrow>
        (case readLocks s1 env endpoint of
           (s2, Inl e) \<Rightarrow> (s2, zero_lock, Some e)
         | (s2, Inr lset) \<Rightarrow>
           (case ls_byPath lset path of
              Some existing \<Rightarrow> (s2, existing, Some ErrLockExists)
            | None \<Rightarrow>
              (let lock = \<lparr>lk_ID = le_uuid env, lk_Path = path, lk_LockedAt = RFC3339 (le_now env),
                           lk_Owner = \<lparr>owner_Name = ownerName\<rparr>\<rparr>;
                   lset' = add lset lock
               in case saveLocks (mutate_set s2 endpoint lset') env endpoint lset' of
                    (s3, Some e) \<Rightarrow> (s3, zero_lock, Some e)
                  | (s3, None) \<Rightarrow> (s3, lock, None)))))"

definition List_locks :: "lock_store \<Rightarrow> lock_env \<Rightarrow> bool \<Rightarrow> string \<Rightarrow> list_options
    \<Rightarrow> lock_store \<times> (lock_error + (lock list \<times> string))" where
  "List_locks s env fast_fails endpoint opts =
     (if le_ctx env then (s, Inl ErrLockContext)
      else case loadLocks s env fast_fails endpoint of
        (s1, Inl e) \<Rightarrow> (s1, Inl e)
      | (s1, Inr lset) \<Rightarrow> (s1, list_locks lset opts))"

definition Unlock :: "unicode_tables \<Rightarrow> lock_store \<Rightarrow> lock_env \<Rightarrow> string \<Rightarrow> string \<Rightarrow> string \<Rightarrow> bool
    \<Rightarrow> lock_store \<times> lock \<times> lock_error option" where
  "Unlock u s env endpoint id' requester force =
     (if le_ctx env then (s, zero_lock, Some ErrLockContext)
      else case acquireFileLock s env endpoint of
        (s1, False) \<Rightarrow> (s1, zero_lock, Some ErrLockIO)
      | (s1, True) \<Rightarrow>
        (case readLocks s1 env endpoint of
           (s2, Inl e) \<Rightarrow> (s2, zero_lock, Some e)
         | (s2, Inr lset) \<Rightarrow>
           (case ls_byID lset id' of
              None \<Rightarrow> (s2, zero_lock, Some ErrLockNotFound)
            | Some lock \<Rightarrow>
              if \<not> force \<and> \<not> EqualFold u (owner_Name (lk_Owner lock)) requester
              then (s2, zero_lock, Some ErrLockNotOwner)
              else (let lset' = remove lset lock
                    in case saveLocks (mutate_set s2 endpoint lset') env endpoint lset' of
                         (s3, Some e) \<Rightarrow> (s3, zero_lock, Some e)
                       | (s3, None) \<Rightarrow> (s3, lock, None)))))"

section \<open>Paths\<close>

definition key_path :: "string \<Rightarrow> string \<Rightarrow> string" where
  "key_path base key = Join [base, ''locks'', key, ''locks.json'']"

lemma lockFilePath_key: "lockFilePath base endpoint = key_path base (Endpoint endpoint)"
  by (simp add: lockFilePath_def key_path_def)

lemma key_elems_plain: "safeEndpointPattern key \<Longrightarrow> list_all plain_elem [''locks'', key, ''locks.json'']"
  by (simp add: safe_pattern_plain) (simp add: plain_elem_def)

lemma key_path_inj:
  assumes "base \<noteq> []" "safeEndpointPattern k" "safeEndpointPattern k'" "key_path base k = key_path base k'"
  shows "k = k'"
  using Join_plain_inj [OF assms(1) _ _ key_elems_plain [OF assms(2)] key_elems_plain [OF assms(3)]] assms(4)
  by (simp add: key_path_def)

lemma last_join_slash: "es \<noteq> [] \<Longrightarrow> last es \<noteq> [] \<Longrightarrow> join_slash es \<noteq> [] \<and> last (join_slash es) = last (last es)"
  by (induction es rule: join_slash.induct) auto

lemma last_render_path: "es \<noteq> [] \<Longrightarrow> last es \<noteq> [] \<Longrightarrow> last (render_path r es) = last (last es)"
  using last_join_slash [of es] by (simp add: render_path_def)

lemma last_key_path: "base \<noteq> [] \<Longrightarrow> safeEndpointPattern key \<Longrightarrow> last (key_path base key) = CHR ''n''"
  using Join_plain [OF _ _ key_elems_plain, of base key] by (simp add: key_path_def last_render_path)

text \<open>A lock file is neither a \<^verbatim>\<open>.lock\<close> file nor a temporary file, whose names end in a digit.\<close>

lemma last_format_nat: "is_digit (last (format_nat n))"
  using format_nat_digits [of n] by (metis last_in_set list_all_iff)

lemma not_digit_n: "\<not> is_digit CHR ''n''" by (simp add: is_digit_def)

lemma key_path_not_lock: "base \<noteq> [] \<Longrightarrow> safeEndpointPattern key \<Longrightarrow> key_path base key \<noteq> p @ ''.lock''"
  using last_key_path by force

lemma key_path_not_temp: "base \<noteq> [] \<Longrightarrow> safeEndpointPattern key \<Longrightarrow> key_path base key \<noteq> p @ format_nat n"
  using last_key_path [of base key] last_format_nat [of n] not_digit_n format_nat_digits(2) [of n]
  by (metis last_appendR)

section \<open>The invariant\<close>

text \<open>A lock file's contents decode to locks with distinct ids and distinct paths. A cache entry holds the
  set its data decodes to, and if the file still has the metadata of the entry, the file still has its
  data.\<close>

definition file_ok :: "bytes \<Rightarrow> bool" where
  "file_ok data = (case unmarshal_locks data of None \<Rightarrow> False
     | Some ls \<Rightarrow> distinct (map lk_ID ls) \<and> distinct (map lk_Path ls))"

definition decoded :: "bytes \<Rightarrow> lock_set" where
  "decoded data = newLockSet (case unmarshal_locks data of None \<Rightarrow> [] | Some ls \<Rightarrow> ls)"

definition entry_ok :: "lock_fs \<Rightarrow> string \<Rightarrow> cached_locks \<Rightarrow> bool" where
  "entry_ok fs path c \<longleftrightarrow> file_ok (c_data c) \<and> c_set c = decoded (c_data c) \<and>
     (case fs path of None \<Rightarrow> True | Some f \<Rightarrow> same_info (c_info c) (file_stat f) \<longrightarrow> lf_data f = c_data c)"

definition files_ok :: "string \<Rightarrow> lock_fs \<Rightarrow> bool" where
  "files_ok base fs \<longleftrightarrow> base \<noteq> [] \<and>
     (\<forall>key f. safeEndpointPattern key \<longrightarrow> fs (key_path base key) = Some f \<longrightarrow> file_ok (lf_data f))"

definition cache_ok :: "string \<Rightarrow> lock_fs \<Rightarrow> lock_cache \<Rightarrow> bool" where
  "cache_ok base fs cache \<longleftrightarrow>
     (\<forall>key c. cache key = Some c \<longrightarrow> safeEndpointPattern key \<and> entry_ok fs (key_path base key) c)"

definition store_ok :: "lock_store \<Rightarrow> bool" where
  "store_ok s \<longleftrightarrow> files_ok (st_base s) (st_fs s) \<and> cache_ok (st_base s) (st_fs s) (st_cache s)"

text \<open>The locks of an endpoint as the files hold them, which is what the store promises to be.\<close>

definition disk_locks :: "string \<Rightarrow> lock_fs \<Rightarrow> string \<Rightarrow> lock_set" where
  "disk_locks base fs endpoint =
     (case fs (lockFilePath base endpoint) of None \<Rightarrow> newLockSet [] | Some f \<Rightarrow> decoded (lf_data f))"

lemma decoded_wf: "file_ok data \<Longrightarrow> lockset_wf (decoded data)"
  by (auto simp: file_ok_def decoded_def lockset_wf_newLockSet split: option.splits)

lemma newLockSet_Nil_wf [simp]: "lockset_wf (newLockSet [])" "locks_of (newLockSet []) = {}"
  using lockset_wf_newLockSet [of "[]"] by simp_all

lemma files_okD: "files_ok base fs \<Longrightarrow> fs (lockFilePath base endpoint) = Some f \<Longrightarrow> file_ok (lf_data f)"
  unfolding files_ok_def lockFilePath_key using Endpoint_safe by blast

lemma disk_locks_wf: "files_ok base fs \<Longrightarrow> lockset_wf (disk_locks base fs endpoint)"
  by (auto simp: disk_locks_def split: option.splits intro!: decoded_wf dest: files_okD)

lemma marshalled_ok:
  assumes "lockset_wf t" "marshal_locks (ls_sorted t) = Some data"
  shows "file_ok data" "decoded data = t"
  using unmarshal_marshal [OF assms(2)] assms(1) newLockSet_sorted [OF assms(1)]
  by (auto simp: file_ok_def decoded_def lockset_wf_def)

lemma entry_ok_cong: "fs path = fs' path \<Longrightarrow> entry_ok fs path c = entry_ok fs' path c"
  by (simp add: entry_ok_def)

lemma files_ok_cong:
  "(\<And>key. safeEndpointPattern key \<Longrightarrow> fs' (key_path base key) = fs (key_path base key)) \<Longrightarrow>
     files_ok base fs' = files_ok base fs \<and> cache_ok base fs' cache = cache_ok base fs cache"
  using entry_ok_cong [of fs' "key_path base key" fs for key]
  unfolding files_ok_def cache_ok_def by metis

section \<open>Reading\<close>

lemma store_cache_simps [simp]:
  "st_base (store_cache s e c) = st_base s" "st_fs (store_cache s e c) = st_fs s"
  "st_cache (store_cache s e c) = (st_cache s)(Endpoint e := c)"
  by (simp_all add: store_cache_def)

text \<open>Taking the file lock touches only the \<^verbatim>\<open>.lock\<close> file.\<close>

lemma acquireFileLock_facts:
  assumes "acquireFileLock s env e = (s', ok)"
  shows "st_base s' = st_base s" "st_cache s' = st_cache s" "ok = (le_flock env = FlockHeld)"
    and "p \<noteq> lockFilePath (st_base s) e @ ''.lock'' \<Longrightarrow> st_fs s' p = st_fs s p"
  using assms by (auto simp: acquireFileLock_def Let_def split: if_splits option.splits)

lemma acquireFileLock_ok:
  assumes "acquireFileLock s env e = (s', ok)" "store_ok s"
  shows "store_ok s'" "disk_locks (st_base s') (st_fs s') e' = disk_locks (st_base s) (st_fs s) e'"
proof -
  note a = acquireFileLock_facts [OF assms(1)]
  have same: "st_fs s' (key_path (st_base s) key) = st_fs s (key_path (st_base s) key)"
    if "safeEndpointPattern key" for key
    using that assms(2) by (intro a(4)) (simp add: key_path_not_lock store_ok_def files_ok_def)
  then show "store_ok s'"
    using assms(2) files_ok_cong [of "st_fs s'" "st_base s" "st_fs s"] by (simp add: store_ok_def a)
  show "disk_locks (st_base s') (st_fs s') e' = disk_locks (st_base s) (st_fs s) e'"
    using same by (simp add: disk_locks_def lockFilePath_key a)
qed

text \<open>What was read is what the file holds, whether it came from the cache or not, and the returned set is
  the one the cache entry shares.\<close>

lemma readLocks_ok:
  assumes "readLocks s env e = (s', r)" "store_ok s" "le_read env \<noteq> ReadGone"
  shows "store_ok s'" "st_base s' = st_base s" "st_fs s' = st_fs s"
    and "r = Inr t \<Longrightarrow> t = disk_locks (st_base s) (st_fs s) e"
    and "r = Inr t \<Longrightarrow> cached s' e = Some c \<Longrightarrow> c_set c = t"
    and "\<And>k. k \<noteq> Endpoint e \<Longrightarrow> st_cache s' k = st_cache s k"
proof -
  let ?p = "lockFilePath (st_base s) e"
  have keep: "store_ok (store_cache s e c)" if "case c of None \<Rightarrow> True | Some c \<Rightarrow> entry_ok (st_fs s) ?p c" for c
    using assms(2) that by (auto simp: store_ok_def cache_ok_def lockFilePath_key split: option.splits)
  consider (stat) "le_stat env" | (none) "\<not> le_stat env" "st_fs s ?p = None"
    | (fails) f where "\<not> le_stat env" "st_fs s ?p = Some f" "le_read env = ReadFails"
    | (read) f where "\<not> le_stat env" "st_fs s ?p = Some f" "le_read env = ReadOk"
    using assms(3) by (cases "st_fs s ?p"; cases "le_read env") auto
  then have *: "store_ok s' \<and> st_base s' = st_base s \<and> st_fs s' = st_fs s \<and>
      (\<forall>t. r = Inr t \<longrightarrow> t = disk_locks (st_base s) (st_fs s) e \<and> (\<forall>c. cached s' e = Some c \<longrightarrow> c_set c = t)) \<and>
      (\<forall>k. k \<noteq> Endpoint e \<longrightarrow> st_cache s' k = st_cache s k)"
  proof cases
    case (read f)
    have fo: "file_ok (lf_data f)" using assms(2) read(2) by (auto simp: store_ok_def intro: files_okD)
    then obtain ls where ls: "unmarshal_locks (lf_data f) = Some ls" by (auto simp: file_ok_def split: option.splits)
    have d: "disk_locks (st_base s) (st_fs s) e = decoded (lf_data f)" using read by (simp add: disk_locks_def)
    let ?c = "\<lparr>c_set = decoded (lf_data f), c_data = lf_data f, c_info = file_stat f\<rparr>"
    have "c_set c = decoded (c_data c)" if "cached s e = Some c" for c
      using assms(2) that by (auto simp: store_ok_def cache_ok_def cached_def entry_ok_def)
    then have "s' = store_cache s e (Some ?c) \<and> r = Inr (decoded (lf_data f))"
      using assms(1) read ls by (auto simp: readLocks_def Let_def decoded_def split: option.splits if_splits)
    moreover have "entry_ok (st_fs s) ?p ?c" using read(2) fo by (simp add: entry_ok_def)
    ultimately show ?thesis using keep [of "Some ?c"] d by (auto simp: cached_def)
  qed (use assms(1,2) keep [of None] in \<open>auto simp: readLocks_def disk_locks_def cached_def\<close>)
  then show "store_ok s'" "st_base s' = st_base s" "st_fs s' = st_fs s"
    "r = Inr t \<Longrightarrow> t = disk_locks (st_base s) (st_fs s) e" "r = Inr t \<Longrightarrow> cached s' e = Some c \<Longrightarrow> c_set c = t"
    "\<And>k. k \<noteq> Endpoint e \<Longrightarrow> st_cache s' k = st_cache s k" by blast+
qed

section \<open>Writing\<close>

fun op_only :: "string \<Rightarrow> lock_op \<Rightarrow> bool" where
  "op_only tmp (LockCreate p _ _) \<longleftrightarrow> p = tmp"
| "op_only tmp (LockWrite p _ _) \<longleftrightarrow> p = tmp"
| "op_only tmp (LockRename p q) \<longleftrightarrow> p = tmp \<and> q = tmp"
| "op_only tmp (LockRemove p) \<longleftrightarrow> p = tmp"

lemma foldl_op_only: "list_all (op_only tmp) ops \<Longrightarrow> q \<noteq> tmp \<Longrightarrow> foldl apply_lock_op fs ops q = fs q"
proof (induction ops arbitrary: fs)
  case (Cons op ops)
  then have "apply_lock_op fs op q = fs q" by (cases op) (auto split: option.splits)
  with Cons show ?case by simp
qed simp

lemma list_all_take: "list_all P xs \<Longrightarrow> list_all P (take k xs)"
  by (auto simp: list_all_iff dest: in_set_takeD)

text \<open>The plan writes a temporary file and, if all went well, renames it into place; what is left of it is
  removed.\<close>

definition written_file :: "lock_env \<Rightarrow> bytes \<Rightarrow> lock_file" where
  "written_file env data = \<lparr>lf_data = data, lf_ino = le_ino env, lf_mtime = le_now env\<rparr>"

lemma write_plan_shape:
  assumes "write_plan fs env path data = (ops, ok)"
  obtains (fails) pre n where "\<not> ok" "list_all (op_only (pre @ format_nat n)) ops"
    | (renames) pre n cl where "ok" "list_all (op_only (pre @ format_nat n)) cl"
      "ops = [LockCreate (pre @ format_nat n) (le_ino env) (le_now env),
         LockWrite (pre @ format_nat n) data (le_now env), LockRename (pre @ format_nat n) path] @ cl"
proof (cases "ops = []")
  case True
  with assms have "\<not> ok" by (auto simp: write_plan_def Let_def split: if_splits option.splits)
  with True fails [of "[]" 0] show thesis by simp
next
  case False
  with assms obtain tmp where t: "find (\<lambda>p. fs p = None)
      (map (lock_temp path) (le_names env)) = Some tmp" "\<not> le_mkdir env"
    by (auto simp: write_plan_def split: if_splits option.splits)
  then obtain n where n: "tmp = (Dir path @ ''/'' @ TempFilePrefix @ ''locks-'') @ format_nat n"
    by (auto simp: find_Some_iff lock_temp_def)
  show thesis
  proof (cases ok)
    case True
    with assms t fails n renames [of "Dir path @ ''/'' @ TempFilePrefix @ ''locks-''" n "if le_remove env then [] else [LockRemove tmp]"]
    show ?thesis by (auto simp: write_plan_def Let_def split: if_splits option.splits)
  next
    case False
    with assms t have "list_all (op_only tmp) ops"
      by (auto simp: write_plan_def Let_def split: if_splits option.splits)
    with False n fails show ?thesis by blast
  qed
qed

text \<open>However far \<^verbatim>\<open>writeLockFile\<close> gets, the lock file has its old contents or the whole of the new ones, and
  no other file but a temporary one has changed.\<close>

lemma write_plan_prefix:
  assumes "write_plan fs env path data = (ops, ok)" "\<And>p n. path \<noteq> p @ format_nat n"
  shows "foldl apply_lock_op fs (take k ops) path = fs path \<or>
      (ok \<and> foldl apply_lock_op fs (take k ops) path = Some (written_file env data))"
    and "(\<And>p n. q \<noteq> p @ format_nat n) \<Longrightarrow> q \<noteq> path \<Longrightarrow> foldl apply_lock_op fs (take k ops) q = fs q"
    and "foldl apply_lock_op fs ops path = (if ok then Some (written_file env data) else fs path)"
proof -
  let ?r = "\<lambda>ops. (foldl apply_lock_op fs ops path = fs path \<or>
      (ok \<and> foldl apply_lock_op fs ops path = Some (written_file env data))) \<and>
      (\<forall>q. (\<forall>p n. q \<noteq> p @ format_nat n) \<longrightarrow> q \<noteq> path \<longrightarrow> foldl apply_lock_op fs ops q = fs q)"
  from assms(1) have "?r (take k ops) \<and> foldl apply_lock_op fs ops path = (if ok then Some (written_file env data) else fs path)"
  proof (cases rule: write_plan_shape)
    case (fails pre n)
    then show ?thesis
      using assms(2) foldl_op_only [OF list_all_take [OF fails(2)]] foldl_op_only [OF fails(2)] by simp
  next
    case (renames pre n cl)
    let ?tmp = "pre @ format_nat n"
    let ?cw = "[LockCreate ?tmp (le_ino env) (le_now env), LockWrite ?tmp data (le_now env)]"
    have ne: "path \<noteq> ?tmp" by (rule assms(2))
    have three: "foldl apply_lock_op fs (?cw @ [LockRename ?tmp path]) = (fs(?tmp := None))(path \<mapsto> written_file env data)"
      using ne by (simp add: written_file_def)
    have all: "foldl apply_lock_op fs (?cw @ [LockRename ?tmp path] @ cl') q =
        (if q = path then Some (written_file env data) else fs q)"
      if "list_all (op_only ?tmp) cl'" "q \<noteq> ?tmp" for cl' q
      using three foldl_op_only [OF that] that(2) by simp
    show ?thesis
    proof (cases "k \<le> 2")
      case True
      then have "take k ops = take k ?cw" by (simp add: renames(3) take_Cons' numeral_2_eq_2 split: nat.split)
      then have "list_all (op_only ?tmp) (take k ops)" by (simp add: list_all_take)
      with foldl_op_only [OF this] all [OF renames(2)] ne renames show ?thesis by auto
    next
      case False
      define j where "j = k - 3"
      with False have "k = Suc (Suc (Suc j))" by linarith
      then have "take k ops = ?cw @ [LockRename ?tmp path] @ take j cl" by (simp add: renames(3))
      with all [OF list_all_take [OF renames(2)]] all [OF renames(2)] ne renames show ?thesis by auto
    qed
  qed
  then show "foldl apply_lock_op fs (take k ops) path = fs path \<or>
      (ok \<and> foldl apply_lock_op fs (take k ops) path = Some (written_file env data))"
    "(\<And>p n. q \<noteq> p @ format_nat n) \<Longrightarrow> q \<noteq> path \<Longrightarrow> foldl apply_lock_op fs (take k ops) q = fs q"
    "foldl apply_lock_op fs ops path = (if ok then Some (written_file env data) else fs path)" by blast+
qed

lemma lockFilePath_not_temp: "base \<noteq> [] \<Longrightarrow> lockFilePath base e \<noteq> p @ format_nat n"
  by (simp add: lockFilePath_key key_path_not_temp)

lemma writeLockFile_facts:
  assumes "writeLockFile fs env (lockFilePath base e) data = (fs', ok)" "base \<noteq> []"
  shows "fs' (lockFilePath base e) = (if ok then Some (written_file env data) else fs (lockFilePath base e))"
    and "safeEndpointPattern key \<Longrightarrow> key \<noteq> Endpoint e \<Longrightarrow> fs' (key_path base key) = fs (key_path base key)"
proof -
  obtain ops where ops: "write_plan fs env (lockFilePath base e) data = (ops, ok)" "fs' = foldl apply_lock_op fs ops"
    using assms(1) by (auto simp: writeLockFile_def split: prod.splits)
  note pp = write_plan_prefix [OF ops(1) lockFilePath_not_temp [OF assms(2)]]
  show "fs' (lockFilePath base e) = (if ok then Some (written_file env data) else fs (lockFilePath base e))"
    using pp(3) ops(2) by simp
  assume k: "safeEndpointPattern key" "key \<noteq> Endpoint e"
  then have "key_path base key \<noteq> lockFilePath base e"
    using key_path_inj [OF assms(2) k(1)] by (auto simp: lockFilePath_key)
  with pp(2) [of "key_path base key" "length ops"] k assms(2) ops(2)
  show "fs' (key_path base key) = fs (key_path base key)" by (simp add: key_path_not_temp)
qed

text \<open>The effect of an operation on the files: at most the endpoint's lock file is replaced, by a well-formed
  one with the metadata of a file just written.\<close>

definition fs_step :: "string \<Rightarrow> lock_env \<Rightarrow> string \<Rightarrow> lock_fs \<Rightarrow> lock_fs \<Rightarrow> bool" where
  "fs_step base env e fs fs' \<longleftrightarrow>
     (\<forall>key. safeEndpointPattern key \<longrightarrow> fs' (key_path base key) = fs (key_path base key) \<or>
        (key = Endpoint e \<and> (\<exists>data. file_ok data \<and> fs' (key_path base key) = Some (written_file env data))))"

lemma fs_step_refl: "(\<And>key. safeEndpointPattern key \<Longrightarrow> fs' (key_path base key) = fs (key_path base key)) \<Longrightarrow> fs_step base env e fs fs'"
  by (simp add: fs_step_def)

lemma fs_step_self [simp]: "fs_step base env e fs fs"
  by (simp add: fs_step_def)

lemma fs_step_trans_left:
  "(\<And>key. safeEndpointPattern key \<Longrightarrow> fs1 (key_path base key) = fs (key_path base key)) \<Longrightarrow>
     fs_step base env e fs1 fs' \<Longrightarrow> fs_step base env e fs fs'"
  by (auto simp: fs_step_def)

lemma fs_step_files_ok: "fs_step base env e fs fs' \<Longrightarrow> files_ok base fs \<Longrightarrow> files_ok base fs'"
  unfolding fs_step_def files_ok_def by (metis lock_file.select_convs(1) option.inject written_file_def)

lemma fs_step_other: "fs_step base env e fs fs' \<Longrightarrow> Endpoint e' \<noteq> Endpoint e \<Longrightarrow> disk_locks base fs' e' = disk_locks base fs e'"
  unfolding fs_step_def disk_locks_def lockFilePath_key by (metis Endpoint_safe)

lemma cache_ok_update:
  assumes "cache_ok base fs (cache(Endpoint e := None))"
    and "\<And>key. safeEndpointPattern key \<Longrightarrow> key \<noteq> Endpoint e \<Longrightarrow> fs' (key_path base key) = fs (key_path base key)"
    and "case c of None \<Rightarrow> True | Some d \<Rightarrow> entry_ok fs' (lockFilePath base e) d"
  shows "cache_ok base fs' (cache(Endpoint e := c))"
  unfolding cache_ok_def
proof (intro allI impI)
  fix key d assume k: "(cache(Endpoint e := c)) key = Some d"
  show "safeEndpointPattern key \<and> entry_ok fs' (key_path base key) d"
  proof (cases "key = Endpoint e")
    case True
    with k assms(3) show ?thesis by (simp add: lockFilePath_key)
  next
    case False
    with k assms(1) have "safeEndpointPattern key \<and> entry_ok fs (key_path base key) d"
      by (simp add: cache_ok_def)
    with False assms(2) [of key] show ?thesis by (simp add: entry_ok_def)
  qed
qed

lemma saveLocks_effect:
  assumes "saveLocks s env e t = (s', err)" "lockset_wf t" "st_base s \<noteq> []"
  obtains c where "fs_step (st_base s) env e (st_fs s) (st_fs s')" "st_base s' = st_base s"
    "disk_locks (st_base s) (st_fs s') e = (if err = None then t else disk_locks (st_base s) (st_fs s) e)"
    "\<And>key. safeEndpointPattern key \<Longrightarrow> key \<noteq> Endpoint e \<Longrightarrow>
       st_fs s' (key_path (st_base s) key) = st_fs s (key_path (st_base s) key)"
    "st_cache s' = (st_cache s)(Endpoint e := c)"
    "case c of None \<Rightarrow> True | Some d \<Rightarrow> entry_ok (st_fs s') (lockFilePath (st_base s) e) d"
proof (cases "marshal_locks (ls_sorted t)")
  case None
  with assms(1) that [of None] show thesis by (auto simp: saveLocks_def intro: fs_step_refl)
next
  case (Some data)
  let ?p = "lockFilePath (st_base s) e"
  note m = marshalled_ok [OF assms(2) Some]
  obtain fs ok where w: "writeLockFile (st_fs s) env ?p data = (fs, ok)" by force
  note wf = writeLockFile_facts [OF w assms(3)]
  have s': "st_fs s' = fs" "st_base s' = st_base s" "err = None \<longleftrightarrow> ok"
    using assms(1) Some w by (auto simp: saveLocks_def Let_def split: option.splits if_splits bool.splits)
  have d: "disk_locks (st_base s) fs e = (if ok then t else disk_locks (st_base s) (st_fs s) e)"
    using wf(1) m(2) by (simp add: disk_locks_def written_file_def)
  have step: "fs_step (st_base s) env e (st_fs s) fs"
    unfolding fs_step_def using wf m(1) by (metis lockFilePath_key)
  have "entry_ok fs ?p \<lparr>c_set = t, c_data = data, c_info = file_stat f\<rparr>" if "ok" "fs ?p = Some f" for f
    using that wf(1) m by (auto simp: entry_ok_def written_file_def)
  moreover obtain c where "st_cache s' = (st_cache s)(Endpoint e := c)"
    "c = None \<or> (\<exists>f. ok \<and> fs ?p = Some f \<and> c = Some \<lparr>c_set = t, c_data = data, c_info = file_stat f\<rparr>)"
    using assms(1) Some w by (auto simp: saveLocks_def Let_def split: option.splits if_splits bool.splits)
  ultimately show thesis using that [of c] s' d step wf(2) by (auto split: option.splits)
qed

text \<open>Saving turns a store whose cache entry for the endpoint is arbitrary into a sound one.\<close>

lemma saveLocks_ok:
  assumes "saveLocks s env e t = (s', err)" "store_ok (store_cache s e None)" "lockset_wf t"
  shows "store_ok s'" "st_base s' = st_base s" "fs_step (st_base s) env e (st_fs s) (st_fs s')"
    and "disk_locks (st_base s) (st_fs s') e = (if err = None then t else disk_locks (st_base s) (st_fs s) e)"
proof -
  have b: "st_base s \<noteq> []" and so: "files_ok (st_base s) (st_fs s)"
      "cache_ok (st_base s) (st_fs s) ((st_cache s)(Endpoint e := None))"
    using assms(2) by (auto simp: store_ok_def files_ok_def)
  obtain c where r: "fs_step (st_base s) env e (st_fs s) (st_fs s')" "st_base s' = st_base s"
    "disk_locks (st_base s) (st_fs s') e = (if err = None then t else disk_locks (st_base s) (st_fs s) e)"
    "\<And>key. safeEndpointPattern key \<Longrightarrow> key \<noteq> Endpoint e \<Longrightarrow>
       st_fs s' (key_path (st_base s) key) = st_fs s (key_path (st_base s) key)"
    "st_cache s' = (st_cache s)(Endpoint e := c)"
    "case c of None \<Rightarrow> True | Some d \<Rightarrow> entry_ok (st_fs s') (lockFilePath (st_base s) e) d"
    using saveLocks_effect [OF assms(1,3) b] by blast
  then show "fs_step (st_base s) env e (st_fs s) (st_fs s')" "st_base s' = st_base s"
    "disk_locks (st_base s) (st_fs s') e = (if err = None then t else disk_locks (st_base s) (st_fs s) e)" by blast+
  show "store_ok s'"
    using cache_ok_update [OF so(2) r(4,6)] fs_step_files_ok [OF r(1) so(1)] r(2,5) by (simp add: store_ok_def)
qed

section \<open>The operations\<close>

lemma mutate_set_ok:
  assumes "store_ok s"
  shows "store_ok (store_cache (mutate_set s e t) e None)" "st_base (mutate_set s e t) = st_base s"
    "st_fs (mutate_set s e t) = st_fs s"
  using assms by (auto simp: mutate_set_def store_ok_def cache_ok_def split: option.splits)

text \<open>The common shape of \<^verbatim>\<open>Create\<close> and \<^verbatim>\<open>Unlock\<close>: the file lock, the read, and a save of the changed set.\<close>

lemma locked_read:
  assumes "store_ok s" "acquireFileLock s env e = (s1, ok)" "readLocks s1 env e = (s2, Inr t)" "le_read env \<noteq> ReadGone"
  shows "store_ok s2" "st_base s2 = st_base s" "t = disk_locks (st_base s) (st_fs s) e"
    "\<And>key. safeEndpointPattern key \<Longrightarrow> st_fs s2 (key_path (st_base s) key) = st_fs s (key_path (st_base s) key)"
    "disk_locks (st_base s) (st_fs s2) e' = disk_locks (st_base s) (st_fs s) e'"
proof -
  note a = acquireFileLock_ok [OF assms(2,1)] acquireFileLock_facts [OF assms(2)]
  note r = readLocks_ok [OF assms(3) a(1) assms(4)]
  show "store_ok s2" "st_base s2 = st_base s" using r a by simp_all
  show "t = disk_locks (st_base s) (st_fs s) e" using r(4) [OF refl] a(2,3) by simp
  show "disk_locks (st_base s) (st_fs s2) e' = disk_locks (st_base s) (st_fs s) e'" using r(3) a(2,3) by simp
  fix key assume "safeEndpointPattern key"
  then show "st_fs s2 (key_path (st_base s) key) = st_fs s (key_path (st_base s) key)"
    using r(3) a(6) assms(1) by (simp add: key_path_not_lock store_ok_def files_ok_def)
qed

lemma locked_failure:
  assumes "store_ok s" "acquireFileLock s env e = (s1, ok)" "s' = s1 \<or> readLocks s1 env e = (s', r)" "le_read env \<noteq> ReadGone"
  shows "store_ok s'" "st_base s' = st_base s" "fs_step (st_base s) env e (st_fs s) (st_fs s')"
    "disk_locks (st_base s) (st_fs s') e' = disk_locks (st_base s) (st_fs s) e'"
proof -
  note a = acquireFileLock_ok [OF assms(2,1)] acquireFileLock_facts [OF assms(2)]
  have r: "store_ok s'" "st_base s' = st_base s1" "st_fs s' = st_fs s1"
    using assms(3,4) a(1) readLocks_ok(1-3) [of s1 env e s' r] by auto
  show "store_ok s'" "st_base s' = st_base s"
    "disk_locks (st_base s) (st_fs s') e' = disk_locks (st_base s) (st_fs s) e'"
    using r a(2,3) by simp_all
  show "fs_step (st_base s) env e (st_fs s) (st_fs s')"
    using r(3) a(6) assms(1) by (intro fs_step_refl) (simp add: key_path_not_lock store_ok_def files_ok_def)
qed

lemma locked_save:
  assumes "store_ok s" "acquireFileLock s env e = (s1, ok)" "readLocks s1 env e = (s2, Inr t)" "le_read env \<noteq> ReadGone"
    and "saveLocks (mutate_set s2 e t') env e t' = (s3, err)" "lockset_wf t'"
  shows "store_ok s3" "st_base s3 = st_base s" "fs_step (st_base s) env e (st_fs s) (st_fs s3)"
    "disk_locks (st_base s) (st_fs s3) e = (if err = None then t' else disk_locks (st_base s) (st_fs s) e)"
proof -
  note r = locked_read [OF assms(1-4)]
  note m = mutate_set_ok [OF r(1), of e t']
  note v = saveLocks_ok [OF assms(5) m(1) assms(6)]
  show "store_ok s3" "st_base s3 = st_base s" using v m r by simp_all
  show "fs_step (st_base s) env e (st_fs s) (st_fs s3)"
  proof (rule fs_step_trans_left [of "st_fs s2"])
    show "fs_step (st_base s) env e (st_fs s2) (st_fs s3)" using v(3) m(2,3) r(2) by simp
  qed (rule r(4))
  show "disk_locks (st_base s) (st_fs s3) e = (if err = None then t' else disk_locks (st_base s) (st_fs s) e)"
    using v(4) m(2,3) r(2,5) by simp
qed

lemma readLocks_error: "readLocks s env e = (s', Inl x) \<Longrightarrow> x = ErrLockIO"
  by (auto simp: readLocks_def Let_def split: if_splits option.splits read_outcome.splits)

lemma saveLocks_error: "saveLocks s env e t = (s', Some x) \<Longrightarrow> x = ErrLockIO"
  by (auto simp: saveLocks_def Let_def split: if_splits option.splits prod.splits bool.splits)

text \<open>The two steps every writing operation starts with, and how they can fail.\<close>

lemma locked_cases:
  obtains (ctx) "le_ctx env"
  | (lock) s1 where "\<not> le_ctx env" "acquireFileLock s env e = (s1, False)"
  | (err) s1 s2 where "\<not> le_ctx env" "acquireFileLock s env e = (s1, True)" "readLocks s1 env e = (s2, Inl ErrLockIO)"
  | (read) s1 s2 t where "\<not> le_ctx env" "acquireFileLock s env e = (s1, True)" "readLocks s1 env e = (s2, Inr t)"
proof (cases "le_ctx env")
  case False
  obtain s1 ok where a: "acquireFileLock s env e = (s1, ok)" by force
  obtain s2 r where b: "readLocks s1 env e = (s2, r)" by force
  show thesis
  proof (cases ok)
    case True
    with False a b err read show ?thesis by (cases r) (auto dest: readLocks_error)
  qed (use False a lock in auto)
qed (rule ctx)

text \<open>What one operation of one process does, for the three outcomes of \<^verbatim>\<open>Create\<close>.\<close>

definition new_lock :: "lock_env \<Rightarrow> string \<Rightarrow> string \<Rightarrow> lock" where
  "new_lock env path owner = \<lparr>lk_ID = le_uuid env, lk_Path = path, lk_LockedAt = RFC3339 (le_now env),
     lk_Owner = \<lparr>owner_Name = owner\<rparr>\<rparr>"

definition op_sound :: "lock_store \<Rightarrow> lock_env \<Rightarrow> string \<Rightarrow> lock_store \<Rightarrow> bool" where
  "op_sound s env e s' \<longleftrightarrow> store_ok s' \<and> st_base s' = st_base s \<and> fs_step (st_base s) env e (st_fs s) (st_fs s')"

lemma Create_spec:
  assumes "store_ok s" "le_read env \<noteq> ReadGone" "Create s env e path owner = (s', l, err)"
    and "le_uuid env \<notin> lk_ID ` locks_of (disk_locks (st_base s) (st_fs s) e)"
  shows "op_sound s env e s'"
    and "err = None \<Longrightarrow> l = new_lock env path owner \<and> ls_byPath (disk_locks (st_base s) (st_fs s) e) path = None \<and>
      disk_locks (st_base s) (st_fs s') e = add (disk_locks (st_base s) (st_fs s) e) l"
    and "err = Some ErrLockExists \<Longrightarrow> ls_byPath (disk_locks (st_base s) (st_fs s) e) path = Some l"
    and "err \<noteq> None \<Longrightarrow> disk_locks (st_base s) (st_fs s') e = disk_locks (st_base s) (st_fs s) e"
proof -
  let ?t = "disk_locks (st_base s) (st_fs s) e" and ?l = "new_lock env path owner"
  have "op_sound s env e s' \<and>
      (err = None \<longrightarrow> l = ?l \<and> ls_byPath ?t path = None \<and> disk_locks (st_base s) (st_fs s') e = add ?t l) \<and>
      (err = Some ErrLockExists \<longrightarrow> ls_byPath ?t path = Some l) \<and>
      (err \<noteq> None \<longrightarrow> disk_locks (st_base s) (st_fs s') e = ?t)"
  proof (cases rule: locked_cases [where env = env and s = s and e = e])
    case ctx
    with assms(1,3) show ?thesis by (auto simp: Create_def op_sound_def)
  next
    case (lock s1)
    with assms(3) have "s' = s1" "err = Some ErrLockIO" by (auto simp: Create_def)
    with locked_failure [OF assms(1) lock(2) disjI1 [OF refl] assms(2)] show ?thesis by (auto simp: op_sound_def)
  next
    case (err s1 s2)
    with assms(3) have "s' = s2" "err = Some ErrLockIO" by (auto simp: Create_def)
    with locked_failure [OF assms(1) err(2) disjI2 [OF err(3)] assms(2)] show ?thesis by (auto simp: op_sound_def)
  next
    case (read s1 s2 t)
    note r = locked_read [OF assms(1) read(2,3) assms(2)]
    have wf: "lockset_wf ?t" using assms(1) by (simp add: store_ok_def disk_locks_wf)
    show ?thesis
    proof (cases "ls_byPath ?t path")
      case (Some x)
      with assms(3) read r(3) have "s' = s2" "err = Some ErrLockExists" "l = x" by (auto simp: Create_def)
      with Some locked_failure [OF assms(1) read(2) disjI2 [OF read(3)] assms(2)] show ?thesis by (auto simp: op_sound_def)
    next
      case None
      obtain s3 er where v: "saveLocks (mutate_set s2 e (add ?t ?l)) env e (add ?t ?l) = (s3, er)" by force
      have "lockset_wf (add ?t ?l)"
        using lockset.insert_spec [OF wf, of ?l] assms(4) None lockset.by_path_None [OF wf, of path] by (simp add: new_lock_def)
      note w = locked_save [OF assms(1) read(2,3) assms(2) v this]
      have "s' = s3" "err = er" "er = None \<Longrightarrow> l = ?l"
        using assms(3) read r(3) None v by (auto simp: Create_def Let_def new_lock_def split: option.splits)
      with w None saveLocks_error [of _ env e _ s3] v show ?thesis by (auto simp: op_sound_def)
    qed
  qed
  then show "op_sound s env e s'"
    "err = None \<Longrightarrow> l = ?l \<and> ls_byPath ?t path = None \<and> disk_locks (st_base s) (st_fs s') e = add ?t l"
    "err = Some ErrLockExists \<Longrightarrow> ls_byPath ?t path = Some l"
    "err \<noteq> None \<Longrightarrow> disk_locks (st_base s) (st_fs s') e = ?t" by blast+
qed

lemma Unlock_spec:
  assumes "store_ok s" "le_read env \<noteq> ReadGone" "Unlock u s env e i requester force = (s', l, err)"
  shows "op_sound s env e s'"
    and "err = None \<Longrightarrow> ls_byID (disk_locks (st_base s) (st_fs s) e) i = Some l \<and>
      (force \<or> EqualFold u (owner_Name (lk_Owner l)) requester) \<and>
      disk_locks (st_base s) (st_fs s') e = remove (disk_locks (st_base s) (st_fs s) e) l"
    and "err = Some ErrLockNotFound \<Longrightarrow> ls_byID (disk_locks (st_base s) (st_fs s) e) i = None"
    and "err = Some ErrLockNotOwner \<Longrightarrow> \<not> force \<and> (\<exists>k. ls_byID (disk_locks (st_base s) (st_fs s) e) i = Some k \<and>
      \<not> EqualFold u (owner_Name (lk_Owner k)) requester)"
    and "err \<noteq> None \<Longrightarrow> disk_locks (st_base s) (st_fs s') e = disk_locks (st_base s) (st_fs s) e"
proof -
  let ?t = "disk_locks (st_base s) (st_fs s) e"
  have "op_sound s env e s' \<and>
      (err = None \<longrightarrow> ls_byID ?t i = Some l \<and> (force \<or> EqualFold u (owner_Name (lk_Owner l)) requester) \<and>
        disk_locks (st_base s) (st_fs s') e = remove ?t l) \<and>
      (err = Some ErrLockNotFound \<longrightarrow> ls_byID ?t i = None) \<and>
      (err = Some ErrLockNotOwner \<longrightarrow> \<not> force \<and> (\<exists>k. ls_byID ?t i = Some k \<and> \<not> EqualFold u (owner_Name (lk_Owner k)) requester)) \<and>
      (err \<noteq> None \<longrightarrow> disk_locks (st_base s) (st_fs s') e = ?t)"
  proof (cases rule: locked_cases [where env = env and s = s and e = e])
    case ctx
    with assms(1,3) show ?thesis by (auto simp: Unlock_def op_sound_def)
  next
    case (lock s1)
    with assms(3) have "s' = s1" "err = Some ErrLockIO" by (auto simp: Unlock_def)
    with locked_failure [OF assms(1) lock(2) disjI1 [OF refl] assms(2)] show ?thesis by (auto simp: op_sound_def)
  next
    case (err s1 s2)
    with assms(3) have "s' = s2" "err = Some ErrLockIO" by (auto simp: Unlock_def)
    with locked_failure [OF assms(1) err(2) disjI2 [OF err(3)] assms(2)] show ?thesis by (auto simp: op_sound_def)
  next
    case (read s1 s2 t)
    note r = locked_read [OF assms(1) read(2,3) assms(2)] and f = locked_failure [OF assms(1) read(2) disjI2 [OF read(3)] assms(2)]
    have wf: "lockset_wf ?t" using assms(1) by (simp add: store_ok_def disk_locks_wf)
    show ?thesis
    proof (cases "ls_byID ?t i")
      case None
      with assms(3) read r(3) have "s' = s2" "err = Some ErrLockNotFound" by (auto simp: Unlock_def)
      with None f show ?thesis by (auto simp: op_sound_def)
    next
      case (Some k)
      show ?thesis
      proof (cases "\<not> force \<and> \<not> EqualFold u (owner_Name (lk_Owner k)) requester")
        case True
        with assms(3) read r(3) Some have "s' = s2" "err = Some ErrLockNotOwner" by (auto simp: Unlock_def)
        with Some True f show ?thesis by (auto simp: op_sound_def)
      next
        case False
        obtain s3 er where v: "saveLocks (mutate_set s2 e (remove ?t k)) env e (remove ?t k) = (s3, er)" by force
        have "lockset_wf (remove ?t k)" using lockset.delete_spec [OF wf] lockset.by_id_spec [OF wf] Some by simp
        note w = locked_save [OF assms(1) read(2,3) assms(2) v this]
        have "s' = s3" "err = er" "er = None \<Longrightarrow> l = k"
          using assms(3) read r(3) Some False v by (auto simp: Unlock_def Let_def split: option.splits)
        with w Some False saveLocks_error [of _ env e _ s3] v show ?thesis by (auto simp: op_sound_def)
      qed
    qed
  qed
  then show "op_sound s env e s'"
    "err = None \<Longrightarrow> ls_byID ?t i = Some l \<and> (force \<or> EqualFold u (owner_Name (lk_Owner l)) requester) \<and>
        disk_locks (st_base s) (st_fs s') e = remove ?t l"
    "err = Some ErrLockNotFound \<Longrightarrow> ls_byID ?t i = None"
    "err = Some ErrLockNotOwner \<Longrightarrow> \<not> force \<and> (\<exists>k. ls_byID ?t i = Some k \<and> \<not> EqualFold u (owner_Name (lk_Owner k)) requester)"
    "err \<noteq> None \<Longrightarrow> disk_locks (st_base s) (st_fs s') e = ?t" by blast+
qed

text \<open>\<^verbatim>\<open>List\<close> answers from the cache only what the file would have given.\<close>

lemma loadLocks_spec:
  assumes "store_ok s" "le_read env \<noteq> ReadGone" "loadLocks s env ff e = (s', r)"
  shows "op_sound s env e s'" "disk_locks (st_base s) (st_fs s') e = disk_locks (st_base s) (st_fs s) e"
    and "r = Inr (disk_locks (st_base s) (st_fs s) e) \<or> (r = Inl ErrLockIO \<and>
      (le_flock env \<noteq> FlockHeld \<or> le_stat env \<or> le_read env = ReadFails))"
proof -
  let ?t = "disk_locks (st_base s) (st_fs s) e" and ?p = "lockFilePath (st_base s) e"
  obtain s1 ok where a: "acquireFileLock s env e = (s1, ok)" by force
  obtain s2 r2 where b: "readLocks s1 env e = (s2, r2)" by force
  have "op_sound s env e s' \<and> disk_locks (st_base s) (st_fs s') e = ?t \<and>
      (r = Inr ?t \<or> (r = Inl ErrLockIO \<and> (le_flock env \<noteq> FlockHeld \<or> le_stat env \<or> le_read env = ReadFails)))"
  proof (cases "\<exists>c f. cached s e = Some c \<and> st_fs s ?p = Some f \<and> \<not> ff \<and> same_info (c_info c) (file_stat f)")
    case True
    then obtain c f where c: "cached s e = Some c" "st_fs s ?p = Some f" "\<not> ff" "same_info (c_info c) (file_stat f)" by blast
    then have "entry_ok (st_fs s) ?p c"
      using assms(1) by (auto simp: store_ok_def cache_ok_def cached_def lockFilePath_key)
    then have "c_set c = ?t" using c by (simp add: entry_ok_def disk_locks_def)
    moreover have "s' = s" "r = Inr (c_set c)" using assms(3) c by (auto simp: loadLocks_def)
    ultimately show ?thesis using assms(1) by (simp add: op_sound_def)
  next
    case False
    then have slow: "loadLocks s env ff e = (if ok then readLocks s1 env e else (s1, Inl ErrLockIO))"
      using a by (auto simp: loadLocks_def Let_def split: option.splits)
    have "r2 = Inr ?t \<or> (r2 = Inl ErrLockIO \<and> (le_stat env \<or> le_read env = ReadFails))"
    proof (cases r2)
      case (Inr t)
      with locked_read(3) [OF assms(1) a _ assms(2)] b show ?thesis by simp
    next
      case (Inl x)
      have "store_ok s1" using acquireFileLock_ok [OF a assms(1)] by simp
      then have "file_ok (lf_data f)" if "st_fs s1 (lockFilePath (st_base s1) e) = Some f" for f
        using that by (auto simp: store_ok_def intro: files_okD)
      with Inl b assms(2) show ?thesis
        by (fastforce simp: readLocks_def Let_def file_ok_def split: if_splits option.splits read_outcome.splits)
    qed
    with slow assms(3) b locked_failure [OF assms(1) a disjI1 [OF refl] assms(2)]
      locked_failure [OF assms(1) a disjI2 [OF b] assms(2)] acquireFileLock_facts(3) [OF a]
    show ?thesis by (auto simp: op_sound_def split: if_splits)
  qed
  then show "op_sound s env e s'" "disk_locks (st_base s) (st_fs s') e = ?t"
    "r = Inr ?t \<or> (r = Inl ErrLockIO \<and> (le_flock env \<noteq> FlockHeld \<or> le_stat env \<or> le_read env = ReadFails))" by blast+
qed

section \<open>Without failures\<close>

definition lock_env_good :: "lock_env \<Rightarrow> bool" where
  "lock_env_good env \<longleftrightarrow> \<not> le_ctx env \<and> le_flock env = FlockHeld \<and> \<not> le_stat env \<and> le_read env = ReadOk \<and>
     \<not> le_mkdir env \<and> le_write env = None \<and> \<not> le_sync env \<and> \<not> le_close env \<and> \<not> le_rename env \<and> \<not> le_restat env"

text \<open>One of the temporary names drawn is free.\<close>

definition temp_free :: "lock_fs \<Rightarrow> lock_env \<Rightarrow> string \<Rightarrow> bool" where
  "temp_free fs env path \<longleftrightarrow>
     (\<exists>n \<in> set (le_names env). fs (lock_temp path n) = None)"

lemma write_plan_good:
  assumes "lock_env_good env" "temp_free fs env path"
  shows "snd (write_plan fs env path data)"
proof -
  have "find (\<lambda>p. fs p = None) (map (lock_temp path) (le_names env)) \<noteq> None"
    using assms(2) by (auto simp: find_None_iff temp_free_def)
  with assms(1) show ?thesis by (auto simp: write_plan_def lock_env_good_def Let_def)
qed

lemma saveLocks_good:
  assumes "lock_env_good env" "temp_free (st_fs s) env (lockFilePath (st_base s) e)" "\<forall>l \<in> locks_of t. lock_text_valid l"
  shows "snd (saveLocks s env e t) = None"
proof -
  have "marshal_locks (ls_sorted t) = Some (json_print (JArr (map lock_json (ls_sorted t))))"
    using assms(3) by (auto simp: marshal_Some locks_of_def)
  then obtain data where d: "marshal_locks (ls_sorted t) = Some data" by blast
  obtain fs where "writeLockFile (st_fs s) env (lockFilePath (st_base s) e) data = (fs, True)"
    using write_plan_good [OF assms(1,2), of data]
    by (cases "write_plan (st_fs s) env (lockFilePath (st_base s) e) data") (auto simp: writeLockFile_def)
  with d show ?thesis by (simp add: saveLocks_def Let_def split: option.split bool.split)
qed

lemma disk_locks_text:
  assumes "files_ok base fs" "l \<in> locks_of (disk_locks base fs e)"
  shows "lock_text_valid l"
proof (cases "fs (lockFilePath base e)")
  case None
  with assms(2) show ?thesis by (simp add: disk_locks_def)
next
  case (Some f)
  then have "file_ok (lf_data f)" using assms(1) by (auto intro: files_okD)
  then obtain ls where "unmarshal_locks (lf_data f) = Some ls" "distinct (map lk_ID ls)" "distinct (map lk_Path ls)"
    by (auto simp: file_ok_def split: option.splits)
  with assms(2) Some show ?thesis
    by (auto simp: disk_locks_def decoded_def lockset_wf_newLockSet intro: unmarshal_valid)
qed

lemma acquire_temp_free:
  assumes "acquireFileLock s env e = (s1, ok)" "temp_free (st_fs s) env p"
  shows "temp_free (st_fs s1) env p"
proof -
  from assms(2) obtain n where n: "n \<in> set (le_names env)" "st_fs s (lock_temp p n) = None"
    by (auto simp: temp_free_def)
  have "last (lock_temp p n) \<noteq> CHR ''k''"
    using last_format_nat [of n] format_nat_digits(2) [of n] by (auto simp: is_digit_def lock_temp_def)
  then have "lock_temp p n \<noteq> lockFilePath (st_base s) e @ ''.lock''"
    by (metis last_appendR last_ConsR last.simps list.discI)
  with acquireFileLock_facts(4) [OF assms(1)] n(2) have "st_fs s1 (lock_temp p n) = None" by metis
  with n(1) show ?thesis by (auto simp: temp_free_def)
qed

text \<open>The part of a fault-free call before its save.\<close>

lemma good_read:
  assumes "store_ok s" "lock_env_good env"
  obtains s1 s2 where "acquireFileLock s env e = (s1, True)" "readLocks s1 env e = (s2, Inr (disk_locks (st_base s) (st_fs s) e))"
    "st_fs s2 = st_fs s1" "st_base s2 = st_base s"
proof -
  obtain s1 ok where a: "acquireFileLock s env e = (s1, ok)" by force
  then have "ok" using acquireFileLock_facts(3) [OF a] assms(2) by (simp add: lock_env_good_def)
  obtain s2 r where b: "readLocks s1 env e = (s2, r)" by force
  have ok1: "store_ok s1" using acquireFileLock_ok [OF a assms(1)] by simp
  have ng: "le_read env \<noteq> ReadGone" using assms(2) by (simp add: lock_env_good_def)
  note r = readLocks_ok [OF b ok1 ng]
  have "file_ok (lf_data f)" if "st_fs s1 (lockFilePath (st_base s1) e) = Some f" for f
    using that ok1 by (auto simp: store_ok_def intro: files_okD)
  then obtain t where "r = Inr t"
    using b assms(2)
    by (fastforce simp: readLocks_def Let_def file_ok_def lock_env_good_def split: if_splits option.splits)
  with locked_read [OF assms(1) a, of s2 t] b ng r that [of s1 s2] a \<open>ok\<close> acquireFileLock_facts(1) [OF a]
  show thesis by simp
qed

lemma mutate_set_simps [simp]: "st_base (mutate_set s e t) = st_base s" "st_fs (mutate_set s e t) = st_fs s"
  by (simp_all add: mutate_set_def split: option.split)

text \<open>Without failures \<^verbatim>\<open>Create\<close> and \<^verbatim>\<open>Unlock\<close> are decided by the locks on disk alone.\<close>

lemma Create_good:
  assumes "store_ok s" "lock_env_good env" "temp_free (st_fs s) env (lockFilePath (st_base s) e)"
    and "lock_text_valid (new_lock env path owner)" "Create s env e path owner = (s', l, err)"
    and "le_uuid env \<notin> lk_ID ` locks_of (disk_locks (st_base s) (st_fs s) e)"
  shows "err = (if path \<in> lk_Path ` locks_of (disk_locks (st_base s) (st_fs s) e) then Some ErrLockExists else None)"
proof -
  let ?t = "disk_locks (st_base s) (st_fs s) e" and ?l = "new_lock env path owner"
  have wf: "lockset_wf ?t" using assms(1) by (simp add: store_ok_def disk_locks_wf)
  obtain s1 s2 where r: "acquireFileLock s env e = (s1, True)" "readLocks s1 env e = (s2, Inr ?t)"
    "st_fs s2 = st_fs s1" "st_base s2 = st_base s" by (rule good_read [OF assms(1,2)])
  have ctx: "\<not> le_ctx env" using assms(2) by (simp add: lock_env_good_def)
  show ?thesis
  proof (cases "ls_byPath ?t path")
    case (Some x)
    with r ctx assms(5) show ?thesis
      using lockset.by_path_None [OF wf, of path] by (auto simp: Create_def)
  next
    case None
    have "locks_of (add ?t ?l) = insert ?l (locks_of ?t)"
      using lockset.insert_spec [OF wf, of ?l] assms(6) None lockset.by_path_None [OF wf, of path] by (simp add: new_lock_def)
    then have "\<forall>k \<in> locks_of (add ?t ?l). lock_text_valid k"
      using assms(1,4) by (auto simp: store_ok_def intro: disk_locks_text)
    with saveLocks_good [OF assms(2), of "mutate_set s2 e (add ?t ?l)" e "add ?t ?l"] acquire_temp_free [OF r(1) assms(3)] r(3,4)
    have "snd (saveLocks (mutate_set s2 e (add ?t ?l)) env e (add ?t ?l)) = None" by simp
    with None r ctx assms(5) show ?thesis
      using lockset.by_path_None [OF wf, of path]
      by (auto simp: Create_def Let_def new_lock_def split: prod.splits option.splits)
  qed
qed

lemma Unlock_good:
  assumes "store_ok s" "lock_env_good env" "temp_free (st_fs s) env (lockFilePath (st_base s) e)"
    and "Unlock u s env e i requester force = (s', l, err)"
  shows "err = (case ls_byID (disk_locks (st_base s) (st_fs s) e) i of
      None \<Rightarrow> Some ErrLockNotFound
    | Some k \<Rightarrow> if force \<or> EqualFold u (owner_Name (lk_Owner k)) requester then None else Some ErrLockNotOwner)"
proof -
  let ?t = "disk_locks (st_base s) (st_fs s) e"
  have wf: "lockset_wf ?t" using assms(1) by (simp add: store_ok_def disk_locks_wf)
  obtain s1 s2 where r: "acquireFileLock s env e = (s1, True)" "readLocks s1 env e = (s2, Inr ?t)"
    "st_fs s2 = st_fs s1" "st_base s2 = st_base s" by (rule good_read [OF assms(1,2)])
  have ctx: "\<not> le_ctx env" using assms(2) by (simp add: lock_env_good_def)
  show ?thesis
  proof (cases "ls_byID ?t i")
    case None
    with r ctx assms(4) show ?thesis by (auto simp: Unlock_def)
  next
    case (Some k)
    then have "locks_of (remove ?t k) = locks_of ?t - {k}"
      using lockset.delete_spec [OF wf] lockset.by_id_spec [OF wf] by simp
    then have "\<forall>k \<in> locks_of (remove ?t k). lock_text_valid k"
      using assms(1) by (auto simp: store_ok_def intro: disk_locks_text)
    with saveLocks_good [OF assms(2), of "mutate_set s2 e (remove ?t k)" e "remove ?t k"] acquire_temp_free [OF r(1) assms(3)] r(3,4)
    have "snd (saveLocks (mutate_set s2 e (remove ?t k)) env e (remove ?t k)) = None" by simp
    with Some r ctx assms(4) show ?thesis
      by (auto simp: Unlock_def Let_def split: prod.splits option.splits if_splits)
  qed
qed

end
