(* ===== verification/Tempfiles.thy ===== *)
theory Tempfiles
  imports Local_Storage Lock_Store
begin

text \<open>
  \<^verbatim>\<open>src/storage/tempfiles.go\<close>: the removal of temporary files that a crash left behind. The data directory is a
  tree with the entries of a directory in the order \<^verbatim>\<open>fs.WalkDir\<close> visits them; what the operating system
  answers at a path (a directory that cannot be read, a file gone before it is looked at or removed) is the
  argument \<^verbatim>\<open>walk_env\<close>.
\<close>

section \<open>The walk\<close>

datatype fs_node = NodeFile instant | NodeOther | NodeDir "(string \<times> fs_node) list"

datatype walk_fault = WalkPermission | WalkNotExist | WalkOther

record walk_env =
  we_open :: bool
  we_readdir :: "string \<Rightarrow> walk_fault option"
  we_info :: "string \<Rightarrow> walk_fault option"
  we_remove :: "string \<Rightarrow> walk_fault option"

record sweep_params =
  sw_cutoff :: instant
  sw_inUse :: "string \<Rightarrow> bool"
  sw_skipShards :: bool

definition isShardDir :: "string \<Rightarrow> bool" where
  "isShardDir path =
     (case Cut path CHR ''/'' of
        (endpoint, shard, ok) \<Rightarrow> ok \<and> endpoint \<noteq> ''locks'' \<and> length shard = 2 \<and> CHR ''/'' \<notin> set shard)"

text \<open>The callback on an entry that is no directory: the paths it removes and the problems it records.\<close>

definition visit_entry :: "walk_env \<Rightarrow> sweep_params \<Rightarrow> string \<Rightarrow> string \<Rightarrow> fs_node \<Rightarrow> string list \<times> nat" where
  "visit_entry env sw path name nd =
     (case nd of
        NodeFile mtime \<Rightarrow>
          if \<not> HasPrefix name TempFilePrefix then ([], 0)
          else if sw_inUse sw path then ([], 0)
          else (case we_info env path of
             Some f \<Rightarrow> ([], if f = WalkNotExist then 0 else 1)
           | None \<Rightarrow>
             if mtime > sw_cutoff sw then ([], 0)
             else (case we_remove env path of
                Some f \<Rightarrow> ([], if f = WalkNotExist then 0 else 1)
              | None \<Rightarrow> ([path], 0)))
      | _ \<Rightarrow> ([], 0))"

definition child_path :: "string \<Rightarrow> string \<Rightarrow> string" where
  "child_path path name = (if path = ''.'' then name else path @ ''/'' @ name)"

text \<open>\<^verbatim>\<open>fs.WalkDir\<close> with the callback, below the root. A directory that cannot be read is skipped.\<close>

fun walk_node :: "walk_env \<Rightarrow> sweep_params \<Rightarrow> string \<Rightarrow> string \<Rightarrow> fs_node \<Rightarrow> string list \<times> nat"
  and walk_list :: "walk_env \<Rightarrow> sweep_params \<Rightarrow> string \<Rightarrow> (string \<times> fs_node) list \<Rightarrow> string list \<times> nat" where
  "walk_node env sw path name (NodeDir entries) =
     (if sw_skipShards sw \<and> isShardDir path then ([], 0)
      else case we_readdir env path of
        Some f \<Rightarrow> ([], if f = WalkPermission then 0 else 1)
      | None \<Rightarrow> walk_list env sw path entries)"
| "walk_node env sw path name nd = visit_entry env sw path name nd"
| "walk_list env sw path [] = ([], 0)"
| "walk_list env sw path ((name, nd) # entries) =
     (case walk_node env sw (child_path path name) name nd of
        (rs, ps) \<Rightarrow> (case walk_list env sw path entries of (rs', ps') \<Rightarrow> (rs @ rs', ps + ps')))"

text \<open>The removed paths, of which the code returns the number, and whether there is an error.\<close>

definition RemoveStaleTempFiles :: "walk_env \<Rightarrow> (string \<times> fs_node) list \<Rightarrow> instant \<Rightarrow> duration \<Rightarrow> (string \<Rightarrow> bool) option \<Rightarrow> bool
    \<Rightarrow> string list \<times> bool" where
  "RemoveStaleTempFiles env root now olderThan inUse skipShards =
     (if \<not> we_open env then ([], True)
      else let sw = \<lparr>sw_cutoff = now - olderThan,
                     sw_inUse = (case inUse of None \<Rightarrow> (\<lambda>_. False) | Some f \<Rightarrow> f), sw_skipShards = skipShards\<rparr>
        in if we_readdir env ''.'' \<noteq> None then ([], True)
           else (case walk_list env sw ''.'' root of (rs, ps) \<Rightarrow> (rs, ps > 0)))"

section \<open>The files of a tree\<close>

text \<open>All regular files with their path, name and modification time, in the order of the walk.\<close>

fun node_files :: "string \<Rightarrow> string \<Rightarrow> fs_node \<Rightarrow> (string \<times> string \<times> instant) list"
  and list_files :: "string \<Rightarrow> (string \<times> fs_node) list \<Rightarrow> (string \<times> string \<times> instant) list" where
  "node_files path name (NodeFile t) = [(path, name, t)]"
| "node_files path name NodeOther = []"
| "node_files path name (NodeDir entries) = list_files path entries"
| "list_files path [] = []"
| "list_files path ((name, nd) # entries) = node_files (child_path path name) name nd @ list_files path entries"

text \<open>A temporary file of a crashed process: named as one, not in use, and old enough.\<close>

definition stale_file :: "instant \<Rightarrow> (string \<Rightarrow> bool) \<Rightarrow> string \<times> string \<times> instant \<Rightarrow> bool" where
  "stale_file cutoff inUse f = (case f of (path, name, mtime) \<Rightarrow> HasPrefix name TempFilePrefix \<and> \<not> inUse path \<and> mtime \<le> cutoff)"

definition calm_walk :: "walk_env \<Rightarrow> bool" where
  "calm_walk env \<longleftrightarrow> we_open env \<and> we_readdir env = (\<lambda>_. None) \<and> we_info env = (\<lambda>_. None) \<and> we_remove env = (\<lambda>_. None)"

lemma visit_entry_stale:
  "set (fst (visit_entry env sw path name nd)) \<subseteq> fst ` set (filter (stale_file (sw_cutoff sw) (sw_inUse sw)) (node_files path name nd))"
  by (cases nd) (auto simp: visit_entry_def stale_file_def split: if_splits option.splits)

lemma walk_stale:
  "set (fst (walk_node env sw path name nd)) \<subseteq> fst ` set (filter (stale_file (sw_cutoff sw) (sw_inUse sw)) (node_files path name nd))"
  "set (fst (walk_list env sw path es)) \<subseteq> fst ` set (filter (stale_file (sw_cutoff sw) (sw_inUse sw)) (list_files path es))"
proof (induction env sw path name nd and env sw path es rule: walk_node_walk_list.induct, goal_cases)
  case (2 env sw path name t)
  then show ?case using visit_entry_stale [of env sw path name "NodeFile t"] by simp
next
  case (3 env sw path name)
  then show ?case using visit_entry_stale [of env sw path name NodeOther] by simp
qed (auto simp: image_Un split: option.splits if_splits prod.splits)

section \<open>Names\<close>

text \<open>The last element of a path, and trees whose entries have names without a slash, as a file system's have.\<close>

definition base_name :: "string \<Rightarrow> string" where
  "base_name p = rev (takeWhile (\<lambda>c. c \<noteq> CHR ''/'') (rev p))"

definition proper_names :: "(string \<times> fs_node) list \<Rightarrow> bool" where
  "proper_names root \<longleftrightarrow> (\<forall>(p, name, t) \<in> set (list_files ''.'' root). CHR ''/'' \<notin> set name)"

lemma base_name_child: "CHR ''/'' \<notin> set name \<Longrightarrow> base_name (child_path path name) = name"
  by (auto simp: base_name_def child_path_def takeWhile_append takeWhile_eq_all_conv)

lemma node_files_name:
  "f \<in> set (node_files path name nd) \<Longrightarrow> \<exists>dir. path = child_path dir name \<Longrightarrow> \<exists>dir. fst f = child_path dir (fst (snd f))"
  "f \<in> set (list_files path es) \<Longrightarrow> \<exists>dir. fst f = child_path dir (fst (snd f))"
  by (induction path name nd and path es rule: node_files_list_files.induct) auto

lemma list_files_base:
  assumes "proper_names root" "(p, name, t) \<in> set (list_files ''.'' root)"
  shows "base_name p = name"
  using assms node_files_name(2) [OF assms(2)] base_name_child by (fastforce simp: proper_names_def)

lemma temp_name_facts:
  assumes "HasPrefix name TempFilePrefix"
  shows "\<not> IsValidOID name" "name \<notin> {''locks.json'', ''signing.key''}"
proof -
  from assms obtain r where n: "name = CHR ''.'' # r"
    by (cases name) (auto simp: HasPrefix_def TempFilePrefix_def)
  then show "name \<notin> {''locks.json'', ''signing.key''}" by auto
  have "\<not> is_hex CHR ''.''" by (simp add: is_hex_def hex_value_def)
  with n show "\<not> IsValidOID name" by (auto simp: IsValidOID_def)
qed

lemma removed_stale:
  assumes "p \<in> set (fst (RemoveStaleTempFiles env root now olderThan inUse skipShards))" "proper_names root"
    and "used = (case inUse of None \<Rightarrow> (\<lambda>_. False) | Some f \<Rightarrow> f)"
  shows "\<not> used p" "HasPrefix (base_name p) TempFilePrefix" "\<exists>name t. (p, name, t) \<in> set (list_files ''.'' root) \<and> t \<le> now - olderThan"
proof -
  let ?sw = "\<lparr>sw_cutoff = now - olderThan, sw_inUse = used, sw_skipShards = skipShards\<rparr>"
  have "p \<in> set (fst (walk_list env ?sw ''.'' root))"
    using assms(1) by (auto simp: RemoveStaleTempFiles_def assms(3) Let_def split: if_splits prod.splits)
  with walk_stale(2) [of env ?sw "''.''" root] obtain name t where
    f: "(p, name, t) \<in> set (list_files ''.'' root)" "stale_file (now - olderThan) used (p, name, t)" by force
  then show "\<not> used p" "HasPrefix (base_name p) TempFilePrefix" "\<exists>name t. (p, name, t) \<in> set (list_files ''.'' root) \<and> t \<le> now - olderThan"
    using list_files_base [OF assms(2) f(1)] by (auto simp: stale_file_def)
qed

section \<open>Shards\<close>

text \<open>Whether a file lies inside an object shard: at least two directories below the data directory, in one with a name of two
  bytes within a top-level directory other than the locks. Besides, trees with names as a file system has them.\<close>

definition in_shard :: "string \<Rightarrow> bool" where
  "in_shard p \<longleftrightarrow> (case Split p CHR ''/'' of e # shard # _ # _ \<Rightarrow> e \<noteq> ''locks'' \<and> length shard = 2 | _ \<Rightarrow> False)"

fun proper_node :: "fs_node \<Rightarrow> bool" and proper_tree :: "(string \<times> fs_node) list \<Rightarrow> bool" where
  "proper_node (NodeDir entries) = proper_tree entries"
| "proper_node _ = True"
| "proper_tree [] = True"
| "proper_tree ((name, nd) # entries) =
     (name \<notin> {[], ''.''} \<and> CHR ''/'' \<notin> set name \<and> proper_node nd \<and> proper_tree entries)"

lemma proper_tree_names:
  "proper_node nd \<Longrightarrow> CHR ''/'' \<notin> set name \<Longrightarrow> f \<in> set (node_files path name nd) \<Longrightarrow> CHR ''/'' \<notin> set (fst (snd f))"
  "proper_tree es \<Longrightarrow> f \<in> set (list_files path es) \<Longrightarrow> CHR ''/'' \<notin> set (fst (snd f))"
  by (induction path name nd and path es rule: node_files_list_files.induct) auto

lemma proper_tree_proper_names: "proper_tree root \<Longrightarrow> proper_names root"
  using proper_tree_names(2) [of root _ "''.''"] by (fastforce simp: proper_names_def)

lemma Split_snoc: "c \<notin> set n \<Longrightarrow> Split (p @ c # n) c = Split p c @ [n]"
  by (induction p) (auto simp: Split_single split: list.split)

lemma Split_singleton_iff: "Split s c = [x] \<longleftrightarrow> s = x \<and> c \<notin> set s"
proof (cases "c \<in> set s")
  case True
  then obtain a b where "s = a @ c # b" "c \<notin> set a" by (meson split_list_first)
  with True show ?thesis by (simp add: Split_append)
qed (simp add: Split_single)

text \<open>The elements of a path within the walk, whose root is the path \<^verbatim>\<open>.\<close>.\<close>

definition walk_elems :: "string \<Rightarrow> string list" where
  "walk_elems p = (if p = ''.'' then [] else Split p CHR ''/'')"

lemma walk_elems_child:
  assumes "name \<notin> {[], ''.''}" "CHR ''/'' \<notin> set name"
  shows "walk_elems (child_path path name) = walk_elems path @ [name]"
proof -
  have "path @ CHR ''/'' # name \<noteq> ''.''" by (cases path) auto
  with assms show ?thesis by (simp add: walk_elems_def child_path_def Split_single Split_snoc)
qed

lemma in_shard_elems:
  "in_shard p \<longleftrightarrow> (\<exists>e shard rest. walk_elems p = e # shard # rest \<and> rest \<noteq> [] \<and> e \<noteq> ''locks'' \<and> length shard = 2)"
  by (auto simp: in_shard_def walk_elems_def split: list.split)

lemma isShardDir_elems: "isShardDir p \<longleftrightarrow> (\<exists>e shard. walk_elems p = [e, shard] \<and> e \<noteq> ''locks'' \<and> length shard = 2)"
proof (cases "CHR ''/'' \<in> set p")
  case False
  then have "walk_elems p = (if p = ''.'' then [] else [p])" by (simp add: walk_elems_def Split_single)
  with False show ?thesis by (auto simp: isShardDir_def Cut_def)
next
  case True
  then obtain a b where p: "p = a @ CHR ''/'' # b" "CHR ''/'' \<notin> set a" by (meson split_list_first)
  have "walk_elems p = a # Split b CHR ''/''"
    using p by (cases a) (auto simp: walk_elems_def Split_append)
  moreover have "(\<exists>shard. Split b CHR ''/'' = [shard] \<and> length shard = 2) \<longleftrightarrow> length b = 2 \<and> CHR ''/'' \<notin> set b"
    by (auto simp: Split_singleton_iff)
  moreover have "Cut p CHR ''/'' = (a, b, True)" using p by (simp add: Cut_def takeWhile_append dropWhile_append)
  ultimately show ?thesis by (auto simp: isShardDir_def)
qed

lemma files_below:
  "proper_node nd \<Longrightarrow> f \<in> set (node_files path name nd) \<Longrightarrow>
     \<exists>rest. walk_elems (fst f) = walk_elems path @ rest \<and> (rest = [] \<longrightarrow> (\<exists>t. nd = NodeFile t))"
  "proper_tree es \<Longrightarrow> f \<in> set (list_files path es) \<Longrightarrow> \<exists>rest. walk_elems (fst f) = walk_elems path @ rest \<and> rest \<noteq> []"
  by (induction path name nd and path es rule: node_files_list_files.induct) (fastforce simp: walk_elems_child)+

lemma walk_calm:
  assumes "calm_walk env"
  defines "gone sw f \<equiv> stale_file (sw_cutoff sw) (sw_inUse sw) f \<and> \<not> (sw_skipShards sw \<and> in_shard (fst f))"
  shows "proper_node nd \<Longrightarrow> \<not> (sw_skipShards sw \<and> in_shard path) \<Longrightarrow>
      walk_node env sw path name nd = (map fst (filter (gone sw) (node_files path name nd)), 0)"
    and "proper_tree es \<Longrightarrow> \<not> (sw_skipShards sw \<and> (in_shard path \<or> isShardDir path)) \<Longrightarrow>
      walk_list env sw path es = (map fst (filter (gone sw) (list_files path es)), 0)"
  using assms(1)
proof (induction env sw path name nd and env sw path es rule: walk_node_walk_list.induct, goal_cases)
  case (1 env sw path name entries)
  show ?case
  proof (cases "sw_skipShards sw \<and> isShardDir path")
    case True
    then have "in_shard (fst f)" if "f \<in> set (list_files path entries)" for f
      using files_below(2) [OF _ that] 1 by (fastforce simp: in_shard_elems isShardDir_elems)
    with True show ?thesis by (auto simp: gone_def filter_empty_conv)
  next
    case False
    with 1 show ?thesis by (auto simp: calm_walk_def)
  qed
next
  case (5 env sw path name nd entries)
  then have "\<not> (sw_skipShards sw \<and> in_shard (child_path path name))"
    by (auto simp: in_shard_elems isShardDir_elems walk_elems_child Cons_eq_append_conv append_eq_Cons_conv)
  with 5 show ?case by auto
qed (auto simp: calm_walk_def visit_entry_def stale_file_def gone_def)

text \<open>C32: Whatever the file system answers, the sweep removes only regular files named as temporary files that are not
  being written and have not been modified for the given time, so never an object, a lock file or the signing key.
  When the file system answers every question, it removes exactly those of them that it visits, in the order of the
  walk, and reports no error: all of them if it is not to skip shards, as at the start of the server; and if it is,
  as in every periodic sweep, all but the ones inside an object shard (a directory with a name of two bytes in a
  top-level directory other than the locks), which stay. The names in the tree are those of a file system: not empty, not
  \<^verbatim>\<open>.\<close>, and without a slash.\<close>

theorem sweep_removes_stale:
  assumes "RemoveStaleTempFiles env root now olderThan inUse skipShards = (removed, err)" "proper_tree root"
    and "used = (case inUse of None \<Rightarrow> (\<lambda>_. False) | Some f \<Rightarrow> f)"
  shows "(p \<in> set removed \<longrightarrow> \<not> used p \<and> HasPrefix (base_name p) TempFilePrefix \<and> \<not> IsValidOID (base_name p) \<and>
       base_name p \<notin> {''locks.json'', ''signing.key''} \<and> (\<exists>name t. (p, name, t) \<in> set (list_files ''.'' root) \<and> t \<le> now - olderThan)) \<and>
    (calm_walk env \<longrightarrow>
      removed = map fst (filter (\<lambda>f. stale_file (now - olderThan) used f \<and> \<not> (skipShards \<and> in_shard (fst f))) (list_files ''.'' root)) \<and>
      \<not> err)"
proof (intro conjI impI)
  let ?sw = "\<lparr>sw_cutoff = now - olderThan, sw_inUse = used, sw_skipShards = skipShards\<rparr>"
  {
    assume "p \<in> set removed"
    then have p: "p \<in> set (fst (RemoveStaleTempFiles env root now olderThan inUse skipShards))" by (simp add: assms(1))
    note st = removed_stale [OF p proper_tree_proper_names [OF assms(2)] assms(3)]
    show "\<not> used p" "HasPrefix (base_name p) TempFilePrefix" "\<not> IsValidOID (base_name p)"
      "base_name p \<notin> {''locks.json'', ''signing.key''}"
      "\<exists>name t. (p, name, t) \<in> set (list_files ''.'' root) \<and> t \<le> now - olderThan"
      using st temp_name_facts [OF st(2)] by auto
  }
  assume c: "calm_walk env"
  have "\<not> in_shard ''.''" "\<not> isShardDir ''.''" by (simp_all add: in_shard_elems isShardDir_elems walk_elems_def)
  then have "walk_list env ?sw ''.'' root =
      (map fst (filter (\<lambda>f. stale_file (now - olderThan) used f \<and> \<not> (skipShards \<and> in_shard (fst f))) (list_files ''.'' root)), 0)"
    using walk_calm(2) [OF c assms(2), of ?sw "''.''"] by simp
  with c assms(1,3) show
    "removed = map fst (filter (\<lambda>f. stale_file (now - olderThan) used f \<and> \<not> (skipShards \<and> in_shard (fst f))) (list_files ''.'' root))"
    "\<not> err"
    by (auto simp: RemoveStaleTempFiles_def calm_walk_def)
qed

definition demo_tree :: "(string \<times> fs_node) list" where
  "demo_tree = [(''org'', NodeDir [(''.tmp'', NodeDir [(''.tmp-1'', NodeFile 0), (''.tmp-2'', NodeFile 100)]), (''ab'', NodeDir [(''.tmp-3'', NodeFile 0)])]),
     (''signing.key'', NodeFile 0)]"

theorem sweep_removes_stale_witness:
  "RemoveStaleTempFiles \<lparr>we_open = True, we_readdir = (\<lambda>_. None), we_info = (\<lambda>_. None), we_remove = (\<lambda>_. None)\<rparr>
     demo_tree 60 10 None False = ([''org/.tmp/.tmp-1'', ''org/ab/.tmp-3''], False) \<and>
   RemoveStaleTempFiles \<lparr>we_open = True, we_readdir = (\<lambda>_. None), we_info = (\<lambda>_. None), we_remove = (\<lambda>_. None)\<rparr>
     demo_tree 60 10 None True = ([''org/.tmp/.tmp-1''], False)"
proof -
  let ?env = "\<lparr>we_open = True, we_readdir = (\<lambda>_. None), we_info = (\<lambda>_. None), we_remove = (\<lambda>_. None)\<rparr>"
  have "proper_tree demo_tree" by (simp add: demo_tree_def)
  note S = sweep_removes_stale [OF surjective_pairing this refl, of "[]" ?env 60 10 None]
  have f: "list_files ''.'' demo_tree =
      [(''org/.tmp/.tmp-1'', ''.tmp-1'', 0), (''org/.tmp/.tmp-2'', ''.tmp-2'', 100), (''org/ab/.tmp-3'', ''.tmp-3'', 0), (''signing.key'', ''signing.key'', 0)]"
    by (simp add: demo_tree_def child_path_def)
  have "calm_walk ?env" by (simp add: calm_walk_def)
  with S [of False] S [of True] show ?thesis
    by (simp add: f prod_eq_iff stale_file_def HasPrefix_def TempFilePrefix_def in_shard_def)
qed

end
