(* ===== verification/Clean_Paths.thy ===== *)
theory Clean_Paths
  imports Local_Storage
begin

text \<open>
  Paths that \<^verbatim>\<open>filepath.Join\<close> has cleaned: cleaning them again, taking their elements and their directory.
\<close>

text \<open>A cleaned path has its elements \<^verbatim>\<open>..\<close> in front, and none if it is rooted, so that cleaning it again changes nothing.\<close>

definition normal_stack :: "bool \<Rightarrow> string list \<Rightarrow> bool" where
  "normal_stack r st \<longleftrightarrow> (\<exists>ps n. st = ps @ replicate n ''..'' \<and> list_all plain_elem ps \<and> (r \<longrightarrow> n = 0))"

lemma clean_step_normal:
  assumes "CHR ''/'' \<notin> set e" "normal_stack r st"
  shows "normal_stack r (clean_step r st e)"
proof -
  obtain ps n where st: "st = ps @ replicate n ''..''" "list_all plain_elem ps" "r \<longrightarrow> n = 0"
    using assms(2) by (auto simp: normal_stack_def)
  consider "e \<in> {[], ''.''}" | "e = ''..''" | "plain_elem e" using assms(1) by (auto simp: plain_elem_def)
  then show ?thesis
  proof cases
    case 2
    show ?thesis
    proof (cases ps)
      case Nil
      have "normal_stack r (''..'' # st)" if "\<not> r"
        using Nil st(1) that unfolding normal_stack_def by (intro exI [of _ "[]"] exI [of _ "Suc n"]) simp
      with 2 Nil st show ?thesis using assms(2) by (cases n) (auto simp: clean_step_def)
    next
      case (Cons q qs)
      with 2 st show ?thesis by (auto simp: clean_step_def normal_stack_def plain_elem_def)
    qed
  next
    case 3
    with st show ?thesis unfolding normal_stack_def by (intro exI [of _ "e # ps"] exI [of _ n]) simp
  qed (use assms(2) in \<open>auto simp: clean_step_def\<close>)
qed

lemma clean_stack_normal: "normal_stack r (clean_stack r s)"
proof -
  have "normal_stack r (foldl (clean_step r) st ps)"
    if "normal_stack r st" "list_all (\<lambda>e. CHR ''/'' \<notin> set e) ps" for st ps
    using that by (induction ps arbitrary: st) (auto simp: clean_step_normal)
  moreover have "normal_stack r []" by (auto simp: normal_stack_def)
  moreover have "list_all (\<lambda>e. CHR ''/'' \<notin> set e) (Split s CHR ''/'')"
    by (auto simp: list_all_iff dest: Split_pieces)
  ultimately show ?thesis by (simp add: clean_stack_def)
qed

lemma foldl_clean_normal: "normal_stack r st \<Longrightarrow> foldl (clean_step r) [] (rev st) = st"
proof -
  assume "normal_stack r st"
  then obtain ps n where st: "st = ps @ replicate n ''..''" "list_all plain_elem ps" "r \<longrightarrow> n = 0"
    by (auto simp: normal_stack_def)
  have "foldl (clean_step r) (replicate m ''..'') (replicate k ''..'') = replicate (m + k) ''..''" if "\<not> r" for m k
    using that
  proof (induction k arbitrary: m)
    case (Suc k)
    have "clean_step r (replicate m ''..'') ''..'' = replicate (Suc m) ''..''"
      using Suc(2) by (cases m) (simp_all add: clean_step_def)
    with Suc(1) [OF Suc(2), of "Suc m"] show ?case by (simp del: replicate_Suc) simp
  qed simp
  from this [of 0 n] have "foldl (clean_step r) [] (replicate n ''..'') = replicate n ''..''" using st(3) by (cases r) simp_all
  then show ?thesis using foldl_clean_plain [of "rev ps" r] st by (simp add: list_all_iff)
qed

lemma normal_stack_elems:
  assumes "normal_stack r st"
  shows "[] \<notin> set st"
proof -
  obtain ps n where "st = ps @ replicate n ''..''" "list_all plain_elem ps" using assms unfolding normal_stack_def by blast
  then show ?thesis by (auto simp: list_all_iff plain_elem_def)
qed

lemma clean_stack_render:
  assumes "normal_stack r st" "es \<noteq> []" "list_all plain_elem es" "Split (join_slash (rev st @ es)) CHR ''/'' = rev st @ es"
  shows "clean_stack r (render_path r (rev st @ es)) = rev es @ st"
  using assms by (cases r) (auto simp: render_path_def clean_stack_def foldl_clean_normal foldl_clean_plain clean_step_def)

lemma path_elems_Join:
  assumes "b \<noteq> []" "es \<noteq> []" "list_all plain_elem es"
  shows "path_elems (Join (b # es)) = path_elems b @ es" "is_rooted (Join (b # es)) = is_rooted b"
proof -
  let ?r = "is_rooted b" and ?st = "clean_stack (is_rooted b) b"
  have j: "Join (b # es) = render_path ?r (rev ?st @ es)" by (rule Join_plain [OF assms])
  have ns: "list_all (\<lambda>e. CHR ''/'' \<notin> set e) (rev ?st @ es)"
    using set_clean_stack [of ?r b] plain_no_slash [OF assms(3)] by (auto simp: list_all_iff dest: Split_pieces)
  have sp: "Split (join_slash (rev ?st @ es)) CHR ''/'' = rev ?st @ es"
    using ns assms(2) by (intro Split_join_slash) auto
  obtain e es' where e: "rev ?st @ es = e # es'" using assms(2) by (cases "rev ?st @ es") auto
  have "[] \<notin> set (rev ?st @ es)"
    using normal_stack_elems [OF clean_stack_normal [of ?r b]] assms(3) by (auto simp: list_all_iff plain_elem_def)
  with e ns have "e \<noteq> []" "CHR ''/'' \<notin> set e" by auto
  then have "hd e \<noteq> CHR ''/''" by (metis hd_in_set)
  moreover have "hd (join_slash (e # es')) = hd e" "join_slash (e # es') \<noteq> []"
    using \<open>e \<noteq> []\<close> by (cases es'; simp)+
  ultimately have nr: "\<not> is_rooted (join_slash (rev ?st @ es))"
    unfolding e by (cases "join_slash (e # es')") (auto simp: is_rooted_def HasPrefix_def)
  show ro: "is_rooted (Join (b # es)) = ?r"
    unfolding j render_path_def using nr assms(2) by (auto simp: is_rooted_def HasPrefix_def)
  have "clean_stack ?r (Join (b # es)) = rev es @ ?st"
    unfolding j by (rule clean_stack_render [OF clean_stack_normal assms(2,3) sp])
  then show "path_elems (Join (b # es)) = path_elems b @ es"
    by (simp add: path_elems_def ro)
qed

text \<open>The directory of a file in a joined directory is that directory.\<close>

lemma Clean_Join:
  assumes "b \<noteq> []" "es \<noteq> []" "list_all plain_elem es"
  shows "Clean (Join (b # es)) = Join (b # es)"
  using path_elems_Join [OF assms] Join_plain [OF assms] by (simp add: Clean_def path_elems_def)

lemma Clean_trailing_slash: "a \<noteq> [] \<Longrightarrow> Clean (a @ ''/'') = Clean a"
  using is_rooted_append [of a "''/''"] Split_append_slash [of a "CHR ''/''" "[]"]
  by (simp add: Clean_def clean_stack_def clean_step_def)

lemma Join_snoc:
  assumes "b \<noteq> []" "es \<noteq> []" "list_all plain_elem es" "plain_elem e"
  shows "Join (b # es @ [e]) = Join (b # es) @ CHR ''/'' # e" "Join (b # es) \<noteq> []"
proof -
  let ?st = "rev (clean_stack (is_rooted b) b)"
  have j: "Join (b # es) = render_path (is_rooted b) (?st @ es)" by (rule Join_plain [OF assms(1-3)])
  moreover have "Join (b # es @ [e]) = render_path (is_rooted b) ((?st @ es) @ [e])"
    using Join_plain [of b "es @ [e]"] assms by simp
  ultimately show "Join (b # es @ [e]) = Join (b # es) @ CHR ''/'' # e"
    using assms(2) join_slash_append [of "?st @ es" "[e]"] by (auto simp: render_path_def simp del: append_assoc)
  have "join_slash xs \<noteq> []" if "list_all plain_elem xs" "xs \<noteq> []" for xs
    using that by (induction xs rule: join_slash.induct) (auto simp: plain_elem_def)
  then have "join_slash es \<noteq> []" using assms(2,3) by blast
  then have "join_slash (xs @ es) \<noteq> []" for xs
    using join_slash_append [of xs es] assms(2) by (cases "xs = []") simp_all
  then show "Join (b # es) \<noteq> []" unfolding j render_path_def by simp
qed

lemma Dir_Join:
  assumes "b \<noteq> []" "es \<noteq> []" "list_all plain_elem es" "plain_elem e"
  shows "Dir (Join (b # es @ [e])) = Join (b # es)"
proof -
  have "dropWhile (\<lambda>c. c \<noteq> CHR ''/'') (rev (Join (b # es) @ CHR ''/'' # e)) = CHR ''/'' # rev (Join (b # es))"
    using assms(4) by (simp add: dropWhile_append dropWhile_eq_Nil_conv plain_elem_def)
  with Clean_trailing_slash [OF Join_snoc(2) [OF assms]] Clean_Join [OF assms(1-3)] show ?thesis
    unfolding Dir_def Join_snoc(1) [OF assms] by simp
qed

end
