(* ===== verification/Upload_System.thy ===== *)
theory Upload_System
  imports Tempfiles Clean_Paths
begin

text \<open>
  Uploads to the local store that run at the same time, the sweep of temporary files beside them, and crashes of the
  process. Each upload is the sequence of effects of \<^verbatim>\<open>Local.Put\<close> that is left to do; any upload may take its next one at any
  time.
\<close>

section \<open>Keys of temporary files\<close>

lemma strip_common_append: "strip_common xs (xs @ ys) = ([], ys)"
  by (induction xs) (cases ys, simp_all)

lemma Rel_Join:
  assumes "b \<noteq> []" "es \<noteq> []" "list_all plain_elem es"
  shows "Rel b (Join (b # es)) = Some (join_slash es)"
proof -
  have ns: "join_slash es \<noteq> []" "join_slash es \<noteq> ''.''"
    using Split_join_slash [OF assms(2) plain_no_slash [OF assms(3)]] assms(3) by (auto simp: plain_elem_def)
  have "join_slash (path_elems b @ es) \<noteq> join_slash (path_elems b)"
    using ns(1) assms(2) by (cases "path_elems b = []") (auto simp: join_slash_append)
  then have "Clean b \<noteq> Clean (Join (b # es))"
    using path_elems_Join [OF assms] ns assms(2) by (auto simp: Clean_def path_elems_def render_path_def)
  then show ?thesis
    using path_elems_Join [OF assms] by (simp add: Rel_def strip_common_append)
qed

section \<open>The system\<close>

text \<open>An upload that runs: what it is for, its temporary file, the effects left to do and the result it will return.\<close>

record upload =
  up_endpoint :: string
  up_oid :: string
  up_tmp :: string
  up_steps :: "put_step list"
  up_result :: "store_error option"

type_synonym upload_system = "local \<times> (nat \<rightharpoonup> upload)"

text \<open>
  An upload first makes directories, of which any number may be made when it fails or a crash comes. It starts with the temporary
  file made and marked: between the two calls the file is fresh, which keeps the sweep away from it. Its name is not one an upload still running has used: \<^verbatim>\<open>os.CreateTemp\<close> draws it at random, and only
  avoids names of files that exist. The sweep removes a file it found stale and not marked, whose path relative to the
  data directory is \<open>k\<close>. A crash ends all uploads and forgets the marks.
\<close>

inductive upload_step :: "unicode_tables \<Rightarrow> upload_system \<Rightarrow> upload_system \<Rightarrow> bool" for u where
  mkdir: "put_plan u l ep oid r env = (mk @ rest, err) \<Longrightarrow> list_all is_mkdir mk \<Longrightarrow> upload_step u (l, ts) (run_steps now l mk, ts)"
| start: "put_plan u l ep oid r env = (mk @ Fs (OpCreate tmp) # track @ rest, err) \<Longrightarrow> list_all is_mkdir mk \<Longrightarrow>
    trackWriting l tmp = (track, untrack) \<Longrightarrow> ts i = None \<Longrightarrow> (\<And>j up. ts j = Some up \<Longrightarrow> up_tmp up \<noteq> tmp) \<Longrightarrow>
    upload_step u (l, ts) (run_steps now l (mk @ Fs (OpCreate tmp) # track),
      ts(i \<mapsto> \<lparr>up_endpoint = ep, up_oid = oid, up_tmp = tmp, up_steps = rest, up_result = err\<rparr>))"
| advance: "ts i = Some up \<Longrightarrow> up_steps up = s # ss \<Longrightarrow>
    upload_step u (l, ts) (apply_step now l s, ts(i \<mapsto> up\<lparr>up_steps := ss\<rparr>))"
| return: "ts i = Some up \<Longrightarrow> up_steps up = [] \<Longrightarrow> upload_step u (l, ts) (l, ts(i := None))"
| sweep: "k \<in> set (fst (RemoveStaleTempFiles wenv root now age (Some (Writing l)) skip)) \<Longrightarrow> proper_names root \<Longrightarrow>
    Rel (basePath l) p = Some k \<Longrightarrow> upload_step u (l, ts) (l\<lparr>disk := (disk l)(p := None)\<rparr>, ts)"
| crash: "upload_step u (l, ts) (l\<lparr>writing := {}\<rparr>, Map.empty)"

section \<open>What holds of the uploads\<close>

definition temp_file :: "local \<Rightarrow> string \<Rightarrow> bool" where
  "temp_file l p \<longleftrightarrow> (\<exists>ep n. p = Join (basePath l # temp_elems ep n))"

definition temp_key :: "local \<Rightarrow> string \<Rightarrow> string" where
  "temp_key l p = the (Rel (basePath l) p)"

definition cleanup_step :: "local \<Rightarrow> string \<Rightarrow> put_step \<Rightarrow> bool" where
  "cleanup_step l tmp s \<longleftrightarrow> s = Fs (OpRemove tmp) \<or> s = Untrack (temp_key l tmp)"

text \<open>An upload before its rename: what its file holds and what it will still write hash to the object's id.\<close>

definition pending :: "local \<Rightarrow> upload \<Rightarrow> bool" where
  "pending l up \<longleftrightarrow> (\<exists>xs dest post f.
     up_steps up = map (\<lambda>c. Fs (OpAppend (up_tmp up) c)) xs @ Fs (OpRename (up_tmp up) dest) # post \<and>
     list_all (cleanup_step l (up_tmp up)) post \<and> filePath l (up_endpoint up) (up_oid up) = Inr dest \<and>
     disk l (up_tmp up) = Some f \<and> map lower_char (up_oid up) = hex_encode (sha256 (f_data f @ concat xs)) \<and>
     temp_key l (up_tmp up) \<in> writing l)"

definition stored_upload :: "local \<Rightarrow> upload \<Rightarrow> bool" where
  "stored_upload l up \<longleftrightarrow> list_all (cleanup_step l (up_tmp up)) (up_steps up) \<and> object l (up_endpoint up) (up_oid up) \<noteq> None"

definition failing :: "local \<Rightarrow> upload \<Rightarrow> bool" where
  "failing l up \<longleftrightarrow> list_all (\<lambda>s. cleanup_step l (up_tmp up) s \<or> (\<exists>c. s = Fs (OpAppend (up_tmp up) c))) (up_steps up)"

definition upload_ok :: "local \<Rightarrow> upload \<Rightarrow> bool" where
  "upload_ok l up \<longleftrightarrow> temp_file l (up_tmp up) \<and>
     (if up_result up = None then pending l up \<or> stored_upload l up else failing l up)"

definition system_ok :: "upload_system \<Rightarrow> bool" where
  "system_ok st \<longleftrightarrow> (case st of (l, ts) \<Rightarrow> store_wf l \<and> (\<forall>i up. ts i = Some up \<longrightarrow> upload_ok l up) \<and>
     (\<forall>i j up up'. ts i = Some up \<longrightarrow> ts j = Some up' \<longrightarrow> i \<noteq> j \<longrightarrow> up_tmp up \<noteq> up_tmp up'))"

lemma temp_file_key:
  assumes "basePath l \<noteq> []" "temp_file l p"
  shows "Rel (basePath l) p = Some (temp_key l p)"
    and "trackWriting l p = ([Track (temp_key l p)], [Untrack (temp_key l p)])"
    and "filePath l ep oid \<noteq> Inr p"
proof -
  obtain ep' n where p: "p = Join (basePath l # temp_elems ep' n)" using assms(2) by (auto simp: temp_file_def)
  have "Rel (basePath l) p = Some (join_slash (temp_elems ep' n))"
    unfolding p by (rule Rel_Join [OF assms(1) _ temp_elems_plain]) (simp add: temp_elems_def)
  then show k: "Rel (basePath l) p = Some (temp_key l p)" by (simp add: temp_key_def)
  then show "trackWriting l p = ([Track (temp_key l p)], [Untrack (temp_key l p)])" by (simp add: trackWriting_def)
  show "filePath l ep oid \<noteq> Inr p" using temp_path_not_object [OF assms(1)] p by blast
qed

lemma temp_key_inj:
  assumes "basePath l \<noteq> []" "temp_file l p" "temp_file l q" "temp_key l p = temp_key l q"
  shows "p = q"
proof -
  obtain ep n ep' n' where p: "p = Join (basePath l # temp_elems ep n)" and q: "q = Join (basePath l # temp_elems ep' n')"
    using assms(2,3) by (auto simp: temp_file_def)
  have t: "temp_elems e m \<noteq> []" for e m by (simp add: temp_elems_def)
  have "join_slash (temp_elems ep n) = join_slash (temp_elems ep' n')"
    using assms(4) Rel_Join [OF assms(1) t temp_elems_plain] by (simp add: temp_key_def p q)
  then have "temp_elems ep n = temp_elems ep' n'"
    using join_slash_inj [OF plain_no_slash [OF temp_elems_plain] plain_no_slash [OF temp_elems_plain] t t] by blast
  then show ?thesis by (simp add: p q)
qed

text \<open>Two states between which an upload is not disturbed: while marked, its file and its mark are as before, and no object is lost.\<close>

definition undisturbed :: "local \<Rightarrow> local \<Rightarrow> string \<Rightarrow> bool" where
  "undisturbed l l' tmp \<longleftrightarrow> basePath l' = basePath l \<and>
     (temp_key l tmp \<in> writing l \<longrightarrow> disk l' tmp = disk l tmp \<and> temp_key l tmp \<in> writing l') \<and>
     (\<forall>ep oid. object l ep oid \<noteq> None \<longrightarrow> object l' ep oid \<noteq> None)"

lemma same_base:
  assumes "basePath l' = basePath l"
  shows "filePath l' = filePath l" "temp_key l' = temp_key l" "temp_file l' = temp_file l" "cleanup_step l' = cleanup_step l"
  using assms by (simp_all add: fun_eq_iff filePath_def temp_key_def temp_file_def cleanup_step_def split: sum.split)

lemma upload_ok_undisturbed:
  assumes "upload_ok l up" "undisturbed l l' (up_tmp up)"
  shows "upload_ok l' up"
proof -
  have b: "basePath l' = basePath l" using assms(2) by (simp add: undisturbed_def)
  note s = same_base [OF b]
  have "pending l' up" if "pending l up"
  proof -
    from that have "temp_key l (up_tmp up) \<in> writing l" unfolding pending_def by blast
    with assms(2) have "disk l' (up_tmp up) = disk l (up_tmp up)" "temp_key l (up_tmp up) \<in> writing l'" by (simp_all add: undisturbed_def)
    with that show ?thesis unfolding pending_def s by metis
  qed
  moreover have "stored_upload l up \<Longrightarrow> stored_upload l' up" "failing l up \<Longrightarrow> failing l' up"
    using assms(2) by (auto simp: stored_upload_def failing_def undisturbed_def s)
  ultimately show ?thesis using assms(1) by (auto simp: upload_ok_def s)
qed

section \<open>Every step keeps it\<close>

lemma quiet_undisturbed:
  assumes "basePath l \<noteq> []" "temp_file l tmp" "temp_file l tmp'" "tmp' \<noteq> tmp"
    and "step_path_only tmp s" "\<And>k. s = Untrack k \<Longrightarrow> k = temp_key l tmp"
  shows "undisturbed l (apply_step now l s) tmp'" "object (apply_step now l s) = object l"
proof -
  have p: "list_all (step_path_only tmp) [s]" using assms(5) by simp
  show o: "object (apply_step now l s) = object l"
    using object_path_only_ext [OF p temp_file_key(3) [OF assms(1,2)], of now] by simp
  have "disk (apply_step now l s) tmp' = disk l tmp'" using run_path_only [OF p assms(4), of now l] by simp
  moreover have "temp_key l tmp' \<in> writing l \<longrightarrow> temp_key l tmp' \<in> writing (apply_step now l s)"
    using assms(6) temp_key_inj [OF assms(1-3)] assms(4) by (cases s) auto
  ultimately show "undisturbed l (apply_step now l s) tmp'" by (simp add: undisturbed_def o)
qed

lemma rename_stores:
  assumes "store_wf l" "temp_file l tmp" "filePath l ep oid = Inr dest" "disk l tmp = Some f"
    and "map lower_char oid = hex_encode (sha256 (f_data f))"
  shows "store_wf (apply_step now l (Fs (OpRename tmp dest)))" "object (apply_step now l (Fs (OpRename tmp dest))) ep oid \<noteq> None"
    "object l ep' oid' \<noteq> None \<Longrightarrow> object (apply_step now l (Fs (OpRename tmp dest))) ep' oid' \<noteq> None"
    "temp_file l tmp' \<Longrightarrow> tmp' \<noteq> tmp \<Longrightarrow> undisturbed l (apply_step now l (Fs (OpRename tmp dest))) tmp'"
proof -
  let ?l' = "apply_step now l (Fs (OpRename tmp dest))"
  have b: "basePath l \<noteq> []" using assms(1) by (simp add: store_wf_def)
  have o: "object ?l' = put_object l ep oid (f_data f)"
    using rename_object [OF b assms(3) temp_file_key(3) [OF b assms(2)] assms(4)] .
  show "store_wf ?l'" by (rule store_wf_put_object [OF assms(1) _ assms(5) o]) simp
  show "object ?l' ep oid \<noteq> None" "object l ep' oid' \<noteq> None \<Longrightarrow> object ?l' ep' oid' \<noteq> None"
    unfolding o by (simp_all add: put_object_def)
  assume t: "temp_file l tmp'" "tmp' \<noteq> tmp"
  then have "tmp' \<noteq> dest" using temp_file_key(3) [OF b t(1)] assms(3) by blast
  then have "disk ?l' tmp' = disk l tmp'" using t(2) assms(4) by simp
  then show "undisturbed l ?l' tmp'" unfolding undisturbed_def o by (simp add: put_object_def)
qed

lemma advance_pending:
  assumes "store_wf l" "temp_file l (up_tmp up)" "pending l up" "up_steps up = s # ss"
  shows "store_wf (apply_step now l s)"
    "pending (apply_step now l s) (up\<lparr>up_steps := ss\<rparr>) \<or> stored_upload (apply_step now l s) (up\<lparr>up_steps := ss\<rparr>)"
    "object l ep oid \<noteq> None \<Longrightarrow> object (apply_step now l s) ep oid \<noteq> None"
    "temp_file l tmp' \<Longrightarrow> tmp' \<noteq> up_tmp up \<Longrightarrow> undisturbed l (apply_step now l s) tmp'"
proof -
  let ?tmp = "up_tmp up" and ?l' = "apply_step now l s"
  have b: "basePath l \<noteq> []" using assms(1) by (simp add: store_wf_def)
  note sb = same_base [OF basePath_apply_step]
  obtain xs dest post f where p: "up_steps up = map (\<lambda>c. Fs (OpAppend ?tmp c)) xs @ Fs (OpRename ?tmp dest) # post"
    "list_all (cleanup_step l ?tmp) post" "filePath l (up_endpoint up) (up_oid up) = Inr dest" "disk l ?tmp = Some f"
    "map lower_char (up_oid up) = hex_encode (sha256 (f_data f @ concat xs))" "temp_key l ?tmp \<in> writing l"
    using assms(3) by (auto simp: pending_def)
  have "store_wf ?l' \<and> (pending ?l' (up\<lparr>up_steps := ss\<rparr>) \<or> stored_upload ?l' (up\<lparr>up_steps := ss\<rparr>)) \<and>
      (object l ep oid \<noteq> None \<longrightarrow> object ?l' ep oid \<noteq> None) \<and>
      (temp_file l tmp' \<and> tmp' \<noteq> ?tmp \<longrightarrow> undisturbed l ?l' tmp')"
  proof (cases xs)
    case Nil
    then have s: "s = Fs (OpRename ?tmp dest)" "ss = post" using p(1) assms(4) by simp_all
    have h: "map lower_char (up_oid up) = hex_encode (sha256 (f_data f))" using p(5) Nil by simp
    note r = rename_stores [OF assms(1,2) p(3,4) h, where now = now, folded s(1)]
    have "stored_upload ?l' (up\<lparr>up_steps := ss\<rparr>)"
      using r(2) p(2) by (simp add: stored_upload_def s(2) sb del: apply_step.simps)
    with r show ?thesis by blast
  next
    case (Cons c cs)
    then have s: "s = Fs (OpAppend ?tmp c)" "ss = map (\<lambda>c. Fs (OpAppend ?tmp c)) cs @ Fs (OpRename ?tmp dest) # post"
      using p(1) assms(4) by simp_all
    have q: "step_path_only ?tmp s" "\<And>k. s = Untrack k \<Longrightarrow> k = temp_key l ?tmp" by (simp_all add: s)
    have "pending ?l' (up\<lparr>up_steps := ss\<rparr>)"
      unfolding pending_def sb using p Cons by (intro exI [of _ cs] exI [of _ dest] exI [of _ post]) (simp add: s)
    moreover have "object ?l' = object l"
      using object_path_only_ext [of ?tmp "[s]" l now] q(1) temp_file_key(3) [OF b assms(2)] by simp
    ultimately show ?thesis
      using quiet_undisturbed(1) [OF b assms(2) _ _ q] store_wf_object_eq [OF assms(1)] by simp
  qed
  then show "store_wf ?l'" "pending ?l' (up\<lparr>up_steps := ss\<rparr>) \<or> stored_upload ?l' (up\<lparr>up_steps := ss\<rparr>)"
    "object l ep oid \<noteq> None \<Longrightarrow> object ?l' ep oid \<noteq> None"
    "temp_file l tmp' \<Longrightarrow> tmp' \<noteq> up_tmp up \<Longrightarrow> undisturbed l ?l' tmp'" by blast+
qed

lemma advance_quiet:
  assumes "store_wf l" "temp_file l (up_tmp up)" "cleanup_step l (up_tmp up) s \<or> (\<exists>c. s = Fs (OpAppend (up_tmp up) c))"
  shows "store_wf (apply_step now l s)" "object (apply_step now l s) = object l"
    "temp_file l tmp' \<Longrightarrow> tmp' \<noteq> up_tmp up \<Longrightarrow> undisturbed l (apply_step now l s) tmp'"
proof -
  have b: "basePath l \<noteq> []" using assms(1) by (simp add: store_wf_def)
  have q: "step_path_only (up_tmp up) s" "\<And>k. s = Untrack k \<Longrightarrow> k = temp_key l (up_tmp up)"
    using assms(3) by (auto simp: cleanup_step_def)
  show o: "object (apply_step now l s) = object l"
    using object_path_only_ext [of "up_tmp up" "[s]" l now] q(1) temp_file_key(3) [OF b assms(2)] by simp
  show "store_wf (apply_step now l s)" by (rule store_wf_object_eq [OF assms(1) _ o]) simp
  show "temp_file l tmp' \<Longrightarrow> tmp' \<noteq> up_tmp up \<Longrightarrow> undisturbed l (apply_step now l s) tmp'"
    using quiet_undisturbed(1) [OF b assms(2) _ _ q] .
qed

lemma advance_ok:
  assumes "store_wf l" "upload_ok l up" "up_steps up = s # ss"
  shows "store_wf (apply_step now l s)" "upload_ok (apply_step now l s) (up\<lparr>up_steps := ss\<rparr>)"
    "object l ep oid \<noteq> None \<Longrightarrow> object (apply_step now l s) ep oid \<noteq> None"
    "temp_file l tmp' \<Longrightarrow> tmp' \<noteq> up_tmp up \<Longrightarrow> undisturbed l (apply_step now l s) tmp'"
proof -
  let ?l' = "apply_step now l s"
  note sb = same_base [OF basePath_apply_step]
  have t: "temp_file l (up_tmp up)" using assms(2) by (simp add: upload_ok_def)
  have "store_wf ?l' \<and> upload_ok ?l' (up\<lparr>up_steps := ss\<rparr>) \<and> (object l ep oid \<noteq> None \<longrightarrow> object ?l' ep oid \<noteq> None) \<and>
      (temp_file l tmp' \<and> tmp' \<noteq> up_tmp up \<longrightarrow> undisturbed l ?l' tmp')"
  proof (cases "up_result up = None \<and> pending l up")
    case True
    with advance_pending [OF assms(1) t _ assms(3)] t show ?thesis by (simp add: upload_ok_def sb)
  next
    case False
    with assms(2) have r: "if up_result up = None then stored_upload l up else failing l up" by (auto simp: upload_ok_def)
    then have q: "cleanup_step l (up_tmp up) s \<or> (\<exists>c. s = Fs (OpAppend (up_tmp up) c))"
      using assms(3) by (auto simp: stored_upload_def failing_def split: if_splits)
    have "if up_result up = None then stored_upload ?l' (up\<lparr>up_steps := ss\<rparr>) else failing ?l' (up\<lparr>up_steps := ss\<rparr>)"
      using r assms(3) advance_quiet(2) [OF assms(1) t q, of now] by (auto simp: stored_upload_def failing_def sb split: if_splits)
    with advance_quiet [OF assms(1) t q] t show ?thesis by (auto simp: upload_ok_def sb split: if_splits)
  qed
  then show "store_wf ?l'" "upload_ok ?l' (up\<lparr>up_steps := ss\<rparr>)" "object l ep oid \<noteq> None \<Longrightarrow> object ?l' ep oid \<noteq> None"
    "temp_file l tmp' \<Longrightarrow> tmp' \<noteq> up_tmp up \<Longrightarrow> undisturbed l ?l' tmp'" by blast+
qed

lemma sweep_ok:
  assumes "store_wf l" "k \<in> set (fst (RemoveStaleTempFiles wenv root now age (Some (Writing l)) skip))" "proper_names root"
    and "Rel (basePath l) p = Some k"
  shows "object (l\<lparr>disk := (disk l)(p := None)\<rparr>) = object l"
    "temp_file l tmp \<Longrightarrow> temp_key l tmp \<in> writing l \<Longrightarrow> tmp \<noteq> p"
proof -
  have b: "basePath l \<noteq> []" using assms(1) by (simp add: store_wf_def)
  have k: "k \<notin> writing l" "HasPrefix (base_name k) TempFilePrefix"
    using removed_stale [OF assms(2,3) refl] by (auto simp: Writing_def)
  show "temp_file l tmp \<Longrightarrow> temp_key l tmp \<in> writing l \<Longrightarrow> tmp \<noteq> p"
    using temp_file_key(1) [OF b] assms(4) k(1) by auto
  have "q \<noteq> p" if "filePath l ep oid = Inr q" for ep oid q
  proof
    assume "q = p"
    with that have o: "IsValidOID oid" "p = Join (basePath l # object_elems ep oid)" by (auto simp: filePath_Inr_iff)
    have "k = join_slash (object_elems ep oid)"
      using Rel_Join [OF b _ object_elems_plain [OF o(1)]] assms(4) o(2) by (auto simp: object_elems_def Let_def)
    moreover have "CHR ''/'' \<notin> set (map lower_char oid)"
      using object_elems_plain [OF o(1), of ep] by (simp add: object_elems_def Let_def plain_elem_def)
    ultimately have "base_name k = map lower_char oid"
      by (simp add: object_elems_def Let_def base_name_def takeWhile_append takeWhile_eq_all_conv)
    with k(2) temp_name_facts(1) o(1) IsValidOID_lower show False by metis
  qed
  then show "object (l\<lparr>disk := (disk l)(p := None)\<rparr>) = object l"
    by (intro ext) (auto simp: object_def split: sum.splits)
qed

lemma copy_steps_appends: "copy_steps p cs fault = (ss, e) \<Longrightarrow> list_all (\<lambda>s. \<exists>c. s = Fs (OpAppend p c)) ss"
proof (induction cs arbitrary: fault ss)
  case (Cons c cs)
  from Cons.prems show ?case by (cases rule: copy_steps_Cons_cases) (auto dest: Cons.IH)
qed simp

lemma copy_steps_all: "copy_steps p cs fault = (ss, None) \<Longrightarrow> ss = map (\<lambda>c. Fs (OpAppend p c)) cs"
proof (induction cs arbitrary: fault ss)
  case (Cons c cs)
  from Cons.prems show ?case by (cases rule: copy_steps_Cons_cases) (auto dest: Cons.IH)
qed simp

text \<open>A new upload: its file is made and marked, and it will write what hashes to the id, or fail.\<close>

lemma mkdirs_then_create:
  "mk @ Fs x # xs = mk' @ Fs y # ys \<Longrightarrow> list_all is_mkdir mk \<Longrightarrow> list_all is_mkdir mk' \<Longrightarrow> x = y \<and> xs = ys"
proof (induction mk arbitrary: mk')
  case Nil
  then show ?case by (cases mk') (auto simp: is_mkdir_def)
next
  case (Cons m mk)
  then show ?case by (cases mk') (auto simp: is_mkdir_def)
qed

lemma mkdirs_ok:
  assumes "store_wf l" "list_all is_mkdir mk" "l' = run_steps now l mk"
  shows "store_wf l'" "object l' = object l" "undisturbed l l' tmp"
proof -
  have s: "basePath l' = basePath l" "disk l' = disk l" "writing l' = writing l" using run_mkdirs [OF assms(2)] by (simp_all add: assms(3))
  show o: "object l' = object l" by (intro ext) (simp add: object_def same_base [OF s(1)] s split: sum.split)
  show "store_wf l'" by (rule store_wf_object_eq [OF assms(1) s(1) o])
  show "undisturbed l l' tmp" by (simp add: undisturbed_def s o)
qed

lemma start_ok:
  assumes "store_wf l" "put_plan u l ep oid r env = (mk @ Fs (OpCreate tmp) # track @ rest, err)" "list_all is_mkdir mk"
    and "trackWriting l tmp = (track, untrack)" and l'_def: "l' = run_steps now l (mk @ Fs (OpCreate tmp) # track)"
  shows "store_wf l'" "object l' = object l" "upload_ok l' \<lparr>up_endpoint = ep, up_oid = oid, up_tmp = tmp, up_steps = rest, up_result = err\<rparr>"
    "temp_file l tmp' \<Longrightarrow> tmp' \<noteq> tmp \<Longrightarrow> undisturbed l l' tmp'"
proof -
  have b: "basePath l \<noteq> []" using assms(1) by (simp add: store_wf_def)
  obtain dest body cleanup where d: "filePath l ep oid = Inr dest"
    "CreateTemp (disk l) (Join [basePath l, Endpoint ep, uploadTempDir]) TempFilePrefix (pe_names env) = Some tmp"
    "put_body u dest oid tmp r env = (body, err)" "cleanup = (if pe_remove env then [] else [Fs (OpRemove tmp)])"
    "rest = body @ cleanup @ untrack"
    using assms(2)
  proof (cases rule: put_plan_shape)
    case early
    then show thesis by (simp add: is_mkdir_def)
  next
    case (full mk' dest tmp' track' untrack' body cleanup)
    from mkdirs_then_create [OF full(8) assms(3) full(1)]
    have e: "tmp' = tmp" "track' @ body @ cleanup @ untrack' = track @ rest" by simp_all
    with full(5) assms(4) have "track' = track" "untrack' = untrack" by simp_all
    with e full show thesis by (intro that [of dest body cleanup]) simp_all
  qed
  have t: "temp_file l tmp" using put_temp(3) [OF b d(2)] by (auto simp: temp_file_def)
  have k: "track = [Track (temp_key l tmp)]" "untrack = [Untrack (temp_key l tmp)]"
    using temp_file_key(2) [OF b t] assms(4) by simp_all
  have l': "basePath l' = basePath l" "writing l' = insert (temp_key l tmp) (writing l)"
    "disk l' = (disk l)(tmp \<mapsto> \<lparr>f_data = [], f_mtime = now\<rparr>)"
    by (simp_all add: l'_def k run_mkdirs [OF assms(3)])
  note sb = same_base [OF l'(1)]
  show o: "object l' = object l"
    unfolding l'_def using temp_file_key(3) [OF b t] by (intro object_path_only_ext [of tmp]) (simp_all add: k run_mkdirs [OF assms(3)])
  show "store_wf l'" by (rule store_wf_object_eq [OF assms(1) l'(1) o])
  show "temp_file l tmp' \<Longrightarrow> tmp' \<noteq> tmp \<Longrightarrow> undisturbed l l' tmp'" by (simp add: undisturbed_def l' o)
  have cl: "list_all (cleanup_step l tmp) (cleanup @ untrack)" by (auto simp: d(4) k cleanup_step_def)
  let ?up = "\<lparr>up_endpoint = ep, up_oid = oid, up_tmp = tmp, up_steps = rest, up_result = err\<rparr>"
  show "upload_ok l' ?up"
  proof (cases err)
    case None
    with d(3) have "put_body u dest oid tmp r env = (body, None)" by simp
    then show ?thesis
    proof (cases rule: put_body_ok)
      case (1 cs)
      have "map lower_char oid = hex_encode (sha256 (rd_data r))"
        using 1(4) d(1) by (simp add: EqualFold_digest filePath_Inr_iff)
      then have "pending l' ?up"
        unfolding pending_def sb using cl d(1) copy_steps_all [OF 1(2)]
        by (intro exI [of _ "rd_chunks r"] exI [of _ dest] exI [of _ "cleanup @ untrack"]) (simp add: d(5) 1(1) l' rd_data_def)
      with t None show ?thesis by (simp add: upload_ok_def sb)
    qed
  next
    case (Some e)
    have "list_all (\<lambda>s. \<exists>c. s = Fs (OpAppend tmp c)) body"
      using d(3) Some by (auto simp: put_body_def split: prod.splits option.splits if_splits dest: copy_steps_appends)
    with cl have "failing l' ?up" by (auto simp: failing_def sb d(5) list_all_iff)
    with t Some show ?thesis by (simp add: upload_ok_def sb)
  qed
qed

text \<open>A step of one upload, or its start, leaves the others alone.\<close>

lemma system_ok_step:
  assumes "system_ok (l, ts)" "store_wf l'" "upload_ok l' up" "\<And>j up'. j \<noteq> i \<Longrightarrow> ts j = Some up' \<Longrightarrow> up_tmp up' \<noteq> up_tmp up"
    and "\<And>tmp. temp_file l tmp \<Longrightarrow> tmp \<noteq> up_tmp up \<Longrightarrow> undisturbed l l' tmp"
  shows "system_ok (l', ts(i \<mapsto> up))"
proof -
  have "upload_ok l' up'" if "j \<noteq> i" "ts j = Some up'" for j up'
  proof -
    have o: "upload_ok l up'" using assms(1) that by (auto simp: system_ok_def)
    with upload_ok_undisturbed [OF o] assms(4) [OF that] assms(5) show ?thesis by (simp add: upload_ok_def)
  qed
  moreover have "up_tmp a \<noteq> up_tmp b" if "ts j = Some a" "ts k = Some b" "j \<noteq> k" for j k a b
    using assms(1) that unfolding system_ok_def by blast
  ultimately show ?thesis
    using assms(2-4) unfolding system_ok_def by (auto simp: fun_upd_def) metis+
qed

lemma sweep_step:
  assumes "system_ok (l, ts)" "k \<in> set (fst (RemoveStaleTempFiles wenv root now age (Some (Writing l)) skip))" "proper_names root"
    and "Rel (basePath l) p = Some k"
  shows "system_ok (l\<lparr>disk := (disk l)(p := None)\<rparr>, ts)" "object (l\<lparr>disk := (disk l)(p := None)\<rparr>) = object l"
proof -
  let ?l' = "l\<lparr>disk := (disk l)(p := None)\<rparr>"
  have w: "store_wf l" using assms(1) by (simp add: system_ok_def)
  show o: "object ?l' = object l" by (rule sweep_ok(1) [OF w assms(2-4)])
  have "upload_ok ?l' up" if "ts i = Some up" for i up
  proof -
    have u: "upload_ok l up" using assms(1) that by (auto simp: system_ok_def)
    then have "undisturbed l ?l' (up_tmp up)"
      using sweep_ok(2) [OF w assms(2-4)] by (auto simp: undisturbed_def o upload_ok_def)
    with u show ?thesis by (rule upload_ok_undisturbed)
  qed
  with store_wf_object_eq [OF w _ o] assms(1) show "system_ok (?l', ts)" by (simp add: system_ok_def)
qed

lemma upload_step_ok:
  assumes "upload_step u st st'" "system_ok st"
  shows "system_ok st' \<and> (\<forall>ep oid. object (fst st) ep oid \<noteq> None \<longrightarrow> object (fst st') ep oid \<noteq> None)"
  using assms
proof cases
  case (mkdir l ep oid r env mk rest err ts now)
  have w: "store_wf l" using assms(2) mkdir(1) by (simp add: system_ok_def)
  note m = mkdirs_ok [OF w mkdir(4) refl, where now = now]
  have "upload_ok (run_steps now l mk) up" if "ts i = Some up" for i up
    using upload_ok_undisturbed [OF _ m(3)] assms(2) mkdir(1) that by (auto simp: system_ok_def)
  with m(1,2) assms(2) mkdir(1,2) show ?thesis by (simp add: system_ok_def)
next
  case (start l ep oid r env mk tmp track rest err untrack ts i now)
  have w: "store_wf l" using assms(2) start(1) by (simp add: system_ok_def)
  note s = start_ok [OF w start(3,4,5) refl, where now = now]
  have "system_ok st'"
    unfolding start(2) using assms(2) start(1,7) s(1,3,4) by (intro system_ok_step [of l]) auto
  with s(2) start(1,2) show ?thesis by simp
next
  case (advance ts i up s ss l now)
  have w: "store_wf l" "upload_ok l up" using assms(2) advance(1,3) by (auto simp: system_ok_def)
  note a = advance_ok [OF w advance(4), where now = now]
  have "up_tmp up' \<noteq> up_tmp up" if "j \<noteq> i" "ts j = Some up'" for j up'
    using assms(2) advance(1,3) that unfolding system_ok_def by blast
  then have "system_ok st'"
    unfolding advance(2) using assms(2) advance(1) a(1,2,4) by (intro system_ok_step [of l]) auto
  with a(3) advance(1,2) show ?thesis by simp
next
  case (return ts i up l)
  with assms(2) show ?thesis by (auto simp: system_ok_def)
next
  case (sweep k wenv root now age l skip p ts)
  with sweep_step [of l ts k wenv root now age skip p] assms(2) show ?thesis by simp
next
  case (crash l ts)
  have "object (l\<lparr>writing := {}\<rparr>) = object l" by (intro ext) (simp add: object_def split: sum.split)
  with crash assms(2) show ?thesis by (auto simp: system_ok_def store_wf_def)
qed

lemma finished_stored:
  assumes "upload_ok l up" "up_steps up = []" "up_result up = None"
  shows "object l (up_endpoint up) (up_oid up) \<noteq> None"
proof -
  have "\<not> pending l up" using assms(2) by (auto simp: pending_def)
  with assms(1,3) show ?thesis by (simp add: upload_ok_def stored_upload_def)
qed

text \<open>An upload on its own, run to its end, is \<^verbatim>\<open>Local.Put\<close>.\<close>

lemma upload_runs: "(upload_step u)\<^sup>*\<^sup>* (l, [i \<mapsto> up]) (run_steps now l (up_steps up), [i \<mapsto> up\<lparr>up_steps := []\<rparr>])"
proof (induction "up_steps up" arbitrary: l up)
  case (Cons s ss)
  have "upload_step u (l, [i \<mapsto> up]) (apply_step now l s, [i \<mapsto> up\<lparr>up_steps := ss\<rparr>])"
    using upload_step.advance [of "[i \<mapsto> up]" i up s ss] Cons(2) by simp
  moreover from Cons(1) [of "up\<lparr>up_steps := ss\<rparr>" "apply_step now l s"]
  have "(upload_step u)\<^sup>*\<^sup>* (apply_step now l s, [i \<mapsto> up\<lparr>up_steps := ss\<rparr>])
      (run_steps now l (up_steps up), [i \<mapsto> up\<lparr>up_steps := []\<rparr>])"
    by (simp flip: Cons(2))
  ultimately show ?case by (rule converse_rtranclp_into_rtranclp)
next
  case Nil
  then have "up\<lparr>up_steps := []\<rparr> = up" "run_steps now l (up_steps up) = l" by (cases up; simp)+
  then show ?case by (simp only: rtranclp.rtrancl_refl)
qed

lemma put_is_run:
  assumes "put_plan u l ep oid r env = (ss, None)"
  obtains tmp where "(upload_step u)\<^sup>*\<^sup>* (l, Map.empty) (fst (Put u l ep oid r env),
      [i \<mapsto> \<lparr>up_endpoint = ep, up_oid = oid, up_tmp = tmp, up_steps = [], up_result = None\<rparr>])"
  using assms
proof (cases rule: put_plan_shape)
  case (full mk dest tmp track untrack body cleanup)
  let ?rest = "body @ cleanup @ untrack"
  let ?up = "\<lparr>up_endpoint = ep, up_oid = oid, up_tmp = tmp, up_steps = ?rest, up_result = None\<rparr>"
  let ?l = "run_steps (pe_now env) l (mk @ Fs (OpCreate tmp) # track)"
  have "upload_step u (l, Map.empty) (?l, [i \<mapsto> ?up])"
    using assms full by (intro upload_step.start) auto
  moreover have "(upload_step u)\<^sup>*\<^sup>* (?l, [i \<mapsto> ?up]) (run_steps (pe_now env) ?l ?rest, [i \<mapsto> ?up\<lparr>up_steps := []\<rparr>])"
    using upload_runs [of u ?l i ?up] by simp
  ultimately have "(upload_step u)\<^sup>*\<^sup>* (l, Map.empty) (run_steps (pe_now env) ?l ?rest, [i \<mapsto> ?up\<lparr>up_steps := []\<rparr>])"
    by (rule converse_rtranclp_into_rtranclp)
  with that show thesis by (simp add: Put_def assms full(8))
qed simp

text \<open>C7: Uploads that run at the same time, interleaved in any way and with the sweep of temporary files and with crashes, never
  disturb each other: at every moment every file at an object's path hashes to the object's id, no stored object is lost, and
  an upload that is about to report success has its object stored.\<close>

theorem concurrent_uploads_safe:
  assumes "store_wf l" "(upload_step u)\<^sup>*\<^sup>* (l, Map.empty) (l', ts)"
  shows "store_wf l' \<and> (object l ep oid \<noteq> None \<longrightarrow> object l' ep oid \<noteq> None) \<and>
    (ts i = Some up \<and> up_steps up = [] \<and> up_result up = None \<longrightarrow> object l' (up_endpoint up) (up_oid up) \<noteq> None)"
proof -
  have "system_ok st \<and> (object l ep oid \<noteq> None \<longrightarrow> object (fst st) ep oid \<noteq> None)" if "(upload_step u)\<^sup>*\<^sup>* (l, Map.empty) st" for st
    using that
  proof (induction rule: rtranclp_induct)
    case base
    with assms(1) show ?case by (simp add: system_ok_def)
  next
    case (step st st')
    with upload_step_ok [OF step(2)] show ?case by blast
  qed
  from this [OF assms(2)] have s: "system_ok (l', ts)" "object l ep oid \<noteq> None \<longrightarrow> object l' ep oid \<noteq> None" by simp_all
  have "object l' (up_endpoint up) (up_oid up) \<noteq> None" if "ts i = Some up" "up_steps up = []" "up_result up = None"
    using s(1) that finished_stored unfolding system_ok_def by blast
  with s show ?thesis by (auto simp: system_ok_def)
qed

theorem concurrent_uploads_safe_witness:
  "object (fst (Put ascii_tables demo_local ''/org/repo'' demo_oid demo_reader demo_env)) ''/org/repo'' demo_oid \<noteq> None"
proof -
  obtain ss where "put_plan ascii_tables demo_local ''/org/repo'' demo_oid demo_reader demo_env = (ss, None)"
    using demo_put_ok by (auto simp: Put_def split: prod.splits)
  from put_is_run [OF this, of 0] obtain tmp where r: "(upload_step ascii_tables)\<^sup>*\<^sup>* (demo_local, Map.empty)
      (fst (Put ascii_tables demo_local ''/org/repo'' demo_oid demo_reader demo_env),
       [0 \<mapsto> \<lparr>up_endpoint = ''/org/repo'', up_oid = demo_oid, up_tmp = tmp, up_steps = [], up_result = None\<rparr>])"
    by blast
  from concurrent_uploads_safe [OF demo_facts(1) r, where i = 0 and ep = "[]" and oid = "[]" and up = "\<lparr>up_endpoint = ''/org/repo'', up_oid = demo_oid,
      up_tmp = tmp, up_steps = [], up_result = None\<rparr>"] show ?thesis by simp
qed

end
