(* ===== verification/Lock_System.thy ===== *)
theory Lock_System
  imports Lock_Store
begin

text \<open>
  Several server processes on one data directory. Each has its own cache; all share the lock files. A
  step is one whole call by one process, or a process starting afresh. Every call refines an abstract
  lock table, a set of locks per endpoint, whatever the interleaving and wherever the system fails.
\<close>

section \<open>Processes and steps\<close>

record lock_system =
  sys_base :: string
  sys_fs :: lock_fs
  sys_caches :: "nat \<Rightarrow> lock_cache"

definition proc :: "lock_system \<Rightarrow> nat \<Rightarrow> lock_store" where
  "proc sys i = \<lparr>st_base = sys_base sys, st_cache = sys_caches sys i, st_fs = sys_fs sys\<rparr>"

definition put_back :: "lock_system \<Rightarrow> nat \<Rightarrow> lock_store \<Rightarrow> lock_system" where
  "put_back sys i s = sys\<lparr>sys_fs := st_fs s, sys_caches := (sys_caches sys)(i := st_cache s)\<rparr>"

datatype lock_call =
    CallCreate string string string
  | CallUnlock string string string bool
  | CallList string list_options bool

datatype lock_reply = ReplyLock lock "lock_error option" | ReplyPage "lock_error + (lock list \<times> string)"

fun call_endpoint :: "lock_call \<Rightarrow> string" where
  "call_endpoint (CallCreate e _ _) = e"
| "call_endpoint (CallUnlock e _ _ _) = e"
| "call_endpoint (CallList e _ _) = e"

fun run_call :: "unicode_tables \<Rightarrow> lock_store \<Rightarrow> lock_env \<Rightarrow> lock_call \<Rightarrow> lock_store \<times> lock_reply" where
  "run_call u s env (CallCreate e path owner) = (case Create s env e path owner of (s', l, err) \<Rightarrow> (s', ReplyLock l err))"
| "run_call u s env (CallUnlock e i requester force) =
     (case Unlock u s env e i requester force of (s', l, err) \<Rightarrow> (s', ReplyLock l err))"
| "run_call u s env (CallList e opts ff) = (case List_locks s env ff e opts of (s', r) \<Rightarrow> (s', ReplyPage r))"

text \<open>
  What is relied on of the system: the id \<^verbatim>\<open>uuid.New\<close> draws is not in use, a file just written is not
  mistaken for one a cache remembers (its inode number or its modification time differs), and nobody
  deletes a lock file while a call reads it.
\<close>

definition fresh_env :: "lock_system \<Rightarrow> lock_env \<Rightarrow> string \<Rightarrow> bool" where
  "fresh_env sys env e \<longleftrightarrow> le_read env \<noteq> ReadGone \<and>
     le_uuid env \<notin> lk_ID ` locks_of (disk_locks (sys_base sys) (sys_fs sys) e) \<and>
     (\<forall>i key c. sys_caches sys i key = Some c \<longrightarrow>
        fi_ino (c_info c) \<noteq> le_ino env \<or> fi_mtime (c_info c) \<noteq> le_now env)"

datatype lock_label = Called nat lock_call lock_reply | Restarted nat

inductive lock_step :: "unicode_tables \<Rightarrow> lock_system \<Rightarrow> lock_label \<Rightarrow> lock_system \<Rightarrow> bool" for u where
  call: "fresh_env sys env (call_endpoint c) \<Longrightarrow> run_call u (proc sys i) env c = (s', reply) \<Longrightarrow>
     lock_step u sys (Called i c reply) (put_back sys i s')"
| restart: "lock_step u sys (Restarted i) (sys\<lparr>sys_caches := (sys_caches sys)(i := Map.empty)\<rparr>)"

inductive lock_run :: "unicode_tables \<Rightarrow> lock_system \<Rightarrow> lock_label list \<Rightarrow> lock_system \<Rightarrow> bool" for u where
  run_nil: "lock_run u sys [] sys"
| run_cons: "lock_step u sys lbl sys1 \<Longrightarrow> lock_run u sys1 lbls sys2 \<Longrightarrow> lock_run u sys (lbl # lbls) sys2"

inductive_cases lock_step_cases: "lock_step u sys lbl sys'"

section \<open>The abstract lock table\<close>

type_synonym lock_table = "string \<Rightarrow> lock set"

definition table :: "lock_system \<Rightarrow> lock_table" where
  "table sys e = locks_of (disk_locks (sys_base sys) (sys_fs sys) e)"

text \<open>Changing the locks of an endpoint changes them for every endpoint with its directory name.\<close>

definition set_table :: "lock_table \<Rightarrow> string \<Rightarrow> lock set \<Rightarrow> lock_table" where
  "set_table T e L = (\<lambda>e'. if Endpoint e' = Endpoint e then L else T e')"

definition spec_create :: "lock_table \<Rightarrow> string \<Rightarrow> string \<Rightarrow> string \<Rightarrow> lock \<Rightarrow> lock_error option \<Rightarrow> lock_table \<Rightarrow> bool" where
  "spec_create T e path owner l err T' \<longleftrightarrow>
     (case err of
        None \<Rightarrow> path \<notin> lk_Path ` T e \<and> lk_ID l \<notin> lk_ID ` T e \<and> lk_Path l = path \<and> lk_Owner l = \<lparr>owner_Name = owner\<rparr> \<and>
          T' = set_table T e (insert l (T e))
      | Some ErrLockExists \<Rightarrow> l \<in> T e \<and> lk_Path l = path \<and> T' = T
      | Some _ \<Rightarrow> T' = T)"

definition spec_unlock :: "unicode_tables \<Rightarrow> lock_table \<Rightarrow> string \<Rightarrow> string \<Rightarrow> string \<Rightarrow> bool \<Rightarrow> lock \<Rightarrow> lock_error option
    \<Rightarrow> lock_table \<Rightarrow> bool" where
  "spec_unlock u T e i requester force l err T' \<longleftrightarrow>
     (case err of
        None \<Rightarrow> l \<in> T e \<and> lk_ID l = i \<and> (force \<or> EqualFold u (owner_Name (lk_Owner l)) requester) \<and>
          T' = set_table T e (T e - {l})
      | Some ErrLockNotFound \<Rightarrow> i \<notin> lk_ID ` T e \<and> T' = T
      | Some ErrLockNotOwner \<Rightarrow> \<not> force \<and> (\<exists>k \<in> T e. lk_ID k = i \<and> \<not> EqualFold u (owner_Name (lk_Owner k)) requester) \<and> T' = T
      | Some _ \<Rightarrow> T' = T)"

definition spec_list :: "lock_table \<Rightarrow> string \<Rightarrow> list_options \<Rightarrow> lock_error + (lock list \<times> string) \<Rightarrow> lock_table \<Rightarrow> bool" where
  "spec_list T e opts r T' \<longleftrightarrow> T' = T \<and>
     (r \<in> {Inl ErrLockContext, Inl ErrLockIO} \<or> (\<exists>t. lockset_wf t \<and> locks_of t = T e \<and> r = list_locks t opts))"

fun spec_step :: "unicode_tables \<Rightarrow> lock_table \<Rightarrow> lock_label \<Rightarrow> lock_table \<Rightarrow> bool" where
  "spec_step u T (Called i (CallCreate e path owner) (ReplyLock l err)) T' \<longleftrightarrow> spec_create T e path owner l err T'"
| "spec_step u T (Called i (CallUnlock e k requester force) (ReplyLock l err)) T' \<longleftrightarrow> spec_unlock u T e k requester force l err T'"
| "spec_step u T (Called i (CallList e opts ff) (ReplyPage r)) T' \<longleftrightarrow> spec_list T e opts r T'"
| "spec_step u T (Restarted i) T' \<longleftrightarrow> T' = T"
| "spec_step u T _ T' \<longleftrightarrow> False"

section \<open>Refinement\<close>

definition sys_ok :: "lock_system \<Rightarrow> bool" where
  "sys_ok sys \<longleftrightarrow> (\<forall>i. store_ok (proc sys i))"

lemma table_cong: "Endpoint e = Endpoint e' \<Longrightarrow> table sys e = table sys e'"
  by (simp add: table_def disk_locks_def lockFilePath_def)

lemma op_sound_refl: "store_ok s \<Longrightarrow> op_sound s env e s"
  by (simp add: op_sound_def)

lemma run_call_sound:
  assumes "store_ok s" "le_read env \<noteq> ReadGone"
    and "le_uuid env \<notin> lk_ID ` locks_of (disk_locks (st_base s) (st_fs s) (call_endpoint c))"
    and "run_call u s env c = (s', reply)"
  shows "op_sound s env (call_endpoint c) s'"
  using assms
  by (cases c) (auto split: prod.splits sum.splits if_splits simp: List_locks_def
      intro: op_sound_refl Create_spec(1) Unlock_spec(1) loadLocks_spec(1))

text \<open>Another process's cache survives: the file just written does not pass for the one it remembers.\<close>

lemma other_cache_ok:
  assumes "cache_ok base fs cache" "fs_step base env e fs fs'"
    and "\<And>key c. cache key = Some c \<Longrightarrow> fi_ino (c_info c) \<noteq> le_ino env \<or> fi_mtime (c_info c) \<noteq> le_now env"
  shows "cache_ok base fs' cache"
  unfolding cache_ok_def
proof (intro allI impI)
  fix key c assume c: "cache key = Some c"
  with assms(1) have k: "safeEndpointPattern key" "entry_ok fs (key_path base key) c" by (auto simp: cache_ok_def)
  from k(1) assms(2) consider "fs' (key_path base key) = fs (key_path base key)"
    | data where "fs' (key_path base key) = Some (written_file env data)" by (auto simp: fs_step_def)
  then show "safeEndpointPattern key \<and> entry_ok fs' (key_path base key) c"
    using k assms(3) [OF c] by cases (auto simp: entry_ok_def written_file_def same_info_def file_stat_def)
qed

lemma call_keeps_sys_ok:
  assumes "sys_ok sys" "fresh_env sys env (call_endpoint c)" "run_call u (proc sys i) env c = (s', reply)"
  shows "sys_ok (put_back sys i s')"
  unfolding sys_ok_def
proof
  fix j
  have ok: "store_ok (proc sys i)" "store_ok (proc sys j)" using assms(1) by (simp_all add: sys_ok_def)
  have o: "op_sound (proc sys i) env (call_endpoint c) s'"
    using assms(2,3) ok(1) by (intro run_call_sound) (auto simp: fresh_env_def proc_def)
  have "cache_ok (sys_base sys) (sys_fs sys) (sys_caches sys j)" using ok(2) by (simp add: store_ok_def proc_def)
  moreover have "fs_step (sys_base sys) env (call_endpoint c) (sys_fs sys) (st_fs s')"
    using o by (simp add: op_sound_def proc_def)
  moreover have "fi_ino (c_info d) \<noteq> le_ino env \<or> fi_mtime (c_info d) \<noteq> le_now env"
    if "sys_caches sys j key = Some d" for key d
    using assms(2) that by (simp add: fresh_env_def)
  ultimately have "cache_ok (sys_base sys) (st_fs s') (sys_caches sys j)" by (rule other_cache_ok)
  with o show "store_ok (proc (put_back sys i s') j)"
    by (auto simp: put_back_def proc_def op_sound_def store_ok_def)
qed

text \<open>The table after a call: the endpoint's own locks change as the operation says, the others stay.\<close>

lemma table_put_back:
  assumes "op_sound (proc sys i) env e s'"
  shows "table (put_back sys i s') = set_table (table sys) e (locks_of (disk_locks (sys_base sys) (st_fs s') e))"
proof
  fix e'
  have step: "fs_step (sys_base sys) env e (sys_fs sys) (st_fs s')"
    using assms by (simp add: op_sound_def proc_def)
  show "table (put_back sys i s') e' = set_table (table sys) e (locks_of (disk_locks (sys_base sys) (st_fs s') e)) e'"
    using fs_step_other [OF step, of e']
    by (simp add: table_def set_table_def put_back_def disk_locks_def lockFilePath_def)
qed

lemma set_table_same: "set_table (table sys) e (table sys e) = table sys"
  unfolding set_table_def by (rule ext) (simp, metis table_cong)

lemma table_wf:
  assumes "sys_ok sys"
  shows "lockset_wf (disk_locks (sys_base sys) (sys_fs sys) e)"
proof -
  have "store_ok (proc sys 0)" using assms by (simp add: sys_ok_def)
  then show ?thesis by (simp add: store_ok_def proc_def disk_locks_wf)
qed

lemma create_refines:
  assumes "sys_ok sys" "fresh_env sys env e" "Create (proc sys i) env e path owner = (s', l, err)"
  shows "spec_create (table sys) e path owner l err (table (put_back sys i s'))"
proof -
  let ?t = "disk_locks (sys_base sys) (sys_fs sys) e"
  have ok: "store_ok (proc sys i)" using assms(1) by (simp add: sys_ok_def)
  have pf: "st_base (proc sys i) = sys_base sys" "st_fs (proc sys i) = sys_fs sys" by (simp_all add: proc_def)
  have f: "le_read env \<noteq> ReadGone" "le_uuid env \<notin> lk_ID ` locks_of ?t" using assms(2) by (simp_all add: fresh_env_def)
  note sp = Create_spec [OF ok f(1) assms(3), unfolded pf, OF f(2)]
  note T = table_put_back [OF sp(1)] and wf = table_wf [OF assms(1), of e]
  show ?thesis
  proof (cases err)
    case None
    with sp(2) have l: "l = new_lock env path owner" "path \<notin> lk_Path ` locks_of ?t"
        "disk_locks (sys_base sys) (st_fs s') e = add ?t l"
      by (auto simp: lockset.by_path_None [OF wf])
    moreover have "locks_of (add ?t l) = insert l (locks_of ?t)"
      using lockset.insert_spec [OF wf, of l] l f(2) by (simp add: new_lock_def)
    ultimately show ?thesis using None f(2) T by (simp add: spec_create_def table_def new_lock_def)
  next
    case (Some x)
    with sp(4) T have same: "table (put_back sys i s') = table sys"
      using set_table_same [of sys e] by (simp add: table_def)
    moreover have "l \<in> locks_of ?t \<and> lk_Path l = path" if "x = ErrLockExists"
      using sp(3) Some that by (simp add: lockset.by_path_spec [OF wf])
    ultimately show ?thesis using Some by (auto simp: spec_create_def table_def [of sys e] split: lock_error.split)
  qed
qed

lemma unlock_refines:
  assumes "sys_ok sys" "fresh_env sys env e" "Unlock u (proc sys i) env e k requester force = (s', l, err)"
  shows "spec_unlock u (table sys) e k requester force l err (table (put_back sys i s'))"
proof -
  let ?t = "disk_locks (sys_base sys) (sys_fs sys) e"
  have ok: "store_ok (proc sys i)" using assms(1) by (simp add: sys_ok_def)
  have pf: "st_base (proc sys i) = sys_base sys" "st_fs (proc sys i) = sys_fs sys" by (simp_all add: proc_def)
  have f: "le_read env \<noteq> ReadGone" using assms(2) by (simp add: fresh_env_def)
  note sp = Unlock_spec [OF ok f assms(3), unfolded pf]
  note T = table_put_back [OF sp(1)] and wf = table_wf [OF assms(1), of e]
  show ?thesis
  proof (cases err)
    case None
    with sp(2) have l: "l \<in> locks_of ?t" "lk_ID l = k" "force \<or> EqualFold u (owner_Name (lk_Owner l)) requester"
        "disk_locks (sys_base sys) (st_fs s') e = remove ?t l"
      by (auto simp: lockset.by_id_spec [OF wf])
    with lockset.delete_spec [OF wf l(1)] None T show ?thesis by (simp add: spec_unlock_def table_def)
  next
    case (Some x)
    with sp(5) T have same: "table (put_back sys i s') = table sys"
      using set_table_same [of sys e] by (simp add: table_def)
    moreover have "k \<notin> lk_ID ` locks_of ?t" if "x = ErrLockNotFound"
      using sp(3) Some that by (simp add: lockset.by_id_None [OF wf])
    moreover have "\<not> force \<and> (\<exists>j \<in> locks_of ?t. lk_ID j = k \<and> \<not> EqualFold u (owner_Name (lk_Owner j)) requester)"
      if "x = ErrLockNotOwner"
      using sp(4) Some that by (auto simp: lockset.by_id_spec [OF wf])
    ultimately show ?thesis using Some by (auto simp: spec_unlock_def table_def [of sys e] split: lock_error.split)
  qed
qed

lemma list_refines:
  assumes "sys_ok sys" "fresh_env sys env e" "List_locks (proc sys i) env ff e opts = (s', r)"
  shows "spec_list (table sys) e opts r (table (put_back sys i s'))"
proof (cases "le_ctx env")
  case True
  with assms(3) have "s' = proc sys i" "r = Inl ErrLockContext" by (simp_all add: List_locks_def)
  then show ?thesis by (simp add: spec_list_def put_back_def proc_def table_def)
next
  case False
  have ok: "store_ok (proc sys i)" using assms(1) by (simp add: sys_ok_def)
  have pf: "st_base (proc sys i) = sys_base sys" "st_fs (proc sys i) = sys_fs sys" by (simp_all add: proc_def)
  obtain s1 r1 where l: "loadLocks (proc sys i) env ff e = (s1, r1)" by force
  have f: "le_read env \<noteq> ReadGone" using assms(2) by (simp add: fresh_env_def)
  note sp = loadLocks_spec [OF ok f l, unfolded pf]
  have s1: "s' = s1" "r = (case r1 of Inl x \<Rightarrow> Inl x | Inr t \<Rightarrow> list_locks t opts)"
    using assms(3) False l by (auto simp: List_locks_def split: sum.splits)
  have "table (put_back sys i s') = table sys"
    using table_put_back [OF sp(1)] sp(2) set_table_same [of sys e] s1(1) by (simp add: table_def)
  with sp(3) s1(2) table_wf [OF assms(1), of e] show ?thesis by (auto simp: spec_list_def table_def [of sys e])
qed

lemma step_refines:
  assumes "sys_ok sys" "lock_step u sys lbl sys'"
  shows "sys_ok sys' \<and> spec_step u (table sys) lbl (table sys')"
  using assms(2)
proof cases
  case (restart i)
  have "store_ok (s\<lparr>st_cache := Map.empty\<rparr>)" if "store_ok s" for s
    using that by (simp add: store_ok_def cache_ok_def)
  from this [of "proc sys i"] restart assms(1) show ?thesis by (auto simp: sys_ok_def proc_def table_def)
next
  case (call env c i s' reply)
  with assms(1) have "sys_ok sys'" by (auto intro: call_keeps_sys_ok)
  moreover have "spec_step u (table sys) lbl (table sys')"
    using call assms(1)
    by (cases c) (auto split: prod.splits intro: create_refines unlock_refines list_refines)
  ultimately show ?thesis ..
qed

lemma run_keeps_sys_ok: "lock_run u sys lbls sys' \<Longrightarrow> sys_ok sys \<Longrightarrow> sys_ok sys'"
  by (induction rule: lock_run.induct) (auto dest: step_refines)

section \<open>Histories\<close>

text \<open>Labels that take a lock away, and that take its path again.\<close>

fun releases :: "string \<Rightarrow> lock \<Rightarrow> lock_label \<Rightarrow> bool" where
  "releases e l (Called i (CallUnlock e' k requester force) (ReplyLock l' None)) \<longleftrightarrow> Endpoint e' = Endpoint e \<and> l' = l"
| "releases e l _ \<longleftrightarrow> False"

fun acquires :: "string \<Rightarrow> string \<Rightarrow> lock_label \<Rightarrow> bool" where
  "acquires e p (Called i (CallCreate e' path owner) (ReplyLock l None)) \<longleftrightarrow> Endpoint e' = Endpoint e \<and> path = p"
| "acquires e p _ \<longleftrightarrow> False"

lemma spec_create_keeps:
  assumes "spec_create T e' path owner k err T'" "l \<in> T e" "\<And>e'. Endpoint e' = Endpoint e \<Longrightarrow> T e' = T e"
  shows "l \<in> T' e \<and> \<not> (err = None \<and> Endpoint e' = Endpoint e \<and> path = lk_Path l)"
proof (cases err)
  case None
  show ?thesis
  proof (cases "Endpoint e' = Endpoint e")
    case True
    with None assms(1,2) assms(3) [OF True] show ?thesis by (auto simp: spec_create_def set_table_def)
  qed (use None assms(1,2) in \<open>auto simp: spec_create_def set_table_def\<close>)
next
  case (Some x)
  with assms(1) have "T' = T" by (cases x) (auto simp: spec_create_def)
  with Some assms(2) show ?thesis by simp
qed

lemma spec_unlock_keeps:
  assumes "spec_unlock u T e' i requester force k err T'" "l \<in> T e" "\<And>e'. Endpoint e' = Endpoint e \<Longrightarrow> T e' = T e"
    and "\<not> (err = None \<and> Endpoint e' = Endpoint e \<and> k = l)"
  shows "l \<in> T' e"
proof (cases err)
  case None
  show ?thesis
  proof (cases "Endpoint e' = Endpoint e")
    case True
    with None assms(1,2,4) assms(3) [OF True] show ?thesis by (auto simp: spec_unlock_def set_table_def)
  qed (use None assms(1,2) in \<open>auto simp: spec_unlock_def set_table_def\<close>)
next
  case (Some x)
  with assms(1) have "T' = T" by (cases x) (auto simp: spec_unlock_def)
  with assms(2) show ?thesis by simp
qed

lemma step_keeps_lock:
  assumes "spec_step u T lbl T'" "l \<in> T e" "\<not> releases e l lbl" "\<And>e'. Endpoint e' = Endpoint e \<Longrightarrow> T e' = T e"
  shows "l \<in> T' e \<and> \<not> acquires e (lk_Path l) lbl"
proof (cases lbl)
  case (Restarted i)
  with assms(1,2) show ?thesis by simp
next
  case (Called i c reply)
  show ?thesis
  proof (cases c)
    case (CallCreate e' path owner)
    with assms(1) Called obtain k err where r: "reply = ReplyLock k err" "spec_create T e' path owner k err T'"
      by (cases reply) auto
    from spec_create_keeps [OF r(2) assms(2,4)] Called CallCreate r(1) show ?thesis by (cases err) auto
  next
    case (CallUnlock e' j requester force)
    with assms(1) Called obtain k err where r: "reply = ReplyLock k err" "spec_unlock u T e' j requester force k err T'"
      by (cases reply) auto
    with assms(3) Called CallUnlock have "\<not> (err = None \<and> Endpoint e' = Endpoint e \<and> k = l)" by auto
    from spec_unlock_keeps [OF r(2) assms(2,4) this] Called CallUnlock show ?thesis by simp
  next
    case (CallList e' opts ff)
    with assms(1,2) Called show ?thesis by (cases reply) (auto simp: spec_list_def)
  qed
qed

lemma run_keeps_lock:
  assumes "lock_run u sys lbls sys'" "sys_ok sys" "l \<in> table sys e" "\<forall>lbl \<in> set lbls. \<not> releases e l lbl"
  shows "l \<in> table sys' e \<and> (\<forall>lbl \<in> set lbls. \<not> acquires e (lk_Path l) lbl)"
  using assms
proof (induction rule: lock_run.induct)
  case (run_cons sys lbl sys1 lbls sys2)
  have r: "sys_ok sys1" "spec_step u (table sys) lbl (table sys1)"
    using step_refines [OF run_cons.prems(1) run_cons.hyps(1)] by auto
  have nr: "\<not> releases e l lbl" "\<forall>lbl \<in> set lbls. \<not> releases e l lbl" using run_cons.prems(3) by simp_all
  have "l \<in> table sys1 e \<and> \<not> acquires e (lk_Path l) lbl"
    by (rule step_keeps_lock [OF r(2) run_cons.prems(2) nr(1) table_cong])
  with run_cons.IH [OF r(1) _ nr(2)] show ?case by simp
qed simp

section \<open>Sample data\<close>

definition demo_lock :: lock where
  "demo_lock = sample_lock ''a1'' ''m.bin'' ''2026-01-01T00:00:00Z''"

definition demo_data :: bytes where
  "demo_data = json_print (JArr (map lock_json [demo_lock]))"

definition demo_file :: lock_file where
  "demo_file = \<lparr>lf_data = demo_data, lf_ino = 3, lf_mtime = 5\<rparr>"

definition demo_system :: lock_system where
  "demo_system = \<lparr>sys_base = ''data'', sys_fs = [lockFilePath ''data'' ''/org/repo'' \<mapsto> demo_file],
     sys_caches = (\<lambda>_. Map.empty)\<rparr>"

definition demo_lock_env :: lock_env where
  "demo_lock_env = \<lparr>le_ctx = False, le_flock = FlockHeld, le_stat = False, le_read = ReadOk, le_mkdir = False,
     le_names = [7], le_write = None, le_sync = False, le_close = False, le_rename = False, le_remove = False,
     le_restat = False, le_ino = 4, le_now = 9, le_uuid = ''b2''\<rparr>"

lemma demo_lock_text: "lock_text_valid demo_lock"
  by (simp add: lock_text_valid_def demo_lock_def sample_lock_def ValidString_ascii)

lemma demo_marshal: "marshal_locks [demo_lock] = Some demo_data"
  by (simp add: marshal_Some demo_lock_text demo_data_def)

lemma demo_file_ok: "file_ok demo_data" "decoded demo_data = newLockSet [demo_lock]"
  using unmarshal_marshal [OF demo_marshal] by (simp_all add: file_ok_def decoded_def)

lemma demo_locks:
  "disk_locks (sys_base demo_system) (sys_fs demo_system) ''/org/repo'' = newLockSet [demo_lock]"
  "table demo_system ''/org/repo'' = {demo_lock}"
  using lockset_wf_newLockSet(2) [of "[demo_lock]"]
  by (simp_all add: table_def disk_locks_def demo_system_def demo_file_def demo_file_ok)

lemma demo_sys_ok: "sys_ok demo_system"
  using demo_file_ok(1)
  by (auto simp: sys_ok_def store_ok_def proc_def demo_system_def files_ok_def cache_ok_def demo_file_def split: if_splits)

lemma demo_fresh: "fresh_env demo_system demo_lock_env ''/org/repo''"
  using demo_locks(2) by (simp add: fresh_env_def table_def demo_lock_env_def demo_lock_def sample_lock_def)
    (simp add: demo_system_def)

abbreviation demo_call :: lock_call where
  "demo_call \<equiv> CallCreate ''/org/repo'' ''z.bin'' ''bob''"

lemma demo_step:
  "lock_step ascii_tables demo_system
     (Called 0 demo_call (snd (run_call ascii_tables (proc demo_system 0) demo_lock_env demo_call)))
     (put_back demo_system 0 (fst (run_call ascii_tables (proc demo_system 0) demo_lock_env demo_call)))"
  by (rule lock_step.call [of _ demo_lock_env]) (simp_all add: demo_fresh del: run_call.simps)

lemma demo_good:
  "store_ok (proc demo_system 0)" "lock_env_good demo_lock_env"
  "temp_free (st_fs (proc demo_system 0)) demo_lock_env (lockFilePath (st_base (proc demo_system 0)) ''/org/repo'')"
proof -
  show "store_ok (proc demo_system 0)" using demo_sys_ok by (simp add: sys_ok_def)
  show "lock_env_good demo_lock_env" by (simp add: lock_env_good_def demo_lock_env_def)
  have "lock_temp p 7 \<noteq> lockFilePath ''data'' ''/org/repo''" for p
    using lockFilePath_not_temp [of "''data''" "''/org/repo''" "Dir p @ ''/'' @ TempFilePrefix @ ''locks-''" 7, symmetric]
    by (simp add: lock_temp_def)
  then show "temp_free (st_fs (proc demo_system 0)) demo_lock_env (lockFilePath (st_base (proc demo_system 0)) ''/org/repo'')"
    by (auto simp: temp_free_def demo_lock_env_def proc_def demo_system_def)
qed

section \<open>Properties\<close>

text \<open>C2: Every call to \<^verbatim>\<open>Create\<close>, \<^verbatim>\<open>List\<close> or \<^verbatim>\<open>Unlock\<close> by any of several server processes on one directory,
  and every restart, is a step of the abstract lock table: \<^verbatim>\<open>Create\<close> adds a lock on a free path or reports
  the lock that is there, \<^verbatim>\<open>Unlock\<close> removes the lock with the id only for its owner or by force, \<^verbatim>\<open>List\<close>
  shows the current locks, every failure leaves the table as it was; and the caches of all processes stay
  consistent with the files.\<close>

theorem lock_store_refines:
  assumes "sys_ok sys" "lock_step u sys lbl sys'"
  shows "sys_ok sys' \<and> spec_step u (table sys) lbl (table sys')"
  using assms by (rule step_refines)

theorem lock_store_refines_witness:
  "sys_ok (put_back demo_system 0 (fst (run_call ascii_tables (proc demo_system 0) demo_lock_env demo_call)))"
  using lock_store_refines [OF demo_sys_ok demo_step] by blast

text \<open>C14: A lock is exclusive: from the moment it is held, through any sequence of calls and restarts of any
  processes, it stays held and no \<^verbatim>\<open>Create\<close> for its path succeeds, until an \<^verbatim>\<open>Unlock\<close> returns it.\<close>

theorem lock_exclusive:
  assumes "lock_run u sys lbls sys'" "sys_ok sys" "l \<in> table sys e" "\<forall>lbl \<in> set lbls. \<not> releases e l lbl"
  shows "l \<in> table sys' e \<and> (\<forall>lbl \<in> set lbls. \<not> acquires e (lk_Path l) lbl)"
  using assms by (rule run_keeps_lock)

theorem lock_exclusive_witness:
  "demo_lock \<in> table (put_back demo_system 0 (fst (run_call ascii_tables (proc demo_system 0) demo_lock_env demo_call))) ''/org/repo''"
proof -
  let ?lbl = "Called 0 demo_call (snd (run_call ascii_tables (proc demo_system 0) demo_lock_env demo_call))"
  have "\<forall>lbl \<in> set [?lbl]. \<not> releases ''/org/repo'' demo_lock lbl" by simp
  with lock_exclusive [OF run_cons [OF demo_step run_nil] demo_sys_ok] show ?thesis by (auto simp: demo_locks)
qed

text \<open>C30: The cache is transparent: after any history of calls by any processes, a \<^verbatim>\<open>List\<close> whose system calls
  succeed returns the page of the locks that are in the lock file at that moment, whether or not it came
  from the cache.\<close>

theorem cached_list_is_current:
  assumes "lock_run u sys lbls sys'" "sys_ok sys" "lock_env_good env"
  shows "snd (List_locks (proc sys' i) env ff e opts) = list_locks (disk_locks (sys_base sys') (sys_fs sys') e) opts"
proof -
  have ok: "store_ok (proc sys' i)" using run_keeps_sys_ok [OF assms(1,2)] by (simp add: sys_ok_def)
  obtain s1 r where l: "loadLocks (proc sys' i) env ff e = (s1, r)" by force
  have "r = Inr (disk_locks (sys_base sys') (sys_fs sys') e)"
    using loadLocks_spec(3) [OF ok _ l] assms(3) by (auto simp: lock_env_good_def proc_def)
  with l assms(3) show ?thesis by (simp add: List_locks_def lock_env_good_def)
qed

theorem cached_list_is_current_witness:
  "snd (List_locks (proc demo_system 3) demo_lock_env False ''/org/repo'' (page_options [] 10)) =
     Inr ([demo_lock], [])"
proof -
  have "ls_sorted (newLockSet [demo_lock]) = [demo_lock]" by (simp add: newLockSet_def Let_def)
  then show ?thesis
    by (simp add: cached_list_is_current [OF run_nil demo_sys_ok demo_good(2)] demo_locks list_locks_def page_options_def
        list_page_def clamp_limit_def defaultLockLimit_def maxLockLimit_def Let_def)
qed

text \<open>When no system call fails, \<^verbatim>\<open>Create\<close> is decided by the locks in the file alone: it reports
  \<^verbatim>\<open>ErrLockExists\<close> with the lock on the path if there is one, and otherwise succeeds, returns a lock with the
  new id, the path and the owner, and has added exactly that lock to the file.\<close>

theorem create_decided:
  assumes "store_ok s" "lock_env_good env" "temp_free (st_fs s) env (lockFilePath (st_base s) e)"
    and "lock_text_valid (new_lock env path owner)" "Create s env e path owner = (s', l, err)"
    and "le_uuid env \<notin> lk_ID ` locks_of (disk_locks (st_base s) (st_fs s) e)"
  shows "case ls_byPath (disk_locks (st_base s) (st_fs s) e) path of
      Some k \<Rightarrow> err = Some ErrLockExists \<and> l = k \<and>
        disk_locks (st_base s) (st_fs s') e = disk_locks (st_base s) (st_fs s) e
    | None \<Rightarrow> err = None \<and> l = new_lock env path owner \<and>
        locks_of (disk_locks (st_base s) (st_fs s') e) = insert l (locks_of (disk_locks (st_base s) (st_fs s) e))"
proof -
  let ?t = "disk_locks (st_base s) (st_fs s) e"
  have wf: "lockset_wf ?t" using assms(1) by (simp add: store_ok_def disk_locks_wf)
  have ng: "le_read env \<noteq> ReadGone" using assms(2) by (simp add: lock_env_good_def)
  note g = Create_good [OF assms] and sp = Create_spec [OF assms(1) ng assms(5,6)]
  show ?thesis
  proof (cases "ls_byPath ?t path")
    case (Some k)
    then have "path \<in> lk_Path ` locks_of ?t" using lockset.by_path_None [OF wf, of path] by auto
    with Some g sp(3,4) show ?thesis by simp
  next
    case None
    then have p: "path \<notin> lk_Path ` locks_of ?t" by (simp add: lockset.by_path_None [OF wf])
    with g sp(2) have "err = None" "l = new_lock env path owner" "disk_locks (st_base s) (st_fs s') e = add ?t l" by auto
    with None p assms(6) lockset.insert_spec [OF wf, of l] show ?thesis by (simp add: new_lock_def)
  qed
qed

theorem create_decided_witness:
  "snd (snd (Create (proc demo_system 0) demo_lock_env ''/org/repo'' ''z.bin'' ''bob'')) = None \<and>
   fst (snd (Create (proc demo_system 0) demo_lock_env ''/org/repo'' ''m.bin'' ''bob'')) = demo_lock"
proof -
  have t: "lock_text_valid (new_lock demo_lock_env p ''bob'')" if "ascii p" for p
    using that by (simp add: lock_text_valid_def new_lock_def demo_lock_env_def ValidString_ascii)
  have u: "le_uuid demo_lock_env \<notin> lk_ID ` locks_of (disk_locks (st_base (proc demo_system 0)) (st_fs (proc demo_system 0)) ''/org/repo'')"
    using demo_fresh by (simp add: fresh_env_def proc_def)
  note d = create_decided [OF demo_good t _ u]
  have "ls_byPath (newLockSet [demo_lock]) ''z.bin'' = None" "ls_byPath (newLockSet [demo_lock]) ''m.bin'' = Some demo_lock"
    by (simp_all add: newLockSet_def Let_def demo_lock_def sample_lock_def)
  moreover obtain s1 l1 e1 s2 l2 e2 where
    "Create (proc demo_system 0) demo_lock_env ''/org/repo'' ''z.bin'' ''bob'' = (s1, l1, e1)"
    "Create (proc demo_system 0) demo_lock_env ''/org/repo'' ''m.bin'' ''bob'' = (s2, l2, e2)" by (metis prod_cases3)
  ultimately show ?thesis
    using d [of "''z.bin''" s1 l1 e1] d [of "''m.bin''" s2 l2 e2] by (simp add: proc_def demo_locks)
qed

text \<open>When no system call fails, \<^verbatim>\<open>Unlock\<close> is decided by the locks in the file alone: an unknown id is
  \<^verbatim>\<open>ErrLockNotFound\<close>, someone else's lock without force is \<^verbatim>\<open>ErrLockNotOwner\<close> and both leave the file's locks as
  they were; otherwise it succeeds, returns the lock, and has removed exactly that lock.\<close>

theorem unlock_decided:
  assumes "store_ok s" "lock_env_good env" "temp_free (st_fs s) env (lockFilePath (st_base s) e)"
    and "Unlock u s env e i requester force = (s', l, err)"
  shows "case ls_byID (disk_locks (st_base s) (st_fs s) e) i of
      None \<Rightarrow> err = Some ErrLockNotFound \<and> disk_locks (st_base s) (st_fs s') e = disk_locks (st_base s) (st_fs s) e
    | Some k \<Rightarrow>
      if force \<or> EqualFold u (owner_Name (lk_Owner k)) requester
      then err = None \<and> l = k \<and>
        locks_of (disk_locks (st_base s) (st_fs s') e) = locks_of (disk_locks (st_base s) (st_fs s) e) - {k}
      else err = Some ErrLockNotOwner \<and> disk_locks (st_base s) (st_fs s') e = disk_locks (st_base s) (st_fs s) e"
proof -
  let ?t = "disk_locks (st_base s) (st_fs s) e"
  have wf: "lockset_wf ?t" using assms(1) by (simp add: store_ok_def disk_locks_wf)
  have ng: "le_read env \<noteq> ReadGone" using assms(2) by (simp add: lock_env_good_def)
  note g = Unlock_good [OF assms] and sp = Unlock_spec [OF assms(1) ng assms(4)]
  show ?thesis
  proof (cases "ls_byID ?t i")
    case None
    with g sp(5) show ?thesis by simp
  next
    case (Some k)
    then have "k \<in> locks_of ?t" by (simp add: lockset.by_id_spec [OF wf])
    with Some g sp(2,5) lockset.delete_spec [OF wf] show ?thesis by simp
  qed
qed

theorem unlock_decided_witness:
  "snd (snd (Unlock ascii_tables (proc demo_system 0) demo_lock_env ''/org/repo'' ''a1'' ''Alice'' False)) = None \<and>
   snd (snd (Unlock ascii_tables (proc demo_system 0) demo_lock_env ''/org/repo'' ''a1'' ''bob'' False)) = Some ErrLockNotOwner \<and>
   snd (snd (Unlock ascii_tables (proc demo_system 0) demo_lock_env ''/org/repo'' ''zz'' ''bob'' True)) = Some ErrLockNotFound"
proof -
  have b: "ls_byID (newLockSet [demo_lock]) ''a1'' = Some demo_lock" "ls_byID (newLockSet [demo_lock]) ''zz'' = None"
    by (simp_all add: newLockSet_def Let_def demo_lock_def sample_lock_def)
  have o: "EqualFold ascii_tables (owner_Name (lk_Owner demo_lock)) ''Alice''"
    "\<not> EqualFold ascii_tables (owner_Name (lk_Owner demo_lock)) ''bob''"
    by (simp_all add: EqualFold_ascii demo_lock_def sample_lock_def lower_char_def char_of_def bit_iff_odd)
  note d = unlock_decided [OF demo_good, of ascii_tables]
  obtain s1 l1 e1 s2 l2 e2 s3 l3 e3 where
    "Unlock ascii_tables (proc demo_system 0) demo_lock_env ''/org/repo'' ''a1'' ''Alice'' False = (s1, l1, e1)"
    "Unlock ascii_tables (proc demo_system 0) demo_lock_env ''/org/repo'' ''a1'' ''bob'' False = (s2, l2, e2)"
    "Unlock ascii_tables (proc demo_system 0) demo_lock_env ''/org/repo'' ''zz'' ''bob'' True = (s3, l3, e3)"
    by (metis prod_cases3)
  then show ?thesis
    using b o d [of "''a1''" "''Alice''" False s1 l1 e1] d [of "''a1''" "''bob''" False s2 l2 e2]
      d [of "''zz''" "''bob''" True s3 l3 e3]
    by (simp add: proc_def demo_locks)
qed

text \<open>C28: Wherever \<^verbatim>\<open>writeLockFile\<close> is cut off, by a failure or a crash after any of its effects, the lock file
  holds either exactly what it held before or the complete new contents, and the lock files of other
  endpoints are untouched.\<close>

theorem lock_file_atomic:
  assumes "base \<noteq> []" "write_plan fs env (lockFilePath base e) data = (ops, ok)"
  shows "(foldl apply_lock_op fs (take k ops) (lockFilePath base e) = fs (lockFilePath base e) \<or>
      map_option lf_data (foldl apply_lock_op fs (take k ops) (lockFilePath base e)) = Some data) \<and>
    (Endpoint e' \<noteq> Endpoint e \<longrightarrow>
      foldl apply_lock_op fs (take k ops) (lockFilePath base e') = fs (lockFilePath base e')) \<and>
    (ok \<longrightarrow> map_option lf_data (foldl apply_lock_op fs ops (lockFilePath base e)) = Some data)"
proof (intro conjI impI)
  note p = write_plan_prefix [OF assms(2) lockFilePath_not_temp [OF assms(1)]]
  show "foldl apply_lock_op fs (take k ops) (lockFilePath base e) = fs (lockFilePath base e) \<or>
      map_option lf_data (foldl apply_lock_op fs (take k ops) (lockFilePath base e)) = Some data"
    using p(1) [of k] by (auto simp: written_file_def)
  show "ok \<Longrightarrow> map_option lf_data (foldl apply_lock_op fs ops (lockFilePath base e)) = Some data"
    using p(3) by (simp add: written_file_def)
  assume "Endpoint e' \<noteq> Endpoint e"
  then have "lockFilePath base e' \<noteq> lockFilePath base e"
    using key_path_inj [OF assms(1) Endpoint_safe Endpoint_safe] by (auto simp: lockFilePath_key)
  then show "foldl apply_lock_op fs (take k ops) (lockFilePath base e') = fs (lockFilePath base e')"
    using p(2) lockFilePath_not_temp [OF assms(1)] by blast
qed

theorem lock_file_atomic_witness:
  "map_option lf_data (foldl apply_lock_op (sys_fs demo_system)
     (fst (write_plan (sys_fs demo_system) demo_lock_env (lockFilePath ''data'' ''/org/repo'') ''[]''))
     (lockFilePath ''data'' ''/org/repo'')) = Some ''[]''"
proof -
  have "snd (write_plan (sys_fs demo_system) demo_lock_env (lockFilePath ''data'' ''/org/repo'') ''[]'')"
    using write_plan_good [OF demo_good(2)] demo_good(3) by (simp add: proc_def demo_system_def)
  with lock_file_atomic [of "''data''", OF _ surjective_pairing] show ?thesis by blast
qed

text \<open>Reading a lock file back yields the locks that were written, whatever their text (quotes,
  backslashes, control characters and any valid UTF-8 included), and everything that can be read can be
  written.\<close>

theorem lock_file_roundtrip:
  "(marshal_locks ls = Some data \<longrightarrow> unmarshal_locks data = Some ls) \<and>
   (unmarshal_locks data' = Some ls \<longrightarrow> (\<exists>d. marshal_locks ls = Some d \<and> unmarshal_locks d = Some ls))"
proof (intro conjI impI)
  show "marshal_locks ls = Some data \<Longrightarrow> unmarshal_locks data = Some ls" by (rule unmarshal_marshal)
  assume "unmarshal_locks data' = Some ls"
  then have "marshal_locks ls = Some (json_print (JArr (map lock_json ls)))"
    by (auto simp: marshal_Some dest: unmarshal_valid)
  then show "\<exists>d. marshal_locks ls = Some d \<and> unmarshal_locks d = Some ls" using unmarshal_marshal by blast
qed

theorem lock_file_roundtrip_witness:
  "marshal_locks [demo_lock] = Some demo_data \<and> unmarshal_locks demo_data = Some [demo_lock]"
  using lock_file_roundtrip demo_marshal by blast

end
