(* ===== verification/Lock_Threads.thy ===== *)
theory Lock_Threads
  imports Lock_System Clean_Paths
begin

text \<open>
  The lock store under concurrency. A call of \<^verbatim>\<open>FileLockStore\<close> (\<^verbatim>\<open>src/lfs/locks.go\<close>) is cut into the steps between which other
  goroutines and other processes run: it takes the endpoint's mutex, for reading in \<^verbatim>\<open>List\<close>, answers from the cache or takes
  the file lock, shared in \<^verbatim>\<open>List\<close>, reads and decides, writes the new lock file effect by effect, updates the cache, gives
  the file lock back and then the mutex; a process may die at any point. Every step keeps an invariant: mutual exclusion, caches that agree with the files
  unless a call of their process is saving, and for each saving call what its remaining effects will do.
\<close>

section \<open>A call in steps\<close>

fun is_list :: "lock_call \<Rightarrow> bool" where
  "is_list (CallList _ _ _) = True"
| "is_list _ = False"

definition call_key :: "lock_call \<Rightarrow> string" where
  "call_key c = Endpoint (call_endpoint c)"

fun call_error :: "lock_call \<Rightarrow> lock_error \<Rightarrow> lock_reply" where
  "call_error (CallList _ _ _) e = ReplyPage (Inl e)"
| "call_error _ e = ReplyLock zero_lock (Some e)"

text \<open>The answer of \<^verbatim>\<open>loadLocks\<close> from the cache, without the file lock.\<close>

fun from_cache :: "lock_store \<Rightarrow> lock_call \<Rightarrow> lock_reply option" where
  "from_cache s (CallList e opts ff) =
     (case (cached s e, st_fs s (lockFilePath (st_base s) e)) of
        (Some c, Some f) \<Rightarrow> if \<not> ff \<and> same_info (c_info c) (file_stat f) then Some (ReplyPage (list_locks (c_set c) opts)) else None
      | _ \<Rightarrow> None)"
| "from_cache s _ = None"

text \<open>What a call does with the file lock: it reads the locks and answers, or has a changed set to save and the lock to return.\<close>

fun decide_call :: "unicode_tables \<Rightarrow> lock_store \<Rightarrow> lock_env \<Rightarrow> lock_call \<Rightarrow> lock_store \<times> (lock_reply + (lock \<times> lock_set))" where
  "decide_call u s env (CallCreate e path owner) =
     (case readLocks s env e of
        (s2, Inl err) \<Rightarrow> (s2, Inl (ReplyLock zero_lock (Some err)))
      | (s2, Inr lset) \<Rightarrow>
        (case ls_byPath lset path of
           Some existing \<Rightarrow> (s2, Inl (ReplyLock existing (Some ErrLockExists)))
         | None \<Rightarrow> (let lset' = add lset (new_lock env path owner) in (mutate_set s2 e lset', Inr (new_lock env path owner, lset')))))"
| "decide_call u s env (CallUnlock e i requester force) =
     (case readLocks s env e of
        (s2, Inl err) \<Rightarrow> (s2, Inl (ReplyLock zero_lock (Some err)))
      | (s2, Inr lset) \<Rightarrow>
        (case ls_byID lset i of
           None \<Rightarrow> (s2, Inl (ReplyLock zero_lock (Some ErrLockNotFound)))
         | Some lock \<Rightarrow>
           if \<not> force \<and> \<not> EqualFold u (owner_Name (lk_Owner lock)) requester
           then (s2, Inl (ReplyLock zero_lock (Some ErrLockNotOwner)))
           else (let lset' = remove lset lock in (mutate_set s2 e lset', Inr (lock, lset')))))"
| "decide_call u s env (CallList e opts ff) =
     (case readLocks s env e of
        (s2, Inl err) \<Rightarrow> (s2, Inl (ReplyPage (Inl err)))
      | (s2, Inr lset) \<Rightarrow> (s2, Inl (ReplyPage (list_locks lset opts))))"

text \<open>\<^verbatim>\<open>saveLocks\<close>: the effects on the files, and the cache entry after them.\<close>

definition save_plan :: "lock_fs \<Rightarrow> lock_env \<Rightarrow> string \<Rightarrow> lock_set \<Rightarrow> lock_op list \<times> bool" where
  "save_plan fs env path lset =
     (case marshal_locks (ls_sorted lset) of None \<Rightarrow> ([], False) | Some data \<Rightarrow> write_plan fs env path data)"

definition save_cache :: "lock_store \<Rightarrow> lock_env \<Rightarrow> string \<Rightarrow> lock_set \<Rightarrow> bool \<Rightarrow> lock_store" where
  "save_cache s env e lset ok =
     store_cache s e
       (case (ok \<and> \<not> le_restat env, st_fs s (lockFilePath (st_base s) e), marshal_locks (ls_sorted lset)) of
          (True, Some f, Some data) \<Rightarrow> Some \<lparr>c_set = lset, c_data = data, c_info = file_stat f\<rparr>
        | _ \<Rightarrow> None)"

lemma saveLocks_steps:
  assumes "save_plan (st_fs s) env (lockFilePath (st_base s) e) lset = (ops, ok)"
  shows "saveLocks s env e lset =
    (save_cache (s\<lparr>st_fs := foldl apply_lock_op (st_fs s) ops\<rparr>) env e lset ok, if ok then None else Some ErrLockIO)"
  using assms
  by (auto simp: saveLocks_def save_plan_def save_cache_def writeLockFile_def Let_def store_cache_def
      split: option.splits prod.splits bool.splits)

text \<open>Without interference the steps are the call.\<close>

lemma run_call_steps:
  "run_call u s env c =
     (if le_ctx env then (s, call_error c ErrLockContext)
      else case from_cache s c of
        Some reply \<Rightarrow> (s, reply)
      | None \<Rightarrow>
        (case acquireFileLock s env (call_endpoint c) of
           (s1, False) \<Rightarrow> (s1, call_error c ErrLockIO)
         | (s1, True) \<Rightarrow>
           (case decide_call u s1 env c of
              (s2, Inl reply) \<Rightarrow> (s2, reply)
            | (s2, Inr (l, lset)) \<Rightarrow>
              (case save_plan (st_fs s2) env (lockFilePath (st_base s2) (call_endpoint c)) lset of
                 (ops, ok) \<Rightarrow>
                   (save_cache (s2\<lparr>st_fs := foldl apply_lock_op (st_fs s2) ops\<rparr>) env (call_endpoint c) lset ok,
                    if ok then ReplyLock l None else call_error c ErrLockIO)))))"
proof (cases c)
  case (CallCreate e path owner)
  then show ?thesis
    by (auto simp: Create_def new_lock_def Let_def saveLocks_steps split: prod.split sum.split option.split bool.split)
next
  case (CallUnlock e i requester force)
  then show ?thesis
    by (auto simp: Unlock_def Let_def saveLocks_steps split: prod.split sum.split option.split bool.split)
next
  case (CallList e opts ff)
  then show ?thesis
    by (auto simp: List_locks_def loadLocks_def Let_def split: prod.split sum.split option.split bool.split)
qed

section \<open>Threads\<close>

text \<open>Where a running call is: with the mutex; with the file lock too; saving, with the effects left to do, whether they
  will succeed, the lock to return and the set being saved; or done, still with the file lock or without it.\<close>

datatype lock_phase =
    WithMutex
  | WithFile
  | Saving "lock_op list" bool lock lock_set
  | Returning bool lock_reply

fun holds_file :: "lock_phase \<Rightarrow> bool" where
  "holds_file WithMutex = False"
| "holds_file WithFile = True"
| "holds_file (Saving _ _ _ _) = True"
| "holds_file (Returning locked _) = locked"

fun is_saving :: "lock_phase \<Rightarrow> bool" where
  "is_saving (Saving _ _ _ _) = True"
| "is_saving _ = False"

record lock_thread =
  th_proc :: nat
  th_call :: lock_call
  th_env :: lock_env
  th_phase :: lock_phase

type_synonym lock_threads = "nat \<rightharpoonup> lock_thread"

text \<open>\<^verbatim>\<open>sync.RWMutex\<close> per process and endpoint, and \<^verbatim>\<open>flock\<close> on the endpoint's \<^verbatim>\<open>.lock\<close> file, which excludes across processes:
  readers share them with readers.\<close>

definition mutex_free :: "lock_threads \<Rightarrow> nat \<Rightarrow> lock_call \<Rightarrow> bool" where
  "mutex_free ths i c \<longleftrightarrow> (\<forall>t th. ths t = Some th \<longrightarrow> th_proc th = i \<longrightarrow> call_key (th_call th) = call_key c \<longrightarrow> is_list (th_call th) \<and> is_list c)"

definition file_free :: "lock_threads \<Rightarrow> lock_call \<Rightarrow> bool" where
  "file_free ths c \<longleftrightarrow>
     (\<forall>t th. ths t = Some th \<longrightarrow> holds_file (th_phase th) \<longrightarrow> call_key (th_call th) = call_key c \<longrightarrow> is_list (th_call th) \<and> is_list c)"

fun commits :: "lock_op \<Rightarrow> bool" where
  "commits (LockRename _ _) = True"
| "commits _ = False"

text \<open>A file just written is not taken for one that a cache remembers.\<close>

definition fresh_file :: "lock_system \<Rightarrow> lock_env \<Rightarrow> bool" where
  "fresh_file sys env \<longleftrightarrow> (\<forall>i key c. sys_caches sys i key = Some c \<longrightarrow> fi_ino (c_info c) \<noteq> le_ino env \<or> fi_mtime (c_info c) \<noteq> le_now env)"

definition without_proc :: "nat \<Rightarrow> lock_threads \<Rightarrow> lock_threads" where
  "without_proc i ths t = (case ths t of None \<Rightarrow> None | Some th \<Rightarrow> if th_proc th = i then None else Some th)"

text \<open>What is seen of a step: a call begins, takes effect with a reply, or ends with it; a call whose context is cancelled is
  refused before the mutex; a process dies; or nothing.\<close>

datatype lock_event =
    Began nat nat lock_call
  | TookEffect nat lock_reply
  | Ended nat lock_reply
  | Refused nat lock_call lock_reply
  | Died nat
  | Silent

text \<open>Reading happens in one step, as nobody renames the file while the file lock is held.\<close>

inductive thread_step :: "unicode_tables \<Rightarrow> lock_system \<times> lock_threads \<Rightarrow> lock_event \<Rightarrow> lock_system \<times> lock_threads \<Rightarrow> bool" for u where
  cancel: "le_ctx (env :: lock_env) \<Longrightarrow> thread_step u (sys, ths) (Refused i c (call_error c ErrLockContext)) (sys, ths)"
| enter: "ths t = None \<Longrightarrow> \<not> le_ctx env \<Longrightarrow> le_read env \<noteq> ReadGone \<Longrightarrow> mutex_free ths i c \<Longrightarrow>
    thread_step u (sys, ths) (Began t i c) (sys, ths(t \<mapsto> \<lparr>th_proc = i, th_call = c, th_env = env, th_phase = WithMutex\<rparr>))"
| hit: "ths t = Some th \<Longrightarrow> th_phase th = WithMutex \<Longrightarrow> from_cache (proc sys (th_proc th)) (th_call th) = Some reply \<Longrightarrow>
    thread_step u (sys, ths) (TookEffect t reply) (sys, ths(t \<mapsto> th\<lparr>th_phase := Returning False reply\<rparr>))"
| lock: "ths t = Some th \<Longrightarrow> th_phase th = WithMutex \<Longrightarrow> from_cache (proc sys (th_proc th)) (th_call th) = None \<Longrightarrow>
    file_free ths (th_call th) \<Longrightarrow> acquireFileLock (proc sys (th_proc th)) (th_env th) (call_endpoint (th_call th)) = (s, True) \<Longrightarrow>
    thread_step u (sys, ths) Silent (put_back sys (th_proc th) s, ths(t \<mapsto> th\<lparr>th_phase := WithFile\<rparr>))"
| lock_fails: "ths t = Some th \<Longrightarrow> th_phase th = WithMutex \<Longrightarrow> from_cache (proc sys (th_proc th)) (th_call th) = None \<Longrightarrow>
    acquireFileLock (proc sys (th_proc th)) (th_env th) (call_endpoint (th_call th)) = (s, False) \<Longrightarrow>
    thread_step u (sys, ths) (TookEffect t (call_error (th_call th) ErrLockIO))
      (put_back sys (th_proc th) s, ths(t \<mapsto> th\<lparr>th_phase := Returning False (call_error (th_call th) ErrLockIO)\<rparr>))"
| answer: "ths t = Some th \<Longrightarrow> th_phase th = WithFile \<Longrightarrow> decide_call u (proc sys (th_proc th)) (th_env th) (th_call th) = (s, Inl reply) \<Longrightarrow>
    thread_step u (sys, ths) (TookEffect t reply) (put_back sys (th_proc th) s, ths(t \<mapsto> th\<lparr>th_phase := Returning True reply\<rparr>))"
| change: "ths t = Some th \<Longrightarrow> th_phase th = WithFile \<Longrightarrow> decide_call u (proc sys (th_proc th)) (th_env th) (th_call th) = (s, Inr (l, lset)) \<Longrightarrow>
    le_uuid (th_env th) \<notin> lk_ID ` table sys (call_endpoint (th_call th)) \<Longrightarrow>
    save_plan (st_fs s) (th_env th) (lockFilePath (st_base s) (call_endpoint (th_call th))) lset = (ops, ok) \<Longrightarrow>
    thread_step u (sys, ths) Silent (put_back sys (th_proc th) s, ths(t \<mapsto> th\<lparr>th_phase := Saving ops ok l lset\<rparr>))"
| effect: "ths t = Some th \<Longrightarrow> th_phase th = Saving (op # ops) ok l lset \<Longrightarrow> (commits op \<Longrightarrow> fresh_file sys (th_env th)) \<Longrightarrow>
    thread_step u (sys, ths) (if commits op then TookEffect t (ReplyLock l None) else Silent)
      (sys\<lparr>sys_fs := apply_lock_op (sys_fs sys) op\<rparr>, ths(t \<mapsto> th\<lparr>th_phase := Saving ops ok l lset\<rparr>))"
| save: "ths t = Some th \<Longrightarrow> th_phase th = Saving [] ok l lset \<Longrightarrow>
    thread_step u (sys, ths) (if ok then Silent else TookEffect t (call_error (th_call th) ErrLockIO))
      (put_back sys (th_proc th) (save_cache (proc sys (th_proc th)) (th_env th) (call_endpoint (th_call th)) lset ok),
       ths(t \<mapsto> th\<lparr>th_phase := Returning True (if ok then ReplyLock l None else call_error (th_call th) ErrLockIO)\<rparr>))"
| release: "ths t = Some th \<Longrightarrow> th_phase th = Returning True reply \<Longrightarrow>
    thread_step u (sys, ths) Silent (sys, ths(t \<mapsto> th\<lparr>th_phase := Returning False reply\<rparr>))"
| leave: "ths t = Some th \<Longrightarrow> th_phase th = Returning False reply \<Longrightarrow> thread_step u (sys, ths) (Ended t reply) (sys, ths(t := None))"
| crash: "thread_step u (sys, ths) (Died i) (sys\<lparr>sys_caches := (sys_caches sys)(i := Map.empty)\<rparr>, without_proc i ths)"

inductive thread_run :: "unicode_tables \<Rightarrow> lock_system \<times> lock_threads \<Rightarrow> lock_event list \<Rightarrow> lock_system \<times> lock_threads \<Rightarrow> bool" for u where
  thread_run_nil: "thread_run u st [] st"
| thread_run_cons: "thread_step u st ev st' \<Longrightarrow> thread_run u st' evs st'' \<Longrightarrow> thread_run u st (ev # evs) st''"

section \<open>What holds of the threads\<close>

text \<open>The cache entry of an endpoint is in disorder while its process saves: the entry shares the set that is already changed.\<close>

definition saving_at :: "lock_threads \<Rightarrow> nat \<Rightarrow> string \<Rightarrow> bool" where
  "saving_at ths i key \<longleftrightarrow> (\<exists>t th. ths t = Some th \<and> th_proc th = i \<and> call_key (th_call th) = key \<and> is_saving (th_phase th))"

definition settled :: "lock_system \<Rightarrow> lock_threads \<Rightarrow> nat \<Rightarrow> lock_store" where
  "settled sys ths i = (proc sys i)\<lparr>st_cache := (\<lambda>key. if saving_at ths i key then None else sys_caches sys i key)\<rparr>"

text \<open>What a decision found out, which has to stay true until the rename.\<close>

fun prepared :: "unicode_tables \<Rightarrow> lock set \<Rightarrow> lock_call \<Rightarrow> lock \<Rightarrow> lock set \<Rightarrow> bool" where
  "prepared u L (CallCreate e path owner) l L' \<longleftrightarrow> path \<notin> lk_Path ` L \<and> lk_ID l \<notin> lk_ID ` L \<and> lk_Path l = path \<and>
     lk_Owner l = \<lparr>owner_Name = owner\<rparr> \<and> L' = insert l L"
| "prepared u L (CallUnlock e i requester force) l L' \<longleftrightarrow> l \<in> L \<and> lk_ID l = i \<and>
     (force \<or> EqualFold u (owner_Name (lk_Owner l)) requester) \<and> L' = L - {l}"
| "prepared u L (CallList e opts ff) l L' \<longleftrightarrow> False"

definition temp_op :: "string \<Rightarrow> lock_op \<Rightarrow> bool" where
  "temp_op tmp op \<longleftrightarrow> op_only tmp op \<and> \<not> commits op"

abbreviation th_path :: "lock_system \<Rightarrow> lock_thread \<Rightarrow> string" where
  "th_path sys th \<equiv> lockFilePath (sys_base sys) (call_endpoint (th_call th))"

text \<open>A saving call before its rename, after it, or in a save that fails.\<close>

inductive saving_ok :: "unicode_tables \<Rightarrow> lock_system \<Rightarrow> lock_thread \<Rightarrow> lock_op list \<Rightarrow> bool \<Rightarrow> lock \<Rightarrow> lock_set \<Rightarrow> bool" for u sys th where
  unrenamed: "lockset_wf lset \<Longrightarrow> marshal_locks (ls_sorted lset) = Some data \<Longrightarrow> tmp = lock_temp (th_path sys th) n \<Longrightarrow>
    list_all (temp_op tmp) pre \<Longrightarrow> list_all (temp_op tmp) post \<Longrightarrow> foldl apply_lock_op (sys_fs sys) pre tmp = Some (written_file (th_env th) data) \<Longrightarrow>
    prepared u (table sys (call_endpoint (th_call th))) (th_call th) l (locks_of lset) \<Longrightarrow>
    saving_ok u sys th (pre @ LockRename tmp (th_path sys th) # post) True l lset"
| renamed: "lockset_wf lset \<Longrightarrow> marshal_locks (ls_sorted lset) = Some data \<Longrightarrow> list_all (temp_op (lock_temp (th_path sys th) n)) ops \<Longrightarrow>
    sys_fs sys (th_path sys th) = Some (written_file (th_env th) data) \<Longrightarrow> saving_ok u sys th ops True l lset"
| failed: "list_all (temp_op (lock_temp (th_path sys th) n)) ops \<Longrightarrow> saving_ok u sys th ops False l lset"

definition thread_ok :: "unicode_tables \<Rightarrow> lock_system \<Rightarrow> lock_thread \<Rightarrow> bool" where
  "thread_ok u sys th \<longleftrightarrow> le_read (th_env th) \<noteq> ReadGone \<and>
     (case th_phase th of Saving ops ok l lset \<Rightarrow> \<not> is_list (th_call th) \<and> saving_ok u sys th ops ok l lset | _ \<Rightarrow> True)"

text \<open>Mutual exclusion.\<close>

definition exclusive :: "lock_threads \<Rightarrow> bool" where
  "exclusive ths \<longleftrightarrow> (\<forall>t t' th th'. ths t = Some th \<longrightarrow> ths t' = Some th' \<longrightarrow> t \<noteq> t' \<longrightarrow> call_key (th_call th) = call_key (th_call th') \<longrightarrow>
     th_proc th = th_proc th' \<or> (holds_file (th_phase th) \<and> holds_file (th_phase th')) \<longrightarrow> is_list (th_call th) \<and> is_list (th_call th'))"

definition threads_ok :: "unicode_tables \<Rightarrow> lock_system \<times> lock_threads \<Rightarrow> bool" where
  "threads_ok u st \<longleftrightarrow> (case st of (sys, ths) \<Rightarrow> (\<forall>i. store_ok (settled sys ths i)) \<and>
     (\<forall>t th. ths t = Some th \<longrightarrow> thread_ok u sys th) \<and> exclusive ths)"

section \<open>Reading depends on one cache entry\<close>

lemma readLocks_other_cache:
  assumes "cache (Endpoint e) = st_cache s (Endpoint e)"
  shows "readLocks (s\<lparr>st_cache := cache\<rparr>) env e =
    (case readLocks s env e of (s', r) \<Rightarrow> (s'\<lparr>st_cache := cache(Endpoint e := st_cache s' (Endpoint e))\<rparr>, r))"
  using assms
  by (simp add: readLocks_def cached_def store_cache_def Let_def fun_upd_idem split: option.split read_outcome.split)

lemma readLocks_cache_only: "st_cache (fst (readLocks s env e)) = (st_cache s)(Endpoint e := st_cache (fst (readLocks s env e)) (Endpoint e))"
  by (simp add: readLocks_def cached_def store_cache_def Let_def fun_upd_idem eq_commute [of "st_cache s"] split: option.split read_outcome.split)

lemma readLocks_base: "st_base (fst (readLocks s env e)) = st_base s"
  by (simp add: readLocks_def Let_def split: option.split read_outcome.split)

lemma readLocks_entry:
  assumes "readLocks s env e = (s', r)"
  obtains x where "st_base s' = st_base s" "st_cache s' = (st_cache s)(Endpoint e := x)"
    "\<And>cache. cache (Endpoint e) = st_cache s (Endpoint e) \<Longrightarrow>
      readLocks (s\<lparr>st_cache := cache\<rparr>) env e = (s'\<lparr>st_cache := cache(Endpoint e := x)\<rparr>, r)"
  by (rule that [of "st_cache s' (Endpoint e)"])
    (use readLocks_base [of s env e] readLocks_cache_only [of s env e] readLocks_other_cache [of _ e s env] in \<open>simp_all add: assms\<close>)

lemma mutate_entry:
  assumes "st_cache s = (cache0)(Endpoint e := x)"
  obtains y where "st_base (mutate_set s e t) = st_base s" "st_cache (mutate_set s e t) = cache0(Endpoint e := y)"
    "\<And>cache. mutate_set (s\<lparr>st_cache := cache(Endpoint e := x)\<rparr>) e t = (mutate_set s e t)\<lparr>st_cache := cache(Endpoint e := y)\<rparr>"
  by (rule that [of "map_option (\<lambda>c. c\<lparr>c_set := t\<rparr>) x"])
    (simp_all add: mutate_set_def cached_def store_cache_def assms split: option.split)

lemma decide_entry:
  assumes "decide_call u s env c = (s', r)"
  obtains x where "st_base s' = st_base s" "st_cache s' = (st_cache s)(call_key c := x)"
    "\<And>cache. cache (call_key c) = st_cache s (call_key c) \<Longrightarrow>
      decide_call u (s\<lparr>st_cache := cache\<rparr>) env c = (s'\<lparr>st_cache := cache(call_key c := x)\<rparr>, r)"
proof -
  obtain s2 r2 where l: "readLocks s env (call_endpoint c) = (s2, r2)" by fastforce
  from readLocks_entry [OF l] obtain x where e: "st_base s2 = st_base s" "st_cache s2 = (st_cache s)(Endpoint (call_endpoint c) := x)"
    "\<And>cache. cache (Endpoint (call_endpoint c)) = st_cache s (Endpoint (call_endpoint c)) \<Longrightarrow>
      readLocks (s\<lparr>st_cache := cache\<rparr>) env (call_endpoint c) = (s2\<lparr>st_cache := cache(Endpoint (call_endpoint c) := x)\<rparr>, r2)" by blast
  consider (same) "s' = s2" "\<And>cache. cache (call_key c) = st_cache s (call_key c) \<Longrightarrow>
        decide_call u (s\<lparr>st_cache := cache\<rparr>) env c = (s2\<lparr>st_cache := cache(call_key c := x)\<rparr>, r)"
    | (mutated) t where "s' = mutate_set s2 (call_endpoint c) t" "\<And>cache. cache (call_key c) = st_cache s (call_key c) \<Longrightarrow>
        decide_call u (s\<lparr>st_cache := cache\<rparr>) env c = (mutate_set (s2\<lparr>st_cache := cache(call_key c := x)\<rparr>) (call_endpoint c) t, r)"
    using assms l e(3)
    by (cases c) (auto simp: call_key_def Let_def split: sum.splits option.splits if_splits)
  then show thesis
  proof cases
    case same
    with e show thesis by (intro that [of x]) (simp_all add: call_key_def)
  next
    case (mutated t)
    from mutate_entry [OF e(2), of t] obtain y where "st_base (mutate_set s2 (call_endpoint c) t) = st_base s2"
      "st_cache (mutate_set s2 (call_endpoint c) t) = (st_cache s)(Endpoint (call_endpoint c) := y)"
      "\<And>cache. mutate_set (s2\<lparr>st_cache := cache(Endpoint (call_endpoint c) := x)\<rparr>) (call_endpoint c) t =
        (mutate_set s2 (call_endpoint c) t)\<lparr>st_cache := cache(Endpoint (call_endpoint c) := y)\<rparr>" by blast
    with mutated e(1) show thesis by (intro that [of y]) (simp_all add: call_key_def)
  qed
qed

section \<open>Files of one call\<close>

lemma append_last_slash: "c \<notin> set xs \<Longrightarrow> c \<notin> set ys \<Longrightarrow> a @ c # xs = b @ c # ys \<Longrightarrow> a = b"
proof -
  assume ns: "c \<notin> set xs" "c \<notin> set ys" and "a @ c # xs = b @ c # ys"
  then have "rev (a @ c # xs) = rev (b @ c # ys)" by (simp only:)
  then show "a = b" using append_char_inject [of c "rev xs" "rev ys" "rev a" "rev b"] ns by simp
qed

lemma temp_suffix_no_slash: "CHR ''/'' \<notin> set (TempFilePrefix @ ''locks-'' @ format_nat n)"
  using format_nat_digits [of n] by (auto simp: TempFilePrefix_def list_all_iff is_digit_def)

lemma lock_temp_inj:
  assumes "base \<noteq> []" "lock_temp (lockFilePath base e) n = lock_temp (lockFilePath base e') n'"
  shows "Endpoint e = Endpoint e'"
proof -
  have d: "Dir (lockFilePath base x) = Join [base, ''locks'', Endpoint x]" for x
    using Dir_Join [OF assms(1), of "[''locks'', Endpoint x]" "''locks.json''"] key_elems_plain [OF Endpoint_safe, of x]
    by (simp add: lockFilePath_def)
  have "Dir (lockFilePath base e) = Dir (lockFilePath base e')"
    by (rule append_last_slash [OF temp_suffix_no_slash temp_suffix_no_slash]) (use assms(2) in \<open>simp add: lock_temp_def\<close>)
  then have "[''locks'', Endpoint e] = [''locks'', Endpoint e']"
    unfolding d using key_elems_plain [OF Endpoint_safe] by (intro Join_plain_inj [OF assms(1)]) simp_all
  then show ?thesis by simp
qed

lemma lock_temp_not_path: "base \<noteq> [] \<Longrightarrow> lockFilePath base e \<noteq> lock_temp p n" "q @ ''.lock'' \<noteq> lock_temp p n"
proof -
  show "base \<noteq> [] \<Longrightarrow> lockFilePath base e \<noteq> lock_temp p n"
    using lockFilePath_not_temp [of base e "Dir p @ ''/'' @ TempFilePrefix @ ''locks-''" n] by (simp add: lock_temp_def)
  have "last (lock_temp p n) = last (format_nat n)" using format_nat_digits(2) [of n] by (simp add: lock_temp_def)
  moreover have "last (q @ ''.lock'') = CHR ''k''" "\<not> is_digit CHR ''k''" by (simp_all add: is_digit_def)
  ultimately show "q @ ''.lock'' \<noteq> lock_temp p n" using last_format_nat [of n] by metis
qed

lemma temp_op_apply: "temp_op tmp op \<Longrightarrow> q \<noteq> tmp \<Longrightarrow> apply_lock_op fs op q = fs q"
  by (cases op) (auto simp: temp_op_def split: option.splits)

lemma foldl_temp_cong:
  "list_all (temp_op tmp) ops \<Longrightarrow> fs' tmp = fs tmp \<Longrightarrow> foldl apply_lock_op fs' ops tmp = foldl apply_lock_op fs ops tmp"
proof (induction ops arbitrary: fs fs')
  case (Cons op ops)
  have "apply_lock_op fs' op tmp = apply_lock_op fs op tmp"
    using Cons.prems by (cases op) (auto simp: temp_op_def split: option.splits)
  with Cons.IH [of "apply_lock_op fs' op" "apply_lock_op fs op"] Cons.prems(1) show ?case by simp
qed simp

text \<open>A saving call is safe from steps that leave its lock file and its temporary files alone.\<close>

lemma saving_ok_frame:
  assumes "saving_ok u sys th ops ok l lset" "sys_base sys' = sys_base sys" "sys_fs sys' (th_path sys th) = sys_fs sys (th_path sys th)"
    and "\<And>n. sys_fs sys' (lock_temp (th_path sys th) n) = sys_fs sys (lock_temp (th_path sys th) n)"
  shows "saving_ok u sys' th ops ok l lset"
  using assms(1)
proof cases
  case (unrenamed data tmp n pre post)
  have "table sys' (call_endpoint (th_call th)) = table sys (call_endpoint (th_call th))"
    using assms(2,3) by (simp add: table_def disk_locks_def)
  moreover have "foldl apply_lock_op (sys_fs sys') pre tmp = foldl apply_lock_op (sys_fs sys) pre tmp"
    using assms(4) unrenamed by (intro foldl_temp_cong) simp_all
  ultimately show ?thesis
    using unrenamed saving_ok.unrenamed [of lset data tmp sys' th n pre post u l] assms(2) by simp
next
  case (renamed data n)
  then show ?thesis using saving_ok.renamed [of lset data sys' th n ops u l] assms(2,3) by simp
next
  case (failed n)
  then show ?thesis using saving_ok.failed [of sys' th n ops u l lset] assms(2) by simp
qed

lemma thread_ok_frame:
  assumes "thread_ok u sys th" "sys_base sys' = sys_base sys"
    and "is_saving (th_phase th) \<Longrightarrow> sys_fs sys' (th_path sys th) = sys_fs sys (th_path sys th)"
    and "\<And>n. is_saving (th_phase th) \<Longrightarrow> sys_fs sys' (lock_temp (th_path sys th) n) = sys_fs sys (lock_temp (th_path sys th) n)"
  shows "thread_ok u sys' th"
  using assms saving_ok_frame [OF _ assms(2)] by (cases "th_phase th") (simp_all add: thread_ok_def)

lemma saving_ok_phase: "saving_ok u sys th ops ok l lset \<Longrightarrow> saving_ok u sys (th\<lparr>th_phase := ph\<rparr>) ops ok l lset"
proof (induction rule: saving_ok.induct)
  case (unrenamed lset data tmp n pre post l)
  with saving_ok.unrenamed [of lset data tmp sys "th\<lparr>th_phase := ph\<rparr>" n pre post u l] show ?case by simp
next
  case (renamed lset data n ops l)
  with saving_ok.renamed [of lset data sys "th\<lparr>th_phase := ph\<rparr>" n ops u l] show ?case by simp
next
  case (failed n ops l lset)
  with saving_ok.failed [of sys "th\<lparr>th_phase := ph\<rparr>" n ops u l lset] show ?case by simp
qed

text \<open>The next effect of a saving call: on its temporary file, or the rename that puts the new contents into place.\<close>

lemma effect_cases:
  assumes "saving_ok u sys th (op # ops) ok l lset" "sys_base sys \<noteq> []"
  obtains (temp) n where "temp_op (lock_temp (th_path sys th) n) op"
    "saving_ok u (sys\<lparr>sys_fs := apply_lock_op (sys_fs sys) op\<rparr>) th ops ok l lset"
  | (rename) n data where "op = LockRename (lock_temp (th_path sys th) n) (th_path sys th)" "ok" "lockset_wf lset"
    "marshal_locks (ls_sorted lset) = Some data" "sys_fs sys (lock_temp (th_path sys th) n) = Some (written_file (th_env th) data)"
    "prepared u (table sys (call_endpoint (th_call th))) (th_call th) l (locks_of lset)" "list_all (temp_op (lock_temp (th_path sys th) n)) ops"
proof -
  let ?sys = "sys\<lparr>sys_fs := apply_lock_op (sys_fs sys) op\<rparr>"
  have same: "apply_lock_op (sys_fs sys) op (th_path sys th) = sys_fs sys (th_path sys th)"
    if "temp_op (lock_temp (th_path sys th) n) op" for n
    by (rule temp_op_apply [OF that lock_temp_not_path(1) [OF assms(2)]])
  from assms(1) show thesis
  proof cases
    case (unrenamed data tmp n pre post)
    show ?thesis
    proof (cases pre)
      case Nil
      with unrenamed show ?thesis by (intro rename) auto
    next
      case (Cons op' pre')
      with unrenamed have t: "op' = op" "ops = pre' @ LockRename tmp (th_path sys th) # post" "temp_op (lock_temp (th_path sys th) n) op" by auto
      have "table ?sys (call_endpoint (th_call th)) = table sys (call_endpoint (th_call th))"
        using same [OF t(3)] by (simp add: table_def disk_locks_def)
      with saving_ok.unrenamed [of lset data tmp ?sys th n pre' post u l] unrenamed Cons t show ?thesis by (intro temp) auto
    qed
  next
    case (renamed data n)
    then have t: "temp_op (lock_temp (th_path sys th) n) op" by simp
    with saving_ok.renamed [of lset data ?sys th n ops u l] renamed same [OF t] show ?thesis by (intro temp) auto
  next
    case (failed n)
    then have t: "temp_op (lock_temp (th_path sys th) n) op" by simp
    with saving_ok.failed [of ?sys th n ops u l lset] failed show ?thesis by (intro temp) auto
  qed
qed

section \<open>Decisions\<close>

definition store_table :: "lock_store \<Rightarrow> lock_table" where
  "store_table s e = locks_of (disk_locks (st_base s) (st_fs s) e)"

lemma decide_read:
  assumes "store_ok s" "le_read env \<noteq> ReadGone" "readLocks s env (call_endpoint c) = (s2, r)"
  shows "store_ok s2" "st_fs s2 = st_fs s" "r = Inr t \<Longrightarrow> t = disk_locks (st_base s) (st_fs s) (call_endpoint c)" "r = Inl e \<Longrightarrow> e = ErrLockIO"
  using readLocks_ok [OF assms(3,1,2)] readLocks_error [of s env "call_endpoint c" s2] assms(3) by auto

lemma decide_answer:
  assumes "store_ok s" "le_read env \<noteq> ReadGone" "decide_call u s env c = (s', Inl reply)"
  shows "store_ok s'" "st_fs s' = st_fs s" "spec_step u (store_table s) (Called i c reply) (store_table s)"
proof -
  obtain s2 r where l: "readLocks s env (call_endpoint c) = (s2, r)" by fastforce
  note d = decide_read [OF assms(1,2) l]
  let ?t = "disk_locks (st_base s) (st_fs s) (call_endpoint c)"
  have wf: "lockset_wf ?t" using assms(1) by (simp add: store_ok_def disk_locks_wf)
  have s': "s' = s2"
    using assms(3) l by (cases c) (auto simp: Let_def split: sum.splits option.splits if_splits)
  then show "store_ok s'" "st_fs s' = st_fs s" using d by simp_all
  show "spec_step u (store_table s) (Called i c reply) (store_table s)"
  proof (cases r)
    case (Inl e)
    with assms(3) l d(4) show ?thesis by (cases c) (auto simp: spec_create_def spec_unlock_def spec_list_def)
  next
    case (Inr t)
    then have t: "t = ?t" using d(3) by simp
    show ?thesis
    proof (cases c)
      case (CallCreate e path owner)
      with assms(3) l Inr t obtain x where "ls_byPath ?t path = Some x" "reply = ReplyLock x (Some ErrLockExists)"
        by (auto simp: Let_def split: option.splits)
      with lockset.by_path_spec [OF wf, of path x] CallCreate show ?thesis by (simp add: spec_create_def store_table_def)
    next
      case (CallUnlock e i requester force)
      with assms(3) l Inr t consider "ls_byID ?t i = None" "reply = ReplyLock zero_lock (Some ErrLockNotFound)"
        | x where "ls_byID ?t i = Some x" "\<not> force" "\<not> EqualFold u (owner_Name (lk_Owner x)) requester"
          "reply = ReplyLock zero_lock (Some ErrLockNotOwner)"
        by (auto simp: Let_def split: option.splits if_splits)
      then show ?thesis
      proof cases
        case 1
        with lockset.by_id_None [OF wf, of i] CallUnlock show ?thesis by (simp add: spec_unlock_def store_table_def)
      next
        case (2 x)
        with lockset.by_id_spec [OF wf, of i x] CallUnlock show ?thesis by (auto simp: spec_unlock_def store_table_def)
      qed
    next
      case (CallList e opts ff)
      with assms(3) l Inr t wf show ?thesis by (auto simp: spec_list_def store_table_def)
    qed
  qed
qed

lemma decide_change:
  assumes "store_ok s" "le_read env \<noteq> ReadGone" "decide_call u s env c = (s', Inr (l, lset))"
    and "le_uuid env \<notin> lk_ID ` store_table s (call_endpoint c)"
  shows "store_ok (store_cache s' (call_endpoint c) None)" "st_fs s' = st_fs s" "\<not> is_list c" "lockset_wf lset"
    "prepared u (store_table s (call_endpoint c)) c l (locks_of lset)"
proof -
  obtain s2 r where rd: "readLocks s env (call_endpoint c) = (s2, r)" by fastforce
  note d = decide_read [OF assms(1,2) rd]
  let ?t = "disk_locks (st_base s) (st_fs s) (call_endpoint c)"
  have wf: "lockset_wf ?t" using assms(1) by (simp add: store_ok_def disk_locks_wf)
  have r: "r = Inr ?t" using assms(3) rd d(3) by (cases r; cases c) auto
  have s': "s' = mutate_set s2 (call_endpoint c) lset" "\<not> is_list c"
    using assms(3) rd r by (cases c; auto simp: Let_def split: option.splits if_splits)+
  show "store_ok (store_cache s' (call_endpoint c) None)" "st_fs s' = st_fs s"
    using mutate_set_ok [OF d(1)] d(2) s'(1) by simp_all
  show "\<not> is_list c" by (rule s'(2))
  show "lockset_wf lset" "prepared u (store_table s (call_endpoint c)) c l (locks_of lset)"
  proof -
    have "lockset_wf lset \<and> prepared u (store_table s (call_endpoint c)) c l (locks_of lset)"
    proof (cases c)
      case (CallCreate e path owner)
      with assms(3) rd r have a: "ls_byPath ?t path = None" "l = new_lock env path owner" "lset = add ?t l"
        by (auto simp: Let_def split: option.splits)
      then have "path \<notin> lk_Path ` locks_of ?t" by (simp add: lockset.by_path_None [OF wf])
      with lockset.insert_spec [OF wf, of l] a assms(4) CallCreate show ?thesis by (simp add: store_table_def new_lock_def)
    next
      case (CallUnlock e i requester force)
      with assms(3) rd r have a: "ls_byID ?t i = Some l" "force \<or> EqualFold u (owner_Name (lk_Owner l)) requester" "lset = remove ?t l"
        by (auto simp: Let_def split: option.splits if_splits)
      then have "l \<in> locks_of ?t" "lk_ID l = i" by (simp_all add: lockset.by_id_spec [OF wf])
      with lockset.delete_spec [OF wf] a CallUnlock show ?thesis by (simp add: store_table_def)
    qed (use s'(2) in simp)
    then show "lockset_wf lset" "prepared u (store_table s (call_endpoint c)) c l (locks_of lset)" by simp_all
  qed
qed

text \<open>A plan that succeeds renames a file with the new contents into place.\<close>

lemma save_plan_shape:
  assumes "save_plan fs env p lset = (ops, ok)"
  obtains (unrenamed) data n pre post where "ok" "marshal_locks (ls_sorted lset) = Some data" "ops = pre @ LockRename (lock_temp p n) p # post"
      "list_all (temp_op (lock_temp p n)) pre" "list_all (temp_op (lock_temp p n)) post"
      "\<And>fs. foldl apply_lock_op fs pre (lock_temp p n) = Some (written_file env data)"
  | (failed) n where "\<not> ok" "list_all (temp_op (lock_temp p n)) ops"
proof (cases "marshal_locks (ls_sorted lset)")
  case None
  with assms failed [of 0] show thesis by (simp add: save_plan_def)
next
  case (Some data)
  then have w: "write_plan fs env p data = (ops, ok)" using assms by (simp add: save_plan_def)
  show thesis
  proof (cases "ops = []")
    case True
    with w have "\<not> ok" by (auto simp: write_plan_def Let_def split: if_splits option.splits)
    with True failed [of 0] show thesis by simp
  next
    case False
    with w obtain tmp where tmp: "find (\<lambda>q. fs q = None) (map (lock_temp p) (le_names env)) = Some tmp" "\<not> le_mkdir env"
      by (auto simp: write_plan_def split: if_splits option.splits)
    then obtain n where "tmp = lock_temp p n" by (auto simp: find_Some_iff)
    with tmp have n: "find (\<lambda>q. fs q = None) (map (lock_temp p) (le_names env)) = Some (lock_temp p n)" "\<not> le_mkdir env" by simp_all
    let ?tmp = "lock_temp p n" and ?cl = "if le_remove env then [] else [LockRemove (lock_temp p n)]"
    show thesis
    proof (cases ok)
      case True
      with w n have "ops = [LockCreate ?tmp (le_ino env) (le_now env), LockWrite ?tmp data (le_now env)] @ LockRename ?tmp p # ?cl"
        by (auto simp: write_plan_def Let_def split: if_splits option.splits)
      from unrenamed [OF True Some this] show thesis by (simp add: temp_op_def written_file_def)
    next
      case False
      with w n have "list_all (temp_op ?tmp) ops"
        by (auto simp: write_plan_def Let_def temp_op_def split: if_splits option.splits)
      with False failed show thesis by blast
    qed
  qed
qed

section \<open>Exclusion\<close>

lemma exclusive_sub: "exclusive ths \<Longrightarrow> (\<And>t th. ths' t = Some th \<Longrightarrow> ths t = Some th) \<Longrightarrow> exclusive ths'"
  unfolding exclusive_def by blast

lemma exclusive_enter:
  assumes "exclusive ths" "mutex_free ths (th_proc th) (th_call th)" "\<not> holds_file (th_phase th)"
  shows "exclusive (ths(t \<mapsto> th))"
  using assms unfolding exclusive_def mutex_free_def by (auto simp: fun_upd_def split: if_splits)

lemma exclusive_phase:
  assumes "exclusive ths" "ths t = Some th" "holds_file ph \<Longrightarrow> holds_file (th_phase th) \<or> file_free ths (th_call th)"
  shows "exclusive (ths(t \<mapsto> th\<lparr>th_phase := ph\<rparr>))"
  unfolding exclusive_def
proof (intro allI impI)
  fix a b tha thb
  assume u: "(ths(t \<mapsto> th\<lparr>th_phase := ph\<rparr>)) a = Some tha" "(ths(t \<mapsto> th\<lparr>th_phase := ph\<rparr>)) b = Some thb" "a \<noteq> b"
    "call_key (th_call tha) = call_key (th_call thb)"
    "th_proc tha = th_proc thb \<or> holds_file (th_phase tha) \<and> holds_file (th_phase thb)"
  have one: "is_list (th_call th) \<and> is_list (th_call th')"
    if "ths x = Some th'" "x \<noteq> t" "call_key (th_call th) = call_key (th_call th')" "th_proc th = th_proc th' \<or> holds_file ph \<and> holds_file (th_phase th')" for x th'
    using assms that unfolding exclusive_def file_free_def by metis
  consider "a = t" | "b = t" | "a \<noteq> t" "b \<noteq> t" by blast
  then show "is_list (th_call tha) \<and> is_list (th_call thb)"
  proof cases
    case 1
    with u one [of b thb] show ?thesis by auto
  next
    case 2
    with u one [of a tha] show ?thesis by auto
  next
    case 3
    with u assms(1) show ?thesis unfolding exclusive_def by (metis fun_upd_other)
  qed
qed

lemma not_saving_at:
  assumes "threads_ok u (sys, ths)" "ths t = Some th" "\<not> is_saving (th_phase th)"
  shows "\<not> saving_at ths (th_proc th) (call_key (th_call th))"
proof
  assume "saving_at ths (th_proc th) (call_key (th_call th))"
  then obtain t' th' where t': "ths t' = Some th'" "th_proc th' = th_proc th" "call_key (th_call th') = call_key (th_call th)" "is_saving (th_phase th')"
    by (auto simp: saving_at_def)
  have "thread_ok u sys th'" using assms(1) t'(1) by (simp add: threads_ok_def)
  then have "\<not> is_list (th_call th')" using t'(4) by (cases "th_phase th'") (simp_all add: thread_ok_def)
  moreover have "t' \<noteq> t" using t'(1,4) assms(2,3) by auto
  ultimately show False using assms(1,2) t' unfolding threads_ok_def exclusive_def by auto
qed

section \<open>Every step keeps it\<close>

lemma put_back_simps [simp]:
  "sys_base (put_back sys i s) = sys_base sys" "sys_fs (put_back sys i s) = st_fs s"
  "sys_caches (put_back sys i s) = (sys_caches sys)(i := st_cache s)"
  by (simp_all add: put_back_def)

lemma settled_simps [simp]:
  "st_base (settled sys ths i) = sys_base sys" "st_fs (settled sys ths i) = sys_fs sys"
  "st_cache (settled sys ths i) key = (if saving_at ths i key then None else sys_caches sys i key)"
  by (simp_all add: settled_def proc_def)

lemma proc_simps [simp]: "st_base (proc sys i) = sys_base sys" "st_fs (proc sys i) = sys_fs sys" "st_cache (proc sys i) = sys_caches sys i"
  by (simp_all add: proc_def)

lemma store_table_settled: "store_table (settled sys ths i) = table sys"
  by (simp add: fun_eq_iff store_table_def table_def)

lemma store_eqI: "st_base s = st_base s' \<Longrightarrow> st_fs s = st_fs s' \<Longrightarrow> (\<And>key. st_cache s key = st_cache s' key) \<Longrightarrow> s = (s' :: lock_store)"
  by (simp add: fun_eq_iff)

lemma table_fs_cong: "sys_base sys' = sys_base sys \<Longrightarrow> (\<And>e. sys_fs sys' (lockFilePath (sys_base sys) e) = sys_fs sys (lockFilePath (sys_base sys) e)) \<Longrightarrow> table sys' = table sys"
  by (simp add: fun_eq_iff table_def disk_locks_def)

lemma store_ok_fs:
  assumes "store_ok s" "\<And>key. safeEndpointPattern key \<Longrightarrow> fs (key_path (st_base s) key) = st_fs s (key_path (st_base s) key)"
  shows "store_ok (s\<lparr>st_fs := fs\<rparr>)"
  using assms files_ok_cong [of fs "st_base s" "st_fs s" "st_cache s"] by (simp add: store_ok_def)

lemma threads_okD:
  assumes "threads_ok u (sys, ths)"
  shows "store_ok (settled sys ths i)" "ths t = Some th \<Longrightarrow> thread_ok u sys th" "exclusive ths" "sys_base sys \<noteq> []"
  using assms by (auto simp: threads_ok_def store_ok_def files_ok_def)

lemma threads_ok_phase:
  assumes "threads_ok u (sys, ths)" "ths t = Some th" "sys_base sys' = sys_base sys"
    and "holds_file ph \<Longrightarrow> holds_file (th_phase th) \<or> file_free ths (th_call th)"
    and "\<And>i. store_ok (settled sys' (ths(t \<mapsto> th\<lparr>th_phase := ph\<rparr>)) i)" "thread_ok u sys' (th\<lparr>th_phase := ph\<rparr>)"
    and "\<And>t' th' q. t' \<noteq> t \<Longrightarrow> ths t' = Some th' \<Longrightarrow> is_saving (th_phase th') \<Longrightarrow>
      q = th_path sys th' \<or> (\<exists>n. q = lock_temp (th_path sys th') n) \<Longrightarrow> sys_fs sys' q = sys_fs sys q"
  shows "threads_ok u (sys', ths(t \<mapsto> th\<lparr>th_phase := ph\<rparr>))"
proof -
  have "thread_ok u sys' th'" if "(ths(t \<mapsto> th\<lparr>th_phase := ph\<rparr>)) t' = Some th'" for t' th'
  proof (cases "t' = t")
    case False
    with that have t': "ths t' = Some th'" by simp
    from thread_ok_frame [OF threads_okD(2) [OF assms(1) t'] assms(3)] assms(7) [OF False t'] show ?thesis by blast
  qed (use that assms(6) in simp)
  moreover have "exclusive (ths(t \<mapsto> th\<lparr>th_phase := ph\<rparr>))"
    by (rule exclusive_phase [OF threads_okD(3) [OF assms(1)] assms(2,4)])
  ultimately show ?thesis using assms(5) by (simp add: threads_ok_def del: fun_upd_apply)
qed

definition saving_other :: "lock_threads \<Rightarrow> nat \<Rightarrow> nat \<Rightarrow> string \<Rightarrow> bool" where
  "saving_other ths t i key \<longleftrightarrow> (\<exists>t' th'. t' \<noteq> t \<and> ths t' = Some th' \<and> th_proc th' = i \<and> call_key (th_call th') = key \<and> is_saving (th_phase th'))"

lemma saving_at_split:
  "ths t = Some th \<Longrightarrow> saving_at ths i key \<longleftrightarrow> (th_proc th = i \<and> call_key (th_call th) = key \<and> is_saving (th_phase th)) \<or> saving_other ths t i key"
  unfolding saving_at_def saving_other_def
proof (intro iffI; elim disjE exE conjE)
  fix t' th' assume "ths t = Some th" "ths t' = Some th'" "th_proc th' = i" "call_key (th_call th') = key" "is_saving (th_phase th')"
  then show "th_proc th = i \<and> call_key (th_call th) = key \<and> is_saving (th_phase th) \<or> (\<exists>t' th'. t' \<noteq> t \<and> ths t' = Some th' \<and>
      th_proc th' = i \<and> call_key (th_call th') = key \<and> is_saving (th_phase th'))" by (cases "t' = t") auto
qed blast+

lemma saving_at_None: "ths t = None \<Longrightarrow> saving_at ths i key \<longleftrightarrow> saving_other ths t i key"
  unfolding saving_at_def saving_other_def by (metis option.distinct(1))

lemma saving_other_upd [simp]: "saving_other (ths(t := x)) t = saving_other ths t"
  by (auto simp: fun_eq_iff saving_other_def)

lemma saving_at_same:
  assumes "ths t = Some th" "is_saving ph = is_saving (th_phase th)"
  shows "saving_at (ths(t \<mapsto> th\<lparr>th_phase := ph\<rparr>)) i key = saving_at ths i key"
  using assms by (simp add: saving_at_split [of _ t])

lemma saving_at_start:
  assumes "ths t = Some th" "is_saving ph" "\<not> is_saving (th_phase th)"
  shows "saving_at (ths(t \<mapsto> th\<lparr>th_phase := ph\<rparr>)) i key \<longleftrightarrow> saving_at ths i key \<or> (i = th_proc th \<and> key = call_key (th_call th))"
  using assms by (auto simp: saving_at_split [of _ t])

lemma saving_at_end:
  assumes "threads_ok u (sys, ths)" "ths t = Some th" "is_saving (th_phase th)" "\<not> is_saving ph"
  shows "saving_at (ths(t \<mapsto> th\<lparr>th_phase := ph\<rparr>)) i key \<longleftrightarrow> saving_at ths i key \<and> \<not> (i = th_proc th \<and> key = call_key (th_call th))"
proof -
  have "\<not> is_list (th_call th)" using threads_okD(2) [OF assms(1,2)] assms(3) by (cases "th_phase th") (simp_all add: thread_ok_def)
  then have "\<not> saving_other ths t (th_proc th) (call_key (th_call th))"
    using threads_okD(3) [OF assms(1)] assms(2) unfolding exclusive_def saving_other_def by metis
  with assms(2-4) show ?thesis by (auto simp: saving_at_split [of _ t])
qed

text \<open>Waiting for the file lock: only the \<^verbatim>\<open>.lock\<close> file is touched.\<close>

lemma lock_step_ok:
  assumes "threads_ok u (sys, ths)" "ths t = Some th" "th_phase th = WithMutex"
    and "acquireFileLock (proc sys (th_proc th)) (th_env th) (call_endpoint (th_call th)) = (s, ok)"
    and "\<not> is_saving ph" "holds_file ph \<Longrightarrow> file_free ths (th_call th)"
  shows "threads_ok u (put_back sys (th_proc th) s, ths(t \<mapsto> th\<lparr>th_phase := ph\<rparr>))" "table (put_back sys (th_proc th) s) = table sys"
proof -
  let ?sys = "put_back sys (th_proc th) s" and ?ths = "ths(t \<mapsto> th\<lparr>th_phase := ph\<rparr>)"
  note a = acquireFileLock_facts [OF assms(4)] and b = threads_okD(4) [OF assms(1)]
  have key: "st_fs s (key_path (sys_base sys) k) = sys_fs sys (key_path (sys_base sys) k)" if "safeEndpointPattern k" for k
    using a(4) key_path_not_lock [OF b that] by simp
  have "settled ?sys ?ths i = (settled sys ths i)\<lparr>st_fs := st_fs s\<rparr>" for i
    using a(2) saving_at_same [of ths t th ph] assms(2,3,5) by (intro store_eqI) auto
  then have "store_ok (settled ?sys ?ths i)" for i
    using store_ok_fs [OF threads_okD(1) [OF assms(1), of i], of "st_fs s"] key by simp
  moreover have "sys_fs ?sys q = sys_fs sys q" if "q = th_path sys th' \<or> (\<exists>n. q = lock_temp (th_path sys th') n)" for th' q
    using that key [OF Endpoint_safe] a(4) lock_temp_not_path(2) by (auto simp: lockFilePath_key) metis
  moreover have "thread_ok u ?sys (th\<lparr>th_phase := ph\<rparr>)"
    using threads_okD(2) [OF assms(1,2)] assms(5) by (cases ph) (auto simp: thread_ok_def)
  ultimately show "threads_ok u (?sys, ?ths)" using assms(1,2,6) by (intro threads_ok_phase) auto
  show "table ?sys = table sys" using key [OF Endpoint_safe] by (intro table_fs_cong) (simp_all add: lockFilePath_key)
qed

text \<open>Reading and deciding: the settled store takes the same decision as the process's own.\<close>

lemma settled_decide:
  assumes "threads_ok u (sys, ths)" "ths t = Some th" "th_phase th = WithFile"
    and "decide_call u (proc sys (th_proc th)) (th_env th) (th_call th) = (s, r)"
  obtains x where "st_base s = sys_base sys" "st_cache s = (sys_caches sys (th_proc th))(call_key (th_call th) := x)"
    "decide_call u (settled sys ths (th_proc th)) (th_env th) (th_call th) =
      (s\<lparr>st_cache := (st_cache (settled sys ths (th_proc th)))(call_key (th_call th) := x)\<rparr>, r)"
proof -
  have "\<not> saving_at ths (th_proc th) (call_key (th_call th))" by (rule not_saving_at [OF assms(1,2)]) (simp add: assms(3))
  then have "st_cache (settled sys ths (th_proc th)) (call_key (th_call th)) = st_cache (proc sys (th_proc th)) (call_key (th_call th))" by simp
  moreover have "(proc sys (th_proc th))\<lparr>st_cache := st_cache (settled sys ths (th_proc th))\<rparr> = settled sys ths (th_proc th)"
    by (intro store_eqI) simp_all
  ultimately show thesis using decide_entry [OF assms(4)] that by (metis proc_simps(1,3))
qed

lemma answer_step:
  assumes "threads_ok u (sys, ths)" "ths t = Some th" "th_phase th = WithFile"
    and "decide_call u (proc sys (th_proc th)) (th_env th) (th_call th) = (s, Inl reply)"
  shows "threads_ok u (put_back sys (th_proc th) s, ths(t \<mapsto> th\<lparr>th_phase := Returning True reply\<rparr>))"
    "spec_step u (table sys) (Called i (th_call th) reply) (table (put_back sys (th_proc th) s))"
proof -
  let ?i = "th_proc th" and ?k = "call_key (th_call th)" and ?ths = "ths(t \<mapsto> th\<lparr>th_phase := Returning True reply\<rparr>)"
  let ?sys = "put_back sys (th_proc th) s"
  from settled_decide [OF assms] obtain x where x: "st_base s = sys_base sys" "st_cache s = (sys_caches sys ?i)(?k := x)"
    "decide_call u (settled sys ths ?i) (th_env th) (th_call th) = (s\<lparr>st_cache := (st_cache (settled sys ths ?i))(?k := x)\<rparr>, Inl reply)" by blast
  have g: "le_read (th_env th) \<noteq> ReadGone" using threads_okD(2) [OF assms(1,2)] by (simp add: thread_ok_def)
  note d = decide_answer [OF threads_okD(1) [OF assms(1)] g x(3)]
  have fs: "st_fs s = sys_fs sys" using d(2) by simp
  have sa: "saving_at ?ths = saving_at ths" using assms(2,3) by (intro ext) (simp add: saving_at_same)
  have ns: "\<not> saving_at ths ?i ?k" by (rule not_saving_at [OF assms(1,2)]) (simp add: assms(3))
  have "settled ?sys ?ths ?i = s\<lparr>st_cache := (st_cache (settled sys ths ?i))(?k := x)\<rparr>"
    using x(1,2) fs ns by (intro store_eqI) (auto simp: sa)
  moreover have "settled ?sys ?ths j = settled sys ths j" if "j \<noteq> ?i" for j
    using that fs by (intro store_eqI) (auto simp: sa)
  ultimately have "store_ok (settled ?sys ?ths j)" for j
    using d(1) threads_okD(1) [OF assms(1), of j] by (cases "j = ?i") simp_all
  moreover have "thread_ok u ?sys (th\<lparr>th_phase := Returning True reply\<rparr>)" using g by (simp add: thread_ok_def)
  ultimately show "threads_ok u (?sys, ?ths)"
    using assms(1-3) fs by (intro threads_ok_phase) auto
  have "table ?sys = table sys" using fs by (intro table_fs_cong) simp_all
  with d(3) [of i] show "spec_step u (table sys) (Called i (th_call th) reply) (table ?sys)" by (simp only: store_table_settled)
qed

lemma change_step:
  assumes "threads_ok u (sys, ths)" "ths t = Some th" "th_phase th = WithFile"
    and "decide_call u (proc sys (th_proc th)) (th_env th) (th_call th) = (s, Inr (l, lset))"
    and "le_uuid (th_env th) \<notin> lk_ID ` table sys (call_endpoint (th_call th))"
    and "save_plan (st_fs s) (th_env th) (lockFilePath (st_base s) (call_endpoint (th_call th))) lset = (ops, ok)"
  shows "threads_ok u (put_back sys (th_proc th) s, ths(t \<mapsto> th\<lparr>th_phase := Saving ops ok l lset\<rparr>))"
    "table (put_back sys (th_proc th) s) = table sys"
proof -
  let ?i = "th_proc th" and ?k = "call_key (th_call th)" and ?ths = "ths(t \<mapsto> th\<lparr>th_phase := Saving ops ok l lset\<rparr>)"
  let ?sys = "put_back sys (th_proc th) s" and ?e = "call_endpoint (th_call th)"
  from settled_decide [OF assms(1-4)] obtain x where x: "st_base s = sys_base sys" "st_cache s = (sys_caches sys ?i)(?k := x)"
    "decide_call u (settled sys ths ?i) (th_env th) (th_call th) = (s\<lparr>st_cache := (st_cache (settled sys ths ?i))(?k := x)\<rparr>, Inr (l, lset))" by blast
  have g: "le_read (th_env th) \<noteq> ReadGone" using threads_okD(2) [OF assms(1,2)] by (simp add: thread_ok_def)
  note d = decide_change [OF threads_okD(1) [OF assms(1)] g x(3), unfolded store_table_settled, OF assms(5)]
  have fs: "st_fs s = sys_fs sys" using d(2) by simp
  show T: "table ?sys = table sys" using fs by (intro table_fs_cong) simp_all
  have sa: "saving_at ?ths j key \<longleftrightarrow> saving_at ths j key \<or> (j = ?i \<and> key = ?k)" for j key
    using assms(2,3) by (simp add: saving_at_start)
  have "settled ?sys ?ths ?i = store_cache (s\<lparr>st_cache := (st_cache (settled sys ths ?i))(?k := x)\<rparr>) ?e None"
    using x(1,2) fs by (intro store_eqI) (auto simp: sa call_key_def)
  moreover have "settled ?sys ?ths j = settled sys ths j" if "j \<noteq> ?i" for j
    using that fs by (intro store_eqI) (auto simp: sa)
  ultimately have "store_ok (settled ?sys ?ths j)" for j
    using d(1) threads_okD(1) [OF assms(1), of j] by (cases "j = ?i") simp_all
  moreover have "saving_ok u ?sys (th\<lparr>th_phase := Saving ops ok l lset\<rparr>) ops ok l lset"
    using assms(6)
  proof (cases rule: save_plan_shape)
    case (unrenamed data n pre post)
    with saving_ok.unrenamed [of lset data "lock_temp (th_path ?sys th) n" ?sys "th\<lparr>th_phase := Saving ops ok l lset\<rparr>" n pre post u l]
    show ?thesis using d(4,5) T x(1) by simp
  next
    case (failed n)
    with saving_ok.failed [of ?sys "th\<lparr>th_phase := Saving ops ok l lset\<rparr>" n ops u l lset] x(1) show ?thesis by simp
  qed
  then have "thread_ok u ?sys (th\<lparr>th_phase := Saving ops ok l lset\<rparr>)" using g d(3) by (simp add: thread_ok_def)
  ultimately show "threads_ok u (?sys, ?ths)"
    using assms(1-3) fs by (intro threads_ok_phase) auto
qed

text \<open>A call that has found out what it does, and puts the new set into place, is a step of the lock table.\<close>

lemma prepared_spec:
  assumes "prepared u (T (call_endpoint c)) c l L"
  shows "spec_step u T (Called i c (ReplyLock l None)) (set_table T (call_endpoint c) L)"
  using assms by (cases c) (simp_all add: spec_create_def spec_unlock_def)

lemma error_spec: "spec_step u T (Called i c (call_error c ErrLockIO)) T" "spec_step u T (Called i c (call_error c ErrLockContext)) T"
  by (cases c; simp add: spec_create_def spec_unlock_def spec_list_def)+

text \<open>Another saving call is for another endpoint, and has other files.\<close>

lemma other_saving:
  assumes "threads_ok u (sys, ths)" "ths t = Some th" "is_saving (th_phase th)" "t' \<noteq> t" "ths t' = Some th'" "is_saving (th_phase th')"
    and "q = th_path sys th' \<or> (\<exists>n. q = lock_temp (th_path sys th') n)"
  shows "q \<noteq> th_path sys th" "q \<noteq> lock_temp (th_path sys th) m"
proof -
  have "\<not> is_list (th_call th)" using threads_okD(2) [OF assms(1,2)] assms(3) by (cases "th_phase th") (simp_all add: thread_ok_def)
  moreover have "holds_file (th_phase th)" "holds_file (th_phase th')" using assms(3,6) by (cases "th_phase th"; cases "th_phase th'"; simp)+
  ultimately have k: "Endpoint (call_endpoint (th_call th')) \<noteq> Endpoint (call_endpoint (th_call th))"
    using threads_okD(3) [OF assms(1)] assms(2,4,5) unfolding exclusive_def call_key_def by metis
  note b = threads_okD(4) [OF assms(1)]
  have "th_path sys th' \<noteq> th_path sys th"
    using k key_path_inj [OF b Endpoint_safe Endpoint_safe] by (auto simp: lockFilePath_key)
  then show "q \<noteq> th_path sys th" using assms(7) lock_temp_not_path(1) [OF b] by metis
  show "q \<noteq> lock_temp (th_path sys th) m" using assms(7) lock_temp_not_path(1) [OF b] lock_temp_inj [OF b] k by metis
qed

lemma temp_effect_step:
  assumes "threads_ok u (sys, ths)" "ths t = Some th" "th_phase th = Saving (op # ops) ok l lset"
    and "temp_op (lock_temp (th_path sys th) n) op" "saving_ok u (sys\<lparr>sys_fs := apply_lock_op (sys_fs sys) op\<rparr>) th ops ok l lset"
  shows "threads_ok u (sys\<lparr>sys_fs := apply_lock_op (sys_fs sys) op\<rparr>, ths(t \<mapsto> th\<lparr>th_phase := Saving ops ok l lset\<rparr>))"
    "table (sys\<lparr>sys_fs := apply_lock_op (sys_fs sys) op\<rparr>) = table sys" "\<not> commits op"
proof -
  let ?sys = "sys\<lparr>sys_fs := apply_lock_op (sys_fs sys) op\<rparr>" and ?ths = "ths(t \<mapsto> th\<lparr>th_phase := Saving ops ok l lset\<rparr>)"
  note b = threads_okD(4) [OF assms(1)]
  have same: "apply_lock_op (sys_fs sys) op q = sys_fs sys q" if "q \<noteq> lock_temp (th_path sys th) n" for q
    by (rule temp_op_apply [OF assms(4) that])
  show "table ?sys = table sys" using same lock_temp_not_path(1) [OF b] by (intro table_fs_cong) simp_all
  show "\<not> commits op" using assms(4) by (simp add: temp_op_def)
  have "settled ?sys ?ths i = (settled sys ths i)\<lparr>st_fs := apply_lock_op (sys_fs sys) op\<rparr>" for i
    using saving_at_same [of ths t th] assms(2,3) by (intro store_eqI) auto
  moreover have "apply_lock_op (sys_fs sys) op (key_path (sys_base sys) key) = sys_fs sys (key_path (sys_base sys) key)"
    if "safeEndpointPattern key" for key
    using key_path_not_temp [OF b that, of "Dir (th_path sys th) @ ''/'' @ TempFilePrefix @ ''locks-''" n] by (intro same) (simp add: lock_temp_def)
  ultimately have A: "store_ok (settled ?sys ?ths i)" for i
    using store_ok_fs [OF threads_okD(1) [OF assms(1), of i], of "apply_lock_op (sys_fs sys) op"] by simp
  have B: "thread_ok u ?sys (th\<lparr>th_phase := Saving ops ok l lset\<rparr>)"
    using threads_okD(2) [OF assms(1,2)] saving_ok_phase [OF assms(5)] assms(3) by (simp add: thread_ok_def)
  have C: "sys_fs ?sys q = sys_fs sys q" if "t' \<noteq> t" "ths t' = Some th'" "is_saving (th_phase th')"
    "q = th_path sys th' \<or> (\<exists>n. q = lock_temp (th_path sys th') n)" for t' th' q
    using other_saving(2) [OF assms(1,2) _ that, of n] assms(3) same by simp
  show "threads_ok u (?sys, ?ths)" by (rule threads_ok_phase [OF assms(1,2) _ _ A B C]) (simp_all add: assms(3))
qed

lemma rename_step:
  assumes "threads_ok u (sys, ths)" "ths t = Some th" "th_phase th = Saving (op # ops) ok l lset" "fresh_file sys (th_env th)"
    and "op = LockRename (lock_temp (th_path sys th) n) (th_path sys th)" "lockset_wf lset"
    "marshal_locks (ls_sorted lset) = Some data" "sys_fs sys (lock_temp (th_path sys th) n) = Some (written_file (th_env th) data)"
    "prepared u (table sys (call_endpoint (th_call th))) (th_call th) l (locks_of lset)" "list_all (temp_op (lock_temp (th_path sys th) n)) ops" "ok"
  shows "threads_ok u (sys\<lparr>sys_fs := apply_lock_op (sys_fs sys) op\<rparr>, ths(t \<mapsto> th\<lparr>th_phase := Saving ops ok l lset\<rparr>))"
    "spec_step u (table sys) (Called i (th_call th) (ReplyLock l None)) (table (sys\<lparr>sys_fs := apply_lock_op (sys_fs sys) op\<rparr>))"
proof -
  let ?sys = "sys\<lparr>sys_fs := apply_lock_op (sys_fs sys) op\<rparr>" and ?ths = "ths(t \<mapsto> th\<lparr>th_phase := Saving ops ok l lset\<rparr>)"
  let ?p = "th_path sys th" and ?tmp = "lock_temp (th_path sys th) n" and ?e = "call_endpoint (th_call th)"
  note b = threads_okD(4) [OF assms(1)] and m = marshalled_ok [OF assms(6,7)]
  have fs: "apply_lock_op (sys_fs sys) op = (sys_fs sys)(?tmp := None, ?p \<mapsto> written_file (th_env th) data)"
    using assms(5,8) by simp
  have other: "apply_lock_op (sys_fs sys) op (key_path (sys_base sys) key) =
      (if key = Endpoint ?e then Some (written_file (th_env th) data) else sys_fs sys (key_path (sys_base sys) key))" if "safeEndpointPattern key" for key
    using key_path_inj [OF b that Endpoint_safe, of ?e] lock_temp_not_path(1) [OF b] key_path_not_temp [OF b that, of "Dir ?p @ ''/'' @ TempFilePrefix @ ''locks-''" n]
    by (auto simp: fs lockFilePath_key lock_temp_def)
  then have step: "fs_step (sys_base sys) (th_env th) ?e (sys_fs sys) (apply_lock_op (sys_fs sys) op)"
    using m(1) unfolding fs_step_def by (metis (full_types))
  have "settled ?sys ?ths i = (settled sys ths i)\<lparr>st_fs := apply_lock_op (sys_fs sys) op\<rparr>" for i
    using saving_at_same [of ths t th] assms(2,3) by (intro store_eqI) auto
  moreover have "store_ok ((settled sys ths i)\<lparr>st_fs := apply_lock_op (sys_fs sys) op\<rparr>)" for i
  proof -
    have ok: "files_ok (sys_base sys) (sys_fs sys)" "cache_ok (sys_base sys) (sys_fs sys) (st_cache (settled sys ths i))"
      using threads_okD(1) [OF assms(1), of i] by (simp_all add: store_ok_def)
    have "cache_ok (sys_base sys) (apply_lock_op (sys_fs sys) op) (st_cache (settled sys ths i))"
      by (rule other_cache_ok [OF ok(2) step]) (use assms(4) in \<open>auto simp: fresh_file_def split: if_splits\<close>)
    with fs_step_files_ok [OF step ok(1)] show ?thesis by (simp add: store_ok_def)
  qed
  ultimately have A: "store_ok (settled ?sys ?ths i)" for i by simp
  have "saving_ok u ?sys th ops ok l lset"
    using saving_ok.renamed [of lset data ?sys th n ops u l] assms(6,7,10,11) by (simp add: fs)
  then have B: "thread_ok u ?sys (th\<lparr>th_phase := Saving ops ok l lset\<rparr>)"
    using threads_okD(2) [OF assms(1,2)] saving_ok_phase assms(3) by (simp add: thread_ok_def)
  have C: "sys_fs ?sys q = sys_fs sys q" if "t' \<noteq> t" "ths t' = Some th'" "is_saving (th_phase th')"
    "q = th_path sys th' \<or> (\<exists>n. q = lock_temp (th_path sys th') n)" for t' th' q
    using other_saving [OF assms(1,2) _ that(1-4)] assms(3) by (simp add: fs)
  show "threads_ok u (?sys, ?ths)" by (rule threads_ok_phase [OF assms(1,2) _ _ A B C]) (simp_all add: assms(3))
  have "table ?sys = set_table (table sys) ?e (locks_of lset)"
  proof
    fix e
    show "table ?sys e = set_table (table sys) ?e (locks_of lset) e"
      using other [OF Endpoint_safe, of e] m(2) by (simp add: table_def set_table_def disk_locks_def lockFilePath_key written_file_def)
  qed
  with prepared_spec [of u "table sys" "th_call th" l "locks_of lset" i, OF assms(9)] show "spec_step u (table sys) (Called i (th_call th) (ReplyLock l None)) (table ?sys)" by simp
qed

lemma save_step:
  assumes "threads_ok u (sys, ths)" "ths t = Some th" "th_phase th = Saving [] ok l lset" "\<not> is_saving ph"
  defines "s \<equiv> save_cache (proc sys (th_proc th)) (th_env th) (call_endpoint (th_call th)) lset ok"
  shows "threads_ok u (put_back sys (th_proc th) s, ths(t \<mapsto> th\<lparr>th_phase := ph\<rparr>))" "table (put_back sys (th_proc th) s) = table sys"
proof -
  let ?i = "th_proc th" and ?k = "call_key (th_call th)" and ?ths = "ths(t \<mapsto> th\<lparr>th_phase := ph\<rparr>)" and ?sys = "put_back sys (th_proc th) s"
  have so: "saving_ok u sys th [] ok l lset" and g: "le_read (th_env th) \<noteq> ReadGone"
    using threads_okD(2) [OF assms(1,2)] assms(3) by (simp_all add: thread_ok_def)
  obtain c where c: "s = store_cache (proc sys ?i) (call_endpoint (th_call th)) c"
    "case c of None \<Rightarrow> True | Some d \<Rightarrow> entry_ok (sys_fs sys) (th_path sys th) d"
  proof (rule that)
    show "s = store_cache (proc sys ?i) (call_endpoint (th_call th)) (st_cache s ?k)" by (simp add: s_def save_cache_def call_key_def)
    from so show "case st_cache s ?k of None \<Rightarrow> True | Some d \<Rightarrow> entry_ok (sys_fs sys) (th_path sys th) d"
    proof cases
      case (renamed data n)
      with marshalled_ok [OF renamed(2,3)] show ?thesis
        by (simp add: s_def save_cache_def call_key_def entry_ok_def written_file_def split: bool.split)
    qed (simp_all add: s_def save_cache_def call_key_def)
  qed
  have fs: "st_fs s = sys_fs sys" using c(1) by simp
  show "table ?sys = table sys" using fs by (intro table_fs_cong) simp_all
  have sa: "saving_at ?ths j key \<longleftrightarrow> saving_at ths j key \<and> \<not> (j = ?i \<and> key = ?k)" for j key
    using assms(1-4) by (intro saving_at_end) simp_all
  have before: "saving_at ths ?i ?k" unfolding saving_at_def using assms(2,3) by (intro exI [of _ t] exI [of _ th]) simp
  have "store_ok (settled ?sys ?ths ?i)"
  proof -
    have "settled ?sys ?ths ?i = (settled sys ths ?i)\<lparr>st_cache := (st_cache (settled sys ths ?i))(?k := c)\<rparr>"
      by (intro store_eqI) (auto simp: sa c(1) call_key_def)
    moreover have "cache_ok (sys_base sys) (sys_fs sys) ((st_cache (settled sys ths ?i))(?k := None))"
      using threads_okD(1) [OF assms(1), of ?i] by (auto simp: store_ok_def cache_ok_def)
    then have "cache_ok (sys_base sys) (sys_fs sys) ((st_cache (settled sys ths ?i))(?k := c))"
      using cache_ok_update [of "sys_base sys" "sys_fs sys" "st_cache (settled sys ths ?i)" "call_endpoint (th_call th)" "sys_fs sys" c] c(2)
      by (simp add: call_key_def)
    ultimately show ?thesis using threads_okD(1) [OF assms(1), of ?i] by (simp add: store_ok_def)
  qed
  moreover have "settled ?sys ?ths j = settled sys ths j" if "j \<noteq> ?i" for j
    using that fs by (intro store_eqI) (auto simp: sa)
  ultimately have "store_ok (settled ?sys ?ths j)" for j
    using threads_okD(1) [OF assms(1), of j] by (cases "j = ?i") simp_all
  moreover have "thread_ok u ?sys (th\<lparr>th_phase := ph\<rparr>)" using g assms(4) by (cases ph) (simp_all add: thread_ok_def)
  ultimately show "threads_ok u (?sys, ?ths)"
    using assms(1-3) fs by (intro threads_ok_phase) auto
qed

lemma return_step:
  assumes "threads_ok u (sys, ths)" "ths t = Some th" "\<not> is_saving (th_phase th)"
  shows "threads_ok u (sys, ths(t \<mapsto> th\<lparr>th_phase := Returning False reply\<rparr>))"
proof -
  let ?ths = "ths(t \<mapsto> th\<lparr>th_phase := Returning False reply\<rparr>)"
  have "settled sys ?ths j = settled sys ths j" for j
    using assms(2,3) by (intro store_eqI) (simp_all add: saving_at_same)
  moreover have "thread_ok u sys (th\<lparr>th_phase := Returning False reply\<rparr>)"
    using threads_okD(2) [OF assms(1,2)] by (simp add: thread_ok_def)
  ultimately show ?thesis
    using assms(1-3) threads_okD(1) [OF assms(1)] by (intro threads_ok_phase) auto
qed

lemma hit_step:
  assumes "threads_ok u (sys, ths)" "ths t = Some th" "th_phase th = WithMutex" "from_cache (proc sys (th_proc th)) (th_call th) = Some reply"
  shows "threads_ok u (sys, ths(t \<mapsto> th\<lparr>th_phase := Returning False reply\<rparr>))" "spec_step u (table sys) (Called i (th_call th) reply) (table sys)"
proof -
  show "threads_ok u (sys, ths(t \<mapsto> th\<lparr>th_phase := Returning False reply\<rparr>))" by (rule return_step [OF assms(1,2)]) (simp add: assms(3))
  from assms(4) obtain e opts ff c f where c: "th_call th = CallList e opts ff" "sys_caches sys (th_proc th) (Endpoint e) = Some c"
    "sys_fs sys (lockFilePath (sys_base sys) e) = Some f" "same_info (c_info c) (file_stat f)" "reply = ReplyPage (list_locks (c_set c) opts)"
    by (cases "th_call th") (auto simp: cached_def split: option.splits if_splits)
  have "\<not> saving_at ths (th_proc th) (call_key (th_call th))" by (rule not_saving_at [OF assms(1,2)]) (simp add: assms(3))
  then have "st_cache (settled sys ths (th_proc th)) (Endpoint e) = Some c" using c by (simp add: call_key_def)
  then have "entry_ok (sys_fs sys) (lockFilePath (sys_base sys) e) c"
    using threads_okD(1) [OF assms(1), of "th_proc th"] unfolding store_ok_def cache_ok_def settled_simps(1,2) lockFilePath_key by blast
  then have "c_set c = disk_locks (sys_base sys) (sys_fs sys) e" using c by (simp add: entry_ok_def disk_locks_def)
  moreover have "lockset_wf (disk_locks (sys_base sys) (sys_fs sys) e)"
    using threads_okD(1) [OF assms(1), of 0] by (simp add: store_ok_def disk_locks_wf)
  ultimately show "spec_step u (table sys) (Called i (th_call th) reply) (table sys)"
    using c by (auto simp: spec_list_def table_def)
qed

lemma enter_step:
  assumes "threads_ok u (sys, ths)" "ths t = None" "le_read env \<noteq> ReadGone" "mutex_free ths i c"
  shows "threads_ok u (sys, ths(t \<mapsto> \<lparr>th_proc = i, th_call = c, th_env = env, th_phase = WithMutex\<rparr>))"
proof -
  let ?th = "\<lparr>th_proc = i, th_call = c, th_env = env, th_phase = WithMutex\<rparr>"
  have "saving_at (ths(t \<mapsto> ?th)) j key = saving_at ths j key" for j key
    using assms(2) by (simp add: saving_at_None saving_at_split [of _ t])
  then have "settled sys (ths(t \<mapsto> ?th)) j = settled sys ths j" for j by (intro store_eqI) simp_all
  moreover have "thread_ok u sys ?th" using assms(3) by (simp add: thread_ok_def)
  ultimately show ?thesis
    using threads_okD(1-3) [OF assms(1)] exclusive_enter [OF threads_okD(3) [OF assms(1)], of ?th t] assms(4)
    by (auto simp: threads_ok_def)
qed

lemma leave_step:
  assumes "threads_ok u (sys, ths)" "ths t = Some th" "\<not> is_saving (th_phase th)"
  shows "threads_ok u (sys, ths(t := None))"
proof -
  have "saving_at (ths(t := None)) j key = saving_at ths j key" for j key
    using assms(2,3) by (simp add: saving_at_None [of _ t] saving_at_split [of ths t])
  then have "settled sys (ths(t := None)) j = settled sys ths j" for j by (intro store_eqI) simp_all
  moreover have "exclusive (ths(t := None))" by (rule exclusive_sub [OF threads_okD(3) [OF assms(1)]]) (simp split: if_splits)
  ultimately show ?thesis using threads_okD(1,2) [OF assms(1)] by (auto simp: threads_ok_def)
qed

lemma without_proc_Some [simp]: "without_proc i ths t = Some th \<longleftrightarrow> ths t = Some th \<and> th_proc th \<noteq> i"
  by (auto simp: without_proc_def split: option.split)

lemma crash_step:
  assumes "threads_ok u (sys, ths)"
  shows "threads_ok u (sys\<lparr>sys_caches := (sys_caches sys)(i := Map.empty)\<rparr>, without_proc i ths)"
proof -
  let ?sys = "sys\<lparr>sys_caches := (sys_caches sys)(i := Map.empty)\<rparr>"
  have "settled ?sys (without_proc i ths) j = (if j = i then (settled sys ths j)\<lparr>st_cache := Map.empty\<rparr> else settled sys ths j)" for j
    by (intro store_eqI) (auto simp: saving_at_def)
  moreover have "store_ok ((settled sys ths j)\<lparr>st_cache := Map.empty\<rparr>)" for j
    using threads_okD(1) [OF assms, of j] by (simp add: store_ok_def cache_ok_def)
  ultimately have "store_ok (settled ?sys (without_proc i ths) j)" for j using threads_okD(1) [OF assms] by simp
  moreover have "thread_ok u ?sys th" if "without_proc i ths t = Some th" for t th
    using that by (intro thread_ok_frame [OF threads_okD(2) [OF assms, of t th]]) simp_all
  moreover have "exclusive (without_proc i ths)" by (rule exclusive_sub [OF threads_okD(3) [OF assms]]) simp
  ultimately show ?thesis by (auto simp: threads_ok_def)
qed

end
