(* ===== verification/Lock_Linear.thy ===== *)
theory Lock_Linear
  imports Lock_Threads
begin

text \<open>
  The steps of concurrent lock calls refine an atomic lock table: a forward simulation over the invariant of \<^verbatim>\<open>Lock_Threads\<close>.
  A call that finds its locks free runs through as the whole call of \<^verbatim>\<open>Lock_Store\<close>, and running calls never block each other for good.
\<close>

section \<open>The atomic lock table\<close>

text \<open>The specification: calls that are under way, each with its reply once it has taken effect, which it does in one step of the
  abstract lock table, at some moment between its beginning and its end.\<close>

type_synonym lock_calls = "nat \<rightharpoonup> nat \<times> lock_call \<times> lock_reply option"

inductive atomic_step :: "unicode_tables \<Rightarrow> lock_table \<times> lock_calls \<Rightarrow> lock_event \<Rightarrow> lock_table \<times> lock_calls \<Rightarrow> bool" for u where
  begins: "calls t = None \<Longrightarrow> atomic_step u (T, calls) (Began t i c) (T, calls(t \<mapsto> (i, c, None)))"
| takes: "calls t = Some (i, c, None) \<Longrightarrow> spec_step u T (Called i c reply) T' \<Longrightarrow>
    atomic_step u (T, calls) (TookEffect t reply) (T', calls(t \<mapsto> (i, c, Some reply)))"
| ends: "calls t = Some (i, c, Some reply) \<Longrightarrow> atomic_step u (T, calls) (Ended t reply) (T, calls(t := None))"
| refused: "spec_step u T (Called i c reply) T \<Longrightarrow> atomic_step u (T, calls) (Refused i c reply) (T, calls)"
| dies: "atomic_step u (T, calls) (Died i) (T, \<lambda>t. case calls t of Some (j, cr) \<Rightarrow> if j = i then None else Some (j, cr) | None \<Rightarrow> None)"
| silent: "atomic_step u st Silent st"

inductive atomic_run :: "unicode_tables \<Rightarrow> lock_table \<times> lock_calls \<Rightarrow> lock_event list \<Rightarrow> lock_table \<times> lock_calls \<Rightarrow> bool" for u where
  atomic_run_nil: "atomic_run u st [] st"
| atomic_run_cons: "atomic_step u st ev st' \<Longrightarrow> atomic_run u st' evs st'' \<Longrightarrow> atomic_run u st (ev # evs) st''"

text \<open>A running call has taken effect when it has its reply, or when its rename is done.\<close>

fun reply_of :: "lock_phase \<Rightarrow> lock_reply option" where
  "reply_of (Returning _ reply) = Some reply"
| "reply_of (Saving ops ok l _) = (if ok \<and> \<not> list_ex commits ops then Some (ReplyLock l None) else None)"
| "reply_of _ = None"

definition call_of :: "lock_thread \<Rightarrow> nat \<times> lock_call \<times> lock_reply option" where
  "call_of th = (th_proc th, th_call th, reply_of (th_phase th))"

definition calls_of :: "lock_threads \<Rightarrow> lock_calls" where
  "calls_of ths = map_option call_of \<circ> ths"

lemma calls_of_at: "calls_of ths t = map_option call_of (ths t)"
  by (simp add: calls_of_def)

lemma calls_of_simps [simp]:
  "calls_of (ths(t \<mapsto> th)) = (calls_of ths)(t \<mapsto> call_of th)"
  "calls_of (ths(t := None)) = (calls_of ths)(t := None)"
  by (auto simp: calls_of_def)

lemma call_of_phase [simp]: "call_of (th\<lparr>th_phase := ph\<rparr>) = (th_proc th, th_call th, reply_of ph)"
  by (simp add: call_of_def)

lemma calls_without_proc:
  "calls_of (without_proc i ths) = (\<lambda>t. case calls_of ths t of Some (j, cr) \<Rightarrow> if j = i then None else Some (j, cr) | None \<Rightarrow> None)"
  by (auto simp: fun_eq_iff calls_of_at without_proc_def call_of_def split: option.split)

section \<open>Every interleaving is atomic\<close>

lemma save_plan_reply: "save_plan fs env p lset = (ops, ok) \<Longrightarrow> reply_of (Saving ops ok l lset) = None"
  by (erule save_plan_shape) simp_all

lemma temp_ops_no_commit: "list_all (temp_op tmp) ops \<Longrightarrow> \<not> list_ex commits ops"
  by (auto simp: list_ex_iff list_all_iff temp_op_def)

lemma takes_effect:
  assumes "ths t = Some th" "reply_of (th_phase th) = None" "spec_step u T (Called (th_proc th) (th_call th) reply) T'" "reply_of ph = Some reply"
  shows "atomic_step u (T, calls_of ths) (TookEffect t reply) (T', calls_of (ths(t \<mapsto> th\<lparr>th_phase := ph\<rparr>)))"
  using atomic_step.takes [of "calls_of ths" t "th_proc th" "th_call th" u T reply T'] assms by (simp add: call_of_def calls_of_at)

lemma stays_silent:
  assumes "ths t = Some th" "reply_of ph = reply_of (th_phase th)"
  shows "atomic_step u (T, calls_of ths) Silent (T, calls_of (ths(t \<mapsto> th\<lparr>th_phase := ph\<rparr>)))"
proof -
  have "(calls_of ths)(t \<mapsto> call_of (th\<lparr>th_phase := ph\<rparr>)) = calls_of ths" using assms by (auto simp: fun_eq_iff call_of_def calls_of_at)
  then show ?thesis using atomic_step.silent [of u "(T, calls_of ths)"] by simp
qed

lemma effect_step:
  assumes "threads_ok u (sys, ths)" "ths t = Some th" "th_phase th = Saving (op # ops) ok l lset" "commits op \<Longrightarrow> fresh_file sys (th_env th)"
  defines "sys' \<equiv> sys\<lparr>sys_fs := apply_lock_op (sys_fs sys) op\<rparr>" and "ths' \<equiv> ths(t \<mapsto> th\<lparr>th_phase := Saving ops ok l lset\<rparr>)"
  shows "threads_ok u (sys', ths') \<and>
    atomic_step u (table sys, calls_of ths) (if commits op then TookEffect t (ReplyLock l None) else Silent) (table sys', calls_of ths')"
proof -
  have "saving_ok u sys th (op # ops) ok l lset" using threads_okD(2) [OF assms(1,2)] assms(3) by (simp add: thread_ok_def)
  from this threads_okD(4) [OF assms(1)] show ?thesis
  proof (cases rule: effect_cases)
    case (temp n)
    note e = temp_effect_step [OF assms(1-3) temp]
    with stays_silent [of ths t th "Saving ops ok l lset" u "table sys"] assms(2,3) show ?thesis by (simp add: sys'_def ths'_def)
  next
    case (rename n data)
    then have c: "commits op" "\<not> list_ex commits ops" using temp_ops_no_commit by auto
    note e = rename_step [OF assms(1-3) assms(4) [OF c(1)] rename(1,3-7,2)]
    with takes_effect [of ths t th u "table sys" "ReplyLock l None" "table sys'" "Saving ops ok l lset"] assms(2) c rename(2) assms(3) show ?thesis by (simp add: sys'_def ths'_def)
  qed
qed

lemma thread_step_refines:
  assumes "thread_step u st ev st'" "threads_ok u st"
  shows "threads_ok u st' \<and> atomic_step u (table (fst st), calls_of (snd st)) ev (table (fst st'), calls_of (snd st'))"
  using assms
proof cases
  case (cancel env sys ths i c)
  with assms(2) error_spec(2) show ?thesis by (auto intro: atomic_step.refused)
next
  case (enter ths t env i c sys)
  with assms(2) enter_step [of u sys ths t env i c] atomic_step.begins [of "calls_of ths" t u "table sys" i c] show ?thesis
    by (simp add: call_of_def calls_of_at)
next
  case (hit ths t th sys reply)
  with assms(2) have ok: "threads_ok u (sys, ths)" by simp
  note h = hit_step [OF ok hit(4-6)]
  with takes_effect [of ths t th u "table sys" reply "table sys" "Returning False reply"] hit show ?thesis by simp
next
  case (lock ths t th sys s)
  with assms(2) have ok: "threads_ok u (sys, ths)" by simp
  with lock_step_ok [OF ok lock(4,5,8), of WithFile] stays_silent [of ths t th WithFile u "table sys"] lock show ?thesis by simp
next
  case (lock_fails ths t th sys s)
  with assms(2) have ok: "threads_ok u (sys, ths)" by simp
  with lock_step_ok [OF ok lock_fails(4,5,7), of "Returning False (call_error (th_call th) ErrLockIO)"]
    takes_effect [of ths t th u "table sys" _ "table sys" "Returning False (call_error (th_call th) ErrLockIO)"] error_spec(1) lock_fails
  show ?thesis by simp
next
  case (answer ths t th sys s reply)
  with assms(2) have ok: "threads_ok u (sys, ths)" by simp
  note a = answer_step [OF ok answer(4-6)]
  with takes_effect [of ths t th u "table sys" reply "table (put_back sys (th_proc th) s)" "Returning True reply"] answer show ?thesis by simp
next
  case (change ths t th sys s l lset ops ok)
  with assms(2) have ok: "threads_ok u (sys, ths)" by simp
  with change_step [OF ok change(4-8)] stays_silent [of ths t th "Saving ops ok l lset" u "table sys"] save_plan_reply [OF change(8), of l] change
  show ?thesis by simp
next
  case (effect ths t th op ops ok l lset sys)
  with assms(2) effect_step [of u sys ths t th op ops ok l lset] show ?thesis by simp
next
  case (save ths t th ok l lset sys)
  let ?ph = "Returning True (if ok then ReplyLock l None else call_error (th_call th) ErrLockIO)"
  from save assms(2) have k: "threads_ok u (sys, ths)" by simp
  note s = save_step [OF k save(4,5), of ?ph]
  show ?thesis
  proof (cases ok)
    case True
    with s save stays_silent [of ths t th ?ph u "table sys"] show ?thesis by simp
  next
    case False
    with s save takes_effect [of ths t th u "table sys" _ "table sys" ?ph] error_spec(1) show ?thesis by simp
  qed
next
  case (release ths t th reply sys)
  with assms(2) return_step [of u sys ths t th reply] stays_silent [of ths t th "Returning False reply" u "table sys"] show ?thesis by simp
next
  case (leave ths t th reply sys)
  with assms(2) leave_step [of u sys ths t th] atomic_step.ends [of "calls_of ths" t "th_proc th" "th_call th" reply u "table sys"] show ?thesis
    by (simp add: call_of_def calls_of_at)
next
  case (crash sys ths i)
  then have "table (fst st') = table sys" by (simp add: table_def fun_eq_iff)
  with crash assms(2) crash_step [of u sys ths i] atomic_step.dies [of u "table sys" "calls_of ths" i] show ?thesis
    by (simp add: calls_without_proc)
qed

lemma thread_run_refines:
  "thread_run u st evs st' \<Longrightarrow> threads_ok u st \<Longrightarrow>
   threads_ok u st' \<and> atomic_run u (table (fst st), calls_of (snd st)) evs (table (fst st'), calls_of (snd st'))"
proof (induction rule: thread_run.induct)
  case (thread_run_cons st ev st' evs st'')
  with thread_step_refines [OF thread_run_cons.hyps(1)] show ?case by (auto intro: atomic_run_cons)
qed (simp add: atomic_run_nil)

lemma no_threads_ok: "threads_ok u (sys, Map.empty) \<longleftrightarrow> sys_ok sys"
proof -
  have "settled sys Map.empty i = proc sys i" for i by (intro store_eqI) (simp_all add: saving_at_def)
  then show ?thesis by (simp add: threads_ok_def exclusive_def sys_ok_def)
qed

section \<open>A call on its own\<close>

lemma thread_run_trans: "thread_run u st evs st' \<Longrightarrow> thread_run u st' evs' st'' \<Longrightarrow> thread_run u st (evs @ evs') st''"
  by (induction rule: thread_run.induct) (auto intro: thread_run_cons)

lemma thread_run_one: "thread_step u st ev st' \<Longrightarrow> thread_run u st [ev] st'"
  by (blast intro: thread_run.intros)

lemma put_back_again [simp]: "put_back (put_back sys i s) i s' = put_back sys i s'" "put_back sys i (proc sys i) = sys"
  by (simp_all add: put_back_def proc_def)

lemma proc_put_back: "st_base s = sys_base sys \<Longrightarrow> proc (put_back sys i s) i = s"
  by (intro store_eqI) simp_all

lemma run_effects:
  assumes "ths t = Some th" "th_phase th = Saving ops ok l lset" "fresh_file sys (th_env th)"
  shows "\<exists>evs. thread_run u (sys, ths) evs
    (sys\<lparr>sys_fs := foldl apply_lock_op (sys_fs sys) ops\<rparr>, ths(t \<mapsto> th\<lparr>th_phase := Saving [] ok l lset\<rparr>))"
  using assms
proof (induction ops arbitrary: sys ths th)
  case Nil
  then have "ths(t \<mapsto> th\<lparr>th_phase := Saving [] ok l lset\<rparr>) = ths" by (simp add: fun_upd_idem)
  then show ?case using thread_run_nil [of u "(sys, ths)"] by auto
next
  case (Cons op ops)
  let ?sys = "sys\<lparr>sys_fs := apply_lock_op (sys_fs sys) op\<rparr>" and ?th = "th\<lparr>th_phase := Saving ops ok l lset\<rparr>"
  have "fresh_file ?sys (th_env ?th)" using Cons.prems(3) by (simp add: fresh_file_def)
  with Cons.IH [of "ths(t \<mapsto> ?th)" ?th ?sys] have "\<exists>evs. thread_run u (?sys, ths(t \<mapsto> ?th)) evs
    (sys\<lparr>sys_fs := foldl apply_lock_op (sys_fs sys) (op # ops)\<rparr>, ths(t \<mapsto> th\<lparr>th_phase := Saving [] ok l lset\<rparr>))"
    by (simp add: fun_upd_same del: fun_upd_apply)
  with thread_step.effect [of ths t th op ops ok l lset sys u] Cons.prems show ?case by (blast intro: thread_run_cons)
qed

lemma decide_info:
  assumes "decide_call u s env c = (s', r)" "st_cache s' key = Some d"
  shows "(\<exists>d'. st_cache s key = Some d' \<and> c_info d = c_info d') \<or>
    (\<exists>f. st_fs s (lockFilePath (st_base s) (call_endpoint c)) = Some f \<and> c_info d = file_stat f)"
proof -
  obtain s2 r2 where l: "readLocks s env (call_endpoint c) = (s2, r2)" by fastforce
  have m: "(\<exists>d'. st_cache s2 key = Some d' \<and> c_info d = c_info d')"
    using assms l
    by (cases c) (auto simp: mutate_set_def store_cache_def cached_def Let_def split: sum.splits option.splits if_splits)
  then obtain d' where "st_cache s2 key = Some d'" "c_info d = c_info d'" by blast
  moreover have "(\<exists>d. st_cache s key = Some d \<and> c_info d' = c_info d) \<or>
    (\<exists>f. st_fs s (lockFilePath (st_base s) (call_endpoint c)) = Some f \<and> c_info d' = file_stat f)"
    using l calculation(1)
    by (auto simp: readLocks_def store_cache_def Let_def split: option.splits read_outcome.splits if_splits)
  ultimately show ?thesis by simp
qed

text \<open>The file on disk is not mistaken for the one that a call is about to write either.\<close>

definition fresh_call :: "lock_system \<Rightarrow> lock_env \<Rightarrow> lock_call \<Rightarrow> bool" where
  "fresh_call sys env c \<longleftrightarrow> fresh_env sys env (call_endpoint c) \<and>
     (\<forall>f. sys_fs sys (lockFilePath (sys_base sys) (call_endpoint c)) = Some f \<longrightarrow> lf_ino f \<noteq> le_ino env \<or> lf_mtime f \<noteq> le_now env)"

lemma decide_fresh_file:
  assumes "fresh_call sys env c" "sys_base sys \<noteq> []" "acquireFileLock (proc sys i) env (call_endpoint c) = (s1, True)" "decide_call u s1 env c = (s2, r)"
  shows "fresh_file (put_back sys i s2) env"
proof -
  note a = acquireFileLock_facts [OF assms(3)]
  have "st_fs s1 (lockFilePath (sys_base sys) (call_endpoint c)) = sys_fs sys (lockFilePath (sys_base sys) (call_endpoint c))"
    using a(4) key_path_not_lock [OF assms(2) Endpoint_safe] by (simp add: lockFilePath_key)
  with decide_info [OF assms(4)] a(1,2)
  have info: "(\<exists>d'. sys_caches sys i key = Some d' \<and> c_info d = c_info d') \<or>
      (\<exists>f. sys_fs sys (lockFilePath (sys_base sys) (call_endpoint c)) = Some f \<and> c_info d = file_stat f)"
    if "st_cache s2 key = Some d" for key d using that by simp
  show ?thesis unfolding fresh_file_def
  proof (intro allI impI)
    fix j key d
    assume "sys_caches (put_back sys i s2) j key = Some d"
    then have "sys_caches sys j key = Some d \<or> st_cache s2 key = Some d" by (simp split: if_splits)
    then show "fi_ino (c_info d) \<noteq> le_ino env \<or> fi_mtime (c_info d) \<noteq> le_now env"
    proof
      assume "st_cache s2 key = Some d"
      from info [OF this] assms(1) show ?thesis by (auto simp: fresh_call_def fresh_env_def file_stat_def)
    qed (use assms(1) in \<open>simp add: fresh_call_def fresh_env_def\<close>)
  qed
qed

lemma file_free_enter: "file_free ths c \<Longrightarrow> \<not> holds_file (th_phase th) \<Longrightarrow> file_free (ths(t \<mapsto> th)) c"
  by (auto simp: file_free_def)

lemma put_back_fs: "(put_back sys i s)\<lparr>sys_fs := fs\<rparr> = put_back sys i (s\<lparr>st_fs := fs\<rparr>)"
  by (simp add: put_back_def)

lemma change_runs:
  assumes "ths t = Some th" "th_phase th = WithFile" "st_base s1 = sys_base sys" "decide_call u s1 (th_env th) (th_call th) = (s2, Inr (l, lset))"
    and "fresh_file (put_back sys (th_proc th) s2) (th_env th)"
    and "le_uuid (th_env th) \<notin> lk_ID ` table (put_back sys (th_proc th) s1) (call_endpoint (th_call th))"
    and "save_plan (st_fs s2) (th_env th) (lockFilePath (st_base s2) (call_endpoint (th_call th))) lset = (ops, ok)"
  shows "\<exists>evs. thread_run u (put_back sys (th_proc th) s1, ths) evs
    (put_back sys (th_proc th) (save_cache (s2\<lparr>st_fs := foldl apply_lock_op (st_fs s2) ops\<rparr>) (th_env th) (call_endpoint (th_call th)) lset ok),
     ths(t \<mapsto> th\<lparr>th_phase := Returning True (if ok then ReplyLock l None else call_error (th_call th) ErrLockIO)\<rparr>))"
proof -
  let ?i = "th_proc th" and ?th = "th\<lparr>th_phase := Saving ops ok l lset\<rparr>" and ?fin = "th\<lparr>th_phase := Saving [] ok l lset\<rparr>"
  let ?s = "s2\<lparr>st_fs := foldl apply_lock_op (st_fs s2) ops\<rparr>"
  obtain x where "st_base s2 = st_base s1" by (rule decide_entry [OF assms(4)])
  then have b: "proc (put_back sys ?i s1) ?i = s1" "proc (put_back sys ?i ?s) ?i = ?s" using assms(3) by (auto intro: proc_put_back)
  from thread_step.change [of ths t th u "put_back sys ?i s1" s2 l lset ops ok] assms b(1)
  have 1: "thread_step u (put_back sys ?i s1, ths) Silent (put_back sys ?i s2, ths(t \<mapsto> ?th))" by simp
  from run_effects [of "ths(t \<mapsto> ?th)" t ?th ops ok l lset "put_back sys ?i s2" u] assms(5)
  obtain evs where 2: "thread_run u (put_back sys ?i s2, ths(t \<mapsto> ?th)) evs (put_back sys ?i ?s, ths(t \<mapsto> ?fin))"
    by (auto simp: put_back_fs)
  from thread_step.save [of "ths(t \<mapsto> ?fin)" t ?fin ok l lset u "put_back sys ?i ?s"] b(2)
  obtain ev where 3: "thread_step u (put_back sys ?i ?s, ths(t \<mapsto> ?fin)) ev
    (put_back sys ?i (save_cache ?s (th_env th) (call_endpoint (th_call th)) lset ok),
     ths(t \<mapsto> th\<lparr>th_phase := Returning True (if ok then ReplyLock l None else call_error (th_call th) ErrLockIO)\<rparr>))" by (simp cong: if_cong)
  from thread_run_cons [OF 1 thread_run_trans [OF 2 thread_run_one [OF 3]]] show ?thesis by blast
qed

lemma call_runs_inside:
  assumes "ths t = Some th" "th_phase th = WithMutex" "\<not> le_ctx (th_env th)" "file_free ths (th_call th)" "fresh_call sys (th_env th) (th_call th)"
    and "sys_base sys \<noteq> []" "run_call u (proc sys (th_proc th)) (th_env th) (th_call th) = (s', reply)"
  shows "\<exists>evs locked. thread_run u (sys, ths) evs (put_back sys (th_proc th) s', ths(t \<mapsto> th\<lparr>th_phase := Returning locked reply\<rparr>))"
proof (cases "from_cache (proc sys (th_proc th)) (th_call th)")
  case (Some r)
  with assms(3,7) have "s' = proc sys (th_proc th)" "reply = r" by (simp_all add: run_call_steps)
  with thread_run_one [OF thread_step.hit [of ths t th sys r u]] assms(1,2) Some show ?thesis by auto
next
  case None
  let ?i = "th_proc th" and ?c = "th_call th" and ?env = "th_env th" and ?th = "th\<lparr>th_phase := WithFile\<rparr>"
  obtain s1 got where a: "acquireFileLock (proc sys ?i) ?env (call_endpoint ?c) = (s1, got)" by fastforce
  show ?thesis
  proof (cases got)
    case False
    with a None assms(3,7) have "s' = s1" "reply = call_error ?c ErrLockIO" by (simp_all add: run_call_steps)
    with thread_run_one [OF thread_step.lock_fails [of ths t th sys s1 u]] assms(1,2) None a False show ?thesis by auto
  next
    case True
    note f = acquireFileLock_facts [OF a]
    have b: "st_base s1 = sys_base sys" using f(1) by simp
    from thread_step.lock [of ths t th sys s1 u] assms(1,2,4) None a True
    have 1: "thread_step u (sys, ths) Silent (put_back sys ?i s1, ths(t \<mapsto> ?th))" by simp
    obtain s2 r where d: "decide_call u s1 ?env ?c = (s2, r)" by fastforce
    show ?thesis
    proof (cases r)
      case (Inl r')
      with a True None d assms(3,7) have "s' = s2" "reply = r'" by (simp_all add: run_call_steps)
      with thread_run_cons [OF 1 thread_run_one [OF thread_step.answer [of "ths(t \<mapsto> ?th)" t ?th u "put_back sys ?i s1" s2 r']]]
        d Inl proc_put_back [OF b] show ?thesis by auto
    next
      case (Inr x)
      then obtain l lset where x: "r = Inr (l, lset)" by (cases x) auto
      obtain ops ok where p: "save_plan (st_fs s2) ?env (lockFilePath (st_base s2) (call_endpoint ?c)) lset = (ops, ok)" by fastforce
      have "table (put_back sys ?i s1) = table sys"
        using f(4) key_path_not_lock [OF assms(6) Endpoint_safe] by (intro table_fs_cong) (simp_all add: lockFilePath_key)
      then have "le_uuid ?env \<notin> lk_ID ` table (put_back sys ?i s1) (call_endpoint ?c)"
        using assms(5) by (simp add: fresh_call_def fresh_env_def table_def)
      with change_runs [of "ths(t \<mapsto> ?th)" t ?th s1 sys u s2 l lset ops ok] b d x p decide_fresh_file [OF assms(5,6) _ d] a True
      obtain evs where "thread_run u (put_back sys ?i s1, ths(t \<mapsto> ?th)) evs
        (put_back sys ?i (save_cache (s2\<lparr>st_fs := foldl apply_lock_op (st_fs s2) ops\<rparr>) ?env (call_endpoint ?c) lset ok),
         ths(t \<mapsto> th\<lparr>th_phase := Returning True (if ok then ReplyLock l None else call_error ?c ErrLockIO)\<rparr>))"
        by (auto cong: if_cong)
      from thread_run_cons [OF 1 this] a True None d x p assms(3,7) show ?thesis by (auto simp: run_call_steps)
    qed
  qed
qed

lemma return_runs:
  assumes "thread_run u st evs (sys, ths(t \<mapsto> th\<lparr>th_phase := Returning locked reply\<rparr>))" "ths t = None"
  shows "\<exists>evs'. thread_run u st (evs' @ [Ended t reply]) (sys, ths)"
proof -
  let ?ths = "\<lambda>locked. ths(t \<mapsto> th\<lparr>th_phase := Returning locked reply\<rparr>)"
  have "(?ths False)(t := None) = ths" using assms(2) by (simp add: fun_upd_idem)
  with thread_step.leave [of "?ths False" t "th\<lparr>th_phase := Returning False reply\<rparr>" reply u sys]
  have fin: "thread_run u (sys, ?ths False) [Ended t reply] (sys, ths)" by (intro thread_run_one) simp
  show ?thesis
  proof (cases locked)
    case True
    have "thread_run u (sys, ?ths True) [Silent] (sys, ?ths False)"
      using thread_step.release [of "?ths True" t "th\<lparr>th_phase := Returning True reply\<rparr>" reply u sys] by (intro thread_run_one) simp
    from thread_run_trans [OF _ thread_run_trans [OF this fin], of st evs] assms(1) True show ?thesis
      by (intro exI [of _ "evs @ [Silent]"]) simp
  next
    case False
    with thread_run_trans [OF _ fin, of st evs] assms(1) show ?thesis by (intro exI [of _ evs]) simp
  qed
qed

lemma call_runs:
  assumes "ths t = None" "\<not> le_ctx env" "mutex_free ths i c" "file_free ths c" "fresh_call sys env c" "sys_base sys \<noteq> []"
    and "run_call u (proc sys i) env c = (s', reply)"
  shows "\<exists>evs. thread_run u (sys, ths) (Began t i c # evs @ [Ended t reply]) (put_back sys i s', ths)"
proof -
  let ?th = "\<lparr>th_proc = i, th_call = c, th_env = env, th_phase = WithMutex\<rparr>"
  have "le_read env \<noteq> ReadGone" using assms(5) by (simp add: fresh_call_def fresh_env_def)
  from thread_step.enter [of ths t env i c u sys] this assms(1-3)
  have 1: "thread_step u (sys, ths) (Began t i c) (sys, ths(t \<mapsto> ?th))" by blast
  from call_runs_inside [of "ths(t \<mapsto> ?th)" t ?th sys u s' reply] assms file_free_enter [OF assms(4), of ?th t]
  obtain evs locked where 2: "thread_run u (sys, ths(t \<mapsto> ?th)) evs (put_back sys i s', ths(t \<mapsto> ?th\<lparr>th_phase := Returning locked reply\<rparr>))"
    by auto
  from return_runs [OF 2 assms(1)] obtain evs' where "thread_run u (sys, ths(t \<mapsto> ?th)) (evs' @ [Ended t reply]) (put_back sys i s', ths)" by blast
  from thread_run_cons [OF 1 this] show ?thesis by (intro exI)
qed

section \<open>No deadlock\<close>

text \<open>How far a call is from its end.\<close>

fun distance :: "lock_phase \<Rightarrow> nat" where
  "distance WithMutex = 9"
| "distance WithFile = 8"
| "distance (Saving ops _ _ _) = 3 + length ops"
| "distance (Returning locked _) = (if locked then 2 else 1)"

lemma save_plan_short: "save_plan fs env p lset = (ops, ok) \<Longrightarrow> length ops \<le> 4"
  by (auto simp: save_plan_def write_plan_def Let_def split: option.splits if_splits)

definition fresh_threads :: "lock_system \<Rightarrow> lock_threads \<Rightarrow> bool" where
  "fresh_threads sys ths \<longleftrightarrow> (\<forall>t th. ths t = Some th \<longrightarrow>
     fresh_file sys (th_env th) \<and> le_uuid (th_env th) \<notin> lk_ID ` table sys (call_endpoint (th_call th)))"

text \<open>A step of a running call that brings it closer to its end.\<close>

definition moves_on :: "unicode_tables \<Rightarrow> lock_system \<Rightarrow> lock_threads \<Rightarrow> nat \<Rightarrow> lock_thread \<Rightarrow> bool" where
  "moves_on u sys ths t th \<longleftrightarrow> (\<exists>ev sys' x. thread_step u (sys, ths) ev (sys', ths(t := x)) \<and> (\<forall>i. ev \<noteq> Died i) \<and>
     (\<forall>th'. x = Some th' \<longrightarrow> distance (th_phase th') < distance (th_phase th)))"

lemma moves_onI:
  assumes "thread_step u (sys, ths) ev (sys', ths(t := x))" "\<And>i. ev \<noteq> Died i"
    and "\<And>th'. x = Some th' \<Longrightarrow> distance (th_phase th') < distance (th_phase th)"
  shows "moves_on u sys ths t th"
  using assms unfolding moves_on_def by blast

lemma mutex_moves:
  assumes "ths t = Some th" "th_phase th = WithMutex" "file_free ths (th_call th)"
  shows "moves_on u sys ths t th"
proof (cases "from_cache (proc sys (th_proc th)) (th_call th)")
  case None
  obtain s got where a: "acquireFileLock (proc sys (th_proc th)) (th_env th) (call_endpoint (th_call th)) = (s, got)" by fastforce
  show ?thesis
  proof (cases got)
    case True
    with a thread_step.lock [of ths t th sys s u] assms None show ?thesis by (intro moves_onI) auto
  next
    case False
    with a thread_step.lock_fails [of ths t th sys s u] assms None show ?thesis by (intro moves_onI) auto
  qed
next
  case (Some reply)
  with thread_step.hit [of ths t th sys reply u] assms show ?thesis by (intro moves_onI) auto
qed

lemma file_moves:
  assumes "ths t = Some th" "th_phase th = WithFile" "fresh_threads sys ths"
  shows "moves_on u sys ths t th"
proof -
  obtain s r where d: "decide_call u (proc sys (th_proc th)) (th_env th) (th_call th) = (s, r)" by fastforce
  show ?thesis
  proof (cases r)
    case (Inl reply)
    with thread_step.answer [of ths t th u sys s reply] d assms show ?thesis by (intro moves_onI) auto
  next
    case (Inr x)
    obtain l lset where x: "x = (l, lset)" by fastforce
    obtain ops ok where p: "save_plan (st_fs s) (th_env th) (lockFilePath (st_base s) (call_endpoint (th_call th))) lset = (ops, ok)" by fastforce
    have "le_uuid (th_env th) \<notin> lk_ID ` table sys (call_endpoint (th_call th))" using assms(1,3) by (simp add: fresh_threads_def)
    with thread_step.change [of ths t th u sys s l lset ops ok] d Inr x p assms(1,2)
    have "thread_step u (sys, ths) Silent (put_back sys (th_proc th) s, ths(t \<mapsto> th\<lparr>th_phase := Saving ops ok l lset\<rparr>))" by simp
    with save_plan_short [OF p] assms(2) show ?thesis by (intro moves_onI) auto
  qed
qed

lemma saving_moves:
  assumes "ths t = Some th" "th_phase th = Saving ops ok l lset" "fresh_threads sys ths"
  shows "moves_on u sys ths t th"
proof (cases ops)
  case Nil
  with thread_step.save [of ths t th ok l lset u sys] assms(1,2) show ?thesis by (cases ok) (intro moves_onI, auto)+
next
  case (Cons op ops')
  have "fresh_file sys (th_env th)" using assms(1,3) by (simp add: fresh_threads_def)
  with thread_step.effect [of ths t th op ops' ok l lset sys u] assms(1,2) Cons show ?thesis
    by (cases "commits op") (intro moves_onI, auto)+
qed

lemma return_moves:
  assumes "ths t = Some th" "th_phase th = Returning locked reply"
  shows "moves_on u sys ths t th"
  using assms thread_step.leave [of ths t th reply u sys] thread_step.release [of ths t th reply u sys]
  by (cases locked) (intro moves_onI, auto)+

lemma thread_moves:
  assumes "ths t = Some th" "th_phase th = WithMutex \<Longrightarrow> file_free ths (th_call th)" "fresh_threads sys ths"
  shows "moves_on u sys ths t th"
  using assms mutex_moves [of ths t th u sys] file_moves [of ths t th sys u] saving_moves [of ths t th _ _ _ _ sys u] return_moves [of ths t th _ _ u sys]
  by (cases "th_phase th") simp_all

text \<open>Endpoints with one directory name have the same locks.\<close>

definition by_endpoint :: "lock_table \<Rightarrow> bool" where
  "by_endpoint T \<longleftrightarrow> (\<forall>e1 e2. Endpoint e1 = Endpoint e2 \<longrightarrow> T e1 = T e2)"

lemma by_endpointD: "by_endpoint T \<Longrightarrow> Endpoint e1 = Endpoint e2 \<Longrightarrow> T e1 = T e2"
  unfolding by_endpoint_def by blast

lemma by_endpoint_set: "by_endpoint T \<Longrightarrow> by_endpoint (set_table T e L)"
  unfolding by_endpoint_def set_table_def by metis

lemma spec_step_table:
  assumes "spec_step u T (Called i c reply) T'"
  shows "T' = T \<or> (\<exists>e L. T' = set_table T e L)"
proof -
  have "T' = T \<or> (\<exists>e L. T' = set_table T e L)" if "spec_create T e path owner l err T'" for e path owner l err
    using that by (cases err; cases "the err") (auto simp: spec_create_def)
  moreover have "T' = T \<or> (\<exists>e L. T' = set_table T e L)" if "spec_unlock u T e k requester force l err T'" for e k requester force l err
    using that by (cases err; cases "the err") (auto simp: spec_unlock_def)
  ultimately show ?thesis using assms by (cases c; cases reply) (auto simp: spec_list_def)
qed

lemma spec_step_by_endpoint: "spec_step u T (Called i c reply) T' \<Longrightarrow> by_endpoint T \<Longrightarrow> by_endpoint T'"
  using spec_step_table [of u T i c reply T'] by (auto intro: by_endpoint_set)

lemma atomic_step_keeps_lock:
  assumes "atomic_step u st ev st'" "l \<in> fst st e" "\<And>t. ev \<noteq> TookEffect t (ReplyLock l None)" "by_endpoint (fst st)"
  shows "l \<in> fst st' e \<and> by_endpoint (fst st')"
  using assms(1)
proof cases
  case (takes calls t i c T reply T')
  have n: "\<not> releases e l (Called i c reply)"
    using assms(3) [of t] takes(2) by (cases "(e, l, Called i c reply)" rule: releases.cases) auto
  have b: "by_endpoint T" "l \<in> T e" using assms(2,4) takes(1) by simp_all
  from step_keeps_lock [OF takes(5) b(2) n by_endpointD [OF b(1)]] have "l \<in> T' e" by blast
  with spec_step_by_endpoint [OF takes(5)] assms(4) takes show ?thesis by simp
qed (use assms(2,4) in simp_all)

lemma atomic_keeps_lock:
  "atomic_run u st evs st' \<Longrightarrow> l \<in> fst st e \<Longrightarrow> by_endpoint (fst st) \<Longrightarrow> \<forall>t. TookEffect t (ReplyLock l None) \<notin> set evs \<Longrightarrow> l \<in> fst st' e"
proof (induction rule: atomic_run.induct)
  case (atomic_run_cons st ev st' evs st'')
  from atomic_step_keeps_lock [OF atomic_run_cons.hyps(1) atomic_run_cons.prems(1) _ atomic_run_cons.prems(2)] atomic_run_cons.prems(3)
  have "l \<in> fst st' e" "by_endpoint (fst st')" by auto
  with atomic_run_cons.IH atomic_run_cons.prems(3) show ?case by simp
qed simp

section \<open>Sample data\<close>

text \<open>Process 0 creates a lock while a \<^verbatim>\<open>List\<close> of process 1 is under way, which then dies.\<close>

abbreviation demo_list :: lock_call where
  "demo_list \<equiv> CallList ''/org/repo'' \<lparr>opt_Path = [], opt_ID = [], opt_Cursor = [], opt_Limit = 0, opt_Refspec = []\<rparr> False"

lemma demo_fresh_call: "fresh_call demo_system demo_lock_env demo_call"
  using demo_fresh by (simp add: fresh_call_def) (simp add: demo_system_def demo_file_def demo_lock_env_def)

lemma demo_interleaving:
  obtains evs sys where "thread_run ascii_tables (demo_system, Map.empty)
    (Began 1 1 demo_list # (Began 0 0 demo_call # evs @ [Ended 0 (snd (run_call ascii_tables (proc demo_system 0) demo_lock_env demo_call))]) @ [Died 1])
    (sys, Map.empty)"
proof -
  let ?th = "\<lparr>th_proc = 1, th_call = demo_list, th_env = demo_lock_env, th_phase = WithMutex\<rparr>"
  obtain s reply where r: "run_call ascii_tables (proc demo_system 0) demo_lock_env demo_call = (s, reply)" by fastforce
  let ?sys = "put_back demo_system 0 s"
  have 1: "thread_step ascii_tables (demo_system, Map.empty) (Began 1 1 demo_list) (demo_system, [1 \<mapsto> ?th])"
    using thread_step.enter [of Map.empty 1 demo_lock_env 1 demo_list ascii_tables demo_system] by (simp add: mutex_free_def demo_lock_env_def)
  have "mutex_free [1 \<mapsto> ?th] 0 demo_call" "file_free [1 \<mapsto> ?th] demo_call"
    by (auto simp: mutex_free_def file_free_def split: if_splits)
  moreover have "sys_base demo_system \<noteq> []" "\<not> le_ctx demo_lock_env" by (simp_all add: demo_system_def demo_lock_env_def)
  ultimately obtain evs where 2: "thread_run ascii_tables (demo_system, [1 \<mapsto> ?th]) (Began 0 0 demo_call # evs @ [Ended 0 reply]) (?sys, [1 \<mapsto> ?th])"
    using call_runs [of "[1 \<mapsto> ?th]" 0 demo_lock_env 0 demo_call demo_system ascii_tables s reply] demo_fresh_call r
    by (auto simp del: run_call.simps)
  have "without_proc 1 [1 \<mapsto> ?th] = Map.empty" by (simp add: fun_eq_iff without_proc_def)
  with thread_step.crash [of ascii_tables ?sys "[1 \<mapsto> ?th]" 1]
  have 3: "thread_step ascii_tables (?sys, [1 \<mapsto> ?th]) (Died 1) (?sys\<lparr>sys_caches := (sys_caches ?sys)(1 := Map.empty)\<rparr>, Map.empty)" by simp
  from thread_run_cons [OF 1 thread_run_trans [OF 2 thread_run_one [OF 3]]] show thesis
    by (intro that) (simp only: r snd_conv)
qed

section \<open>Properties\<close>

text \<open>C3: The lock store is linearizable. Whatever the interleaving of the steps of calls by goroutines of several processes
  (mutexes, file locks, every effect on the lock files and the caches), and wherever calls fail or processes die, the history
  is one of the atomic lock table: each call takes effect in a single moment between its beginning and its end, by the rules of
  the lock table, and ends with the reply that it got at that moment; calls that could change the same endpoint's locks never
  overlap in one process nor while they hold the file lock; and when all calls have ended, caches and files agree.\<close>

theorem calls_linearizable:
  assumes "sys_ok sys" "thread_run u (sys, Map.empty) evs (sys', ths)"
  shows "atomic_run u (table sys, Map.empty) evs (table sys', calls_of ths) \<and> exclusive ths \<and> (ths = Map.empty \<longrightarrow> sys_ok sys')"
proof -
  have "calls_of Map.empty = Map.empty" by (simp add: calls_of_def fun_eq_iff)
  then have "threads_ok u (sys', ths)" "atomic_run u (table sys, Map.empty) evs (table sys', calls_of ths)"
    using thread_run_refines [OF assms(2)] assms(1) by (simp_all add: no_threads_ok)
  then show ?thesis using no_threads_ok threads_okD(3) by blast
qed

theorem calls_linearizable_witness:
  "\<exists>evs sys. atomic_run ascii_tables (table demo_system, Map.empty)
     (Began 1 1 demo_list # (Began 0 0 demo_call # evs @ [Ended 0 (snd (run_call ascii_tables (proc demo_system 0) demo_lock_env demo_call))]) @ [Died 1])
     (table sys, Map.empty) \<and> sys_ok sys"
proof -
  have e: "calls_of Map.empty = Map.empty" by (simp add: calls_of_def fun_eq_iff)
  obtain evs sys where "thread_run ascii_tables (demo_system, Map.empty)
    (Began 1 1 demo_list # (Began 0 0 demo_call # evs @ [Ended 0 (snd (run_call ascii_tables (proc demo_system 0) demo_lock_env demo_call))]) @ [Died 1])
    (sys, Map.empty)" by (rule demo_interleaving)
  from calls_linearizable [OF demo_sys_ok this, unfolded e] show ?thesis by blast
qed

text \<open>A lock that is held stays held through every interleaving, until an \<^verbatim>\<open>Unlock\<close> that returns it takes effect.\<close>

theorem held_lock_kept:
  assumes "sys_ok sys" "thread_run u (sys, Map.empty) evs (sys', ths)" "l \<in> table sys e" "\<forall>t. TookEffect t (ReplyLock l None) \<notin> set evs"
  shows "l \<in> table sys' e"
proof -
  have "by_endpoint (table sys)" unfolding by_endpoint_def using table_cong by blast
  with atomic_keeps_lock [of u _ evs _ l e] thread_run_refines [OF assms(2)] assms(1,3,4) show ?thesis by (fastforce simp: no_threads_ok)
qed

text \<open>No deadlock: while calls are under way, one of them can take a step, and gets closer to its end by it.\<close>

theorem calls_progress:
  assumes "ths t = Some th" "fresh_threads sys ths"
  shows "\<exists>t' th'. ths t' = Some th' \<and> moves_on u sys ths t' th'"
proof (cases "\<exists>t' th'. ths t' = Some th' \<and> holds_file (th_phase th')")
  case True
  then obtain t' th' where t': "ths t' = Some th'" "holds_file (th_phase th')" by blast
  then have "th_phase th' = WithMutex \<Longrightarrow> file_free ths (th_call th')" by simp
  from thread_moves [OF t'(1) this assms(2), of u] t'(1) show ?thesis by blast
next
  case False
  then have "file_free ths (th_call th)" by (auto simp: file_free_def)
  from thread_moves [OF assms(1) this assms(2), of u] assms(1) show ?thesis by blast
qed

end
