(* ===== verification/Windows_Calls.thy ===== *)
theory Windows_Calls
  imports Lock_Store
begin

text \<open>
  The two files that the Windows builds have in place of the Unix ones: \<^verbatim>\<open>src/lfs/filelock_windows.go\<close> and
  \<^verbatim>\<open>src/storage/local_windows.go\<close>. The procedures of \<^verbatim>\<open>kernel32.dll\<close> are arguments: functions from the words they are called with to
  what they return. The lemmas show that both builds give the server the same answers: a file lock is taken and released on the
  same byte, in the mode that was asked for, and the free space and a full disk are reported as on Unix.
\<close>

section \<open>File locks\<close>

type_synonym uintptr = "64 word"

text \<open>The arguments of \<^verbatim>\<open>LockFileEx\<close> and \<^verbatim>\<open>UnlockFileEx\<close>; the last is the overlapped structure, with the offset of the region.\<close>

record overlapped =
  ol_Internal :: uintptr
  ol_InternalHigh :: uintptr
  ol_Offset :: "32 word"
  ol_OffsetHigh :: "32 word"
  ol_HEvent :: uintptr

definition zero_overlapped :: overlapped where
  "zero_overlapped = \<lparr>ol_Internal = 0, ol_InternalHigh = 0, ol_Offset = 0, ol_OffsetHigh = 0, ol_HEvent = 0\<rparr>"

type_synonym dll_proc = "uintptr list \<Rightarrow> overlapped \<Rightarrow> uintptr \<times> 32 word"

definition lockfileExclusiveLock :: uintptr where
  "lockfileExclusiveLock = 0x2"

definition call_result :: "uintptr \<times> 32 word \<Rightarrow> 32 word option" where
  "call_result r = (case r of (ret, callErr) \<Rightarrow> if ret = 0 then Some callErr else None)"

definition lockFileEx :: "dll_proc \<Rightarrow> uintptr \<Rightarrow> uintptr \<Rightarrow> 32 word option" where
  "lockFileEx LockFileEx fd flags = call_result (LockFileEx [fd, flags, 0, 1, 0] zero_overlapped)"

definition lockFile :: "dll_proc \<Rightarrow> uintptr \<Rightarrow> 32 word option" where
  "lockFile LockFileEx fd = lockFileEx LockFileEx fd lockfileExclusiveLock"

definition lockFileShared :: "dll_proc \<Rightarrow> uintptr \<Rightarrow> 32 word option" where
  "lockFileShared LockFileEx fd = lockFileEx LockFileEx fd 0"

definition unlockFile :: "dll_proc \<Rightarrow> uintptr \<Rightarrow> 32 word option" where
  "unlockFile UnlockFileEx fd = call_result (UnlockFileEx [fd, 0, 1, 0] zero_overlapped)"

text \<open>What a call asks for: the region, from an offset of two halves and a length of two halves, and whether to share it.\<close>

definition region :: "overlapped \<Rightarrow> uintptr \<Rightarrow> uintptr \<Rightarrow> nat \<times> nat" where
  "region ov low high = (unat (ol_Offset ov) + 2 ^ 32 * unat (ol_OffsetHigh ov), unat low + 2 ^ 32 * unat high)"

fun lock_region :: "uintptr list \<Rightarrow> overlapped \<Rightarrow> (uintptr \<times> (nat \<times> nat) \<times> bool) option" where
  "lock_region [fd, flags, reserved, low, high] ov =
     (if reserved = 0 then Some (fd, region ov low high, flags AND 0x2 = 0x2) else None)"
| "lock_region _ _ = None"

fun unlock_region :: "uintptr list \<Rightarrow> overlapped \<Rightarrow> (uintptr \<times> (nat \<times> nat)) option" where
  "unlock_region [fd, reserved, low, high] ov = (if reserved = 0 then Some (fd, region ov low high) else None)"
| "unlock_region _ _ = None"

text \<open>A kernel that answers by the request alone. With it, \<^verbatim>\<open>lockFile\<close> asks for the first byte of the file exclusively,
  \<^verbatim>\<open>lockFileShared\<close> for the same byte shared, and \<^verbatim>\<open>unlockFile\<close> gives that byte back.\<close>

lemma lock_requests:
  assumes "\<And>args ov. LockFileEx args ov = K (lock_region args ov)" "\<And>args ov. UnlockFileEx args ov = U (unlock_region args ov)"
  shows "lockFile LockFileEx fd = call_result (K (Some (fd, (0, 1), True)))"
    and "lockFileShared LockFileEx fd = call_result (K (Some (fd, (0, 1), False)))"
    and "unlockFile UnlockFileEx fd = call_result (U (Some (fd, (0, 1))))"
  by (simp_all add: lockFile_def lockFileShared_def unlockFile_def lockFileEx_def assms region_def zero_overlapped_def lockfileExclusiveLock_def)

text \<open>The calls block, so there is no retry: the file lock is held exactly if the procedure returns non-zero, which is the one
  answer that \<^verbatim>\<open>flock\<close> on Unix settles on.\<close>

definition windows_flock :: "uintptr \<times> 32 word \<Rightarrow> flock_outcome" where
  "windows_flock r = (if call_result r = None then FlockHeld else FlockFails)"

lemma windows_flock_is_flock:
  "(windows_flock r = FlockHeld) \<longleftrightarrow> flock (replicate n Interrupted @ [Answer (call_result r = None)]) = Some True"
  by (induction n) (simp_all add: windows_flock_def)

section \<open>The local store\<close>

text \<open>\<^verbatim>\<open>AvailableSpace\<close>: the path is encoded as UTF-16, which fails for a NUL in it; \<^verbatim>\<open>GetDiskFreeSpaceExW\<close> yields its result, the number
  it stores and the error.\<close>

definition AvailableSpace_windows :: "bool \<Rightarrow> (string \<Rightarrow> uintptr \<times> 64 word \<times> 32 word) \<Rightarrow> local \<Rightarrow> store_error + 64 word" where
  "AvailableSpace_windows ctx getDiskFreeSpaceEx l =
     (if ctx then Inl ErrContext
      else if CHR 0x00 \<in> set (basePath l) then Inl ErrIO
      else case getDiskFreeSpaceEx (basePath l) of
        (ret, freeBytesAvailable, callErr) \<Rightarrow> if ret = 0 then Inl ErrIO else Inr freeBytesAvailable)"

text \<open>\<^verbatim>\<open>isNoSpaceErr\<close> on the chain of errors that \<^verbatim>\<open>errors.Is\<close> unwraps.\<close>

definition isNoSpaceErr_windows :: "32 word list \<Rightarrow> bool" where
  "isNoSpaceErr_windows chain \<longleftrightarrow> 0x70 \<in> set chain \<or> 0x27 \<in> set chain"

definition write_error_windows :: "32 word list \<Rightarrow> write_error" where
  "write_error_windows chain = (if isNoSpaceErr_windows chain then NoSpace else WriteOther)"

text \<open>The checks of the local store see the same answers as on Unix: a failure exactly for a cancelled context or a failing call,
  and otherwise a number of bytes, here without the multiplication that could wrap around.\<close>

lemma available_space_builds:
  assumes "CHR 0x00 \<notin> set (basePath l)" "getDiskFreeSpaceEx (basePath l) = (ret, free, err)"
  shows "AvailableSpace_windows ctx getDiskFreeSpaceEx l = AvailableSpace ctx (if ret = 0 then None else Some (free, 1))"
  using assms by (simp add: AvailableSpace_windows_def AvailableSpace_def)

lemma full_disk_reported:
  "write_failure (write_error_windows chain) = ErrInsufficientStorage \<longleftrightarrow> 112 \<in> set chain \<or> 39 \<in> set chain"
  by (simp add: write_failure_def write_error_windows_def isNoSpaceErr_windows_def split: write_error.split)

end
