(* ===== verification/Access.thy ===== *)
theory Access
  imports Object_Transfer Lock_System
begin

text \<open>
  Who may do what: the credentials behind the handlers of \<^verbatim>\<open>src/lfs/handler.go\<close>, the lock handlers on a lock
  store, and the media type checks.
\<close>

section \<open>Credentials\<close>

lemma requireCredentials_Inr:
  assumes "requireCredentials h r op' w = (w1, Inr result)"
  shows "\<exists>a. authenticate h r op' (w_auth w) = (a, Inr result) \<and> res_Authenticated result \<and> w1 = w\<lparr>w_auth := a\<rparr>"
  using assms
  by (auto simp: requireCredentials_def credentials_answer_def split: prod.splits sum.splits auth_error.splits if_splits)

lemma requireCredentials_Inl:
  assumes "requireCredentials h r op' w = (w1, Inl x)"
  shows "rsp_Status x \<noteq> 200 \<and> rsp_Status x \<noteq> 201 \<and> w_store w1 = w_store w \<and> w_locks w1 = w_locks w"
proof -
  have e: "n \<noteq> 200 \<Longrightarrow> n \<noteq> 201 \<Longrightarrow> rsp_Status (writeError_with hs r n m) \<noteq> 200 \<and> rsp_Status (writeError_with hs r n m) \<noteq> 201" for hs n m
    by (simp add: writeError_with_def writeJSON_status)
  obtain a res where a: "authenticate h r op' (w_auth w) = (a, res)" by force
  with assms have w: "w1 = w\<lparr>w_auth := a\<rparr>" "credentials_answer r res = Inl x" by (simp_all add: requireCredentials_def)
  from w(2) have "rsp_Status x \<noteq> 200 \<and> rsp_Status x \<noteq> 201"
    by (auto simp: credentials_answer_def writeError_def e split: sum.splits auth_error.splits if_splits)
  with w(1) show ?thesis by simp
qed

lemma requireAuthResult_Inr:
  assumes "requireAuthResult h r op' w = (w1, Inr result)"
  shows "\<exists>a. authenticate h r op' (w_auth w) = (a, Inr result) \<and> res_Authenticated result \<and> res_Authorized result \<and>
    w1 = w\<lparr>w_auth := a\<rparr>"
proof -
  have "requireCredentials h r op' w = (w1, Inr result)" "res_Authorized result"
    using assms by (auto simp: requireAuthResult_def split: prod.splits sum.splits if_splits)
  with requireCredentials_Inr show ?thesis by blast
qed

lemma writeError_2xx:
  "n \<noteq> 200 \<Longrightarrow> n \<noteq> 201 \<Longrightarrow> rsp_Status (writeError r n m) \<noteq> 200 \<and> rsp_Status (writeError r n m) \<noteq> 201"
  by (simp add: writeError_def writeError_with_def writeJSON_status)

lemma requireAuthResult_Inl:
  assumes "requireAuthResult h r op' w = (w1, Inl x)"
  shows "rsp_Status x \<noteq> 200 \<and> rsp_Status x \<noteq> 201 \<and> w_store w1 = w_store w \<and> w_locks w1 = w_locks w"
proof (cases "requireCredentials h r op' w")
  case (Pair w2 res)
  show ?thesis
  proof (cases res)
    case (Inl y)
    with assms Pair requireCredentials_Inl [of h r op' w w1 x] show ?thesis by (simp add: requireAuthResult_def)
  next
    case (Inr result)
    with assms Pair requireCredentials_Inr [of h r op' w w2 result] writeError_2xx [of 403 r] show ?thesis
      by (auto simp: requireAuthResult_def split: if_splits)
  qed
qed

section \<open>Batches\<close>

lemma batch_request_Inl: "batch_request_of lib env r = Inl x \<Longrightarrow> rsp_Status x \<noteq> 200"
  by (auto simp: batch_request_of_def requireAccept_def requireContentType_def
      split: sum.splits body_error.splits if_splits)

lemma BatchHandler_ok:
  assumes "BatchHandler lib h env r w = (w', x)"
  shows "w_store w' = w_store w \<and> w_locks w' = w_locks w \<and>
    (rsp_Status x = 200 \<longrightarrow>
      (\<exists>req a result. batch_request_of lib env r = Inr req \<and>
        authenticate h r (if br_Operation req = opUpload then OperationUpload else OperationDownload) (w_auth w) = (a, Inr result) \<and>
        res_Authenticated result \<and> res_Authorized result \<and> w' = w\<lparr>w_auth := a\<rparr>))"
proof (cases "batch_request_of lib env r")
  case (Inl y)
  with assms batch_request_Inl [OF Inl] show ?thesis by (simp add: BatchHandler_def)
next
  case (Inr req)
  define op' where "op' = (if br_Operation req = opUpload then OperationUpload else OperationDownload)"
  obtain w1 c where c: "requireCredentials h r op' w = (w1, c)" by force
  show ?thesis
  proof (cases c)
    case (Inl y)
    with assms Inr c requireCredentials_Inl [of h r op' w w1 y] show ?thesis
      by (simp add: BatchHandler_def op'_def [symmetric] Let_def)
  next
    case res: (Inr result)
    obtain a where a: "authenticate h r op' (w_auth w) = (a, Inr result)" "res_Authenticated result" "w1 = w\<lparr>w_auth := a\<rparr>"
      using requireCredentials_Inr [of h r op' w w1 result] c res by blast
    have w': "w' = w1" "res_Authorized result \<or> rsp_Status x \<noteq> 200"
      using assms Inr c res by (auto simp: BatchHandler_def op'_def [symmetric] Let_def split: if_splits)
    show ?thesis using w' a Inr by (auto simp: op'_def)
  qed
qed

section \<open>Locks\<close>

text \<open>What the lock handlers rely on in a lock store: a new lock is for the path and the owner asked for, and a
  lock is only released for its owner or by force.\<close>

locale lock_provider =
  fixes lk :: "'l lock_ops"
    and same :: "string \<Rightarrow> string \<Rightarrow> bool"
  assumes create_law: "lo_Create lk s ep path who = (s', l, None) \<Longrightarrow> lk_Path l = path \<and> owner_Name (lk_Owner l) = who"
    and unlock_law: "lo_Unlock lk s ep i who force = (s', l, None) \<Longrightarrow> force \<or> same (owner_Name (lk_Owner l)) who"

definition file_lock_ops :: "unicode_tables \<Rightarrow> lock_env \<Rightarrow> bool \<Rightarrow> lock_store lock_ops" where
  "file_lock_ops u env fast_fails =
     \<lparr>lo_Create = (\<lambda>s. Create s env), lo_List = (\<lambda>s. List_locks s env fast_fails), lo_Unlock = (\<lambda>s. Unlock u s env)\<rparr>"

interpretation file_locks: lock_provider "file_lock_ops u env fast" "EqualFold u" for u env fast
proof (unfold_locales, goal_cases)
  case (1 s ep path who s' l)
  then show ?case
    by (auto simp: file_lock_ops_def Create_def Let_def split: if_splits prod.splits bool.splits sum.splits option.splits)
next
  case (2 s ep i who force s' l)
  then show ?case
    by (auto simp: file_lock_ops_def Unlock_def Let_def split: if_splits prod.splits bool.splits sum.splits option.splits)
qed

text \<open>The ways through the handlers that write locks.\<close>

lemma CreateLockHandler_cases:
  assumes "CreateLockHandler lib h env r w = (w', x)"
  obtains (refused) "w_locks w' = w_locks w" "rsp_Status x \<noteq> 200" "rsp_Status x \<noteq> 201"
  | (tried) a result req l lock err where "authenticate h r OperationUpload (w_auth w) = (a, Inr result)"
      "res_Authenticated result" "res_Authorized result" "isValidLockPath (cl_Path req)"
      "UnmarshalRead (he_early env) (rq_Body r) create_lock_request_value = Inr req"
      "lo_Create (h_lockStore h) (w_locks w) (ep_Path (h_endpoint h)) (cl_Path req) (res_Username result) = (l, lock, err)"
      "w' = w\<lparr>w_auth := a, w_locks := l\<rparr>"
      "err = None \<longrightarrow> x = writeJSON [] 201 (create_lock_response_json lock [] [] [])" "err \<noteq> None \<longrightarrow> rsp_Status x \<noteq> 201"
proof (cases "requireAuthResult h r OperationUpload w")
  case (Pair w1 c)
  show thesis
  proof (cases c)
    case (Inl y)
    with assms Pair requireAuthResult_Inl [of h r OperationUpload w w1 y] show thesis
      by (intro refused) (simp_all add: CreateLockHandler_def)
  next
    case (Inr result)
    then obtain a where a: "authenticate h r OperationUpload (w_auth w) = (a, Inr result)" "res_Authenticated result"
      "res_Authorized result" "w1 = w\<lparr>w_auth := a\<rparr>"
      using requireAuthResult_Inr Pair by blast
    show thesis
    proof (cases "\<exists>req. requireLFSMediaType lib r = Inr () \<and> isValidLockPath (cl_Path req) \<and>
        UnmarshalRead (he_early env) (rq_Body r) create_lock_request_value = Inr req")
      case False
      have "w' = w1 \<and> rsp_Status x \<noteq> 200 \<and> rsp_Status x \<noteq> 201"
        using assms Pair Inr False writeError_2xx [of 406 r] writeError_2xx [of 415 r] writeError_2xx [of 422 r]
        by (auto simp: CreateLockHandler_def requireLFSMediaType_def requireAccept_def requireContentType_def
            split: sum.splits if_splits)
      with a(4) show thesis by (intro refused) auto
    next
      case True
      then obtain req where req: "requireLFSMediaType lib r = Inr ()" "isValidLockPath (cl_Path req)"
        "UnmarshalRead (he_early env) (rq_Body r) create_lock_request_value = Inr req" by blast
      obtain l lock err where l: "lo_Create (h_lockStore h) (w_locks w) (ep_Path (h_endpoint h)) (cl_Path req) (res_Username result) = (l, lock, err)"
        by (metis prod.collapse)
      have "w' = w\<lparr>w_auth := a, w_locks := l\<rparr> \<and> (err = None \<longrightarrow> x = writeJSON [] 201 (create_lock_response_json lock [] [] [])) \<and>
          (err \<noteq> None \<longrightarrow> rsp_Status x \<noteq> 201)"
      proof (cases err)
        case None
        with assms Pair Inr req l a(4) show ?thesis by (simp add: CreateLockHandler_def Let_def)
      next
        case (Some e)
        with assms Pair Inr req l a(4) writeError_2xx [of 500 r] show ?thesis
          by (cases e) (auto simp: CreateLockHandler_def Let_def writeJSON_status split: if_splits)
      qed
      with a(1-3) req(2,3) l show thesis by (intro tried) auto
    qed
  qed
qed

lemma UnlockHandler_cases:
  assumes "UnlockHandler lib h env r w = (w', x)"
  obtains (refused) "w_locks w' = w_locks w" "rsp_Status x \<noteq> 200" "rsp_Status x \<noteq> 201"
  | (tried) a result req l lock err where "authenticate h r OperationUpload (w_auth w) = (a, Inr result)"
      "res_Authenticated result" "res_Authorized result"
      "UnmarshalRead (he_early env) (rq_Body r) unlock_request_value = Inr req"
      "lo_Unlock (h_lockStore h) (w_locks w) (ep_Path (h_endpoint h)) (rq_PathValue r ''id'') (res_Username result)
         (ul_Force req \<and> res_Maintainer result) = (l, lock, err)"
      "w' = w\<lparr>w_auth := a, w_locks := l\<rparr>"
      "err = None \<longrightarrow> x = writeJSON [] 200 (unlock_response_json lock)" "err \<noteq> None \<longrightarrow> rsp_Status x \<noteq> 200"
proof (cases "requireAuthResult h r OperationUpload w")
  case (Pair w1 c)
  show thesis
  proof (cases c)
    case (Inl y)
    with assms Pair requireAuthResult_Inl [of h r OperationUpload w w1 y] show thesis
      by (intro refused) (simp_all add: UnlockHandler_def)
  next
    case (Inr result)
    then obtain a where a: "authenticate h r OperationUpload (w_auth w) = (a, Inr result)" "res_Authenticated result"
      "res_Authorized result" "w1 = w\<lparr>w_auth := a\<rparr>"
      using requireAuthResult_Inr Pair by blast
    show thesis
    proof (cases "\<exists>req. requireLFSMediaType lib r = Inr () \<and> rq_PathValue r ''id'' \<noteq> [] \<and>
        UnmarshalRead (he_early env) (rq_Body r) unlock_request_value = Inr req")
      case False
      have "w' = w1 \<and> rsp_Status x \<noteq> 200 \<and> rsp_Status x \<noteq> 201"
        using assms Pair Inr False writeError_2xx [of 406 r] writeError_2xx [of 415 r] writeError_2xx [of 422 r]
        by (auto simp: UnlockHandler_def requireLFSMediaType_def requireAccept_def requireContentType_def Let_def
            split: sum.splits if_splits)
      with a(4) show thesis by (intro refused) auto
    next
      case True
      then obtain req where req: "requireLFSMediaType lib r = Inr ()" "rq_PathValue r ''id'' \<noteq> []"
        "UnmarshalRead (he_early env) (rq_Body r) unlock_request_value = Inr req" by blast
      obtain l lock err where l: "lo_Unlock (h_lockStore h) (w_locks w) (ep_Path (h_endpoint h)) (rq_PathValue r ''id'')
          (res_Username result) (ul_Force req \<and> res_Maintainer result) = (l, lock, err)"
        by (metis prod.collapse)
      have "w' = w\<lparr>w_auth := a, w_locks := l\<rparr> \<and> (err = None \<longrightarrow> x = writeJSON [] 200 (unlock_response_json lock)) \<and>
          (err \<noteq> None \<longrightarrow> rsp_Status x \<noteq> 200)"
      proof (cases err)
        case None
        with assms Pair Inr req l a(4) show ?thesis by (simp add: UnlockHandler_def Let_def)
      next
        case (Some e)
        with assms Pair Inr req l a(4) show ?thesis
          by (cases e) (auto simp: UnlockHandler_def Let_def split: if_splits)
      qed
      with a(1-3) req(3) l show thesis by (intro tried) auto
    qed
  qed
qed

context lock_provider
begin

lemma create_owner:
  assumes "h_lockStore h = lk" "CreateLockHandler lib h env r w = (w', x)" "rsp_Status x = 201"
  shows "\<exists>result l. snd (authenticate h r OperationUpload (w_auth w)) = Inr result \<and> res_Authorized result \<and>
    x = writeJSON [] 201 (create_lock_response_json l [] [] []) \<and> owner_Name (lk_Owner l) = res_Username result \<and>
    isValidLockPath (lk_Path l)"
  using assms(2)
proof (cases rule: CreateLockHandler_cases)
  case (tried a result req l lock err)
  with assms(3) have e: "err = None" by blast
  with create_law tried(6) [unfolded assms(1) e] tried show ?thesis by fastforce
qed (use assms(3) in simp)

lemma unlock_owner:
  assumes "h_lockStore h = lk" "UnlockHandler lib h env r w = (w', x)" "rsp_Status x = 200"
  shows "\<exists>result l. snd (authenticate h r OperationUpload (w_auth w)) = Inr result \<and> res_Authorized result \<and>
    x = writeJSON [] 200 (unlock_response_json l) \<and>
    (same (owner_Name (lk_Owner l)) (res_Username result) \<or> res_Maintainer result)"
  using assms(2)
proof (cases rule: UnlockHandler_cases)
  case (tried a result req l lock err)
  with assms(3) have e: "err = None" by blast
  with unlock_law tried(5) [unfolded assms(1) e] tried show ?thesis by fastforce
qed (use assms(3) in simp)

end

section \<open>Properties\<close>

text \<open>C5: Whatever the authenticator, a batch request is answered with 200, and so gets action URLs, only if the
  authenticator found its credentials valid and allowed to do the operation the body names. A batch never
  changes the store or the locks.\<close>

theorem batch_requires_authorization:
  assumes "BatchHandler lib h env r w = (w', x)"
  shows "w_store w' = w_store w \<and> w_locks w' = w_locks w \<and>
    (rsp_Status x = 200 \<longrightarrow>
      (\<exists>req a result. batch_request_of lib env r = Inr req \<and>
        authenticate h r (if br_Operation req = opUpload then OperationUpload else OperationDownload) (w_auth w) = (a, Inr result) \<and>
        res_Authenticated result \<and> res_Authorized result \<and> w' = w\<lparr>w_auth := a\<rparr>))"
  using assms by (rule BatchHandler_ok)

text \<open>Locks are created and released only for callers the authenticator found allowed to upload: a request to
  either handler that changes the lock store or succeeds was authorized.\<close>

theorem lock_change_requires_authorization:
  assumes "CreateLockHandler lib h env r w = (w', x) \<and> created = 201 \<or> UnlockHandler lib h env r w = (w', x) \<and> created = 200"
    and "w_locks w' \<noteq> w_locks w \<or> rsp_Status x = created"
  shows "\<exists>a result. authenticate h r OperationUpload (w_auth w) = (a, Inr result) \<and> res_Authenticated result \<and> res_Authorized result"
  using assms(1)
proof (elim disjE conjE)
  assume "CreateLockHandler lib h env r w = (w', x)" "created = 201"
  then show ?thesis by (cases rule: CreateLockHandler_cases) (use assms(2) in auto)
next
  assume "UnlockHandler lib h env r w = (w', x)" "created = 200"
  then show ?thesis by (cases rule: UnlockHandler_cases) (use assms(2) in auto)
qed


text \<open>A lock created on the file lock store is owned by the caller the authenticator named and is for a path
  that is relative, slash-separated and free of empty, dot and dot-dot elements.\<close>

theorem created_lock_is_callers:
  assumes "h_lockStore h = file_lock_ops u lenv fast" "CreateLockHandler lib h env r w = (w', x)" "rsp_Status x = 201"
  shows "\<exists>result l. snd (authenticate h r OperationUpload (w_auth w)) = Inr result \<and> res_Authorized result \<and>
    x = writeJSON [] 201 (create_lock_response_json l [] [] []) \<and> owner_Name (lk_Owner l) = res_Username result \<and>
    isValidLockPath (lk_Path l)"
  using assms by (rule file_locks.create_owner)

lemma bad_parameter: "media_params (Suc n) u ''; charset'' [] = ParamsBad"
proof -
  have t: "TrimLeftSpace ''; charset'' = ''; charset''" "TrimLeftSpace '' charset'' = ''charset''" "TrimLeftSpace [] = []"
    "TrimSpace ''; charset'' = ''; charset''"
    by (simp_all add: TrimLeftSpace_def TrimSpace_def rune_chunks_ascii space_chunk_def space_rune_def)
  show ?thesis
    by (simp add: Let_def t consumeMediaParam_def HasPrefix_def consumeToken_def token_char_def tspecial_def)
qed

text \<open>A Content-Type with a malformed parameter passes the media type check, although it does not parse.\<close>

theorem malformed_content_type_accepted:
  assumes "rq_Header r ''Content-Type'' = ''application/vnd.git-lfs+json; charset''"
  shows "contentTypeOK u r \<and> snd (snd (ParseMediaType u (rq_Header r ''Content-Type'')))"
proof -
  have "plain_text lfsMediaType" by (simp add: plain_text_def lfsMediaType_def)
  then have t: "TrimSpace lfsMediaType = lfsMediaType" by simp
  have "media_type_ok lfsMediaType"
    by (simp add: media_type_ok_def lfsMediaType_def consumeToken_def token_char_def tspecial_def)
  then have "ParseMediaType u ''application/vnd.git-lfs+json; charset'' = (lfsMediaType, [], True)"
    using t by (simp add: ParseMediaType_def Cut_def lower_char_def lfsMediaType_def Let_def bad_parameter del: media_params.simps)
  then show ?thesis by (simp add: contentTypeOK_def assms)
qed

section \<open>Witnesses\<close>

text \<open>A handler with the local store and the file lock store that lets everyone in, and JSON requests to it.\<close>

definition demo_lock_handler :: "(local, unit, lock_store) handler" where
  "demo_lock_handler = NewHandler (demo_endpoint ''/org/repo'') (\<lambda>_. local_ops ascii_tables demo_local_env) (\<lambda>s. None_step s ())
     ''https://host'' 100 demo_signer (file_lock_ops ascii_tables demo_lock_env False) minute"

definition json_request :: "json \<Rightarrow> string \<Rightarrow> request" where
  "json_request v i = \<lparr>rq_Method = ''POST'',
     rq_Header = (\<lambda>h. if h \<in> {''Accept'', ''Content-Type''} then lfsMediaType else []), rq_Host = ''host'', rq_TLS = True,
     rq_RequestURI = ''/org/repo/locks'', rq_RawQuery = [], rq_PathValue = (\<lambda>_. i), rq_ContentLength = int (length (json_print v)),
     rq_Body = \<lparr>st_pieces = [(0, json_print v)], st_wait = 0, st_err = None\<rparr>, rq_RequestID = []\<rparr>"

lemma UnmarshalRead_json:
  assumes "json_wf max_depth v" "length (json_print v) \<le> 1048576" "decode v = Some x"
  shows "UnmarshalRead early (rq_Body (json_request v i)) decode = Inr x"
proof -
  have "length (stream_data (rq_Body (json_request v i))) \<le> nat maxRequestBodyBytes"
    using assms(2) by (simp add: stream_data_def json_request_def maxRequestBodyBytes_def)
  then have "MaxBytesReader maxRequestBodyBytes (rq_Body (json_request v i)) = rq_Body (json_request v i)"
    by (rule MaxBytesReader_fits)
  then show ?thesis
    using json_parse_print [OF assms(1)] assms(3)
    by (simp add: UnmarshalRead_def stream_reader_def json_request_def rd_data_def Let_def)
qed

lemma lfsMediaType_parses: "ParseMediaType u lfsMediaType = (lfsMediaType, [], False)" "acceptsLFSMediaType u lfsMediaType"
proof -
  have "plain_text lfsMediaType" by (simp add: plain_text_def lfsMediaType_def)
  then have t: "TrimSpace lfsMediaType = lfsMediaType" "TrimLeftSpace [] = []" by (simp_all add: plain_text_def)
  have "media_type_ok lfsMediaType"
    by (simp add: media_type_ok_def lfsMediaType_def consumeToken_def token_char_def tspecial_def)
  moreover have "media_params (Suc n) u [] [] = ParamsOk []" for n by (simp add: t(2))
  ultimately show p: "ParseMediaType u lfsMediaType = (lfsMediaType, [], False)"
    using t by (simp add: ParseMediaType_def Cut_def lower_char_def lfsMediaType_def Let_def del: media_params.simps)
  have "\<not> float_zero (param_value u [] ''q'')"
    by (simp add: param_value_def float_zero_def Let_def)
  moreover have "Split lfsMediaType CHR '','' = [lfsMediaType]"
    by (rule Split_single) (simp add: lfsMediaType_def)
  ultimately show "acceptsLFSMediaType u lfsMediaType"
    by (simp add: acceptsLFSMediaType_def acceptsEntry_def p)
qed

lemma json_request_media: "requireLFSMediaType lib (json_request v i) = Inr ()" "requireAccept lib (json_request v i) = Inr ()"
  "requireContentType lib (json_request v i) = Inr ()"
  by (simp_all add: requireLFSMediaType_def requireAccept_def requireContentType_def contentTypeOK_def json_request_def lfsMediaType_parses)

lemma json_request_anonymous:
  "BasicAuth (json_request v i) = None" "requireAuthResult demo_lock_handler (json_request v i) op' w =
    (w, Inr \<lparr>res_Authenticated = True, res_Authorized = True, res_Username = ''anonymous'', res_Maintainer = True\<rparr>)"
  by (simp_all add: BasicAuth_def json_request_def requireAuthResult_def requireCredentials_def authenticate_def
      demo_lock_handler_def NewHandler_def None_step_def None_Authenticate_def credentials_answer_def)

definition demo_lock_world :: "(local, unit, lock_store) world" where
  "demo_lock_world = \<lparr>w_store = demo_local, w_auth = (), w_locks = proc demo_system 0\<rparr>"

lemma demo_lock_handler_simps [simp]:
  "h_lockStore demo_lock_handler = file_lock_ops ascii_tables demo_lock_env False" "ep_Path (h_endpoint demo_lock_handler) = ''/org/repo''"
  by (simp_all add: demo_lock_handler_def NewHandler_def demo_endpoint_def)

definition create_json :: json where "create_json = JObj [(''path'', JStr ''z.bin'')]"


lemma create_json_read:
  "UnmarshalRead early (rq_Body (json_request create_json i)) create_lock_request_value = Inr \<lparr>cl_Path = ''z.bin'', cl_Ref = None\<rparr>"
  by (rule UnmarshalRead_json)
    (simp_all add: create_json_def max_depth_def ValidString_ascii print_string_def print_char_def create_lock_request_value_def
      members_of_def member_def string_value_def)


lemma demo_create: "\<exists>w'. CreateLockHandler demo_lib demo_lock_handler demo_http_env (json_request create_json []) demo_lock_world =
    (w', writeJSON [] 201 (create_lock_response_json (new_lock demo_lock_env ''z.bin'' ''anonymous'') [] [] []))"
proof -
  let ?s = "proc demo_system 0" and ?l = "new_lock demo_lock_env ''z.bin'' ''anonymous''"
  obtain s' l err where c: "Create ?s demo_lock_env ''/org/repo'' ''z.bin'' ''anonymous'' = (s', l, err)"
    by (metis prod.collapse)
  have t: "locks_of (disk_locks (st_base ?s) (st_fs ?s) ''/org/repo'') = {demo_lock}"
    using demo_locks(1) lockset_wf_newLockSet(2) [of "[demo_lock]"] by (simp add: proc_def)
  have v: "lock_text_valid ?l"
    by (simp add: lock_text_valid_def new_lock_def demo_lock_env_def ValidString_ascii RFC3339_ascii)
  have "err = None"
    using Create_good [OF demo_good v c] t by (simp add: demo_lock_def sample_lock_def demo_lock_env_def)
  moreover from this c have "l = ?l"
    by (auto simp: Create_def new_lock_def Let_def split: if_splits prod.splits bool.splits sum.splits option.splits)
  moreover have "isValidLockPath ''z.bin''"
    by (simp add: isValidLockPath_def ValidPath_def ValidString_ascii valid_elems.simps Let_def)
  ultimately show ?thesis
    using c by (simp add: CreateLockHandler_def json_request_anonymous json_request_media create_json_read)
      (simp add: demo_lock_world_def file_lock_ops_def)
qed

lemma demo_create_valid: "json_valid (create_lock_response_json (new_lock demo_lock_env ''z.bin'' ''anonymous'') [] [] [])"
  by (simp add: create_lock_response_json_def omit_def json_valid_lock lock_text_valid_def new_lock_def demo_lock_env_def
      ValidString_ascii RFC3339_ascii)


theorem created_lock_is_callers_witness:
  "\<exists>w' x l. CreateLockHandler demo_lib demo_lock_handler demo_http_env (json_request create_json []) demo_lock_world = (w', x) \<and>
     x = writeJSON [] 201 (create_lock_response_json l [] [] []) \<and> owner_Name (lk_Owner l) = ''anonymous'' \<and> isValidLockPath (lk_Path l)"
proof -
  obtain w' where c: "CreateLockHandler demo_lib demo_lock_handler demo_http_env (json_request create_json []) demo_lock_world =
      (w', writeJSON [] 201 (create_lock_response_json (new_lock demo_lock_env ''z.bin'' ''anonymous'') [] [] []))"
    using demo_create by blast
  have "snd (authenticate demo_lock_handler (json_request create_json []) OperationUpload (w_auth demo_lock_world)) =
      Inr \<lparr>res_Authenticated = True, res_Authorized = True, res_Username = ''anonymous'', res_Maintainer = True\<rparr>"
    by (simp add: authenticate_def json_request_anonymous(1))
      (simp add: demo_lock_handler_def NewHandler_def None_step_def None_Authenticate_def)
  with created_lock_is_callers [OF demo_lock_handler_simps(1) c] c show ?thesis
    by (fastforce simp: writeJSON_status demo_create_valid)
qed


theorem lock_change_requires_authorization_witness:
  "\<exists>a result. authenticate demo_lock_handler (json_request create_json []) OperationUpload (w_auth demo_lock_world) = (a, Inr result) \<and>
     res_Authorized result"
proof -
  obtain w' where c: "CreateLockHandler demo_lib demo_lock_handler demo_http_env (json_request create_json []) demo_lock_world =
      (w', writeJSON [] 201 (create_lock_response_json (new_lock demo_lock_env ''z.bin'' ''anonymous'') [] [] []))"
    using demo_create by blast
  show ?thesis
    using lock_change_requires_authorization [of demo_lib demo_lock_handler demo_http_env "json_request create_json []" demo_lock_world w' _ 201] c
    by (fastforce simp: writeJSON_status demo_create_valid)
qed

definition batch_json :: json where "batch_json = JObj [(''operation'', JStr ''download'')]"

theorem batch_requires_authorization_witness:
  "\<exists>w' x a result. BatchHandler demo_lib demo_lock_handler demo_http_env (json_request batch_json []) demo_lock_world = (w', x) \<and>
     rsp_Status x = 200 \<and>
     authenticate demo_lock_handler (json_request batch_json []) OperationDownload (w_auth demo_lock_world) = (a, Inr result) \<and>
     res_Authorized result"
proof -
  let ?req = "\<lparr>br_Operation = ''download'', br_Transfers = [], br_Ref = None, br_Objects = [], br_HashAlgo = []\<rparr>"
  have "UnmarshalRead False (rq_Body (json_request batch_json [])) batch_request_value = Inr ?req"
    by (rule UnmarshalRead_json)
      (simp_all add: batch_json_def max_depth_def ValidString_ascii print_string_def print_char_def batch_request_value_def
        members_of_def member_def string_value_def)
  then have b: "batch_request_of demo_lib demo_http_env (json_request batch_json []) = Inr ?req"
    by (simp add: batch_request_of_def json_request_media demo_http_env_def maxObjectsPerBatch_def opDownload_def)
  have c: "requireCredentials demo_lock_handler (json_request batch_json []) op' w =
      (w, Inr \<lparr>res_Authenticated = True, res_Authorized = True, res_Username = ''anonymous'', res_Maintainer = True\<rparr>)" for op' w
    by (simp add: requireCredentials_def authenticate_def json_request_anonymous(1))
      (simp add: demo_lock_handler_def NewHandler_def None_step_def None_Authenticate_def credentials_answer_def)
  have h: "BatchHandler demo_lib demo_lock_handler demo_http_env (json_request batch_json []) demo_lock_world =
      (demo_lock_world, writeJSON [] 200 (batch_response_json \<lparr>bp_Transfer = ''basic'', bp_Objects = [], bp_HashAlgo = hashAlgo\<rparr>))"
    by (simp add: BatchHandler_def b c Let_def processBatch_def opUpload_def)
  have s: "rsp_Status (writeJSON [] 200 (batch_response_json \<lparr>bp_Transfer = ''basic'', bp_Objects = [], bp_HashAlgo = hashAlgo\<rparr>)) = 200"
    by (simp add: writeJSON_status batch_response_json_def omit_def hashAlgo_def ValidString_ascii)
  from batch_requires_authorization [OF h] s b obtain a result where
    "authenticate demo_lock_handler (json_request batch_json []) OperationDownload (w_auth demo_lock_world) = (a, Inr result)"
    "res_Authorized result"
    by (auto simp: opUpload_def)
  with h s show ?thesis by blast
qed

theorem malformed_content_type_accepted_witness:
  "contentTypeOK ascii_tables ((json_request JNull [])\<lparr>rq_Header := (\<lambda>_. ''application/vnd.git-lfs+json; charset'')\<rparr>)"
  using malformed_content_type_accepted [of "(json_request JNull [])\<lparr>rq_Header := (\<lambda>_. ''application/vnd.git-lfs+json; charset'')\<rparr>" ascii_tables]
  by simp

end
