(* ===== verification/ServeMux.thy ===== *)
theory ServeMux
  imports Go_Path Go_Url
begin

text \<open>
  Go's \<^verbatim>\<open>http.ServeMux\<close> as \<^verbatim>\<open>src/main.go\<close> uses it: patterns without a host, the check for conflicts when a pattern
  is registered, which panics, and the choice of the handler for a request. The routing tree is the list of
  the registered patterns, taken apart segment by segment: a literal is tried first, then a wildcard,
  then the rest of the path. The facts at the end say what a match means and when one is found.
\<close>

section \<open>Patterns\<close>

text \<open>\<^verbatim>\<open>{$}\<close> is the literal segment \<^verbatim>\<open>/\<close>, and a trailing slash a multi wildcard without a name.\<close>

datatype segment = SegLit string | SegWild string | SegMulti string

record mux_pattern =
  mp_str :: string
  mp_method :: string
  mp_segments :: "segment list"

definition pathUnescape :: "string \<Rightarrow> string" where
  "pathUnescape s = (case unescape EncodePath s of None \<Rightarrow> s | Some u \<Rightarrow> u)"

definition cleanPath :: "string \<Rightarrow> string" where
  "cleanPath p =
     (if p = [] then ''/''
      else let p = (if hd p \<noteq> CHR ''/'' then CHR ''/'' # p else p); np = Clean p
           in if last p = CHR ''/'' \<and> np \<noteq> ''/'' then np @ ''/'' else np)"

text \<open>Names of wildcards, for names of ASCII letters, digits and underscores.\<close>

definition isValidWildcardName :: "string \<Rightarrow> bool" where
  "isValidWildcardName s \<longleftrightarrow> s \<noteq> [] \<and> \<not> is_digit (hd s) \<and>
     list_all (\<lambda>c. is_digit c \<or> c = CHR ''_'' \<or> (let n = byte_of c in (65 \<le> n \<and> n \<le> (90 :: nat)) \<or> (97 \<le> n \<and> n \<le> 122))) s"

text \<open>One segment, given whether it is the last: \<^term>\<open>None\<close> is an error.\<close>

definition parse_segment :: "string \<Rightarrow> bool \<Rightarrow> segment option" where
  "parse_segment seg final =
     (if CHR ''{'' \<notin> set seg then Some (SegLit (pathUnescape seg))
      else if hd seg \<noteq> CHR ''{'' \<or> last seg \<noteq> CHR ''}'' then None
      else let name = butlast (tl seg) in
        if name = ''$'' then (if final then Some (SegLit ''/'') else None)
        else if HasSuffix name ''...'' then
          (let name = take (length name - 3) name in
           if final \<and> isValidWildcardName name then Some (SegMulti name) else None)
        else if isValidWildcardName name then Some (SegWild name) else None)"

text \<open>The loop over a path that starts with a slash.\<close>

function parse_segments :: "string list \<Rightarrow> string \<Rightarrow> segment list option" where
  "parse_segments seen [] = Some []"
| "parse_segments seen (c # rest) =
     (if rest = [] then Some [SegMulti []]
      else let seg = takeWhile (\<lambda>c. c \<noteq> CHR ''/'') rest; rest' = dropWhile (\<lambda>c. c \<noteq> CHR ''/'') rest
        in case parse_segment seg (rest' = []) of
          None \<Rightarrow> None
        | Some (SegLit s) \<Rightarrow> map_option ((#) (SegLit s)) (parse_segments seen rest')
        | Some (SegWild s) \<Rightarrow> if s \<in> set seen then None else map_option ((#) (SegWild s)) (parse_segments (s # seen) rest')
        | Some (SegMulti s) \<Rightarrow> if s \<in> set seen then None else Some [SegMulti s])"
  by pat_completeness auto
termination
  by (relation "measure (length \<circ> snd)") (auto intro: le_imp_less_Suc length_dropWhile_le)

declare parse_segments.simps [simp del]

text \<open>\<^verbatim>\<open>validMethod\<close> for methods of upper-case letters.\<close>

definition validMethod :: "string \<Rightarrow> bool" where
  "validMethod m \<longleftrightarrow> m \<noteq> [] \<and> list_all (\<lambda>c. let n = byte_of c in 65 \<le> n \<and> n \<le> (90 :: nat)) m"

definition blank :: "char \<Rightarrow> bool" where
  "blank c \<longleftrightarrow> c = CHR '' '' \<or> c = CHR 0x09"

text \<open>\<^verbatim>\<open>parsePattern\<close> for patterns without a host.\<close>

definition parsePattern :: "string \<Rightarrow> mux_pattern option" where
  "parsePattern s =
     (let found = list_ex blank s;
          method = (if found then takeWhile (\<lambda>c. \<not> blank c) s else []);
          rest = (if found then dropWhile blank (dropWhile (\<lambda>c. \<not> blank c) s) else s)
      in if method \<noteq> [] \<and> \<not> validMethod method then None
         else if \<not> HasPrefix rest ''/'' then None
         else if method \<noteq> [] \<and> method \<noteq> ''CONNECT'' \<and> rest \<noteq> cleanPath rest then None
         else map_option (\<lambda>segs. \<lparr>mp_str = s, mp_method = method, mp_segments = segs\<rparr>) (parse_segments [] rest))"

section \<open>Conflicts\<close>

datatype relationship = RelEquivalent | RelMoreGeneral | RelMoreSpecific | RelDisjoint | RelOverlaps

definition inverseRelationship :: "relationship \<Rightarrow> relationship" where
  "inverseRelationship r =
     (case r of RelMoreSpecific \<Rightarrow> RelMoreGeneral | RelMoreGeneral \<Rightarrow> RelMoreSpecific | _ \<Rightarrow> r)"

definition combineRelationships :: "relationship \<Rightarrow> relationship \<Rightarrow> relationship" where
  "combineRelationships r1 r2 =
     (case r1 of
        RelEquivalent \<Rightarrow> r2
      | RelDisjoint \<Rightarrow> RelDisjoint
      | RelOverlaps \<Rightarrow> if r2 = RelDisjoint then RelDisjoint else RelOverlaps
      | _ \<Rightarrow> if r2 = RelEquivalent then r1 else if r2 = inverseRelationship r1 then RelOverlaps else r2)"

fun compareSegments :: "segment \<Rightarrow> segment \<Rightarrow> relationship" where
  "compareSegments (SegMulti _) (SegMulti _) = RelEquivalent"
| "compareSegments (SegMulti _) _ = RelMoreGeneral"
| "compareSegments _ (SegMulti _) = RelMoreSpecific"
| "compareSegments (SegWild _) (SegWild _) = RelEquivalent"
| "compareSegments (SegWild _) (SegLit s) = (if s = ''/'' then RelDisjoint else RelMoreGeneral)"
| "compareSegments (SegLit s) (SegWild _) = (if s = ''/'' then RelDisjoint else RelMoreSpecific)"
| "compareSegments (SegLit s) (SegLit t) = (if s = t then RelEquivalent else RelDisjoint)"

fun is_multi :: "segment \<Rightarrow> bool" where
  "is_multi (SegMulti _) = True"
| "is_multi _ = False"

definition ends_multi :: "segment list \<Rightarrow> bool" where
  "ends_multi ss \<longleftrightarrow> ss \<noteq> [] \<and> is_multi (last ss)"

fun compare_loop :: "bool \<Rightarrow> bool \<Rightarrow> relationship \<Rightarrow> segment list \<Rightarrow> segment list \<Rightarrow> relationship" where
  "compare_loop m1 m2 rel (s # ss) (t # ts) =
     (let rel' = combineRelationships rel (compareSegments s t)
      in if rel' = RelDisjoint then RelDisjoint else compare_loop m1 m2 rel' ss ts)"
| "compare_loop m1 m2 rel [] [] = rel"
| "compare_loop m1 m2 rel [] (t # ts) = (if m1 then combineRelationships rel RelMoreGeneral else RelDisjoint)"
| "compare_loop m1 m2 rel (s # ss) [] = (if m2 then combineRelationships rel RelMoreSpecific else RelDisjoint)"

definition comparePaths :: "segment list \<Rightarrow> segment list \<Rightarrow> relationship" where
  "comparePaths ss ts =
     (if length ss \<noteq> length ts \<and> \<not> ends_multi ss \<and> \<not> ends_multi ts then RelDisjoint
      else compare_loop (ends_multi ss) (ends_multi ts) RelEquivalent ss ts)"

definition compareMethods :: "string \<Rightarrow> string \<Rightarrow> relationship" where
  "compareMethods m1 m2 =
     (if m1 = m2 then RelEquivalent
      else if m1 = [] then RelMoreGeneral
      else if m2 = [] then RelMoreSpecific
      else if m1 = ''GET'' \<and> m2 = ''HEAD'' then RelMoreGeneral
      else if m2 = ''GET'' \<and> m1 = ''HEAD'' then RelMoreSpecific
      else RelDisjoint)"

definition conflictsWith :: "mux_pattern \<Rightarrow> mux_pattern \<Rightarrow> bool" where
  "conflictsWith p q \<longleftrightarrow>
     (let rel = combineRelationships (compareMethods (mp_method p) (mp_method q)) (comparePaths (mp_segments p) (mp_segments q))
      in rel = RelEquivalent \<or> rel = RelOverlaps)"

text \<open>\<^verbatim>\<open>Handle\<close> of one pattern after another; \<^term>\<open>None\<close> is the panic.\<close>

type_synonym 'h mux = "(mux_pattern \<times> 'h) list"

fun mux_register :: "'h mux \<Rightarrow> (string \<times> 'h) list \<Rightarrow> 'h mux option" where
  "mux_register mux [] = Some mux"
| "mux_register mux ((s, h) # rs) =
     (case parsePattern s of
        None \<Rightarrow> None
      | Some p \<Rightarrow> if list_ex (\<lambda>(q, _). conflictsWith p q) mux then None else mux_register (mux @ [(p, h)]) rs)"

section \<open>Matching\<close>

definition firstSegment :: "string \<Rightarrow> string \<times> string" where
  "firstSegment path =
     (if path = ''/'' then (''/'', [])
      else (pathUnescape (takeWhile (\<lambda>c. c \<noteq> CHR ''/'') (tl path)), dropWhile (\<lambda>c. c \<noteq> CHR ''/'') (tl path)))"

text \<open>The patterns below a node, each with the segments that are left: those whose next segment is the literal, a
  wildcard, or the last one a multi wildcard.\<close>

definition lit_child :: "string \<Rightarrow> (segment list \<times> 'h) list \<Rightarrow> (segment list \<times> 'h) list" where
  "lit_child s rs = map (apfst tl) (filter (\<lambda>(ss, _). ss \<noteq> [] \<and> hd ss = SegLit s) rs)"

definition wild_child :: "(segment list \<times> 'h) list \<Rightarrow> (segment list \<times> 'h) list" where
  "wild_child rs = map (apfst tl) (filter (\<lambda>(ss, _). case ss of SegWild _ # _ \<Rightarrow> True | _ \<Rightarrow> False) rs)"

definition leaf :: "(segment list \<times> 'h) list \<Rightarrow> 'h option" where
  "leaf rs = map_option snd (List.find (\<lambda>(ss, _). ss = []) rs)"

definition multi_child :: "(segment list \<times> 'h) list \<Rightarrow> (string \<times> 'h) option" where
  "multi_child rs = map_option (\<lambda>(ss, h). (case hd ss of SegMulti n \<Rightarrow> n | _ \<Rightarrow> [], h))
     (List.find (\<lambda>(ss, _). case ss of [SegMulti _] \<Rightarrow> True | _ \<Rightarrow> False) rs)"

lemma firstSegment_shorter: "path \<noteq> [] \<Longrightarrow> firstSegment path = (seg, rest) \<Longrightarrow> length rest < length path"
  by (cases path) (auto simp: firstSegment_def intro: le_imp_less_Suc length_dropWhile_le split: if_splits)

function matchPath :: "(segment list \<times> 'h) list \<Rightarrow> string \<Rightarrow> string list \<Rightarrow> ('h \<times> string list) option" where
  "matchPath rs path matches =
     (if path = [] then map_option (\<lambda>h. (h, matches)) (leaf rs)
      else case firstSegment path of
        (seg, rest) \<Rightarrow>
          (case matchPath (lit_child seg rs) rest matches of
             Some x \<Rightarrow> Some x
           | None \<Rightarrow>
             (case (if seg \<noteq> ''/'' then matchPath (wild_child rs) rest (matches @ [seg]) else None) of
                Some x \<Rightarrow> Some x
              | None \<Rightarrow>
                (case multi_child rs of
                   Some (name, h) \<Rightarrow> Some (h, if name \<noteq> [] then matches @ [pathUnescape (tl path)] else matches)
                 | None \<Rightarrow> None))))"
  by pat_completeness auto
termination
  by (relation "measure (\<lambda>(rs, path, matches). length path)") (auto simp: firstSegment_shorter [OF _ sym])

declare matchPath.simps [simp del]

definition method_routes :: "string \<Rightarrow> 'h mux \<Rightarrow> (segment list \<times> (mux_pattern \<times> 'h)) list" where
  "method_routes m mux = map (\<lambda>(p, h). (mp_segments p, (p, h))) (filter (\<lambda>(p, _). mp_method p = m) mux)"

definition matchMethodAndPath :: "'h mux \<Rightarrow> string \<Rightarrow> string \<Rightarrow> ((mux_pattern \<times> 'h) \<times> string list) option" where
  "matchMethodAndPath mux m path =
     (case matchPath (method_routes m mux) path [] of
        Some x \<Rightarrow> Some x
      | None \<Rightarrow>
        (case (if m = ''HEAD'' then matchPath (method_routes ''GET'' mux) path [] else None) of
           Some x \<Rightarrow> Some x
         | None \<Rightarrow> matchPath (method_routes [] mux) path []))"

definition exactMatch :: "((mux_pattern \<times> 'h) \<times> string list) option \<Rightarrow> string \<Rightarrow> bool" where
  "exactMatch n path =
     (case n of
        None \<Rightarrow> False
      | Some ((p, _), _) \<Rightarrow>
        if \<not> ends_multi (mp_segments p) then True
        else if path \<noteq> [] \<and> last path \<noteq> CHR ''/'' then False
        else length (mp_segments p) = length (filter (\<lambda>c. c = CHR ''/'') path))"

text \<open>The redirect to the path with a slash added, if only that is registered.\<close>

definition matchOrRedirect :: "'h mux \<Rightarrow> string \<Rightarrow> string \<Rightarrow> ((mux_pattern \<times> 'h) \<times> string list) option \<times> string option" where
  "matchOrRedirect mux m path =
     (let n = matchMethodAndPath mux m path in
      if \<not> exactMatch n path \<and> \<not> HasSuffix path ''/'' \<and> exactMatch (matchMethodAndPath mux m (path @ ''/'')) (path @ ''/'')
      then (None, Some (path @ ''/'')) else (n, None))"

text \<open>What the mux decides for a request: a handler with its pattern and the values of its wildcards, a
  redirect with the pattern string recorded for it, or nothing.\<close>

datatype 'h mux_answer = MuxFound mux_pattern 'h "string list" | MuxRedirect string string | MuxNone

definition findHandler :: "'h mux \<Rightarrow> string \<Rightarrow> string \<Rightarrow> 'h mux_answer" where
  "findHandler mux m escapedPath =
     (let path = (if m = ''CONNECT'' then escapedPath else cleanPath escapedPath) in
      case matchOrRedirect mux m path of
        (_, Some target) \<Rightarrow> MuxRedirect target target
      | (n, None) \<Rightarrow>
        if path \<noteq> escapedPath then MuxRedirect path (case n of None \<Rightarrow> [] | Some ((p, _), _) \<Rightarrow> mp_str p)
        else (case n of None \<Rightarrow> MuxNone | Some ((p, h), matches) \<Rightarrow> MuxFound p h matches))"

text \<open>\<^verbatim>\<open>Request.PathValue\<close>: the match of the wildcard of that name.\<close>

fun wild_names :: "segment list \<Rightarrow> string list" where
  "wild_names [] = []"
| "wild_names (SegLit _ # ss) = wild_names ss"
| "wild_names (SegWild n # ss) = n # wild_names ss"
| "wild_names (SegMulti n # ss) = (if n = [] then wild_names ss else n # wild_names ss)"

definition PathValue :: "mux_pattern \<Rightarrow> string list \<Rightarrow> string \<Rightarrow> string" where
  "PathValue p matches name = (case map_of (zip (wild_names (mp_segments p)) matches) name of None \<Rightarrow> [] | Some v \<Rightarrow> v)"

section \<open>What a match means\<close>

text \<open>The segments of a path, and the paths a pattern stands for, with the values of its wildcards.\<close>

function path_segs :: "string \<Rightarrow> string list" where
  "path_segs path = (if path = [] then [] else case firstSegment path of (seg, rest) \<Rightarrow> seg # path_segs rest)"
  by pat_completeness auto
termination
  by (relation "measure length") (auto simp: firstSegment_shorter [OF _ sym])

declare path_segs.simps [simp del]

lemma path_segs_Nil [simp]: "path_segs [] = []"
  by (simp add: path_segs.simps)

inductive seg_match :: "segment list \<Rightarrow> string list \<Rightarrow> string list \<Rightarrow> bool" where
  seg_match_Nil: "seg_match [] [] []"
| seg_match_Lit: "seg_match ss segs vs \<Longrightarrow> seg_match (SegLit s # ss) (s # segs) vs"
| seg_match_Wild: "seg_match ss segs vs \<Longrightarrow> seg \<noteq> ''/'' \<Longrightarrow> seg_match (SegWild n # ss) (seg # segs) (seg # vs)"
| seg_match_Multi: "segs \<noteq> [] \<Longrightarrow> vs = [] \<or> n \<noteq> [] \<Longrightarrow> length vs \<le> 1 \<Longrightarrow> seg_match [SegMulti n] segs vs"

inductive_cases seg_match_LitE [elim!]: "seg_match (SegLit s # ss) segs vs"
inductive_cases seg_match_WildE [elim!]: "seg_match (SegWild n # ss) segs vs"
inductive_cases seg_match_MultiE: "seg_match [SegMulti n] segs vs"
inductive_cases seg_match_NilE [elim!]: "seg_match [] segs vs"
inductive_cases seg_match_ConsE: "seg_match ss (seg # segs) vs"
inductive_cases seg_match_endE: "seg_match ss [] vs"

lemma set_lit_child: "(ss, h) \<in> set (lit_child s rs) \<longleftrightarrow> (SegLit s # ss, h) \<in> set rs"
  by (force simp: lit_child_def image_iff neq_Nil_conv)

lemma set_wild_child: "(ss, h) \<in> set (wild_child rs) \<longleftrightarrow> (\<exists>n. (SegWild n # ss, h) \<in> set rs)"
proof (induction rs)
  case (Cons r rs)
  obtain ts h' where "r = (ts, h')" by (rule prod.exhaust)
  with Cons show ?case by (auto simp: wild_child_def split: list.splits segment.splits)
qed (simp add: wild_child_def)

lemma find_Some_in: "List.find P xs = Some x \<Longrightarrow> x \<in> set xs \<and> P x"
  by (auto simp: find_Some_iff)

lemma leaf_Some: "leaf rs = Some h \<Longrightarrow> ([], h) \<in> set rs"
  by (auto simp: leaf_def dest!: find_Some_in)

lemma leaf_None: "leaf rs = None \<longleftrightarrow> (\<forall>h. ([], h) \<notin> set rs)"
  by (auto simp: leaf_def find_None_iff)

lemma multi_child_Some: "multi_child rs = Some (n, h) \<Longrightarrow> ([SegMulti n], h) \<in> set rs"
proof -
  assume "multi_child rs = Some (n, h)"
  then obtain ss where ss: "List.find (\<lambda>(ss, _). case ss of [SegMulti _] \<Rightarrow> True | _ \<Rightarrow> False) rs = Some (ss, h)"
    "n = (case hd ss of SegMulti n \<Rightarrow> n | _ \<Rightarrow> [])"
    by (auto simp: multi_child_def)
  from find_Some_in [OF ss(1)] have m: "(ss, h) \<in> set rs" "case ss of [SegMulti _] \<Rightarrow> True | _ \<Rightarrow> False" by simp_all
  then obtain n' where "ss = [SegMulti n']" by (cases ss) (auto split: list.splits segment.splits)
  with m(1) ss(2) show ?thesis by simp
qed

lemma multi_child_None: "multi_child rs = None \<Longrightarrow> ([SegMulti n], h) \<notin> set rs"
  by (auto simp: multi_child_def find_None_iff)

text \<open>Whatever is found was registered and matches, with the values recorded.\<close>

lemma matchPath_sound:
  "matchPath rs path ms = Some (h, ms') \<Longrightarrow> \<exists>ss vs. (ss, h) \<in> set rs \<and> seg_match ss (path_segs path) vs \<and> ms' = ms @ vs"
proof (induction rs path ms arbitrary: h ms' rule: matchPath.induct)
  case (1 rs path ms)
  show ?case
  proof (cases "path = []")
    case True
    with 1(3) have "leaf rs = Some h" "ms' = ms" by (auto simp: matchPath.simps [of _ "[]"])
    with True show ?thesis by (auto intro!: exI [of _ "[]"] leaf_Some seg_match_Nil)
  next
    case False
    obtain seg rest where f: "firstSegment path = (seg, rest)" by (rule prod.exhaust)
    then have segs: "path_segs path = seg # path_segs rest" using False by (simp add: path_segs.simps [of path])
    from 1(3) False f consider (lit) "matchPath (lit_child seg rs) rest ms = Some (h, ms')"
      | (wild) "seg \<noteq> ''/''" "matchPath (wild_child rs) rest (ms @ [seg]) = Some (h, ms')" "matchPath (lit_child seg rs) rest ms = None"
      | (multi) n where "multi_child rs = Some (n, h)" "ms' = (if n \<noteq> [] then ms @ [pathUnescape (tl path)] else ms)"
      by (auto simp: matchPath.simps [of rs path] split: option.splits if_splits)
    then show ?thesis
    proof cases
      case lit
      from 1(1) [OF False f [symmetric] lit] show ?thesis
        unfolding segs set_lit_child by (blast intro: seg_match_Lit)
    next
      case wild
      from 1(2) [OF False f [symmetric] wild(3,1,2)] obtain ss vs n where
        "(SegWild n # ss, h) \<in> set rs" "seg_match ss (path_segs rest) vs" "ms' = (ms @ [seg]) @ vs"
        unfolding set_wild_child by blast
      with wild(1) show ?thesis unfolding segs
        by (intro exI [of _ "SegWild n # ss"] exI [of _ "seg # vs"]) (auto intro: seg_match_Wild)
    next
      case multi
      then show ?thesis unfolding segs
        by (intro exI [of _ "[SegMulti n]"] exI [of _ "if n \<noteq> [] then [pathUnescape (tl path)] else []"])
          (auto simp: multi_child_Some intro: seg_match_Multi)
    qed
  qed
qed

text \<open>Something is found whenever a registered pattern matches.\<close>

lemma matchPath_complete:
  "(ss, h) \<in> set rs \<Longrightarrow> seg_match ss (path_segs path) vs \<Longrightarrow> matchPath rs path ms \<noteq> None"
proof (induction rs path ms arbitrary: ss vs rule: matchPath.induct)
  case (1 rs path ms)
  show ?case
  proof (cases "path = []")
    case True
    with 1(4) have "ss = []" by (auto elim: seg_match_endE)
    with True 1(3) show ?thesis by (auto simp: matchPath.simps [of _ "[]"] leaf_None)
  next
    case False
    obtain seg rest where f: "firstSegment path = (seg, rest)" by (rule prod.exhaust)
    then have segs: "path_segs path = seg # path_segs rest" using False by (simp add: path_segs.simps [of path])
    show ?thesis
    proof
      assume "matchPath rs path ms = None"
      with False f have none: "matchPath (lit_child seg rs) rest ms = None"
        "seg \<noteq> ''/'' \<Longrightarrow> matchPath (wild_child rs) rest (ms @ [seg]) = None" "multi_child rs = None"
        by (auto simp: matchPath.simps [of rs path] split: option.splits if_splits)
      from 1(4) [unfolded segs] show False
      proof (cases rule: seg_match.cases)
        case (seg_match_Lit ss')
        with 1(3) have "(ss', h) \<in> set (lit_child seg rs)" by (simp add: set_lit_child)
        from 1(1) [OF False f [symmetric] this] seg_match_Lit(2) none(1) show False by blast
      next
        case (seg_match_Wild ss' vs' n)
        with 1(3) have "(ss', h) \<in> set (wild_child rs)" by (auto simp: set_wild_child)
        from 1(2) [OF False f [symmetric] none(1) _ this] seg_match_Wild(3,4) none(2) show False by blast
      next
        case (seg_match_Multi n)
        with 1(3) none(3) show False by (simp add: multi_child_None)
      qed
    qed
  qed
qed

text \<open>A pattern of literals wins over every other.\<close>

lemma matchPath_literal:
  "(map SegLit (path_segs path), h) \<in> set rs \<Longrightarrow>
    \<exists>h'. matchPath rs path ms = Some (h', ms) \<and> (map SegLit (path_segs path), h') \<in> set rs"
proof (induction rs path ms rule: matchPath.induct)
  case (1 rs path ms)
  show ?case
  proof (cases "path = []")
    case True
    with 1(3) have "leaf rs \<noteq> None" by (auto simp: leaf_None)
    with True show ?thesis by (auto simp: matchPath.simps [of _ "[]"] dest: leaf_Some)
  next
    case False
    obtain seg rest where f: "firstSegment path = (seg, rest)" by (rule prod.exhaust)
    then have segs: "path_segs path = seg # path_segs rest" using False by (simp add: path_segs.simps [of path])
    with 1(3) have "(map SegLit (path_segs rest), h) \<in> set (lit_child seg rs)" by (simp add: set_lit_child)
    from 1(1) [OF False f [symmetric] this] segs show ?thesis
      by (auto simp: matchPath.simps [of rs path] False f set_lit_child)
  qed
qed

end
