(* ===== verification/Go_Duration.thy ===== *)
theory Go_Duration
  imports Go_Time
begin

text \<open>
  \<^verbatim>\<open>time.ParseDuration\<close>, with its 64-bit counters and the double precision arithmetic of its fractions.

  The exponent of a double is not bounded here: the
  only doubles are a fraction below \<open>2 ^ 63\<close>, a power of ten, a unit and their quotient and product, of
  which only the whole part of the last is used. Where a bounded exponent would overflow or lose bits, the
  power of ten is above \<open>10 ^ 300\<close> and that whole part is zero in both.
\<close>

section \<open>Parsing\<close>

text \<open>\<^verbatim>\<open>leadingInt\<close> and \<^verbatim>\<open>leadingFraction\<close>: the value and the rest.\<close>

fun leadingInt :: "nat \<Rightarrow> string \<Rightarrow> (nat \<times> string) option" where
  "leadingInt x [] = Some (x, [])"
| "leadingInt x (c # cs) =
     (if \<not> is_digit c then Some (x, c # cs)
      else if x > 922337203685477580 then None
      else let y = x * 10 + digit_value c in
        if y > 9223372036854775808 then None else leadingInt y cs)"

fun leadingFraction :: "nat \<Rightarrow> double \<Rightarrow> bool \<Rightarrow> string \<Rightarrow> nat \<times> double \<times> string" where
  "leadingFraction x scale overflow [] = (x, scale, [])"
| "leadingFraction x scale overflow (c # cs) =
     (if \<not> is_digit c then (x, scale, c # cs)
      else if overflow then leadingFraction x scale True cs
      else if x > 922337203685477580 then leadingFraction x scale True cs
      else let y = x * 10 + digit_value c in
        if y > 9223372036854775808 then leadingFraction x scale True cs
        else leadingFraction y (double_mul scale (double_of_nat 10)) False cs)"

definition unitMap :: "string \<Rightarrow> nat option" where
  "unitMap = map_of [
     (''ns'', 1),
     (''us'', 1000),
     ([CHR 0xC2, CHR 0xB5, CHR ''s''], 1000),
     ([CHR 0xCE, CHR 0xBC, CHR ''s''], 1000),
     (''ms'', 1000000),
     (''s'', 1000000000),
     (''m'', 60000000000),
     (''h'', 3600000000000)]"

definition unit_char :: "char \<Rightarrow> bool" where
  "unit_char c \<longleftrightarrow> c \<noteq> CHR ''.'' \<and> \<not> is_digit c"

text \<open>The number of one term, the value of its unit and the rest of the text.\<close>

definition duration_number :: "string \<Rightarrow> (nat \<times> nat \<times> double \<times> string) option" where
  "duration_number s =
     (case leadingInt 0 s of
        None \<Rightarrow> None
      | Some (v, s1) \<Rightarrow>
        (let pre = (length s \<noteq> length s1) in
         if s1 \<noteq> [] \<and> hd s1 = CHR ''.'' then
           (case leadingFraction 0 (1, 0) False (tl s1) of
              (f, scale, s2) \<Rightarrow> if \<not> pre \<and> length s2 = length (tl s1) then None else Some (v, f, scale, s2))
         else if \<not> pre then None else Some (v, 0, (1, 0), s1)))"

definition duration_term :: "string \<Rightarrow> (nat \<times> string) option" where
  "duration_term s =
     (case duration_number s of
        None \<Rightarrow> None
      | Some (v, f, scale, s2) \<Rightarrow>
        (case unitMap (takeWhile unit_char s2) of
           None \<Rightarrow> None
         | Some unit \<Rightarrow>
           if v > 9223372036854775808 div unit then None
           else let w = v * unit +
                  (if f > 0 then double_trunc (double_mul (double_of_nat f) (double_div (double_of_nat unit) scale)) else 0)
             in if w > 9223372036854775808 then None else Some (w, dropWhile unit_char s2)))"

lemma leadingInt_length: "leadingInt x s = Some (v, r) \<Longrightarrow> length r \<le> length s"
  by (induction x s rule: leadingInt.induct) (auto simp: Let_def split: if_splits)

lemma leadingFraction_length: "leadingFraction x sc ov s = (f, sc', r) \<Longrightarrow> length r \<le> length s"
  by (induction x sc ov s rule: leadingFraction.induct) (auto simp: Let_def split: if_splits)

lemma duration_number_length: "duration_number s = Some (v, f, sc, r) \<Longrightarrow> length r \<le> length s"
  by (auto simp: duration_number_def Let_def dest!: leadingInt_length leadingFraction_length
      split: option.splits if_splits prod.splits)

lemma unitMap_nonempty: "unitMap u = Some k \<Longrightarrow> u \<noteq> []"
  by (auto simp: unitMap_def)

text \<open>A term takes at least its unit from the text, so the loop over the terms ends.\<close>

lemma duration_term_shorter: "duration_term s = Some (w, r) \<Longrightarrow> length r < length s"
proof -
  assume "duration_term s = Some (w, r)"
  then obtain v f sc s2 k where n: "duration_number s = Some (v, f, sc, s2)"
    and u: "unitMap (takeWhile unit_char s2) = Some k" and r: "r = dropWhile unit_char s2"
    by (auto simp: duration_term_def Let_def split: option.splits if_splits prod.splits)
  have "length (takeWhile unit_char s2) + length r = length s2"
    by (metis r length_append takeWhile_dropWhile_id)
  with unitMap_nonempty [OF u] duration_number_length [OF n] show ?thesis
    by (cases "takeWhile unit_char s2") auto
qed

function duration_terms :: "nat \<Rightarrow> string \<Rightarrow> nat option" where
  "duration_terms d s =
     (if s = [] then Some d
      else case duration_term s of
        None \<Rightarrow> None
      | Some (w, rest) \<Rightarrow>
        (let d' = (d + w) mod 2 ^ 64 in
         if d' > 9223372036854775808 then None else duration_terms d' rest))"
  by pat_completeness auto
termination
  by (relation "measure (\<lambda>(d, s). length s)") (auto dest: duration_term_shorter)

declare duration_terms.simps [simp del]

text \<open>\<^verbatim>\<open>time.ParseDuration\<close>; \<^term>\<open>None\<close> is any error.\<close>

definition ParseDuration :: "string \<Rightarrow> duration option" where
  "ParseDuration s =
     (let neg = (s \<noteq> [] \<and> hd s = CHR ''-'');
          t = (if s \<noteq> [] \<and> (hd s = CHR ''-'' \<or> hd s = CHR ''+'') then tl s else s)
      in if t = ''0'' then Some 0
         else if t = [] then None
         else case duration_terms 0 t of
           None \<Rightarrow> None
         | Some d \<Rightarrow>
           if neg then Some (- int d)
           else if d > 9223372036854775807 then None
           else Some (int d))"

lemma duration_terms_bound: "d \<le> 2 ^ 63 \<Longrightarrow> duration_terms d s = Some r \<Longrightarrow> r \<le> 2 ^ 63"
proof (induction d s rule: duration_terms.induct)
  case (1 d s)
  then show ?case
    by (auto simp: duration_terms.simps [of d s] Let_def split: option.splits if_splits)
qed

text \<open>A parsed duration is a 64-bit value.\<close>

lemma ParseDuration_range: "ParseDuration s = Some d \<Longrightarrow> int64_range d"
proof -
  assume p: "ParseDuration s = Some d"
  have *: "duration_terms 0 t = Some n \<Longrightarrow> int n \<le> 2 ^ 63" for t n
    using duration_terms_bound [of 0 t n] by (metis of_nat_le_iff of_nat_numeral of_nat_power zero_le)
  show ?thesis
    using p by (auto simp: ParseDuration_def Let_def int64_range_def dest!: * split: option.splits if_splits)
qed

abbreviation digits_value :: "nat \<Rightarrow> string \<Rightarrow> nat" where
  "digits_value x ds \<equiv> foldl (\<lambda>n c. n * 10 + digit_value c) x ds"

lemma digits_value_mono: "x \<le> digits_value x ds"
proof (induction ds arbitrary: x)
  case (Cons d ds)
  have "x \<le> x * 10 + digit_value d" by simp
  also have "\<dots> \<le> digits_value x (d # ds)" using Cons.IH [of "x * 10 + digit_value d"] by simp
  finally show ?case .
qed simp

lemma leadingInt_digits:
  "list_all is_digit ds \<Longrightarrow> digits_value x ds \<le> 9223372036854775808 \<Longrightarrow> r = [] \<or> \<not> is_digit (hd r) \<Longrightarrow>
   leadingInt x (ds @ r) = Some (digits_value x ds, r)"
proof (induction ds arbitrary: x)
  case Nil
  then show ?case by (cases r) auto
next
  case (Cons d ds)
  have "x * 10 + digit_value d \<le> 9223372036854775808"
    using digits_value_mono [of "x * 10 + digit_value d" ds] Cons.prems(2) by simp
  with Cons show ?case by (simp add: Let_def)
qed

text \<open>A whole number followed by a unit is that many of the unit.\<close>

lemma ParseDuration_whole:
  assumes "unitMap unit = Some k" "list_all unit_char unit" "n * k < 9223372036854775808" "n \<le> 9223372036854775808"
  shows "ParseDuration (format_nat n @ unit) = Some (int n * int k)"
proof -
  let ?s = "format_nat n @ unit"
  have h: "hd (format_nat n) \<noteq> CHR ''-''" "hd (format_nat n) \<noteq> CHR ''+''" "format_nat n \<noteq> []"
    using hd_format_nat [of n] format_nat_digits(2) [of n] by (auto simp: is_digit_def)
  have u: "unit \<noteq> []" "unit_char (hd unit)" "takeWhile unit_char unit = unit" "dropWhile unit_char unit = []"
    using unitMap_nonempty [OF assms(1)] assms(2) by (auto simp: list_all_iff)
  have k: "0 < k" using assms(1) by (auto simp: unitMap_def split: if_splits)
  have "leadingInt 0 ?s = Some (n, unit)"
    using leadingInt_digits [of "format_nat n" 0 unit] u format_nat_digits(1) assms(4)
    by (simp add: format_nat_value unit_char_def)
  then have "duration_number ?s = Some (n, 0, (1, 0), unit)"
    using h u by (simp add: duration_number_def Let_def unit_char_def)
  moreover have "n \<le> 9223372036854775808 div k"
    using assms(3) k by (simp add: less_eq_div_iff_mult_less_eq)
  ultimately have t: "duration_term ?s = Some (n * k, [])"
    using assms(3) by (simp add: duration_term_def u assms(1))
  have "?s \<noteq> ''0''"
    using u h by (cases "format_nat n") auto
  with t h assms(3) show ?thesis
    by (simp add: ParseDuration_def Let_def duration_terms.simps [of 0 ?s] duration_terms.simps [of _ "[]"])
qed

end
