(* ===== verification/Go_Netip.thy ===== *)
theory Go_Netip
  imports Go_Encoding
begin

text \<open>
  What the configuration checks use of Go's \<^verbatim>\<open>net/netip\<close>: parsing addresses and prefixes, and the loopback
  test. An address is its bytes, four or sixteen of them, and the zone of an IPv6 address.
\<close>

record addr =
  ad_bytes :: "nat list"
  ad_zone :: string

section \<open>Addresses\<close>

text \<open>\<^verbatim>\<open>parseIPv4Fields\<close>: four decimal numbers below 256 without leading zeros, between dots.\<close>

definition ipv4_field :: "string \<Rightarrow> nat option" where
  "ipv4_field f =
     (case parse_digits f of
        None \<Rightarrow> None
      | Some n \<Rightarrow> if n > 255 \<or> (length f > 1 \<and> hd f = CHR ''0'') then None else Some n)"

definition parseIPv4Fields :: "string \<Rightarrow> nat list option" where
  "parseIPv4Fields s =
     (let fs = map ipv4_field (Split s CHR ''.'') in
      if length fs = 4 \<and> None \<notin> set fs then Some (map the fs) else None)"

text \<open>
  The loop of \<^verbatim>\<open>parseIPv6\<close> over the groups: the bytes so far, the position of the ellipsis and the rest of
  the text. It ends with \<^term>\<open>None\<close> on an error, and otherwise when sixteen bytes or the text are used up.
\<close>

definition hex_group :: "string \<Rightarrow> nat" where
  "hex_group ds = foldl (\<lambda>n c. n * 16 + the (hex_value c)) 0 ds"

function ipv6_groups :: "nat list \<Rightarrow> nat option \<Rightarrow> string \<Rightarrow> (nat list \<times> nat option \<times> string) option" where
  "ipv6_groups ip ellipsis s =
     (if length ip \<ge> 16 then Some (ip, ellipsis, s)
      else let ds = takeWhile is_hex s; r = dropWhile is_hex s in
        if ds = [] \<or> length ds > 4 then None
        else if r \<noteq> [] \<and> hd r = CHR ''.'' then
          (if (ellipsis = None \<and> length ip \<noteq> 12) \<or> length ip + 4 > 16 then None
           else map_option (\<lambda>fs. (ip @ fs, ellipsis, [])) (parseIPv4Fields s))
        else let acc = hex_group ds; ip' = ip @ [acc div 256, acc mod 256] in
          if r = [] then Some (ip', ellipsis, [])
          else if hd r \<noteq> CHR '':'' \<or> tl r = [] then None
          else if hd (tl r) = CHR '':'' then
            (if ellipsis \<noteq> None then None
             else if tl (tl r) = [] then Some (ip', Some (length ip'), [])
             else ipv6_groups ip' (Some (length ip')) (tl (tl r)))
          else ipv6_groups ip' ellipsis (tl r))"
  by pat_completeness auto
termination
proof (relation "measure (\<lambda>(ip, el, s). 16 - length ip)", goal_cases)
  case 1
  then show ?case by simp
qed auto

declare ipv6_groups.simps [simp del]

definition parseIPv6 :: "string \<Rightarrow> addr option" where
  "parseIPv6 text =
     (case Cut text CHR ''%'' of
        (s, zone, found) \<Rightarrow>
          if found \<and> zone = [] then None
          else let start = (if HasPrefix s ''::'' then (Some 0, drop 2 s) else (None, s)) in
            if fst start \<noteq> None \<and> snd start = [] then Some \<lparr>ad_bytes = replicate 16 0, ad_zone = zone\<rparr>
            else (case ipv6_groups [] (fst start) (snd start) of
              None \<Rightarrow> None
            | Some (ip, ellipsis, rest) \<Rightarrow>
              if rest \<noteq> [] then None
              else (case ellipsis of
                 None \<Rightarrow> if length ip < 16 then None else Some \<lparr>ad_bytes = ip, ad_zone = zone\<rparr>
               | Some k \<Rightarrow>
                 if length ip < 16
                 then Some \<lparr>ad_bytes = take k ip @ replicate (16 - length ip) 0 @ drop k ip, ad_zone = zone\<rparr>
                 else None)))"

text \<open>\<^verbatim>\<open>netip.ParseAddr\<close>: the first dot, colon or percent sign decides.\<close>

definition ParseAddr :: "string \<Rightarrow> addr option" where
  "ParseAddr s =
     (case dropWhile (\<lambda>c. c \<noteq> CHR ''.'' \<and> c \<noteq> CHR '':'' \<and> c \<noteq> CHR ''%'') s of
        [] \<Rightarrow> None
      | c # _ \<Rightarrow>
        if c = CHR ''.'' then map_option (\<lambda>fs. \<lparr>ad_bytes = fs, ad_zone = []\<rparr>) (parseIPv4Fields s)
        else if c = CHR '':'' then parseIPv6 s
        else None)"

text \<open>\<^verbatim>\<open>Addr.IsLoopback\<close>, with IPv4 addresses mapped into IPv6 unmapped first.\<close>

definition IsLoopback :: "addr \<Rightarrow> bool" where
  "IsLoopback a =
     (let b = ad_bytes a;
          b = (if length b = 16 \<and> take 12 b = replicate 10 0 @ [255, 255] then drop 12 b else b)
      in if length b = 4 then hd b = 127 else b = replicate 15 0 @ [1])"

section \<open>Prefixes\<close>

text \<open>\<^verbatim>\<open>netip.ParsePrefix\<close>: an address without a zone and a number of bits.\<close>

definition ParsePrefix :: "string \<Rightarrow> (addr \<times> nat) option" where
  "ParsePrefix s =
     (if CHR ''/'' \<notin> set s then None
      else let bitsStr = rev (takeWhile (\<lambda>c. c \<noteq> CHR ''/'') (rev s));
               front = take (length s - length bitsStr - 1) s
           in case ParseAddr front of
                None \<Rightarrow> None
              | Some ip \<Rightarrow>
                if ad_zone ip \<noteq> [] then None
                else if length bitsStr > 1 \<and> (\<not> is_digit (hd bitsStr) \<or> hd bitsStr = CHR ''0'') then None
                else (case ParseInt bitsStr of
                   None \<Rightarrow> None
                 | Some bits \<Rightarrow>
                   if bits < 0 \<or> bits > (if length (ad_bytes ip) = 4 then 32 else 128) then None
                   else Some (ip, nat bits)))"

lemma ipv4_field_bound: "ipv4_field f = Some n \<Longrightarrow> n \<le> 255"
  by (auto simp: ipv4_field_def split: option.splits if_splits)

lemma parseIPv4Fields_shape: "parseIPv4Fields s = Some b \<Longrightarrow> length b = 4 \<and> list_all (\<lambda>n. n \<le> 255) b"
proof -
  assume "parseIPv4Fields s = Some b"
  then have b: "b = map the (map ipv4_field (Split s CHR ''.''))" "length (map ipv4_field (Split s CHR ''.'')) = 4"
    "None \<notin> set (map ipv4_field (Split s CHR ''.''))"
    by (auto simp: parseIPv4Fields_def Let_def split: if_splits)
  have "the (ipv4_field f) \<le> 255" if "f \<in> set (Split s CHR ''.'')" for f
    using b(3) that ipv4_field_bound [of f] by (cases "ipv4_field f") force+
  with b(1,2) show ?thesis by (auto simp: list_all_iff)
qed

end
