(* ===== verification/Config.thy ===== *)
theory Config
  imports Endpoints Sanitise Go_Mime Go_Duration Go_Netip
begin

text \<open>
  \<^verbatim>\<open>src/config/config.go\<close>: the settings, their defaults, the overrides from the environment, and the checks
  that \<^verbatim>\<open>Load\<close> makes before the server starts.

  Pointers to booleans and slices that may be nil are options. The TOML decoder is the argument
  \<^verbatim>\<open>cl_toml\<close>: the decoded settings with absent ones zero, the undecoded keys, and whether
  \<^verbatim>\<open>storage.s3_prefix\<close> is defined. \<^verbatim>\<open>url.Parse\<close> is the argument \<^verbatim>\<open>cl_url_parse\<close>. The environment and the files are
  the record \<^verbatim>\<open>config_env\<close>. An error message is a value of the datatype \<^verbatim>\<open>problem\<close> with what the text quotes.
\<close>

section \<open>Settings\<close>

definition DefaultConfigPath :: string where "DefaultConfigPath = ''config.toml''"

definition DefaultTrustedProxies :: "string list" where
  "DefaultTrustedProxies = [''127.0.0.0/8'', ''::1/128'', ''10.0.0.0/8'', ''172.16.0.0/12'', ''192.168.0.0/16'', ''fc00::/7'']"

definition StorageLocal :: string where "StorageLocal = ''local''"
definition StorageS3 :: string where "StorageS3 = ''s3''"
definition LogFormatJSON :: string where "LogFormatJSON = ''json''"
definition LogFormatConsole :: string where "LogFormatConsole = ''console''"

record storage_settings =
  sg_Backend :: string
  sg_S3Bucket :: string
  sg_S3Region :: string
  sg_S3Endpoint :: string
  sg_S3AccessKeyID :: string
  sg_S3SecretAccessKey :: string
  sg_S3Prefix :: string
  sg_S3PresignedURLs :: "bool option"
  sg_S3ForcePathStyle :: "bool option"

record options =
  op_ListenAddress :: string
  op_MetricsAddress :: string
  op_DataDirectory :: string
  op_BaseURL :: string
  op_MaxUploadSize :: int
  op_UploadIdleTimeout :: string
  op_UploadIdleTimeoutDuration :: duration
  op_LogFormat :: string
  op_LogLevel :: string
  op_AccessLog :: "bool option"
  op_AdditionalLogging :: bool
  op_TrustedProxies :: "string list option"
  op_RateLimitTokens :: nat
  op_RateLimitInterval :: duration
  op_RateLimitWindow :: string
  op_AuthCacheTTL :: string
  op_AuthCacheDuration :: duration
  op_SigningKey :: string
  op_SigningKeyBytes :: bytes
  op_URLExpiry :: string
  op_URLExpiryDuration :: duration
  op_ShutdownTimeout :: string
  op_ShutdownTimeoutDuration :: duration

record config =
  cf_Options :: options
  cf_Storage :: storage_settings
  cf_Endpoints :: "endpoint list"

definition S3PresignedURLsEnabled :: "storage_settings \<Rightarrow> bool" where
  "S3PresignedURLsEnabled s = (case sg_S3PresignedURLs s of None \<Rightarrow> True | Some b \<Rightarrow> b)"

definition S3ForcePathStyleEnabled :: "storage_settings \<Rightarrow> bool" where
  "S3ForcePathStyleEnabled s = (case sg_S3ForcePathStyle s of None \<Rightarrow> False | Some b \<Rightarrow> b)"

definition AccessLogEnabled :: "options \<Rightarrow> bool" where
  "AccessLogEnabled opts = (case op_AccessLog opts of None \<Rightarrow> True | Some b \<Rightarrow> b)"

text \<open>How a message names an endpoint: by its position from 1, or by its name.\<close>

datatype ep_label = LabelNumber nat | LabelName string

definition label :: "endpoint \<Rightarrow> nat \<Rightarrow> ep_label" where
  "label e i = (if ep_Name e = [] then LabelNumber (i + 1) else LabelName (ep_Name e))"

section \<open>Environment and problems\<close>

record config_env =
  ce_env :: "string \<Rightarrow> string option"
  ce_read_file :: "string \<Rightarrow> string option"

definition Getenv :: "config_env \<Rightarrow> string \<Rightarrow> string" where
  "Getenv e name = (case ce_env e name of None \<Rightarrow> [] | Some v \<Rightarrow> v)"

record decoded =
  dc_config :: config
  dc_undecoded :: "string list"
  dc_s3_prefix_defined :: bool

record config_lib =
  cl_unicode :: unicode_tables
  cl_url_parse :: "string \<Rightarrow> url_parts option"
  cl_toml :: "string \<Rightarrow> decoded option"

datatype (plugins only: code) problem =
    NotPositiveBytes string string
  | NotPositiveNumber string string
  | NotBoolean string string
  | BothSecrets string
  | SecretUnreadable string
  | SecretEmpty string string
  | InvalidDuration string string
  | DurationNotPositive string
  | DurationNegative string
  | SigningKeyNotHex
  | SigningKeyShort
  | S3Missing string
  | InvalidURL string string
  | PrefixLeadingSlash string
  | PrefixNoTrailingSlash string
  | S3CredentialsSplit
  | UnknownBackend string
  | MissingChoice string "string list"
  | UnknownChoice string string "string list"
  | MaxUploadNegative
  | MetricsAddressInvalid string
  | MetricsPortTaken string string
  | ProxyInvalid string
  | NoEndpoints
  | MissingName
  | MissingPath
  | PathNotRooted string
  | PathNotClean string string
  | PathDuplicate string
  | PathReserved string
  | PathUnsafe string
  | PathReservedEntry string string
  | PathSameDirectory string string ep_label
  | APIURLWithoutAuth
  | PrivateWithoutAuth
  | GitHubURLMissing
  | GitHubURLInvalid string
  | GitHubURLForeign string
  | GitHubURLPath string
  | GitHubAPIInvalid string
  | GitHubAPIInsecure string
  | AtEndpoint ep_label problem

datatype load_error =
    ReadingConfig
  | ParsingConfig
  | UnrecognisedKeys "string list"
  | ValidationError "problem list"

definition ResolvePath :: "config_env \<Rightarrow> string \<Rightarrow> string" where
  "ResolvePath e flagPath =
     (if flagPath \<noteq> [] then flagPath
      else let env = Getenv e ''ANCHOR_LFS_CONFIG'' in
        if env \<noteq> [] then env else DefaultConfigPath)"

text \<open>Each undecoded key once, without the tables whose own keys are listed.\<close>

definition unrecognisedKeys :: "string list \<Rightarrow> string list" where
  "unrecognisedKeys undecoded =
     (let keys = foldl (\<lambda>ks name. if name \<in> set ks then ks else ks @ [name]) [] undecoded
      in filter (\<lambda>table. \<not> (\<exists>key \<in> set keys. HasPrefix key (table @ ''.''))) keys)"

section \<open>Defaults\<close>

definition default_to :: "string \<Rightarrow> string \<Rightarrow> string" where
  "default_to d v = (if v = [] then d else v)"

definition default_options :: "options \<Rightarrow> options" where
  "default_options opts = opts\<lparr>
     op_ListenAddress := default_to '':5420'' (op_ListenAddress opts),
     op_DataDirectory := default_to ''./data'' (op_DataDirectory opts),
     op_BaseURL := (if op_BaseURL opts \<noteq> [] then TrimRight (op_BaseURL opts) CHR ''/'' else []),
     op_MaxUploadSize := (if op_MaxUploadSize opts = 0 then 5368709120 else op_MaxUploadSize opts),
     op_UploadIdleTimeout := default_to ''60s'' (op_UploadIdleTimeout opts),
     op_LogFormat := default_to (if op_AdditionalLogging opts then LogFormatConsole else LogFormatJSON) (op_LogFormat opts),
     op_LogLevel := default_to (if op_AdditionalLogging opts then ''debug'' else ''info'') (op_LogLevel opts),
     op_TrustedProxies := (case op_TrustedProxies opts of None \<Rightarrow> Some DefaultTrustedProxies | Some ps \<Rightarrow> Some ps),
     op_RateLimitTokens := (if op_RateLimitTokens opts = 0 then 600 else op_RateLimitTokens opts),
     op_RateLimitWindow := default_to ''1m'' (op_RateLimitWindow opts),
     op_AuthCacheTTL := default_to ''60s'' (op_AuthCacheTTL opts),
     op_URLExpiry := default_to ''10m'' (op_URLExpiry opts),
     op_ShutdownTimeout := default_to ''30s'' (op_ShutdownTimeout opts)\<rparr>"

definition applyDefaults :: "bool \<Rightarrow> config \<Rightarrow> config" where
  "applyDefaults s3_prefix_defined c = c\<lparr>
     cf_Options := default_options (cf_Options c),
     cf_Storage := (cf_Storage c)\<lparr>
       sg_Backend := default_to StorageLocal (sg_Backend (cf_Storage c)),
       sg_S3Prefix := (if s3_prefix_defined then sg_S3Prefix (cf_Storage c) else ''lfs/'')\<rparr>\<rparr>"

section \<open>Environment overrides\<close>

text \<open>A step may change the settings and report problems; the steps run in the order of the source.\<close>

type_synonym config_step = "config \<Rightarrow> problem list \<times> config"

fun run_stages :: "config_step list \<Rightarrow> config \<Rightarrow> problem list \<times> config" where
  "run_stages [] c = ([], c)"
| "run_stages (f # fs) c = (case f c of (ps, c') \<Rightarrow> apfst ((@) ps) (run_stages fs c'))"

definition set_options :: "(options \<Rightarrow> options) \<Rightarrow> config \<Rightarrow> config" where
  "set_options f c = c\<lparr>cf_Options := f (cf_Options c)\<rparr>"

definition set_storage :: "(storage_settings \<Rightarrow> storage_settings) \<Rightarrow> config \<Rightarrow> config" where
  "set_storage f c = c\<lparr>cf_Storage := f (cf_Storage c)\<rparr>"

text \<open>\<^verbatim>\<open>if v := os.Getenv(name); v != "" { target = v }\<close>.\<close>

definition override :: "config_env \<Rightarrow> string \<Rightarrow> (string \<Rightarrow> config \<Rightarrow> config) \<Rightarrow> config_step" where
  "override e name upd c = (let v = Getenv e name in ([], if v \<noteq> [] then upd v c else c))"

definition ParseBool :: "string \<Rightarrow> bool option" where
  "ParseBool s =
     (if s \<in> {''1'', ''t'', ''T'', ''TRUE'', ''true'', ''True''} then Some True
      else if s \<in> {''0'', ''f'', ''F'', ''FALSE'', ''false'', ''False''} then Some False
      else None)"

definition overrideBool :: "config_env \<Rightarrow> string \<Rightarrow> (bool \<Rightarrow> config \<Rightarrow> config) \<Rightarrow> config_step" where
  "overrideBool e name upd c =
     (let v = Getenv e name in
      if v = [] then ([], c)
      else case ParseBool v of
        None \<Rightarrow> ([NotBoolean name v], c)
      | Some b \<Rightarrow> ([], upd b c))"

definition overrideSecret :: "config_env \<Rightarrow> string \<Rightarrow> (string \<Rightarrow> config \<Rightarrow> config) \<Rightarrow> config_step" where
  "overrideSecret e name upd c =
     (let path = Getenv e (name @ ''_FILE'') in
      if path = [] then ([], let v = Getenv e name in if v \<noteq> [] then upd v c else c)
      else if Getenv e name \<noteq> [] then ([BothSecrets name], c)
      else case ce_read_file e path of
        None \<Rightarrow> ([SecretUnreadable name], c)
      | Some data \<Rightarrow>
        (let v = TrimSpace data in
         if v = [] then ([SecretEmpty name path], c) else ([], upd v c)))"

definition override_proxies :: "config_env \<Rightarrow> config_step" where
  "override_proxies e c =
     (case ce_env e ''ANCHOR_LFS_TRUSTED_PROXIES'' of
        None \<Rightarrow> ([], c)
      | Some v \<Rightarrow>
        ([], set_options (\<lambda>opts. opts\<lparr>op_TrustedProxies :=
           Some (filter (\<lambda>entry. entry \<noteq> []) (map TrimSpace (Split v CHR '','')))\<rparr>) c))"

definition override_max_upload :: "config_env \<Rightarrow> config_step" where
  "override_max_upload e c =
     (let v = Getenv e ''ANCHOR_LFS_MAX_UPLOAD_SIZE'' in
      if v = [] then ([], c)
      else case ParseInt v of
        Some n \<Rightarrow>
          if n > 0 then ([], set_options (\<lambda>opts. opts\<lparr>op_MaxUploadSize := n\<rparr>) c)
          else ([NotPositiveBytes ''ANCHOR_LFS_MAX_UPLOAD_SIZE'' v], c)
      | None \<Rightarrow> ([NotPositiveBytes ''ANCHOR_LFS_MAX_UPLOAD_SIZE'' v], c))"

text \<open>\<^verbatim>\<open>strconv.ParseUint(v, 10, bits)\<close>: digits only, no sign.\<close>

definition ParseUint :: "string \<Rightarrow> nat \<Rightarrow> nat option" where
  "ParseUint v bits =
     (case parse_digits v of None \<Rightarrow> None | Some n \<Rightarrow> if n < 2 ^ bits then Some n else None)"

definition override_rate_tokens :: "config_env \<Rightarrow> config_step" where
  "override_rate_tokens e c =
     (let v = Getenv e ''ANCHOR_LFS_RATE_LIMIT_TOKENS'' in
      if v = [] then ([], c)
      else case ParseUint v 64 of
        Some n \<Rightarrow>
          if n > 0 then ([], set_options (\<lambda>opts. opts\<lparr>op_RateLimitTokens := n\<rparr>) c)
          else ([NotPositiveNumber ''ANCHOR_LFS_RATE_LIMIT_TOKENS'' v], c)
      | None \<Rightarrow> ([NotPositiveNumber ''ANCHOR_LFS_RATE_LIMIT_TOKENS'' v], c))"

definition option_overrides :: "config_env \<Rightarrow> config_step list" where
  "option_overrides e = [
     override e ''ANCHOR_LFS_LISTEN'' (\<lambda>v. set_options (\<lambda>opts. opts\<lparr>op_ListenAddress := v\<rparr>)),
     override e ''ANCHOR_LFS_METRICS_ADDRESS'' (\<lambda>v. set_options (\<lambda>opts. opts\<lparr>op_MetricsAddress := v\<rparr>)),
     override e ''ANCHOR_LFS_DATA_DIR'' (\<lambda>v. set_options (\<lambda>opts. opts\<lparr>op_DataDirectory := v\<rparr>)),
     override e ''ANCHOR_LFS_BASE_URL'' (\<lambda>v. set_options (\<lambda>opts. opts\<lparr>op_BaseURL := TrimRight v CHR ''/''\<rparr>)),
     overrideSecret e ''ANCHOR_LFS_SIGNING_KEY'' (\<lambda>v. set_options (\<lambda>opts. opts\<lparr>op_SigningKey := v\<rparr>)),
     override_proxies e,
     override_max_upload e,
     override e ''ANCHOR_LFS_UPLOAD_IDLE_TIMEOUT'' (\<lambda>v. set_options (\<lambda>opts. opts\<lparr>op_UploadIdleTimeout := v\<rparr>)),
     override_rate_tokens e,
     override e ''ANCHOR_LFS_RATE_LIMIT_WINDOW'' (\<lambda>v. set_options (\<lambda>opts. opts\<lparr>op_RateLimitWindow := v\<rparr>)),
     override e ''ANCHOR_LFS_AUTH_CACHE_TTL'' (\<lambda>v. set_options (\<lambda>opts. opts\<lparr>op_AuthCacheTTL := v\<rparr>)),
     override e ''ANCHOR_LFS_URL_EXPIRY'' (\<lambda>v. set_options (\<lambda>opts. opts\<lparr>op_URLExpiry := v\<rparr>)),
     override e ''ANCHOR_LFS_LOG_FORMAT'' (\<lambda>v. set_options (\<lambda>opts. opts\<lparr>op_LogFormat := v\<rparr>)),
     override e ''ANCHOR_LFS_LOG_LEVEL'' (\<lambda>v. set_options (\<lambda>opts. opts\<lparr>op_LogLevel := v\<rparr>)),
     overrideBool e ''ANCHOR_LFS_ACCESS_LOG'' (\<lambda>b. set_options (\<lambda>opts. opts\<lparr>op_AccessLog := Some b\<rparr>)),
     override e ''ANCHOR_LFS_SHUTDOWN_TIMEOUT'' (\<lambda>v. set_options (\<lambda>opts. opts\<lparr>op_ShutdownTimeout := v\<rparr>))]"

definition storage_overrides :: "config_env \<Rightarrow> config_step list" where
  "storage_overrides e = [
     override e ''ANCHOR_LFS_STORAGE_BACKEND'' (\<lambda>v. set_storage (\<lambda>s. s\<lparr>sg_Backend := v\<rparr>)),
     override e ''ANCHOR_LFS_S3_BUCKET'' (\<lambda>v. set_storage (\<lambda>s. s\<lparr>sg_S3Bucket := v\<rparr>)),
     override e ''ANCHOR_LFS_S3_REGION'' (\<lambda>v. set_storage (\<lambda>s. s\<lparr>sg_S3Region := v\<rparr>)),
     override e ''ANCHOR_LFS_S3_ENDPOINT'' (\<lambda>v. set_storage (\<lambda>s. s\<lparr>sg_S3Endpoint := v\<rparr>)),
     overrideSecret e ''ANCHOR_LFS_S3_ACCESS_KEY_ID'' (\<lambda>v. set_storage (\<lambda>s. s\<lparr>sg_S3AccessKeyID := v\<rparr>)),
     overrideSecret e ''ANCHOR_LFS_S3_SECRET_ACCESS_KEY'' (\<lambda>v. set_storage (\<lambda>s. s\<lparr>sg_S3SecretAccessKey := v\<rparr>)),
     override e ''ANCHOR_LFS_S3_PREFIX'' (\<lambda>v. set_storage (\<lambda>s. s\<lparr>sg_S3Prefix := v\<rparr>)),
     overrideBool e ''ANCHOR_LFS_S3_PRESIGNED_URLS'' (\<lambda>b. set_storage (\<lambda>s. s\<lparr>sg_S3PresignedURLs := Some b\<rparr>)),
     overrideBool e ''ANCHOR_LFS_S3_FORCE_PATH_STYLE'' (\<lambda>b. set_storage (\<lambda>s. s\<lparr>sg_S3ForcePathStyle := Some b\<rparr>))]"

definition applyEnvOverrides :: "config_env \<Rightarrow> config_step" where
  "applyEnvOverrides e = run_stages (option_overrides e @ storage_overrides e)"

section \<open>Parsed settings\<close>

definition parseRateLimitWindow :: config_step where
  "parseRateLimitWindow c =
     (case ParseDuration (op_RateLimitWindow (cf_Options c)) of
        None \<Rightarrow> ([InvalidDuration ''rate_limit_window'' (op_RateLimitWindow (cf_Options c))], c)
      | Some d \<Rightarrow>
        if d \<le> 0 then ([DurationNotPositive ''rate_limit_window''], c)
        else ([], set_options (\<lambda>opts. opts\<lparr>op_RateLimitInterval := d\<rparr>) c))"

definition parseAuthCacheTTL :: config_step where
  "parseAuthCacheTTL c =
     (case ParseDuration (op_AuthCacheTTL (cf_Options c)) of
        None \<Rightarrow> ([InvalidDuration ''auth_cache_ttl'' (op_AuthCacheTTL (cf_Options c))], c)
      | Some d \<Rightarrow>
        if d < 0 then ([DurationNegative ''auth_cache_ttl''], c)
        else ([], set_options (\<lambda>opts. opts\<lparr>op_AuthCacheDuration := d\<rparr>) c))"

definition parseURLExpiry :: config_step where
  "parseURLExpiry c =
     (case ParseDuration (op_URLExpiry (cf_Options c)) of
        None \<Rightarrow> ([InvalidDuration ''url_expiry'' (op_URLExpiry (cf_Options c))], c)
      | Some d \<Rightarrow>
        if d \<le> 0 then ([DurationNotPositive ''url_expiry''], c)
        else ([], set_options (\<lambda>opts. opts\<lparr>op_URLExpiryDuration := d\<rparr>) c))"

definition parseShutdownTimeout :: config_step where
  "parseShutdownTimeout c =
     (case ParseDuration (op_ShutdownTimeout (cf_Options c)) of
        None \<Rightarrow> ([InvalidDuration ''shutdown_timeout'' (op_ShutdownTimeout (cf_Options c))], c)
      | Some d \<Rightarrow>
        if d \<le> 0 then ([DurationNotPositive ''shutdown_timeout''], c)
        else ([], set_options (\<lambda>opts. opts\<lparr>op_ShutdownTimeoutDuration := d\<rparr>) c))"

definition parseUploadIdleTimeout :: config_step where
  "parseUploadIdleTimeout c =
     (case ParseDuration (op_UploadIdleTimeout (cf_Options c)) of
        None \<Rightarrow> ([InvalidDuration ''upload_idle_timeout'' (op_UploadIdleTimeout (cf_Options c))], c)
      | Some d \<Rightarrow>
        if d < 0 then ([DurationNegative ''upload_idle_timeout''], c)
        else ([], set_options (\<lambda>opts. opts\<lparr>op_UploadIdleTimeoutDuration := d\<rparr>) c))"

definition parseSigningKey :: config_step where
  "parseSigningKey c =
     (if op_SigningKey (cf_Options c) = [] then ([], c)
      else case hex_decode (op_SigningKey (cf_Options c)) of
        None \<Rightarrow> ([SigningKeyNotHex], c)
      | Some b \<Rightarrow>
        if length b < 32 then ([SigningKeyShort], c)
        else ([], set_options (\<lambda>opts. opts\<lparr>op_SigningKeyBytes := b\<rparr>) c))"

section \<open>Checks\<close>

text \<open>\<^verbatim>\<open>err != nil || u.Scheme == "" || u.Host == ""\<close>.\<close>

definition absolute_url :: "config_lib \<Rightarrow> string \<Rightarrow> bool" where
  "absolute_url lib s =
     (case cl_url_parse lib s of None \<Rightarrow> False | Some p \<Rightarrow> url_Scheme p \<noteq> [] \<and> url_Host p \<noteq> [])"

definition s3_problems :: "config_lib \<Rightarrow> storage_settings \<Rightarrow> problem list" where
  "s3_problems lib s =
     (if sg_S3Bucket s = [] then [S3Missing ''s3_bucket''] else []) @
     (if sg_S3Region s = [] then [S3Missing ''s3_region''] else []) @
     (if sg_S3Endpoint s \<noteq> [] \<and> \<not> absolute_url lib (sg_S3Endpoint s) then [InvalidURL ''s3_endpoint'' (sg_S3Endpoint s)] else []) @
     (if HasPrefix (sg_S3Prefix s) ''/'' then [PrefixLeadingSlash (sg_S3Prefix s)]
      else if sg_S3Prefix s \<noteq> [] \<and> \<not> HasSuffix (sg_S3Prefix s) ''/'' then [PrefixNoTrailingSlash (sg_S3Prefix s)]
      else []) @
     (if (sg_S3AccessKeyID s = []) \<noteq> (sg_S3SecretAccessKey s = []) then [S3CredentialsSplit] else [])"

definition validateStorage :: "config_lib \<Rightarrow> config_step" where
  "validateStorage lib c =
     (let backend = ToLower (cl_unicode lib) (sg_Backend (cf_Storage c));
          c = set_storage (\<lambda>s. s\<lparr>sg_Backend := backend\<rparr>) c
      in if backend = StorageLocal \<or> backend = [] then ([], c)
         else if backend = StorageS3 then (s3_problems lib (cf_Storage c), c)
         else ([UnknownBackend backend], c))"

definition checkChoice :: "config_lib \<Rightarrow> string \<Rightarrow> string \<Rightarrow> string list \<Rightarrow> problem list" where
  "checkChoice lib setting value allowed =
     (if ToLower (cl_unicode lib) value \<in> set allowed then []
      else if value = [] then [MissingChoice setting allowed]
      else [UnknownChoice setting value allowed])"

definition validateMetricsAddress :: "options \<Rightarrow> problem list" where
  "validateMetricsAddress opts =
     (if op_MetricsAddress opts = [] then []
      else case SplitHostPort (op_MetricsAddress opts) of
        None \<Rightarrow> [MetricsAddressInvalid (op_MetricsAddress opts)]
      | Some (_, port) \<Rightarrow>
        if ParseUint port 16 = None then [MetricsAddressInvalid (op_MetricsAddress opts)]
        else (case SplitHostPort (op_ListenAddress opts) of
          None \<Rightarrow> []
        | Some (_, listenPort) \<Rightarrow>
          if listenPort = port \<and> port \<noteq> ''0''
          then [MetricsPortTaken (op_MetricsAddress opts) (op_ListenAddress opts)] else []))"

definition reservedDataDirEntries :: "string set" where
  "reservedDataDirEntries = {''locks'', ''signing.key''}"

definition reservedPaths :: "string set" where
  "reservedPaths = {''health'', ''ready''}"

text \<open>The result, and the two maps as they are afterwards: paths taken, and lower-cased directories taken by whom.\<close>

type_synonym taken = "string list \<times> (string \<times> ep_label) list"

definition validateEndpointPath ::
  "config_lib \<Rightarrow> string \<Rightarrow> ep_label \<Rightarrow> taken \<Rightarrow> problem option \<times> taken" where
  "validateEndpointPath lib endpointPath lab taken =
     (case taken of (paths, dirs) \<Rightarrow>
      if endpointPath = [] then (Some MissingPath, paths, dirs)
      else if \<not> HasPrefix endpointPath ''/'' then (Some (PathNotRooted endpointPath), paths, dirs)
      else if Clean endpointPath \<noteq> endpointPath then (Some (PathNotClean endpointPath (Clean endpointPath)), paths, dirs)
      else if endpointPath \<in> set paths then (Some (PathDuplicate endpointPath), paths, dirs)
      else let paths = endpointPath # paths in
        if TrimLeft endpointPath CHR ''/'' \<in> reservedPaths then (Some (PathReserved endpointPath), paths, dirs)
        else let dir = Endpoint endpointPath; low = ToLower (cl_unicode lib) dir in
          if dir = InvalidEndpoint then (Some (PathUnsafe endpointPath), paths, dirs)
          else if low \<in> reservedDataDirEntries then (Some (PathReservedEntry endpointPath low), paths, dirs)
          else (case map_of dirs low of
            Some other \<Rightarrow> (Some (PathSameDirectory endpointPath dir other), paths, dirs)
          | None \<Rightarrow> (None, paths, (low, lab) # dirs)))"

definition validateAccess :: "config_lib \<Rightarrow> endpoint \<Rightarrow> problem list" where
  "validateAccess lib e =
     checkChoice lib ''authentication'' (ep_Authentication e) [authGitHub, ''none''] @
     (if ep_GitHubAPIURL e \<noteq> [] \<and> AuthMethod (cl_unicode lib) e = ''none'' then [APIURLWithoutAuth] else []) @
     checkChoice lib ''visibility'' (ep_Visibility e) [''public'', ''private''] @
     (if EqualFold (cl_unicode lib) (ep_Visibility e) ''private'' \<and> AuthMethod (cl_unicode lib) e = ''none''
      then [PrivateWithoutAuth] else [])"

text \<open>The loop of \<^verbatim>\<open>validate\<close> over the endpoints, from position \<open>i\<close> on.\<close>

fun validate_endpoints :: "config_lib \<Rightarrow> nat \<Rightarrow> taken \<Rightarrow> endpoint list \<Rightarrow> problem list" where
  "validate_endpoints lib i taken [] = []"
| "validate_endpoints lib i taken (ep # eps) =
     (let lab = label ep i in
      case validateEndpointPath lib (ep_Path ep) lab taken of
        (err, taken') \<Rightarrow>
          (if ep_Name ep = [] then [AtEndpoint lab MissingName] else []) @
          (case err of None \<Rightarrow> [] | Some p \<Rightarrow> [AtEndpoint lab p]) @
          map (AtEndpoint lab) (validateAccess lib ep) @
          validate_endpoints lib (i + 1) taken' eps)"

definition proxy_ok :: "string \<Rightarrow> bool" where
  "proxy_ok proxy \<longleftrightarrow> ParsePrefix proxy \<noteq> None \<or> ParseAddr proxy \<noteq> None"

definition validate :: "config_lib \<Rightarrow> config_step" where
  "validate lib c =
     (case validateStorage lib c of
        (storage_problems, c) \<Rightarrow>
          (let opts = cf_Options c;
               choices = checkChoice lib ''log_format'' (op_LogFormat opts) [LogFormatJSON, LogFormatConsole] @
                 checkChoice lib ''log_level'' (op_LogLevel opts) [''debug'', ''info'', ''warn'', ''error''];
               c = set_options (\<lambda>opts. opts\<lparr>op_LogFormat := ToLower (cl_unicode lib) (op_LogFormat opts),
                 op_LogLevel := ToLower (cl_unicode lib) (op_LogLevel opts)\<rparr>) c;
               problems = storage_problems @ choices @
                 (if op_MaxUploadSize opts < 0 then [MaxUploadNegative] else []) @
                 (if op_BaseURL opts \<noteq> [] \<and> \<not> absolute_url lib (op_BaseURL opts) then [InvalidURL ''base_url'' (op_BaseURL opts)] else []) @
                 validateMetricsAddress opts @
                 map ProxyInvalid (filter (\<lambda>p. \<not> proxy_ok p) (case op_TrustedProxies opts of None \<Rightarrow> [] | Some ps \<Rightarrow> ps))
           in if cf_Endpoints c = [] then (problems @ [NoEndpoints], c)
              else (problems @ validate_endpoints lib 0 ([], []) (cf_Endpoints c), c)))"

section \<open>GitHub repositories\<close>

text \<open>\<^verbatim>\<open>URL.Hostname\<close>: the host without a port of digits and without the brackets of an IPv6 address.\<close>

definition Hostname :: "url_parts \<Rightarrow> string" where
  "Hostname p =
     (let h = url_Host p;
          port = rev (takeWhile (\<lambda>c. c \<noteq> CHR '':'') (rev h));
          h = (if CHR '':'' \<in> set h \<and> list_all is_digit port then take (length h - length port - 1) h else h)
      in if HasPrefix h ''['' \<and> HasSuffix h '']'' then take (length h - 2) (drop 1 h) else h)"

definition isLoopbackHost :: "config_lib \<Rightarrow> string \<Rightarrow> bool" where
  "isLoopbackHost lib host \<longleftrightarrow>
     EqualFold (cl_unicode lib) host ''localhost'' \<or>
     (case ParseAddr host of None \<Rightarrow> False | Some ip \<Rightarrow> IsLoopback ip)"

definition UnexpectedGitHubAPIHost :: "config_lib \<Rightarrow> endpoint \<Rightarrow> bool" where
  "UnexpectedGitHubAPIHost lib e =
     (case ep_GitHubBaseURL e of
        None \<Rightarrow> False
      | Some base \<Rightarrow>
        (case cl_url_parse lib (ep_URL e) of
           None \<Rightarrow> False
         | Some u \<Rightarrow> EqualFold (cl_unicode lib) (url_Host u) ''github.com'' \<and>
             \<not> EqualFold (cl_unicode lib) (Hostname base) ''api.github.com''))"

text \<open>The last part of \<^verbatim>\<open>parseGitHubURL\<close>: the API's base URL, on an endpoint whose owner and repository are set.\<close>

definition parse_api_url :: "config_lib \<Rightarrow> endpoint \<Rightarrow> problem option \<times> endpoint" where
  "parse_api_url lib e =
     (if ep_GitHubAPIURL e = [] then (None, e)
      else case cl_url_parse lib (ep_GitHubAPIURL e) of
        None \<Rightarrow> (Some (GitHubAPIInvalid (ep_GitHubAPIURL e)), e)
      | Some api \<Rightarrow>
        if url_Scheme api = [] \<or> url_Host api = [] then (Some (GitHubAPIInvalid (ep_GitHubAPIURL e)), e)
        else if url_Scheme api \<noteq> ''https'' \<and> (url_Scheme api \<noteq> ''http'' \<or> \<not> isLoopbackHost lib (Hostname api))
        then (Some (GitHubAPIInsecure (ep_GitHubAPIURL e)), e)
        else (None, e\<lparr>ep_GitHubBaseURL :=
          Some (if HasSuffix (url_Path api) ''/'' then api else api\<lparr>url_Path := url_Path api @ ''/''\<rparr>)\<rparr>))"

definition parseGitHubURL :: "config_lib \<Rightarrow> endpoint \<Rightarrow> problem option \<times> endpoint" where
  "parseGitHubURL lib e =
     (if AuthMethod (cl_unicode lib) e \<noteq> authGitHub then (None, e)
      else if ep_URL e = [] then (Some GitHubURLMissing, e)
      else case cl_url_parse lib (ep_URL e) of
        None \<Rightarrow> (Some (GitHubURLInvalid (ep_URL e)), e)
      | Some u \<Rightarrow>
        if \<not> EqualFold (cl_unicode lib) (url_Host u) ''github.com'' \<and> ep_GitHubAPIURL e = []
        then (Some (GitHubURLForeign (ep_URL e)), e)
        else let segments = Split (Trim (url_Path u) CHR ''/'') CHR ''/'' in
          if length segments \<noteq> 2 \<or> segments ! 0 = [] \<or> segments ! 1 = [] then (Some (GitHubURLPath (ep_URL e)), e)
          else parse_api_url lib (e\<lparr>ep_GitHubOwner := segments ! 0, ep_GitHubRepo := segments ! 1\<rparr>))"

fun parse_endpoints :: "config_lib \<Rightarrow> nat \<Rightarrow> endpoint list \<Rightarrow> problem list \<times> endpoint list" where
  "parse_endpoints lib i [] = ([], [])"
| "parse_endpoints lib i (e # es) =
     (case parseGitHubURL lib e of
        (err, e') \<Rightarrow>
          (case parse_endpoints lib (i + 1) es of
             (ps, es') \<Rightarrow> ((case err of None \<Rightarrow> ps | Some p \<Rightarrow> AtEndpoint (label e' i) p # ps), e' # es')))"

section \<open>Loading\<close>

text \<open>The part of \<^verbatim>\<open>Load\<close> after decoding.\<close>

definition finish_load :: "config_lib \<Rightarrow> config_env \<Rightarrow> decoded \<Rightarrow> problem list \<times> config" where
  "finish_load lib e d =
     (case run_stages
        [applyEnvOverrides e, parseRateLimitWindow, parseAuthCacheTTL, parseURLExpiry, parseShutdownTimeout,
         parseUploadIdleTimeout, parseSigningKey, validate lib]
        (applyDefaults (dc_s3_prefix_defined d) (dc_config d)) of
        (problems, c) \<Rightarrow>
          (case parse_endpoints lib 0 (cf_Endpoints c) of
             (ps, eps) \<Rightarrow> (problems @ ps, c\<lparr>cf_Endpoints := eps\<rparr>)))"

definition Load :: "config_lib \<Rightarrow> config_env \<Rightarrow> string \<Rightarrow> load_error + config" where
  "Load lib e path =
     (case ce_read_file e path of
        None \<Rightarrow> Inl ReadingConfig
      | Some data \<Rightarrow>
        (case cl_toml lib data of
           None \<Rightarrow> Inl ParsingConfig
         | Some d \<Rightarrow>
           (let unknown = unrecognisedKeys (dc_undecoded d) in
            if unknown \<noteq> [] then Inl (UnrecognisedKeys unknown)
            else case finish_load lib e d of
              (problems, c) \<Rightarrow> if problems \<noteq> [] then Inl (ValidationError problems) else Inr c)))"

end
