(* ===== verification/Config_Load.thy ===== *)
theory Config_Load
  imports Config Local_Storage Lock_Store Signer
begin

text \<open>
  What a configuration that \<^verbatim>\<open>config.Load\<close> accepts guarantees to the rest of the server: the ranges of its
  settings, endpoints that cannot reach each other's files, and access settings that fit together.
\<close>

section \<open>Running the steps\<close>

lemma run_stages_Cons_ok:
  "run_stages (f # fs) c = ([], c') \<longleftrightarrow> (\<exists>c1. f c = ([], c1) \<and> run_stages fs c1 = ([], c'))"
  by (auto simp: apfst_def map_prod_def split: prod.splits)

lemma run_stages_append:
  "run_stages (fs @ gs) c = (case run_stages fs c of (ps, c1) \<Rightarrow> apfst ((@) ps) (run_stages gs c1))"
  by (induction fs arbitrary: c) (auto simp: apfst_def map_prod_def split: prod.splits)

text \<open>What every step keeps, the whole sequence keeps.\<close>

lemma run_stages_invariant:
  assumes "\<And>f c. f \<in> set fs \<Longrightarrow> P c \<Longrightarrow> P (snd (f c))" "P c"
  shows "P (snd (run_stages fs c))"
  using assms
proof (induction fs arbitrary: c)
  case (Cons f fs)
  have "P (snd (f c))" using Cons.prems by simp
  with Cons.IH [of "snd (f c)"] Cons.prems(1) show ?case
    by (auto simp: split_beta)
qed simp

lemma set_options_simps [simp]:
  "cf_Options (set_options f c) = f (cf_Options c)" "cf_Storage (set_options f c) = cf_Storage c"
  "cf_Endpoints (set_options f c) = cf_Endpoints c"
  "cf_Options (set_storage g c) = cf_Options c" "cf_Storage (set_storage g c) = g (cf_Storage c)"
  "cf_Endpoints (set_storage g c) = cf_Endpoints c"
  by (simp_all add: set_options_def set_storage_def)

text \<open>What the defaults establish and no override undoes.\<close>

definition defaulted :: "endpoint list \<Rightarrow> config \<Rightarrow> bool" where
  "defaulted eps c \<longleftrightarrow>
     op_MaxUploadSize (cf_Options c) \<noteq> 0 \<and> 0 < op_RateLimitTokens (cf_Options c) \<and>
     sg_Backend (cf_Storage c) \<noteq> [] \<and> cf_Endpoints c = eps"

lemma defaulted_applyDefaults: "defaulted (cf_Endpoints c) (applyDefaults b c)"
  by (simp add: defaulted_def applyDefaults_def default_options_def default_to_def StorageLocal_def)

lemma defaulted_override:
  "(\<And>v. v \<noteq> [] \<Longrightarrow> defaulted eps (upd v c)) \<Longrightarrow> defaulted eps c \<Longrightarrow> defaulted eps (snd (override e name upd c))"
  by (simp add: override_def Let_def)

lemma defaulted_overrideSecret:
  "(\<And>v. defaulted eps (upd v c)) \<Longrightarrow> defaulted eps c \<Longrightarrow> defaulted eps (snd (overrideSecret e name upd c))"
  by (simp add: overrideSecret_def Let_def split: option.split)

lemma defaulted_overrideBool:
  "(\<And>b. defaulted eps (upd b c)) \<Longrightarrow> defaulted eps c \<Longrightarrow> defaulted eps (snd (overrideBool e name upd c))"
  by (simp add: overrideBool_def Let_def split: option.split)

lemma defaulted_other_overrides:
  "defaulted eps c \<Longrightarrow> defaulted eps (snd (override_proxies e c))"
  "defaulted eps c \<Longrightarrow> defaulted eps (snd (override_max_upload e c))"
  "defaulted eps c \<Longrightarrow> defaulted eps (snd (override_rate_tokens e c))"
  by (auto simp: defaulted_def override_proxies_def override_max_upload_def override_rate_tokens_def Let_def
      split: option.split)

lemma defaulted_set:
  "defaulted eps c \<Longrightarrow> op_MaxUploadSize (f (cf_Options c)) = op_MaxUploadSize (cf_Options c) \<Longrightarrow>
     op_RateLimitTokens (f (cf_Options c)) = op_RateLimitTokens (cf_Options c) \<Longrightarrow> defaulted eps (set_options f c)"
  "defaulted eps c \<Longrightarrow> sg_Backend (g (cf_Storage c)) \<noteq> [] \<Longrightarrow> defaulted eps (set_storage g c)"
  by (auto simp: defaulted_def)

lemma defaulted_backend: "defaulted eps c \<Longrightarrow> sg_Backend (cf_Storage c) \<noteq> []"
  by (simp add: defaulted_def)

lemmas defaulted_steps =
  defaulted_override defaulted_overrideSecret defaulted_overrideBool defaulted_other_overrides
  defaulted_set

lemma defaulted_applyEnvOverrides: "defaulted eps c \<Longrightarrow> defaulted eps (snd (applyEnvOverrides e c))"
  unfolding applyEnvOverrides_def
proof (rule run_stages_invariant)
  fix f c
  assume f: "f \<in> set (option_overrides e @ storage_overrides e)" and d: "defaulted eps c"
  from f have "f \<in> set (option_overrides e) \<or> f \<in> set (storage_overrides e)" by simp
  then show "defaulted eps (snd (f c))"
  proof
    assume "f \<in> set (option_overrides e)"
    then show ?thesis
      unfolding option_overrides_def set_simps insert_iff empty_iff
      by (elim disjE) (simp_all add: defaulted_steps d defaulted_backend [OF d])
  next
    assume "f \<in> set (storage_overrides e)"
    then show ?thesis
      unfolding storage_overrides_def set_simps insert_iff empty_iff
      by (elim disjE) (simp_all add: defaulted_steps d defaulted_backend [OF d])
  qed
qed

section \<open>The parsed settings\<close>

lemma parse_ok:
  "parseRateLimitWindow c = ([], c') \<Longrightarrow>
     \<exists>d > 0. ParseDuration (op_RateLimitWindow (cf_Options c)) = Some d \<and> c' = set_options (\<lambda>opts. opts\<lparr>op_RateLimitInterval := d\<rparr>) c"
  "parseAuthCacheTTL c = ([], c') \<Longrightarrow>
     \<exists>d \<ge> 0. ParseDuration (op_AuthCacheTTL (cf_Options c)) = Some d \<and> c' = set_options (\<lambda>opts. opts\<lparr>op_AuthCacheDuration := d\<rparr>) c"
  "parseURLExpiry c = ([], c') \<Longrightarrow>
     \<exists>d > 0. ParseDuration (op_URLExpiry (cf_Options c)) = Some d \<and> c' = set_options (\<lambda>opts. opts\<lparr>op_URLExpiryDuration := d\<rparr>) c"
  "parseShutdownTimeout c = ([], c') \<Longrightarrow>
     \<exists>d > 0. ParseDuration (op_ShutdownTimeout (cf_Options c)) = Some d \<and> c' = set_options (\<lambda>opts. opts\<lparr>op_ShutdownTimeoutDuration := d\<rparr>) c"
  "parseUploadIdleTimeout c = ([], c') \<Longrightarrow>
     \<exists>d \<ge> 0. ParseDuration (op_UploadIdleTimeout (cf_Options c)) = Some d \<and> c' = set_options (\<lambda>opts. opts\<lparr>op_UploadIdleTimeoutDuration := d\<rparr>) c"
  unfolding parseRateLimitWindow_def parseAuthCacheTTL_def parseURLExpiry_def parseShutdownTimeout_def parseUploadIdleTimeout_def
  by (auto split: option.splits if_splits)

lemma parseSigningKey_ok:
  "parseSigningKey c = ([], c') \<Longrightarrow>
     (if op_SigningKey (cf_Options c) = [] then c' = c
      else \<exists>b. hex_decode (op_SigningKey (cf_Options c)) = Some b \<and> 32 \<le> length b \<and>
        c' = set_options (\<lambda>opts. opts\<lparr>op_SigningKeyBytes := b\<rparr>) c)"
  by (auto simp: parseSigningKey_def split: option.splits if_splits)

text \<open>The problems of \<^verbatim>\<open>validate\<close> and the settings it normalises, apart.\<close>

definition normalised :: "config_lib \<Rightarrow> config \<Rightarrow> config" where
  "normalised lib c =
     set_options (\<lambda>opts. opts\<lparr>op_LogFormat := ToLower (cl_unicode lib) (op_LogFormat opts),
       op_LogLevel := ToLower (cl_unicode lib) (op_LogLevel opts)\<rparr>)
     (set_storage (\<lambda>s. s\<lparr>sg_Backend := ToLower (cl_unicode lib) (sg_Backend s)\<rparr>) c)"

lemma snd_validateStorage:
  "snd (validateStorage lib c) = set_storage (\<lambda>s. s\<lparr>sg_Backend := ToLower (cl_unicode lib) (sg_Backend s)\<rparr>) c"
  by (simp add: validateStorage_def Let_def set_storage_def)

lemma snd_validate: "snd (validate lib c) = normalised lib c"
  by (simp add: validate_def Let_def split_beta snd_validateStorage normalised_def)

lemma validate_ok:
  assumes "validate lib c = ([], c')"
  shows "c' = normalised lib c"
    and "fst (validateStorage lib c) = []"
    and "checkChoice lib ''log_format'' (op_LogFormat (cf_Options c)) [LogFormatJSON, LogFormatConsole] = []"
    and "checkChoice lib ''log_level'' (op_LogLevel (cf_Options c)) [''debug'', ''info'', ''warn'', ''error''] = []"
    and "0 \<le> op_MaxUploadSize (cf_Options c)"
    and "op_BaseURL (cf_Options c) = [] \<or> absolute_url lib (op_BaseURL (cf_Options c))"
    and "\<forall>ps. op_TrustedProxies (cf_Options c) = Some ps \<longrightarrow> list_all proxy_ok ps"
    and "cf_Endpoints c \<noteq> []"
    and "validate_endpoints lib 0 ([], []) (cf_Endpoints c) = []"
proof -
  show "c' = normalised lib c" using snd_validate [of lib c] assms by simp
  have v: "fst (validate lib c) = []" using assms by simp
  have o: "cf_Options (snd (validateStorage lib c)) = cf_Options c"
    "cf_Endpoints (snd (validateStorage lib c)) = cf_Endpoints c"
    by (simp_all add: snd_validateStorage)
  note d = v [unfolded validate_def Let_def split_beta, simplified o]
  show "fst (validateStorage lib c) = []" "cf_Endpoints c \<noteq> []"
    "checkChoice lib ''log_format'' (op_LogFormat (cf_Options c)) [LogFormatJSON, LogFormatConsole] = []"
    "checkChoice lib ''log_level'' (op_LogLevel (cf_Options c)) [''debug'', ''info'', ''warn'', ''error''] = []"
    "0 \<le> op_MaxUploadSize (cf_Options c)"
    "op_BaseURL (cf_Options c) = [] \<or> absolute_url lib (op_BaseURL (cf_Options c))"
    "validate_endpoints lib 0 ([], []) (cf_Endpoints c) = []"
    "\<forall>ps. op_TrustedProxies (cf_Options c) = Some ps \<longrightarrow> list_all proxy_ok ps"
    using d by (auto simp: o filter_empty_conv list_all_iff split: if_splits)
qed

lemma checkChoice_ok: "checkChoice lib setting value allowed = [] \<longleftrightarrow> ToLower (cl_unicode lib) value \<in> set allowed"
  by (simp add: checkChoice_def)

section \<open>Settings of a loaded configuration\<close>

text \<open>The ranges the server relies on.\<close>

definition durations_ok :: "options \<Rightarrow> bool" where
  "durations_ok opts \<longleftrightarrow>
     ParseDuration (op_RateLimitWindow opts) = Some (op_RateLimitInterval opts) \<and> 0 < op_RateLimitInterval opts \<and>
     ParseDuration (op_AuthCacheTTL opts) = Some (op_AuthCacheDuration opts) \<and> 0 \<le> op_AuthCacheDuration opts \<and>
     ParseDuration (op_URLExpiry opts) = Some (op_URLExpiryDuration opts) \<and> 0 < op_URLExpiryDuration opts \<and>
     ParseDuration (op_ShutdownTimeout opts) = Some (op_ShutdownTimeoutDuration opts) \<and> 0 < op_ShutdownTimeoutDuration opts \<and>
     ParseDuration (op_UploadIdleTimeout opts) = Some (op_UploadIdleTimeoutDuration opts) \<and> 0 \<le> op_UploadIdleTimeoutDuration opts"

definition key_ok :: "options \<Rightarrow> bool" where
  "key_ok opts \<longleftrightarrow> op_SigningKey opts = [] \<or>
     (hex_decode (op_SigningKey opts) = Some (op_SigningKeyBytes opts) \<and> 32 \<le> length (op_SigningKeyBytes opts))"

definition storage_ok :: "storage_settings \<Rightarrow> bool" where
  "storage_ok s \<longleftrightarrow> sg_Backend s = StorageLocal \<or>
     (sg_Backend s = StorageS3 \<and> sg_S3Bucket s \<noteq> [] \<and> sg_S3Region s \<noteq> [] \<and>
      (sg_S3Prefix s = [] \<or> (\<not> HasPrefix (sg_S3Prefix s) ''/'' \<and> HasSuffix (sg_S3Prefix s) ''/'')) \<and>
      (sg_S3AccessKeyID s = []) = (sg_S3SecretAccessKey s = []))"

definition settings_ok :: "config \<Rightarrow> bool" where
  "settings_ok c \<longleftrightarrow> durations_ok (cf_Options c) \<and> key_ok (cf_Options c) \<and> storage_ok (cf_Storage c) \<and>
     0 < op_MaxUploadSize (cf_Options c) \<and> 0 < op_RateLimitTokens (cf_Options c) \<and>
     op_LogFormat (cf_Options c) \<in> {LogFormatJSON, LogFormatConsole} \<and>
     op_LogLevel (cf_Options c) \<in> {''debug'', ''info'', ''warn'', ''error''}"

lemma encode_rune_nonempty [simp]: "encode_rune n \<noteq> []"
  by (simp add: encode_rune_def)

lemma ToLower_eq_Nil [simp]: "ToLower u s = [] \<longleftrightarrow> s = []"
  by (cases s) (simp_all add: ToLower_def runes_Cons)

lemma storage_ok_validated:
  assumes "fst (validateStorage lib c) = []" "sg_Backend (cf_Storage c) \<noteq> []"
  shows "storage_ok (cf_Storage (snd (validateStorage lib c)))"
  using assms by (auto simp: validateStorage_def Let_def storage_ok_def s3_problems_def split: if_splits)

text \<open>What the steps of \<^verbatim>\<open>Load\<close> leave when none reports a problem.\<close>

lemma finish_load_ok:
  assumes "finish_load lib e d = ([], c)"
  obtains c0 where "settings_ok c0" "cf_Endpoints c0 = cf_Endpoints (dc_config d)" "cf_Endpoints c0 \<noteq> []"
    "validate_endpoints lib 0 ([], []) (cf_Endpoints c0) = []"
    "parse_endpoints lib 0 (cf_Endpoints c0) = ([], cf_Endpoints c)" "c = c0\<lparr>cf_Endpoints := cf_Endpoints c\<rparr>"
proof -
  let ?a = "applyDefaults (dc_s3_prefix_defined d) (dc_config d)"
  obtain c1 c2 c3 c4 c5 c6 c7 c0 where s: "applyEnvOverrides e ?a = ([], c1)"
    "parseRateLimitWindow c1 = ([], c2)" "parseAuthCacheTTL c2 = ([], c3)" "parseURLExpiry c3 = ([], c4)"
    "parseShutdownTimeout c4 = ([], c5)" "parseUploadIdleTimeout c5 = ([], c6)" "parseSigningKey c6 = ([], c7)"
    "validate lib c7 = ([], c0)"
    and p: "parse_endpoints lib 0 (cf_Endpoints c0) = ([], cf_Endpoints c)" "c = c0\<lparr>cf_Endpoints := cf_Endpoints c\<rparr>"
    using assms
    by (auto simp: finish_load_def run_stages_Cons_ok simp del: run_stages.simps(2) split: prod.splits)
  have d1: "defaulted (cf_Endpoints (dc_config d)) c1"
    using defaulted_applyEnvOverrides [OF defaulted_applyDefaults] s(1) by (metis snd_conv)
  obtain t2 t3 t4 t5 t6 where t:
    "0 < t2" "ParseDuration (op_RateLimitWindow (cf_Options c1)) = Some t2" "c2 = set_options (\<lambda>opts. opts\<lparr>op_RateLimitInterval := t2\<rparr>) c1"
    "0 \<le> t3" "ParseDuration (op_AuthCacheTTL (cf_Options c2)) = Some t3" "c3 = set_options (\<lambda>opts. opts\<lparr>op_AuthCacheDuration := t3\<rparr>) c2"
    "0 < t4" "ParseDuration (op_URLExpiry (cf_Options c3)) = Some t4" "c4 = set_options (\<lambda>opts. opts\<lparr>op_URLExpiryDuration := t4\<rparr>) c3"
    "0 < t5" "ParseDuration (op_ShutdownTimeout (cf_Options c4)) = Some t5" "c5 = set_options (\<lambda>opts. opts\<lparr>op_ShutdownTimeoutDuration := t5\<rparr>) c4"
    "0 \<le> t6" "ParseDuration (op_UploadIdleTimeout (cf_Options c5)) = Some t6" "c6 = set_options (\<lambda>opts. opts\<lparr>op_UploadIdleTimeoutDuration := t6\<rparr>) c5"
    using parse_ok(1) [OF s(2)] parse_ok(2) [OF s(3)] parse_ok(3) [OF s(4)] parse_ok(4) [OF s(5)] parse_ok(5) [OF s(6)]
    by blast
  have d6: "defaulted (cf_Endpoints (dc_config d)) c6" "durations_ok (cf_Options c6)"
    using d1 t by (simp_all add: defaulted_def durations_ok_def)
  have k: "key_ok (cf_Options c7)" "durations_ok (cf_Options c7)" "defaulted (cf_Endpoints (dc_config d)) c7"
    using parseSigningKey_ok [OF s(7)] d6
    by (auto simp: key_ok_def durations_ok_def defaulted_def split: if_splits)
  note v = validate_ok [OF s(8)]
  have st: "storage_ok (cf_Storage c0)"
    using storage_ok_validated [OF v(2) defaulted_backend [OF k(3)]] by (simp add: v(1) snd_validateStorage normalised_def)
  have "settings_ok c0"
    using st k v(3-5) by (auto simp: settings_ok_def v(1) normalised_def checkChoice_ok durations_ok_def key_ok_def defaulted_def)
  moreover have "cf_Endpoints c0 = cf_Endpoints c7"
    by (simp add: v(1) normalised_def)
  ultimately show thesis
    using that [OF _ _ _ _ p] v(8,9) k(3) by (simp add: defaulted_def)
qed

section \<open>Endpoint paths\<close>

text \<open>An endpoint's directory as a file system that ignores case sees it.\<close>

definition storage_dir :: "string \<Rightarrow> string" where
  "storage_dir path = map lower_char (Endpoint path)"

definition endpoint_path_ok :: "string \<Rightarrow> bool" where
  "endpoint_path_ok p \<longleftrightarrow> HasPrefix p ''/'' \<and> Clean p = p \<and> TrimLeft p CHR ''/'' \<notin> reservedPaths \<and>
     Endpoint p \<noteq> InvalidEndpoint \<and> storage_dir p \<notin> reservedDataDirEntries"

lemma ToLower_Endpoint [simp]: "ToLower u (Endpoint p) = storage_dir p"
  by (simp add: storage_dir_def safe_pattern_ascii)

lemma validateEndpointPath_ok:
  assumes "validateEndpointPath lib p lab (paths, dirs) = (None, taken')"
  shows "endpoint_path_ok p" "p \<notin> set paths" "storage_dir p \<notin> fst ` set dirs"
    "taken' = (p # paths, (storage_dir p, lab) # dirs)"
  using assms
  by (auto simp: validateEndpointPath_def endpoint_path_ok_def Let_def map_of_eq_None_iff split: if_splits option.splits)

lemma validate_endpoints_Cons_ok:
  assumes "validate_endpoints lib i (paths, dirs) (ep # eps) = []"
  shows "validateEndpointPath lib (ep_Path ep) (label ep i) (paths, dirs) =
      (None, ep_Path ep # paths, (storage_dir (ep_Path ep), label ep i) # dirs)"
    and "ep_Name ep \<noteq> []" "validateAccess lib ep = []"
    and "validate_endpoints lib (i + 1) (ep_Path ep # paths, (storage_dir (ep_Path ep), label ep i) # dirs) eps = []"
proof -
  obtain err taken' where v: "validateEndpointPath lib (ep_Path ep) (label ep i) (paths, dirs) = (err, taken')"
    by (rule prod.exhaust)
  with assms have "err = None" by (auto simp: Let_def split: option.splits)
  with v have t: "taken' = (ep_Path ep # paths, (storage_dir (ep_Path ep), label ep i) # dirs)"
    using validateEndpointPath_ok(4) by blast
  show "validateEndpointPath lib (ep_Path ep) (label ep i) (paths, dirs) =
      (None, ep_Path ep # paths, (storage_dir (ep_Path ep), label ep i) # dirs)"
    using v t \<open>err = None\<close> by simp
  show "ep_Name ep \<noteq> []" "validateAccess lib ep = []"
    "validate_endpoints lib (i + 1) (ep_Path ep # paths, (storage_dir (ep_Path ep), label ep i) # dirs) eps = []"
    using assms v t by (auto simp: Let_def split: if_splits)
qed

lemma validate_endpoints_ok:
  assumes "validate_endpoints lib i (paths, dirs) eps = []"
  shows "(\<forall>ep \<in> set eps. ep_Name ep \<noteq> [] \<and> endpoint_path_ok (ep_Path ep) \<and> validateAccess lib ep = []) \<and>
    distinct (map ep_Path eps) \<and> set (map ep_Path eps) \<inter> set paths = {} \<and>
    distinct (map (\<lambda>ep. storage_dir (ep_Path ep)) eps) \<and>
    set (map (\<lambda>ep. storage_dir (ep_Path ep)) eps) \<inter> fst ` set dirs = {}"
  using assms
proof (induction eps arbitrary: i paths dirs)
  case (Cons ep eps)
  note v = validate_endpoints_Cons_ok [OF Cons.prems]
  note p = validateEndpointPath_ok [OF v(1)]
  show ?case using Cons.IH [OF v(4)] v(2,3) p(1-3) by auto
qed simp

section \<open>Repositories\<close>

lemma parseGitHubURL_keeps:
  assumes "parseGitHubURL lib e = (err, e')"
  shows "ep_Name e' = ep_Name e" "ep_URL e' = ep_URL e" "ep_Path e' = ep_Path e" "ep_Visibility e' = ep_Visibility e"
    "ep_Authentication e' = ep_Authentication e" "ep_GitHubAPIURL e' = ep_GitHubAPIURL e"
  using assms by (auto simp: parseGitHubURL_def parse_api_url_def Let_def split: if_splits option.splits)

text \<open>An endpoint that authenticates with GitHub names a repository, and its API is reached over TLS or on
  this host.\<close>

definition repository_ok :: "config_lib \<Rightarrow> endpoint \<Rightarrow> bool" where
  "repository_ok lib e \<longleftrightarrow>
     ep_GitHubOwner e \<noteq> [] \<and> ep_GitHubRepo e \<noteq> [] \<and> CHR ''/'' \<notin> set (ep_GitHubOwner e) \<and> CHR ''/'' \<notin> set (ep_GitHubRepo e) \<and>
     (ep_GitHubAPIURL e \<noteq> [] \<longrightarrow>
        (\<exists>base. ep_GitHubBaseURL e = Some base \<and> url_Host base \<noteq> [] \<and> HasSuffix (url_Path base) ''/'' \<and>
           (url_Scheme base = ''https'' \<or> (url_Scheme base = ''http'' \<and> isLoopbackHost lib (Hostname base)))))"

lemma HasSuffix_append [simp]: "HasSuffix (s @ t) t"
  by (simp add: HasSuffix_def)

lemma parse_api_url_ok:
  assumes "parse_api_url lib e = (None, e')" "ep_GitHubOwner e \<noteq> []" "ep_GitHubRepo e \<noteq> []"
    and "CHR ''/'' \<notin> set (ep_GitHubOwner e)" "CHR ''/'' \<notin> set (ep_GitHubRepo e)"
  shows "repository_ok lib e'"
  using assms
  by (auto simp: parse_api_url_def repository_ok_def Hostname_def split: if_splits option.splits)

lemma parseGitHubURL_ok:
  assumes "parseGitHubURL lib e = (None, e')" "AuthMethod (cl_unicode lib) e = authGitHub"
  shows "repository_ok lib e'"
proof -
  obtain u where u: "cl_url_parse lib (ep_URL e) = Some u"
    using assms by (auto simp: parseGitHubURL_def split: if_splits option.splits)
  let ?seg = "Split (Trim (url_Path u) CHR ''/'') CHR ''/''"
  have seg: "length ?seg = 2" "?seg ! 0 \<noteq> []" "?seg ! 1 \<noteq> []"
    and api: "parse_api_url lib (e\<lparr>ep_GitHubOwner := ?seg ! 0, ep_GitHubRepo := ?seg ! 1\<rparr>) = (None, e')"
    using assms u by (auto simp: parseGitHubURL_def Let_def split: if_splits)
  have "?seg ! 0 \<in> set ?seg" "?seg ! 1 \<in> set ?seg" by (rule nth_mem, simp add: seg)+
  then have "CHR ''/'' \<notin> set (?seg ! 0)" "CHR ''/'' \<notin> set (?seg ! 1)" by (metis Split_pieces)+
  then show ?thesis by (intro parse_api_url_ok [OF api]) (simp_all add: seg seg [simplified])
qed

lemma parse_endpoints_ok:
  "parse_endpoints lib i es = ([], es') \<Longrightarrow> list_all2 (\<lambda>e e'. parseGitHubURL lib e = (None, e')) es es'"
  by (induction es arbitrary: i es') (auto split: prod.splits option.splits)

lemma validateAccess_ok:
  assumes "validateAccess lib e = []"
  shows "AuthMethod (cl_unicode lib) e \<in> {authGitHub, ''none''}"
    and "EqualFold (cl_unicode lib) (ep_Visibility e) ''private'' \<Longrightarrow> AuthMethod (cl_unicode lib) e = authGitHub"
    and "ToLower (cl_unicode lib) (ep_Visibility e) \<in> {''public'', ''private''}"
    and "ep_GitHubAPIURL e \<noteq> [] \<Longrightarrow> AuthMethod (cl_unicode lib) e = authGitHub"
  using assms by (auto simp: validateAccess_def checkChoice_ok AuthMethod_def split: if_splits)

section \<open>Loaded configurations\<close>

lemma Load_ok:
  assumes "Load lib e path = Inr c"
  obtains c0 where "settings_ok c0" "cf_Endpoints c0 \<noteq> []" "validate_endpoints lib 0 ([], []) (cf_Endpoints c0) = []"
    "list_all2 (\<lambda>ep ep'. parseGitHubURL lib ep = (None, ep')) (cf_Endpoints c0) (cf_Endpoints c)"
    "c = c0\<lparr>cf_Endpoints := cf_Endpoints c\<rparr>"
proof -
  obtain d where d: "finish_load lib e d = ([], c)"
    using assms by (auto simp: Load_def Let_def split: option.splits if_splits prod.splits)
  from d obtain c0 where "settings_ok c0" "cf_Endpoints c0 \<noteq> []" "validate_endpoints lib 0 ([], []) (cf_Endpoints c0) = []"
    "parse_endpoints lib 0 (cf_Endpoints c0) = ([], cf_Endpoints c)" "c = c0\<lparr>cf_Endpoints := cf_Endpoints c\<rparr>"
    by (rule finish_load_ok)
  with that show thesis using parse_endpoints_ok by blast
qed

lemma list_all2_source: "list_all2 P xs ys \<Longrightarrow> y \<in> set ys \<Longrightarrow> \<exists>x \<in> set xs. P x y"
  by (induction rule: list_all2_induct) auto

lemma settings_ok_endpoints [simp]: "settings_ok (c\<lparr>cf_Endpoints := eps\<rparr>) = settings_ok c"
  by (simp add: settings_ok_def)

lemma Load_settings:
  assumes "Load lib e path = Inr c"
  shows "settings_ok c" "cf_Endpoints c \<noteq> []"
proof -
  obtain c0 where c0: "settings_ok c0" "cf_Endpoints c0 \<noteq> []" "c = c0\<lparr>cf_Endpoints := cf_Endpoints c\<rparr>"
    and l: "list_all2 (\<lambda>ep ep'. parseGitHubURL lib ep = (None, ep')) (cf_Endpoints c0) (cf_Endpoints c)"
    by (rule Load_ok [OF assms])
  show "settings_ok c" by (subst c0(3)) (simp add: c0(1))
  show "cf_Endpoints c \<noteq> []" using l c0(2) by auto
qed

text \<open>The endpoints of a loaded configuration keep what was checked before their URLs were parsed.\<close>

lemma Load_endpoints:
  assumes "Load lib e path = Inr c"
  shows "distinct (map ep_Path (cf_Endpoints c))"
    and "distinct (map (\<lambda>ep. storage_dir (ep_Path ep)) (cf_Endpoints c))"
    and "ep \<in> set (cf_Endpoints c) \<Longrightarrow> endpoint_path_ok (ep_Path ep) \<and> validateAccess lib ep = [] \<and>
      (AuthMethod (cl_unicode lib) ep = authGitHub \<longrightarrow> repository_ok lib ep)"
proof -
  obtain c0 :: config where v: "validate_endpoints lib 0 ([], []) (cf_Endpoints c0) = []"
    and l: "list_all2 (\<lambda>ep ep'. parseGitHubURL lib ep = (None, ep')) (cf_Endpoints c0) (cf_Endpoints c)"
    by (rule Load_ok [OF assms]) blast
  have paths: "map ep_Path (cf_Endpoints c) = map ep_Path (cf_Endpoints c0)"
    using l by (induction rule: list_all2_induct) (auto dest: parseGitHubURL_keeps)
  have dirs: "map (\<lambda>ep. storage_dir (ep_Path ep)) (cf_Endpoints c) = map (\<lambda>ep. storage_dir (ep_Path ep)) (cf_Endpoints c0)"
    using arg_cong [OF paths, of "map storage_dir"] by (simp add: comp_def)
  note o = validate_endpoints_ok [OF v]
  show "distinct (map ep_Path (cf_Endpoints c))" using o by (simp only: paths)
  show "distinct (map (\<lambda>ep. storage_dir (ep_Path ep)) (cf_Endpoints c))" using o by (simp only: dirs)
  show "ep \<in> set (cf_Endpoints c) \<Longrightarrow> endpoint_path_ok (ep_Path ep) \<and> validateAccess lib ep = [] \<and>
      (AuthMethod (cl_unicode lib) ep = authGitHub \<longrightarrow> repository_ok lib ep)"
  proof -
    assume "ep \<in> set (cf_Endpoints c)"
    from list_all2_source [OF l this] obtain ep0 where e0: "ep0 \<in> set (cf_Endpoints c0)" "parseGitHubURL lib ep0 = (None, ep)"
      by blast
    note k = parseGitHubURL_keeps [OF e0(2)]
    have "validateAccess lib ep = validateAccess lib ep0" "AuthMethod (cl_unicode lib) ep = AuthMethod (cl_unicode lib) ep0"
      by (simp_all add: validateAccess_def AuthMethod_def k)
    with o e0 k(3) parseGitHubURL_ok [OF e0(2)] show ?thesis by auto
  qed
qed

lemma TrimLeft_slash_chars: "set p \<subseteq> insert CHR ''/'' (set (TrimLeft p CHR ''/''))"
  by (induction p) (auto simp: TrimLeft_def)

text \<open>An accepted path survives a request unchanged, as the signed URLs of the endpoint need.\<close>

lemma endpoint_path_plain: "endpoint_path_ok p \<Longrightarrow> plain_path p"
proof -
  assume p: "endpoint_path_ok p"
  have "c \<noteq> CHR ''?'' \<and> c \<noteq> CHR ''%'' \<and> \<not> ctl_byte c" if "c \<in> set p" for c
  proof (cases "c = CHR ''/''")
    case False
    with that TrimLeft_slash_chars have "c \<in> set (TrimLeft p CHR ''/'')" by auto
    with Endpoint_accepted(2) [of p] p have "safe_inner c \<or> isSeparator c" by (auto simp: endpoint_path_ok_def)
    then show ?thesis by (auto simp: safe_inner_def safe_edge_def isSeparator_def ctl_byte_def Let_def)
  qed (simp add: ctl_byte_def)
  with p show ?thesis by (auto simp: plain_path_def endpoint_path_ok_def)
qed

section \<open>Files of different endpoints\<close>

lemma lower_char_slash [simp]: "lower_char c = CHR ''/'' \<longleftrightarrow> c = CHR ''/''"
proof -
  have "lower_char c = c \<or> (97 \<le> byte_of (lower_char c) \<and> byte_of (lower_char c) \<le> (122 :: nat))"
    by (auto simp: lower_char_def Let_def)
  moreover have "byte_of CHR ''/'' = (47 :: nat)" by simp
  moreover have "lower_char CHR ''/'' = CHR ''/''" by (simp add: lower_char_def)
  ultimately show ?thesis by auto
qed

lemma lower_char_slash' [simp]: "CHR ''/'' = lower_char c \<longleftrightarrow> c = CHR ''/''"
  using lower_char_slash [of c] by (metis (full_types))

lemma set_lower_slash [simp]: "CHR ''/'' \<in> lower_char ` set e \<longleftrightarrow> CHR ''/'' \<in> set e"
  by (induction e) auto

lemma lower_no_slash: "list_all (\<lambda>e. CHR ''/'' \<notin> set e) (map (map lower_char) es) = list_all (\<lambda>e. CHR ''/'' \<notin> set e) es"
  by (induction es) simp_all

lemma lower_join: "map lower_char (join_slash es) = join_slash (map (map lower_char) es)"
  by (induction es rule: join_slash.induct) (auto simp: lower_char_def)

text \<open>Joins of plain elements onto one base that agree up to case have elements that agree up to case.\<close>

lemma Join_lower_inj:
  assumes "b \<noteq> []" "es \<noteq> []" "es' \<noteq> []" "list_all plain_elem es" "list_all plain_elem es'"
    and eq: "map lower_char (Join (b # es)) = map lower_char (Join (b # es'))"
  shows "map (map lower_char) es = map (map lower_char) es'"
proof -
  let ?st = "rev (clean_stack (is_rooted b) b)"
  have ns: "list_all (\<lambda>e. CHR ''/'' \<notin> set e) ?st"
    using set_clean_stack [of "is_rooted b" b] by (auto simp: list_all_iff dest: Split_pieces)
  have "map lower_char (join_slash (?st @ es)) = map lower_char (join_slash (?st @ es'))"
    using eq assms by (auto simp: Join_plain render_path_def split: if_splits)
  then have "join_slash (map (map lower_char) (?st @ es)) = join_slash (map (map lower_char) (?st @ es'))"
    unfolding lower_join .
  then have "map (map lower_char) (?st @ es) = map (map lower_char) (?st @ es')"
    using assms(2,3) ns plain_no_slash [OF assms(4)] plain_no_slash [OF assms(5)]
    by (intro join_slash_inj) (simp_all only: lower_no_slash list_all_append map_is_Nil_conv append_is_Nil_conv simp_thms)
  then show ?thesis by simp
qed

lemma lower_object_elems: "map (map lower_char) (object_elems p oid) =
    storage_dir p # tl (map (map lower_char) (object_elems p oid))"
  by (simp add: object_elems_def Let_def storage_dir_def)

lemma lock_elems_plain: "list_all plain_elem [''locks'', Endpoint p, ''locks.json'']"
  by (simp add: plain_elem_def) (simp add: plain_elem_def [symmetric])

text \<open>C27: A configuration that loads has the settings in their ranges: every duration is the parsed text, positive or
  (for the authentication cache and the idle timeout) not negative; a signing key, if given, decodes to at
  least 32 bytes; the storage backend is local, or S3 with a bucket, a region, a prefix that is empty or ends
  in a slash and no half credentials; the upload limit and the rate limit are positive; the log settings are
  known ones; and there is an endpoint.\<close>

theorem loaded_settings:
  assumes "Load lib e path = Inr c"
  shows "settings_ok c \<and> cf_Endpoints c \<noteq> []"
  using Load_settings [OF assms] by simp

text \<open>C20: Two endpoints of a loaded configuration never share a file: even on a file system that ignores case, no
  object of one has the path of an object of the other, whatever the ids, their lock files differ, and neither
  the lock directory nor the signing key file of the data directory is an endpoint's storage directory.\<close>

theorem endpoints_isolated:
  assumes "Load lib e path = Inr c" "basePath l \<noteq> []"
    and "i < length (cf_Endpoints c)" "j < length (cf_Endpoints c)" "i \<noteq> j"
    and "p = ep_Path (cf_Endpoints c ! i)" "q = ep_Path (cf_Endpoints c ! j)"
  shows "(filePath l p oid = Inr f \<longrightarrow> filePath l q oid' = Inr g \<longrightarrow> map lower_char f \<noteq> map lower_char g) \<and>
    map lower_char (lockFilePath (basePath l) p) \<noteq> map lower_char (lockFilePath (basePath l) q) \<and>
    storage_dir p \<notin> {''locks'', ''signing.key''}"
proof (intro conjI impI)
  have "storage_dir p = map (\<lambda>ep. storage_dir (ep_Path ep)) (cf_Endpoints c) ! i"
    "storage_dir q = map (\<lambda>ep. storage_dir (ep_Path ep)) (cf_Endpoints c) ! j"
    using assms by simp_all
  then have ne: "storage_dir p \<noteq> storage_dir q"
    using assms(3-5) nth_eq_iff_index_eq [OF Load_endpoints(2) [OF assms(1)]] by simp
  show "map lower_char f \<noteq> map lower_char g" if "filePath l p oid = Inr f" "filePath l q oid' = Inr g"
  proof
    assume "map lower_char f = map lower_char g"
    then have "map (map lower_char) (object_elems p oid) = map (map lower_char) (object_elems q oid')"
      using that assms(2)
      by (intro Join_lower_inj) (simp_all add: filePath_Inr_iff object_elems_plain, simp_all add: object_elems_def Let_def)
    with ne lower_object_elems show False by (metis list.inject)
  qed
  show "map lower_char (lockFilePath (basePath l) p) \<noteq> map lower_char (lockFilePath (basePath l) q)"
  proof
    assume "map lower_char (lockFilePath (basePath l) p) = map lower_char (lockFilePath (basePath l) q)"
    then have "map (map lower_char) [''locks'', Endpoint p, ''locks.json''] = map (map lower_char) [''locks'', Endpoint q, ''locks.json'']"
      unfolding lockFilePath_def using assms(2) lock_elems_plain by (intro Join_lower_inj) simp_all
    with ne show False by (simp add: storage_dir_def)
  qed
  have "cf_Endpoints c ! i \<in> set (cf_Endpoints c)" using assms(3) by simp
  from Load_endpoints(3) [OF assms(1) this] show "storage_dir p \<notin> {''locks'', ''signing.key''}"
    using assms(6) by (simp add: endpoint_path_ok_def reservedDataDirEntries_def)
qed

lemma validateAccess_ascii:
  assumes "validateAccess lib e = []" "ascii (ep_Visibility e)"
  shows "IsPublic (cl_unicode lib) e \<or> AuthMethod (cl_unicode lib) e = authGitHub"
proof -
  have l: "map lower_char (ep_Visibility e) \<in> {''public'', ''private''}"
    using validateAccess_ok(3) [OF assms(1)] assms(2) by simp
  have "map lower_char ''public'' = ''public''" "map lower_char ''private'' = ''private''" "ascii ''public''" "ascii ''private''"
    by code_simp+
  with l assms(2) have "EqualFold (cl_unicode lib) (ep_Visibility e) ''public'' \<or> EqualFold (cl_unicode lib) (ep_Visibility e) ''private''"
    by (auto simp: EqualFold_ascii)
  with validateAccess_ok(2) [OF assms(1)] show ?thesis by (auto simp: IsPublic_def)
qed

text \<open>C22: Every endpoint of a loaded configuration has one of the two accepted authentication methods, and a visibility whose
  lower case is \<^verbatim>\<open>public\<close> or \<^verbatim>\<open>private\<close>. If the visibility is written in ASCII letters, the endpoint is publicly readable
  or authenticates with GitHub; an endpoint with an API URL, or whose visibility is \<^verbatim>\<open>private\<close> up to case folding,
  authenticates with GitHub. (The condition on the letters is needed: a visibility spelled with U+0130, which
  lower-cases to \<^verbatim>\<open>i\<close> but does not fold to it, passes both checks and may come without authentication, see
  \<open>private_check_bypassed\<close> below.) An endpoint that authenticates with GitHub names an owner and a repository and sends
  tokens only to an API reached over TLS, or on the loopback interface.\<close>

theorem access_settings_consistent:
  assumes "Load lib e path = Inr c" "ep \<in> set (cf_Endpoints c)"
  shows "AuthMethod (cl_unicode lib) ep \<in> {authGitHub, ''none''} \<and>
    ToLower (cl_unicode lib) (ep_Visibility ep) \<in> {''public'', ''private''} \<and>
    (ascii (ep_Visibility ep) \<longrightarrow> IsPublic (cl_unicode lib) ep \<or> AuthMethod (cl_unicode lib) ep = authGitHub) \<and>
    (EqualFold (cl_unicode lib) (ep_Visibility ep) ''private'' \<or> ep_GitHubAPIURL ep \<noteq> [] \<longrightarrow>
      AuthMethod (cl_unicode lib) ep = authGitHub) \<and>
    (AuthMethod (cl_unicode lib) ep = authGitHub \<longrightarrow> repository_ok lib ep)"
  using Load_endpoints(3) [OF assms] validateAccess_ok [of lib ep] validateAccess_ascii [of lib ep] by blast

section \<open>Concrete configurations\<close>

definition zero_options :: options where
  "zero_options = \<lparr>op_ListenAddress = [], op_MetricsAddress = [], op_DataDirectory = [], op_BaseURL = [], op_MaxUploadSize = 0,
     op_UploadIdleTimeout = [], op_UploadIdleTimeoutDuration = 0, op_LogFormat = [], op_LogLevel = [], op_AccessLog = None,
     op_AdditionalLogging = False, op_TrustedProxies = None, op_RateLimitTokens = 0, op_RateLimitInterval = 0,
     op_RateLimitWindow = [], op_AuthCacheTTL = [], op_AuthCacheDuration = 0, op_SigningKey = [], op_SigningKeyBytes = [],
     op_URLExpiry = [], op_URLExpiryDuration = 0, op_ShutdownTimeout = [], op_ShutdownTimeoutDuration = 0\<rparr>"

definition zero_storage :: storage_settings where
  "zero_storage = \<lparr>sg_Backend = [], sg_S3Bucket = [], sg_S3Region = [], sg_S3Endpoint = [], sg_S3AccessKeyID = [],
     sg_S3SecretAccessKey = [], sg_S3Prefix = [], sg_S3PresignedURLs = None, sg_S3ForcePathStyle = None\<rparr>"

definition plain_endpoint :: "string \<Rightarrow> string \<Rightarrow> string \<Rightarrow> string \<Rightarrow> string \<Rightarrow> endpoint" where
  "plain_endpoint name url path visibility authentication =
     \<lparr>ep_Name = name, ep_URL = url, ep_Path = path, ep_Visibility = visibility, ep_Authentication = authentication,
      ep_GitHubAPIURL = [], ep_GitHubOwner = [], ep_GitHubRepo = [], ep_GitHubBaseURL = None\<rparr>"

text \<open>A library whose decoder finds the given endpoints and nothing else, and an environment with a file and
  without variables.\<close>

definition demo_config_lib :: "unicode_tables \<Rightarrow> endpoint list \<Rightarrow> config_lib" where
  "demo_config_lib u eps = \<lparr>cl_unicode = u,
     cl_url_parse = (\<lambda>s. if s = ''https://github.com/org/repo''
       then Some \<lparr>url_Scheme = ''https'', url_Host = ''github.com'', url_Path = ''/org/repo''\<rparr> else None),
     cl_toml = (\<lambda>_. Some \<lparr>dc_config = \<lparr>cf_Options = zero_options, cf_Storage = zero_storage, cf_Endpoints = eps\<rparr>,
       dc_undecoded = [], dc_s3_prefix_defined = False\<rparr>)\<rparr>"

definition demo_config_env :: config_env where
  "demo_config_env = \<lparr>ce_env = (\<lambda>_. None), ce_read_file = (\<lambda>_. Some [])\<rparr>"

definition demo_endpoints :: "endpoint list" where
  "demo_endpoints =
     [plain_endpoint ''private'' ''https://github.com/org/repo'' ''/org/repo'' ''private'' ''github'',
      plain_endpoint ''open'' [] ''/open'' ''public'' ''none'']"

lemma applyEnvOverrides_empty:
  assumes "ce_env e = (\<lambda>_. None)"
  shows "applyEnvOverrides e c = ([], c)"
proof -
  have g: "Getenv e n = []" for n by (simp add: Getenv_def assms)
  show ?thesis
    by (simp add: applyEnvOverrides_def option_overrides_def storage_overrides_def override_def overrideSecret_def
        overrideBool_def override_proxies_def override_max_upload_def override_rate_tokens_def g assms)
qed

lemma default_durations:
  "ParseDuration ''60s'' = Some 60000000000" "ParseDuration ''1m'' = Some 60000000000"
  "ParseDuration ''10m'' = Some 600000000000" "ParseDuration ''30s'' = Some 30000000000"
proof -
  have f: "format_nat 60 = ''60''" "format_nat 1 = ''1''" "format_nat 10 = ''10''" "format_nat 30 = ''30''"
    by code_simp+
  have u: "unitMap ''s'' = Some 1000000000" "unitMap ''m'' = Some 60000000000" "list_all unit_char ''s''" "list_all unit_char ''m''"
    by (simp_all add: unitMap_def unit_char_def is_digit_def)
  show "ParseDuration ''60s'' = Some 60000000000" "ParseDuration ''1m'' = Some 60000000000"
    "ParseDuration ''10m'' = Some 600000000000" "ParseDuration ''30s'' = Some 30000000000"
    using ParseDuration_whole [OF u(1,3), of 60] ParseDuration_whole [OF u(2,4), of 1]
      ParseDuration_whole [OF u(2,4), of 10] ParseDuration_whole [OF u(1,3), of 30] by (simp_all add: f f [simplified])
qed

lemma default_proxies_ok: "list_all proxy_ok DefaultTrustedProxies"
  by (simp add: DefaultTrustedProxies_def proxy_ok_def ParsePrefix_def ParseAddr_def parseIPv4Fields_def ipv4_field_def
      parse_digits_def is_digit_def digit_value_def ParseInt_def int64_range_def Let_def parseIPv6_def Cut_def HasPrefix_def
      ipv6_groups.simps is_hex_def hex_value_def hex_group_def)

text \<open>With only defaults and perhaps a signing key, a configuration loads when its endpoints pass.\<close>

lemma default_config_settings:
  assumes "eps \<noteq> []" "validate_endpoints lib 0 ([], []) eps = []" "parse_endpoints lib 0 eps = ([], eps')"
    and d: "\<And>data. cl_toml lib data = Some \<lparr>dc_config = \<lparr>cf_Options = zero_options\<lparr>op_SigningKey := k\<rparr>, cf_Storage = zero_storage,
      cf_Endpoints = eps\<rparr>, dc_undecoded = [], dc_s3_prefix_defined = False\<rparr>"
    and k: "k = [] \<or> hex_decode k = Some b \<and> 32 \<le> length b"
  shows "\<exists>c. Load lib demo_config_env DefaultConfigPath = Inr c \<and> cf_Endpoints c = eps' \<and>
    op_BaseURL (cf_Options c) = [] \<and> op_MaxUploadSize (cf_Options c) = 5368709120 \<and> op_SigningKey (cf_Options c) = k \<and>
    op_SigningKeyBytes (cf_Options c) = (if k = [] then [] else b) \<and> sg_Backend (cf_Storage c) = StorageLocal"
proof -
  let ?d = "\<lparr>dc_config = \<lparr>cf_Options = zero_options\<lparr>op_SigningKey := k\<rparr>, cf_Storage = zero_storage, cf_Endpoints = eps\<rparr>,
       dc_undecoded = [], dc_s3_prefix_defined = False\<rparr>"
  have f: "ce_env demo_config_env = (\<lambda>_. None)" "ce_read_file demo_config_env DefaultConfigPath = Some []"
    by (simp_all add: demo_config_env_def)
  have low: "ToLower w ''local'' = ''local''" "ToLower w ''json'' = ''json''" "ToLower w ''info'' = ''info''" for w
    by (simp_all add: lower_char_def)
  have pr: "filter (\<lambda>p. \<not> proxy_ok p) DefaultTrustedProxies = []"
    using default_proxies_ok by (simp add: list_all_iff)
  have ks: "parseSigningKey c = ([], if k = [] then c else set_options (\<lambda>opts. opts\<lparr>op_SigningKeyBytes := b\<rparr>) c)"
    if "op_SigningKey (cf_Options c) = k" for c
    using k that by (auto simp: parseSigningKey_def)
  have "\<exists>c. finish_load lib demo_config_env ?d = ([], c) \<and> cf_Endpoints c = eps' \<and>
      op_BaseURL (cf_Options c) = [] \<and> op_MaxUploadSize (cf_Options c) = 5368709120 \<and> op_SigningKey (cf_Options c) = k \<and>
      op_SigningKeyBytes (cf_Options c) = (if k = [] then [] else b) \<and> sg_Backend (cf_Storage c) = StorageLocal"
    by (simp add: finish_load_def applyEnvOverrides_empty [OF f(1)] applyDefaults_def default_options_def default_to_def
        zero_options_def zero_storage_def parseRateLimitWindow_def parseAuthCacheTTL_def parseURLExpiry_def
        parseShutdownTimeout_def parseUploadIdleTimeout_def ks default_durations validate_def
        validateStorage_def StorageLocal_def low LogFormatJSON_def LogFormatConsole_def checkChoice_def
        validateMetricsAddress_def pr assms(1-3) Let_def lower_char_def)
  then show ?thesis
    by (auto simp: Load_def f d unrecognisedKeys_def Let_def)
qed

lemma demo_config_settings:
  assumes "eps \<noteq> []" "validate_endpoints (demo_config_lib u eps) 0 ([], []) eps = []"
    and "parse_endpoints (demo_config_lib u eps) 0 eps = ([], eps')"
  shows "\<exists>c. Load (demo_config_lib u eps) demo_config_env DefaultConfigPath = Inr c \<and> cf_Endpoints c = eps' \<and>
    op_BaseURL (cf_Options c) = [] \<and> op_MaxUploadSize (cf_Options c) = 5368709120 \<and> op_SigningKey (cf_Options c) = [] \<and>
    op_SigningKeyBytes (cf_Options c) = [] \<and> sg_Backend (cf_Storage c) = StorageLocal"
proof -
  have "cl_toml (demo_config_lib u eps) data = Some \<lparr>dc_config = \<lparr>cf_Options = zero_options\<lparr>op_SigningKey := []\<rparr>, cf_Storage = zero_storage,
      cf_Endpoints = eps\<rparr>, dc_undecoded = [], dc_s3_prefix_defined = False\<rparr>" for data
    by (simp add: demo_config_lib_def zero_options_def)
  from default_config_settings [OF assms this] show ?thesis by simp
qed

lemma demo_config_loads:
  assumes "eps \<noteq> []" "validate_endpoints (demo_config_lib u eps) 0 ([], []) eps = []"
    and "parse_endpoints (demo_config_lib u eps) 0 eps = ([], eps')"
  shows "\<exists>c. Load (demo_config_lib u eps) demo_config_env DefaultConfigPath = Inr c \<and> cf_Endpoints c = eps'"
  using demo_config_settings [OF assms] by blast

definition demo_load :: "load_error + config" where
  "demo_load = Load (demo_config_lib ascii_tables demo_endpoints) demo_config_env DefaultConfigPath"

definition loaded_endpoints :: "endpoint list" where
  "loaded_endpoints =
     [(demo_endpoints ! 0)\<lparr>ep_GitHubOwner := ''org'', ep_GitHubRepo := ''repo''\<rparr>, demo_endpoints ! 1]"

lemma demo_load_settings: "\<exists>c. demo_load = Inr c \<and> cf_Endpoints c = loaded_endpoints \<and>
    op_BaseURL (cf_Options c) = [] \<and> op_MaxUploadSize (cf_Options c) = 5368709120 \<and> op_SigningKey (cf_Options c) = [] \<and>
    op_SigningKeyBytes (cf_Options c) = [] \<and> sg_Backend (cf_Storage c) = StorageLocal"
  unfolding demo_load_def
proof (rule demo_config_settings)
  show "demo_endpoints \<noteq> []" by (simp add: demo_endpoints_def)
  show "validate_endpoints (demo_config_lib ascii_tables demo_endpoints) 0 ([], []) demo_endpoints = []" by code_simp
  show "parse_endpoints (demo_config_lib ascii_tables demo_endpoints) 0 demo_endpoints = ([], loaded_endpoints)" by code_simp
qed

lemma demo_load_endpoints: "\<exists>c. demo_load = Inr c \<and> cf_Endpoints c = loaded_endpoints"
  using demo_load_settings by blast

theorem loaded_settings_witness: "settings_ok (projr demo_load)"
  using demo_load_endpoints loaded_settings unfolding demo_load_def by (metis sum.sel(2))

theorem endpoints_isolated_witness:
  "map lower_char (lockFilePath ''data'' ''/org/repo'') \<noteq> map lower_char (lockFilePath ''data'' ''/open'')"
proof -
  obtain c where c: "Load (demo_config_lib ascii_tables demo_endpoints) demo_config_env DefaultConfigPath = Inr c"
    "cf_Endpoints c = loaded_endpoints"
    using demo_load_endpoints unfolding demo_load_def by blast
  have "0 < length (cf_Endpoints c)" "1 < length (cf_Endpoints c)" "(0 :: nat) \<noteq> 1"
    "''/org/repo'' = ep_Path (cf_Endpoints c ! 0)" "''/open'' = ep_Path (cf_Endpoints c ! 1)"
    by (simp_all add: c(2) loaded_endpoints_def demo_endpoints_def plain_endpoint_def)
  from endpoints_isolated [OF c(1) _ this, of "NewLocal ''data'' (\<lambda>_. None) {}"] show ?thesis
    by (simp add: NewLocal_def)
qed

theorem access_settings_consistent_witness:
  "repository_ok (demo_config_lib ascii_tables demo_endpoints) (loaded_endpoints ! 0)"
proof -
  obtain c where c: "Load (demo_config_lib ascii_tables demo_endpoints) demo_config_env DefaultConfigPath = Inr c"
    "cf_Endpoints c = loaded_endpoints"
    using demo_load_endpoints unfolding demo_load_def by blast
  have m: "loaded_endpoints ! 0 \<in> set (cf_Endpoints c)"
    by (simp add: c(2) loaded_endpoints_def)
  have "AuthMethod ascii_tables (loaded_endpoints ! 0) = authGitHub" by code_simp
  with access_settings_consistent [OF c(1) m] show ?thesis by (simp add: demo_config_lib_def)
qed

section \<open>Case folding in the access checks\<close>

text \<open>
  The choice of visibility is checked after lower-casing, which turns U+0130 (the capital I with a dot) into
  \<^verbatim>\<open>i\<close>, and compared with \<^verbatim>\<open>private\<close> by case folding, which does not. With the table's entry for that rune, a
  configuration loads whose endpoint is not public, has a visibility that lower-cases to \<^verbatim>\<open>private\<close>, and yet no
  authentication. Likewise a path separated by a backslash passes, although the message for rejected paths
  lists only slashes.
\<close>

definition dotted_tables :: unicode_tables where
  "dotted_tables = \<lparr>fold_orbit = (\<lambda>n. n), rune_lower = (\<lambda>n. if n = 304 then 105 else n)\<rparr>"

definition dotted_endpoint :: endpoint where
  "dotted_endpoint = plain_endpoint ''secret'' [] ''/secret'' (''pr'' @ [CHR 0xC4, CHR 0xB0] @ ''vate'') ''none''"

lemma private_check_bypassed:
  "\<exists>c. Load (demo_config_lib dotted_tables [dotted_endpoint]) demo_config_env DefaultConfigPath = Inr c \<and>
     cf_Endpoints c = [dotted_endpoint] \<and> ToLower dotted_tables (ep_Visibility dotted_endpoint) = ''private'' \<and>
     \<not> IsPublic dotted_tables dotted_endpoint \<and> AuthMethod dotted_tables dotted_endpoint = ''none''"
proof -
  have "\<exists>c. Load (demo_config_lib dotted_tables [dotted_endpoint]) demo_config_env DefaultConfigPath = Inr c \<and>
      cf_Endpoints c = [dotted_endpoint]"
    by (rule demo_config_loads) code_simp+
  moreover have "ToLower dotted_tables (ep_Visibility dotted_endpoint) = ''private''"
    "\<not> IsPublic dotted_tables dotted_endpoint" "AuthMethod dotted_tables dotted_endpoint = ''none''" by code_simp+
  ultimately show ?thesis by blast
qed

lemma backslash_path_accepted:
  "fst (validateEndpointPath (demo_config_lib ascii_tables []) (''/org'' @ [CHR 0x5C] @ ''repo'') (LabelNumber 1) ([], [])) = None"
  by code_simp

end
