(* ===== verification/Routes.thy ===== *)
theory Routes
  imports ServeMux Config_Load
begin

text \<open>
  The routes of \<^verbatim>\<open>src/main.go\<close>: the patterns that \<^verbatim>\<open>registerRoutes\<close> and \<^verbatim>\<open>registerServiceRoutes\<close> add to the mux, with
  the handler behind each named by a \<^verbatim>\<open>target\<close>. The configuration checks make registration succeed, and
  every URL of an endpoint's API reaches that endpoint's handler.
\<close>

section \<open>Registration\<close>

datatype route = RouteBatch | RouteCreateLock | RouteListLocks | RouteVerifyLocks | RouteUnlock
  | RouteDownload | RouteUpload | RouteVerify

datatype target = TargetEndpoint nat route | TargetHealth | TargetReady | TargetVersion | TargetNotFound

text \<open>The endpoint is named by its position.\<close>

definition registerRoutes :: "nat \<Rightarrow> string \<Rightarrow> (string \<times> target) list" where
  "registerRoutes i prefix =
     [(''POST '' @ prefix @ ''/objects/batch'', TargetEndpoint i RouteBatch),
      (''POST '' @ prefix @ ''/locks'', TargetEndpoint i RouteCreateLock),
      (''GET '' @ prefix @ ''/locks'', TargetEndpoint i RouteListLocks),
      (''POST '' @ prefix @ ''/locks/verify'', TargetEndpoint i RouteVerifyLocks),
      (''POST '' @ prefix @ ''/locks/{id}/unlock'', TargetEndpoint i RouteUnlock),
      (''GET '' @ prefix @ ''/objects/{oid}'', TargetEndpoint i RouteDownload),
      (''PUT '' @ prefix @ ''/objects/{oid}'', TargetEndpoint i RouteUpload),
      (''POST '' @ prefix @ ''/objects/verify'', TargetEndpoint i RouteVerify)]"

text \<open>Whether a route goes through the rate limiter.\<close>

definition limited :: "route \<Rightarrow> bool" where
  "limited rt \<longleftrightarrow> rt \<in> {RouteBatch, RouteCreateLock, RouteListLocks, RouteVerifyLocks, RouteUnlock}"

definition registerServiceRoutes :: "(string \<times> target) list" where
  "registerServiceRoutes =
     [(''GET /health'', TargetHealth), (''GET /ready'', TargetReady), (''GET /{$}'', TargetVersion), (''/'', TargetNotFound)]"

definition server_routes :: "endpoint list \<Rightarrow> (string \<times> target) list" where
  "server_routes eps = concat (map (\<lambda>i. registerRoutes i (ep_Path (eps ! i))) [0..<length eps]) @ registerServiceRoutes"

definition server_mux :: "endpoint list \<Rightarrow> target mux option" where
  "server_mux eps = mux_register [] (server_routes eps)"

section \<open>The patterns\<close>

text \<open>What the pattern strings stand for: the method, the segments after the endpoint's path, and the elements of a
  request's path with the value of the wildcard.\<close>

fun route_method :: "route \<Rightarrow> string" where
  "route_method RouteListLocks = ''GET''"
| "route_method RouteDownload = ''GET''"
| "route_method RouteUpload = ''PUT''"
| "route_method _ = ''POST''"

fun route_suffix :: "route \<Rightarrow> string" where
  "route_suffix RouteBatch = ''/objects/batch''"
| "route_suffix RouteCreateLock = ''/locks''"
| "route_suffix RouteListLocks = ''/locks''"
| "route_suffix RouteVerifyLocks = ''/locks/verify''"
| "route_suffix RouteUnlock = ''/locks/{id}/unlock''"
| "route_suffix RouteDownload = ''/objects/{oid}''"
| "route_suffix RouteUpload = ''/objects/{oid}''"
| "route_suffix RouteVerify = ''/objects/verify''"

fun route_elems :: "route \<Rightarrow> string list" where
  "route_elems RouteBatch = [''objects'', ''batch'']"
| "route_elems RouteCreateLock = [''locks'']"
| "route_elems RouteListLocks = [''locks'']"
| "route_elems RouteVerifyLocks = [''locks'', ''verify'']"
| "route_elems RouteUnlock = [''locks'', ''{id}'', ''unlock'']"
| "route_elems RouteDownload = [''objects'', ''{oid}'']"
| "route_elems RouteUpload = [''objects'', ''{oid}'']"
| "route_elems RouteVerify = [''objects'', ''verify'']"

fun route_segs :: "route \<Rightarrow> segment list" where
  "route_segs RouteBatch = [SegLit ''objects'', SegLit ''batch'']"
| "route_segs RouteCreateLock = [SegLit ''locks'']"
| "route_segs RouteListLocks = [SegLit ''locks'']"
| "route_segs RouteVerifyLocks = [SegLit ''locks'', SegLit ''verify'']"
| "route_segs RouteUnlock = [SegLit ''locks'', SegWild ''id'', SegLit ''unlock'']"
| "route_segs RouteDownload = [SegLit ''objects'', SegWild ''oid'']"
| "route_segs RouteUpload = [SegLit ''objects'', SegWild ''oid'']"
| "route_segs RouteVerify = [SegLit ''objects'', SegLit ''verify'']"

definition all_routes :: "route list" where
  "all_routes = [RouteBatch, RouteCreateLock, RouteListLocks, RouteVerifyLocks, RouteUnlock, RouteDownload, RouteUpload, RouteVerify]"

lemma registerRoutes_map:
  "registerRoutes i p = map (\<lambda>rt. (route_method rt @ '' '' @ p @ route_suffix rt, TargetEndpoint i rt)) all_routes"
  by (simp add: registerRoutes_def all_routes_def)

lemma all_routes [simp]: "rt \<in> set all_routes" "distinct all_routes"
  by (cases rt) (simp_all add: all_routes_def)

section \<open>Elements of paths\<close>

definition slashes :: "string list \<Rightarrow> string" where
  "slashes es = concat (map ((#) CHR ''/'') es)"

lemma slashes_simps [simp]: "slashes [] = []" "slashes (e # es) = CHR ''/'' # e @ slashes es" "slashes (xs @ ys) = slashes xs @ slashes ys"
  by (simp_all add: slashes_def)

lemma slashes_join: "es \<noteq> [] \<Longrightarrow> slashes es = CHR ''/'' # join_slash es"
  by (induction es rule: join_slash.induct) simp_all

lemma Clean_slashes: "es \<noteq> [] \<Longrightarrow> list_all plain_elem es \<Longrightarrow> Clean (slashes es) = slashes es"
  using clean_stack_append_plain [of es True "[]"]
  by (simp add: Clean_def slashes_join is_rooted_def HasPrefix_def render_path_def clean_stack_def clean_step_def)

lemma last_slashes: "es \<noteq> [] \<Longrightarrow> list_all plain_elem es \<Longrightarrow> last (slashes es) \<noteq> CHR ''/''"
proof (induction es rule: rev_induct)
  case (snoc e es)
  then have "e \<noteq> []" "CHR ''/'' \<notin> set e" by (auto simp: plain_elem_def)
  then show ?case by (auto simp del: slashes_simps(3) simp: slashes_def dest: last_in_set)
qed simp

lemma cleanPath_slashes: "es \<noteq> [] \<Longrightarrow> list_all plain_elem es \<Longrightarrow> cleanPath (slashes es) = slashes es"
  by (cases es) (use Clean_slashes [of es] last_slashes [of es] in \<open>auto simp: cleanPath_def Let_def\<close>)

text \<open>Elements that a pattern reads as literals.\<close>

definition literal_elem :: "string \<Rightarrow> bool" where
  "literal_elem e \<longleftrightarrow> plain_elem e \<and> CHR ''{'' \<notin> set e \<and> CHR ''%'' \<notin> set e"

lemma takeWhile_slashes: "CHR ''/'' \<notin> set e \<Longrightarrow> takeWhile (\<lambda>c. c \<noteq> CHR ''/'') (e @ slashes es) = e"
  "CHR ''/'' \<notin> set e \<Longrightarrow> dropWhile (\<lambda>c. c \<noteq> CHR ''/'') (e @ slashes es) = slashes es"
proof -
  have "takeWhile (\<lambda>c. c \<noteq> CHR ''/'') (slashes es) = []" "dropWhile (\<lambda>c. c \<noteq> CHR ''/'') (slashes es) = slashes es"
    by (cases es; simp)+
  moreover assume "CHR ''/'' \<notin> set e"
  ultimately show "takeWhile (\<lambda>c. c \<noteq> CHR ''/'') (e @ slashes es) = e" "dropWhile (\<lambda>c. c \<noteq> CHR ''/'') (e @ slashes es) = slashes es"
    by (subst takeWhile_append2 dropWhile_append2; auto)+
qed

lemma pathUnescape_plain: "CHR ''%'' \<notin> set e \<Longrightarrow> pathUnescape e = e"
  using unescape_plain [of e EncodePath] by (simp add: pathUnescape_def)

lemma parse_segments_literal:
  assumes "literal_elem e"
  shows "parse_segments seen (CHR ''/'' # e @ slashes gs) = map_option ((#) (SegLit e)) (parse_segments seen (slashes gs))"
proof -
  have e: "e \<noteq> []" "CHR ''/'' \<notin> set e" "CHR ''{'' \<notin> set e" "CHR ''%'' \<notin> set e"
    using assms by (auto simp: literal_elem_def plain_elem_def)
  then show ?thesis
    by (subst parse_segments.simps) (simp add: takeWhile_slashes parse_segment_def pathUnescape_plain Let_def)
qed

lemma parse_segments_literals:
  "list_all literal_elem es \<Longrightarrow> parse_segments seen (slashes (es @ fs)) = map_option ((@) (map SegLit es)) (parse_segments seen (slashes fs))"
proof (induction es)
  case Nil
  show ?case by (cases "parse_segments seen (slashes fs)") simp_all
next
  case (Cons e es)
  then have "parse_segments seen (slashes ((e # es) @ fs)) = map_option ((#) (SegLit e)) (parse_segments seen (slashes (es @ fs)))"
    using parse_segments_literal [of e seen "es @ fs"] by simp
  with Cons show ?case by (cases "parse_segments seen (slashes fs)") (simp_all del: slashes_simps)
qed

lemma path_segs_slashes:
  "list_all literal_elem es \<Longrightarrow> path_segs (slashes es) = es"
proof (induction es)
  case (Cons e es)
  then have e: "e \<noteq> []" "CHR ''/'' \<notin> set e" "CHR ''%'' \<notin> set e" by (auto simp: literal_elem_def plain_elem_def)
  then have "firstSegment (slashes (e # es)) = (e, slashes es)"
    by (auto simp: firstSegment_def takeWhile_slashes pathUnescape_plain)
  with Cons show ?case by (subst path_segs.simps) simp
qed simp

section \<open>Endpoint paths\<close>

definition endpoint_elems :: "string \<Rightarrow> string list" where
  "endpoint_elems p = Split (tl p) CHR ''/''"

lemma clean_stack_plain: "list_all plain_elem (clean_stack True s)"
proof -
  have "list_all plain_elem (foldl (clean_step True) st ps)"
    if "list_all plain_elem st" "\<forall>e \<in> set ps. CHR ''/'' \<notin> set e" for st ps
    using that
  proof (induction ps arbitrary: st)
    case (Cons p ps)
    have "list_all plain_elem (clean_step True st p)"
      using Cons.prems by (cases st) (auto simp: clean_step_def plain_elem_def [of p] plain_elem_def [of "''..''"])
    with Cons show ?case by simp
  qed simp
  then show ?thesis by (simp add: clean_stack_def Split_pieces)
qed

lemma accepted_chars: "endpoint_path_ok p \<Longrightarrow> c \<in> set p \<Longrightarrow> c \<noteq> CHR ''{'' \<and> c \<noteq> CHR ''%'' \<and> \<not> blank c"
proof (cases "c = CHR ''/''")
  case False
  assume "endpoint_path_ok p" "c \<in> set p"
  with False TrimLeft_slash_chars [of p] Endpoint_accepted(2) [of p] have "safe_inner c \<or> isSeparator c"
    by (auto simp: endpoint_path_ok_def)
  then show ?thesis by (elim disjE) (auto simp: safe_inner_def safe_edge_def isSeparator_def blank_def Let_def)
qed (simp add: blank_def)

lemma endpoint_path_elems:
  assumes "endpoint_path_ok p"
  shows "p = slashes (endpoint_elems p)" "endpoint_elems p \<noteq> []" "list_all literal_elem (endpoint_elems p)"
proof -
  have r: "is_rooted p" and cl: "Clean p = p" using assms by (auto simp: endpoint_path_ok_def is_rooted_def)
  define es where "es = rev (clean_stack True p)"
  have p: "p = CHR ''/'' # join_slash es" using cl r by (simp add: Clean_def render_path_def es_def)
  have "es \<noteq> []"
  proof
    assume "es = []"
    with p have "p = ''/''" by simp
    moreover have "Endpoint ''/'' = InvalidEndpoint" by code_simp
    ultimately have "Endpoint p = InvalidEndpoint" by simp
    with assms show False by (simp add: endpoint_path_ok_def)
  qed
  moreover have plain: "list_all plain_elem es" using clean_stack_plain [of p] by (simp add: es_def list_all_iff)
  ultimately have elems: "endpoint_elems p = es" by (simp add: endpoint_elems_def p Split_join_slash plain_no_slash)
  show sl: "p = slashes (endpoint_elems p)" using elems p \<open>es \<noteq> []\<close> by (simp add: slashes_join)
  show "endpoint_elems p \<noteq> []" using elems \<open>es \<noteq> []\<close> by simp
  have "set e \<subseteq> set p" if "e \<in> set es" for e using that sl elems by (auto simp: slashes_def)
  with accepted_chars [OF assms] plain show "list_all literal_elem (endpoint_elems p)"
    unfolding elems by (fastforce simp: list_all_iff literal_elem_def)
qed

text \<open>The pattern of a route.\<close>

definition route_pattern :: "string \<Rightarrow> route \<Rightarrow> mux_pattern" where
  "route_pattern p rt = \<lparr>mp_str = route_method rt @ '' '' @ p @ route_suffix rt, mp_method = route_method rt,
     mp_segments = map SegLit (endpoint_elems p) @ route_segs rt\<rparr>"

lemma route_suffix_slashes: "route_suffix rt = slashes (route_elems rt)"
  by (cases rt) simp_all

lemma route_elems_plain: "list_all plain_elem (route_elems rt)" "route_elems rt \<noteq> []"
  by (cases rt; simp add: plain_elem_def)+

lemma parse_route_suffix: "parse_segments [] (slashes (route_elems rt)) = Some (route_segs rt)"
  by (cases rt) (simp_all add: parse_segments.simps parse_segment_def pathUnescape_plain isValidWildcardName_def
      is_digit_def HasSuffix_def Let_def)

lemma parse_method:
  assumes "\<not> list_ex blank m" "validMethod m" "m \<noteq> ''CONNECT''" "rest \<noteq> []" "hd rest = CHR ''/''" "cleanPath rest = rest"
  shows "parsePattern (m @ '' '' @ rest) =
    map_option (\<lambda>segs. \<lparr>mp_str = m @ '' '' @ rest, mp_method = m, mp_segments = segs\<rparr>) (parse_segments [] rest)"
proof -
  have b: "blank CHR '' ''" "\<not> blank CHR ''/''" by (simp_all add: blank_def)
  have m: "\<forall>c \<in> set m. \<not> blank c" using assms(1) by (simp add: list_ex_iff)
  have "takeWhile (\<lambda>c. \<not> blank c) (m @ '' '' @ rest) = m" "dropWhile (\<lambda>c. \<not> blank c) (m @ '' '' @ rest) = '' '' @ rest"
    using m b by (simp_all add: takeWhile_append2 dropWhile_append2)
  moreover have "dropWhile blank ('' '' @ rest) = rest" using assms(4,5) b by (cases rest) auto
  moreover have "HasPrefix rest ''/''" using assms(4,5) by (cases rest) (auto simp: HasPrefix_def)
  ultimately show ?thesis
    using assms b by (simp add: parsePattern_def Let_def)
qed

lemma route_method_ok: "\<not> list_ex blank (route_method rt)" "validMethod (route_method rt)" "route_method rt \<noteq> ''CONNECT''" "route_method rt \<noteq> []"
  by (cases rt; simp add: blank_def validMethod_def Let_def)+

lemma parse_route:
  assumes "endpoint_path_ok p"
  shows "parsePattern (route_method rt @ '' '' @ p @ route_suffix rt) = Some (route_pattern p rt)"
proof -
  note e = endpoint_path_elems [OF assms]
  let ?es = "endpoint_elems p @ route_elems rt"
  have rest: "p @ route_suffix rt = slashes ?es" using e(1) by (simp add: route_suffix_slashes)
  have plain: "list_all plain_elem ?es" "?es \<noteq> []"
    using e(2,3) route_elems_plain [of rt] by (auto simp: list_all_iff literal_elem_def)
  have "parse_segments [] (slashes ?es) = Some (map SegLit (endpoint_elems p) @ route_segs rt)"
    by (subst parse_segments_literals [OF e(3)]) (simp add: parse_route_suffix)
  moreover have "slashes ?es \<noteq> []" "hd (slashes ?es) = CHR ''/''" using e(2) by (cases "endpoint_elems p"; simp)+
  ultimately show ?thesis
    using parse_method [OF route_method_ok(1-3) [of rt], of "slashes ?es"] cleanPath_slashes [OF plain(2,1)]
    unfolding rest route_pattern_def by simp
qed

section \<open>Conflicts\<close>

lemma combine_disjoint [simp]: "combineRelationships r RelDisjoint = RelDisjoint" "combineRelationships RelDisjoint r = RelDisjoint"
  by (cases r; simp add: combineRelationships_def inverseRelationship_def)+

lemma combine_equivalent [simp]: "combineRelationships RelEquivalent r = r" "combineRelationships r RelEquivalent = r"
  by (cases r; simp add: combineRelationships_def)+

lemma same_direction: "combineRelationships RelMoreSpecific RelMoreSpecific = RelMoreSpecific"
  "combineRelationships RelMoreGeneral RelMoreGeneral = RelMoreGeneral"
  by (simp_all add: combineRelationships_def inverseRelationship_def)

lemma compare_loop_disjoint [simp]: "compare_loop m1 m2 RelDisjoint ss ts = RelDisjoint"
  by (induction m1 m2 RelDisjoint ss ts rule: compare_loop.induct) (simp_all add: combineRelationships_def Let_def)

lemma compare_loop_step:
  "compare_loop m1 m2 rel (s # ss) (t # ts) = compare_loop m1 m2 (combineRelationships rel (compareSegments s t)) ss ts"
  by (simp add: Let_def)

lemmas compare_loop_step' [simp] = compare_loop_step
declare compare_loop.simps(1) [simp del]

text \<open>Behind different literals nothing conflicts; behind the same ones the rest decides.\<close>

lemma compare_literals:
  "length xs = length ys \<Longrightarrow> compare_loop m1 m2 rel (map SegLit xs @ ss) (map SegLit ys @ ts) =
    (if xs = ys then compare_loop m1 m2 rel ss ts else RelDisjoint)"
  by (induction xs ys arbitrary: rel rule: list_induct2) auto

lemma compare_last:
  "length ss = length ts \<Longrightarrow> compareSegments s t = RelDisjoint \<Longrightarrow> compare_loop m1 m2 rel (ss @ [s]) (ts @ [t]) = RelDisjoint"
  by (induction ss ts arbitrary: rel rule: list_induct2) simp_all

lemma ends_multi_snoc [simp]: "ends_multi (ss @ [s]) = is_multi s"
  by (simp add: ends_multi_def)

lemma compare_last_disjoint:
  assumes "compareSegments s t = RelDisjoint" "\<not> is_multi s" "\<not> is_multi t"
  shows "comparePaths (ss @ [s]) (ts @ [t]) = RelDisjoint"
  using assms compare_last by (simp add: comparePaths_def)

definition conflicting :: "relationship \<Rightarrow> bool" where
  "conflicting r \<longleftrightarrow> r = RelEquivalent \<or> r = RelOverlaps"

lemma conflictsWith_same_method: "mp_method p = mp_method q \<Longrightarrow> conflictsWith p q \<longleftrightarrow> conflicting (comparePaths (mp_segments p) (mp_segments q))"
  by (simp add: conflictsWith_def compareMethods_def conflicting_def Let_def)

lemma route_segs_last: "route_segs rt = butlast (route_segs rt) @ [last (route_segs rt)]" "\<not> is_multi (last (route_segs rt))"
  by (cases rt; simp)+

lemma ends_multi_route [simp]: "\<not> ends_multi (ss @ route_segs rt)"
  by (cases rt) (simp_all add: ends_multi_def)

lemma compare_routes_last:
  "compareSegments (last (route_segs rt)) (last (route_segs rt')) = RelDisjoint \<Longrightarrow>
    comparePaths (ss @ route_segs rt) (ts @ route_segs rt') = RelDisjoint"
  using compare_last_disjoint [of "last (route_segs rt)" "last (route_segs rt')" "ss @ butlast (route_segs rt)" "ts @ butlast (route_segs rt')"]
    route_segs_last [of rt] route_segs_last [of rt'] by simp

text \<open>The patterns of two routes conflict only if route and path are the same.\<close>

lemma compare_list_download:
  "\<not> conflicting (comparePaths (map SegLit xs @ [SegLit ''locks'']) (map SegLit ys @ [SegLit ''objects'', SegWild n]))"
  "\<not> conflicting (comparePaths (map SegLit ys @ [SegLit ''objects'', SegWild n]) (map SegLit xs @ [SegLit ''locks'']))"
proof -
  let ?ys = "ys @ [''objects'']"
  have y: "map SegLit ys @ [SegLit ''objects'', SegWild n] = map SegLit ?ys @ [SegWild n]" by simp
  show "\<not> conflicting (comparePaths (map SegLit xs @ [SegLit ''locks'']) (map SegLit ys @ [SegLit ''objects'', SegWild n]))"
    unfolding y comparePaths_def by (simp add: compare_literals conflicting_def del: map_append)
  show "\<not> conflicting (comparePaths (map SegLit ys @ [SegLit ''objects'', SegWild n]) (map SegLit xs @ [SegLit ''locks'']))"
    unfolding y comparePaths_def by (simp add: compare_literals conflicting_def del: map_append)
qed

lemma compare_same_length:
  "length ss = length ts \<Longrightarrow> \<not> ends_multi (map SegLit xs @ ss) \<Longrightarrow> \<not> ends_multi (map SegLit ys @ ts) \<Longrightarrow>
    comparePaths (map SegLit xs @ ss) (map SegLit ys @ ts) = (if xs = ys then compare_loop False False RelEquivalent ss ts else RelDisjoint)"
  by (cases "length xs = length ys") (auto simp: comparePaths_def compare_literals)

lemma routes_conflict:
  assumes "route_method rt = route_method rt'"
    and "conflicting (comparePaths (map SegLit xs @ route_segs rt) (map SegLit ys @ route_segs rt'))"
  shows "rt = rt' \<and> xs = ys"
proof -
  have d: "compareSegments (last (route_segs rt)) (last (route_segs rt')) \<noteq> RelDisjoint"
    using assms(2) compare_routes_last by (auto simp: conflicting_def)
  have "\<not> (rt = RouteVerify \<and> rt' = RouteVerifyLocks)" "\<not> (rt = RouteVerifyLocks \<and> rt' = RouteVerify)"
    using assms(2) by (auto simp: compare_same_length conflicting_def ends_multi_def split: if_splits)
  moreover have "\<not> (rt = RouteListLocks \<and> rt' = RouteDownload)" "\<not> (rt = RouteDownload \<and> rt' = RouteListLocks)"
    using assms(2) compare_list_download by auto
  ultimately have "rt = rt'" using d assms(1) by (cases rt; cases rt'; simp)
  moreover from this assms(2) have "xs = ys"
    by (auto simp: compare_same_length conflicting_def split: if_splits)
  ultimately show ?thesis by simp
qed

section \<open>The mux of a loaded configuration\<close>

fun target_pattern :: "endpoint list \<Rightarrow> target \<Rightarrow> mux_pattern" where
  "target_pattern eps (TargetEndpoint i rt) = route_pattern (ep_Path (eps ! i)) rt"
| "target_pattern eps TargetHealth = \<lparr>mp_str = ''GET /health'', mp_method = ''GET'', mp_segments = [SegLit ''health'']\<rparr>"
| "target_pattern eps TargetReady = \<lparr>mp_str = ''GET /ready'', mp_method = ''GET'', mp_segments = [SegLit ''ready'']\<rparr>"
| "target_pattern eps TargetVersion = \<lparr>mp_str = ''GET /{$}'', mp_method = ''GET'', mp_segments = [SegLit ''/'']\<rparr>"
| "target_pattern eps TargetNotFound = \<lparr>mp_str = ''/'', mp_method = [], mp_segments = [SegMulti []]\<rparr>"

definition server_targets :: "endpoint list \<Rightarrow> target list" where
  "server_targets eps = concat (map (\<lambda>i. map (TargetEndpoint i) all_routes) [0..<length eps]) @
     [TargetHealth, TargetReady, TargetVersion, TargetNotFound]"

lemma set_server_targets: "t \<in> set (server_targets eps) \<longleftrightarrow> (case t of TargetEndpoint i _ \<Rightarrow> i < length eps | _ \<Rightarrow> True)"
proof -
  have "set all_routes = UNIV" by auto
  then show ?thesis by (cases t) (force simp: server_targets_def)+
qed

lemma distinct_server_targets: "distinct (server_targets eps)"
proof -
  have "distinct (concat (map (\<lambda>i. map (TargetEndpoint i) all_routes) [0..<n]))" for n
    by (induction n) (auto simp: distinct_map inj_on_def)
  then show ?thesis by (auto simp: server_targets_def)
qed

lemma server_routes_targets: "map snd (server_routes eps) = server_targets eps"
  by (simp add: server_routes_def server_targets_def registerServiceRoutes_def map_concat comp_def registerRoutes_map)

lemma service_patterns_parse:
  "(s, t) \<in> set registerServiceRoutes \<Longrightarrow> parsePattern s = Some (target_pattern eps t)"
proof -
  have get: "parsePattern (''GET'' @ '' '' @ slashes [e]) = map_option (\<lambda>segs. \<lparr>mp_str = ''GET'' @ '' '' @ slashes [e],
      mp_method = ''GET'', mp_segments = segs\<rparr>) (parse_segments [] (slashes [e]))" if "plain_elem e" for e
    by (rule parse_method) (use that cleanPath_slashes [of "[e]"] in \<open>simp_all add: blank_def validMethod_def Let_def\<close>)
  have lit: "parse_segments [] (slashes [e]) = Some [SegLit e]" if "literal_elem e" for e
    using parse_segments_literal [OF that, of "[]" "[]"] by (simp add: parse_segments.simps(1))
  have "parsePattern ''GET /health'' = Some (target_pattern eps TargetHealth)"
    "parsePattern ''GET /ready'' = Some (target_pattern eps TargetReady)"
    using get [of "''health''"] lit [of "''health''"] get [of "''ready''"] lit [of "''ready''"]
    by (simp_all add: literal_elem_def plain_elem_def)
  moreover have "parse_segments [] ''/{$}'' = Some [SegLit ''/'']"
    by (simp add: parse_segments.simps parse_segment_def)
  then have "parsePattern ''GET /{$}'' = Some (target_pattern eps TargetVersion)"
    using get [of "''{$}''"] by (simp add: plain_elem_def)
  moreover have "parsePattern ''/'' = Some (target_pattern eps TargetNotFound)"
    by (simp add: parsePattern_def blank_def HasPrefix_def parse_segments.simps(2) Let_def)
  moreover assume "(s, t) \<in> set registerServiceRoutes"
  ultimately show ?thesis by (auto simp: registerServiceRoutes_def)
qed

lemma server_patterns_parse:
  assumes "\<forall>ep \<in> set eps. endpoint_path_ok (ep_Path ep)" "(s, t) \<in> set (server_routes eps)"
  shows "parsePattern s = Some (target_pattern eps t)"
  using assms parse_route [of "ep_Path (eps ! i)" for i] by (auto simp: server_routes_def registerRoutes_map service_patterns_parse)

definition compatible_paths :: "endpoint list \<Rightarrow> bool" where
  "compatible_paths eps \<longleftrightarrow> (\<forall>ep \<in> set eps. endpoint_path_ok (ep_Path ep)) \<and> distinct (map ep_Path eps)"

lemma endpoint_elems_inj:
  "endpoint_path_ok p \<Longrightarrow> endpoint_path_ok q \<Longrightarrow> endpoint_elems p = endpoint_elems q \<Longrightarrow> p = q"
  by (metis endpoint_path_elems(1))

lemma long_segments:
  assumes "endpoint_path_ok p"
  obtains x y zs where "mp_segments (route_pattern p rt) = SegLit x # y # zs"
proof -
  from endpoint_path_elems(2) [OF assms] obtain x xs where "endpoint_elems p = x # xs" by (cases "endpoint_elems p") auto
  then show thesis by (cases xs; cases rt) (auto simp: route_pattern_def intro: that)
qed

lemma routes_disjoint_methods:
  "route_method rt \<noteq> route_method rt' \<Longrightarrow> compareMethods (route_method rt) (route_method rt') = RelDisjoint"
  by (cases rt; cases rt'; simp add: compareMethods_def)

lemma service_compatible:
  assumes "u \<in> {TargetHealth, TargetReady, TargetVersion, TargetNotFound}" "v \<in> {TargetHealth, TargetReady, TargetVersion, TargetNotFound}" "u \<noteq> v"
  shows "\<not> conflictsWith (target_pattern eps u) (target_pattern eps v)"
proof -
  have lits: "comparePaths [SegLit s] [SegLit t] = (if s = t then RelEquivalent else RelDisjoint)" for s t
    by (simp add: comparePaths_def ends_multi_def)
  have top: "comparePaths [SegLit s] [SegMulti n] = RelMoreSpecific" "comparePaths [SegMulti n] [SegLit s] = RelMoreGeneral" for s n
    by (simp_all add: comparePaths_def ends_multi_def)
  have meth: "compareMethods ''GET'' ''GET'' = RelEquivalent" "compareMethods ''GET'' [] = RelMoreSpecific" "compareMethods [] ''GET'' = RelMoreGeneral"
    by (simp_all add: compareMethods_def)
  show ?thesis using assms
    by (cases u; cases v; simp add: conflictsWith_def lits top meth same_direction)
qed

lemma targets_compatible:
  assumes "compatible_paths eps" "t \<in> set (server_targets eps)" "t' \<in> set (server_targets eps)" "t \<noteq> t'"
  shows "\<not> conflictsWith (target_pattern eps t) (target_pattern eps t')"
proof -
  have ok: "endpoint_path_ok (ep_Path (eps ! i))" if "i < length eps" for i
    using assms(1) that by (simp add: compatible_paths_def)
  have long: "\<exists>x y zs. mp_segments (route_pattern (ep_Path (eps ! i)) rt) = SegLit x # y # zs" if "i < length eps" for i rt
    using long_segments [OF ok [OF that]] by blast
  have nomulti: "\<not> ends_multi (mp_segments (route_pattern p rt))" for p rt by (simp add: route_pattern_def)
  have two: "\<not> conflictsWith (route_pattern (ep_Path (eps ! i)) rt) (route_pattern (ep_Path (eps ! j)) rt')"
    if "i < length eps" "j < length eps" "TargetEndpoint i rt \<noteq> TargetEndpoint j rt'" for i j rt rt'
  proof
    assume c: "conflictsWith (route_pattern (ep_Path (eps ! i)) rt) (route_pattern (ep_Path (eps ! j)) rt')"
    then have m: "route_method rt = route_method rt'"
      by (rule contrapos_pp) (simp add: conflictsWith_def route_pattern_def routes_disjoint_methods)
    with c have "conflicting (comparePaths (map SegLit (endpoint_elems (ep_Path (eps ! i))) @ route_segs rt)
        (map SegLit (endpoint_elems (ep_Path (eps ! j))) @ route_segs rt'))"
      by (simp add: conflictsWith_same_method route_pattern_def)
    from routes_conflict [OF m this] have "rt = rt'" "ep_Path (eps ! i) = ep_Path (eps ! j)"
      using endpoint_elems_inj ok that by auto
    with assms(1) that show False by (auto simp: compatible_paths_def distinct_conv_nth)
  qed
  have short: "comparePaths [SegLit s] (mp_segments (route_pattern (ep_Path (eps ! i)) rt)) = RelDisjoint"
    "comparePaths (mp_segments (route_pattern (ep_Path (eps ! i)) rt)) [SegLit s] = RelDisjoint"
    if "i < length eps" for i rt s
    using long [OF that, of rt] nomulti [of "ep_Path (eps ! i)" rt] by (auto simp: comparePaths_def ends_multi_def [of "[SegLit s]"])
  have top: "comparePaths [SegMulti []] (mp_segments (route_pattern (ep_Path (eps ! i)) rt)) = RelMoreGeneral"
    "comparePaths (mp_segments (route_pattern (ep_Path (eps ! i)) rt)) [SegMulti []] = RelMoreSpecific"
    if "i < length eps" for i rt
    using long [OF that, of rt] by (auto simp: comparePaths_def ends_multi_def [of "[SegMulti []]"] combineRelationships_def inverseRelationship_def)
  have meth: "mp_method (route_pattern p rt) = route_method rt" for p rt by (simp add: route_pattern_def)
  have below: "compareMethods (route_method rt) [] = RelMoreSpecific" "compareMethods [] (route_method rt) = RelMoreGeneral" for rt
    using route_method_ok(4) [of rt] by (auto simp: compareMethods_def)
  have mixed: "\<not> conflictsWith (route_pattern (ep_Path (eps ! i)) rt) (target_pattern eps u)"
    "\<not> conflictsWith (target_pattern eps u) (route_pattern (ep_Path (eps ! i)) rt)"
    if "i < length eps" "u \<in> {TargetHealth, TargetReady, TargetVersion, TargetNotFound}" for i rt u
    using that(2) short [OF that(1)] top [OF that(1)] by (auto simp: conflictsWith_def meth below same_direction)
  have "(\<exists>i rt. u = TargetEndpoint i rt \<and> i < length eps) \<or> u \<in> {TargetHealth, TargetReady, TargetVersion, TargetNotFound}"
    if "u \<in> set (server_targets eps)" for u
    using that [unfolded set_server_targets] by (auto split: target.splits)
  from this [OF assms(2)] this [OF assms(3)] show ?thesis
    by (elim disjE exE conjE) (use assms(4) two mixed service_compatible in \<open>simp_all only: target_pattern.simps(1) not_False_eq_True\<close>)
qed

lemma mux_register_all:
  assumes "\<forall>(s, h) \<in> set rs. parsePattern s = Some (pat h)" "distinct (gs @ map snd rs)"
    and "\<forall>x \<in> set (gs @ map snd rs). \<forall>y \<in> set (gs @ map snd rs). x \<noteq> y \<longrightarrow> \<not> conflictsWith (pat x) (pat y)"
  shows "mux_register (map (\<lambda>h. (pat h, h)) gs) rs = Some (map (\<lambda>h. (pat h, h)) (gs @ map snd rs))"
  using assms
proof (induction rs arbitrary: gs)
  case (Cons r rs)
  obtain s h where r: "r = (s, h)" by (rule prod.exhaust)
  have "\<not> list_ex (\<lambda>(q, _). conflictsWith (pat h) q) (map (\<lambda>h. (pat h, h)) gs)"
    using Cons.prems(2,3) by (auto simp: list_ex_iff r)
  then show ?case using Cons.IH [of "gs @ [h]"] Cons.prems by (simp add: r)
qed simp

lemma server_mux_compatible:
  "compatible_paths eps \<Longrightarrow> server_mux eps = Some (map (\<lambda>t. (target_pattern eps t, t)) (server_targets eps))"
  using mux_register_all [of "server_routes eps" "target_pattern eps" "[]"] server_patterns_parse [of eps] targets_compatible [of eps]
  by (auto simp: server_mux_def server_routes_targets distinct_server_targets compatible_paths_def)

lemma Load_compatible: "Load lib e path = Inr c \<Longrightarrow> compatible_paths (cf_Endpoints c)"
  using Load_endpoints [of lib e path c] by (auto simp: compatible_paths_def)

section \<open>Dispatch\<close>

lemma set_method_routes:
  "(ss, (p, t)) \<in> set (method_routes m (map (\<lambda>t. (target_pattern eps t, t)) ts)) \<longleftrightarrow>
    t \<in> set ts \<and> p = target_pattern eps t \<and> mp_method p = m \<and> ss = mp_segments p"
  by (auto simp: method_routes_def)

lemma matchMethod_found:
  assumes "matchMethodAndPath mux m path = Some ((p, t), ms)"
  shows "\<exists>m'. matchPath (method_routes m' mux) path [] = Some ((p, t), ms) \<and> (m' = m \<or> m' = [] \<or> (m' = ''GET'' \<and> m = ''HEAD''))"
  using assms by (auto simp: matchMethodAndPath_def split: option.splits if_splits)

text \<open>The values of a request's path elements that lead to a route, with the value of its wildcard.\<close>

fun route_values :: "route \<Rightarrow> string \<Rightarrow> string list" where
  "route_values RouteBatch x = [''objects'', ''batch'']"
| "route_values RouteCreateLock x = [''locks'']"
| "route_values RouteListLocks x = [''locks'']"
| "route_values RouteVerifyLocks x = [''locks'', ''verify'']"
| "route_values RouteUnlock x = [''locks'', x, ''unlock'']"
| "route_values RouteDownload x = [''objects'', x]"
| "route_values RouteUpload x = [''objects'', x]"
| "route_values RouteVerify x = [''objects'', ''verify'']"

fun route_wildcard :: "route \<Rightarrow> string option" where
  "route_wildcard RouteUnlock = Some ''id''"
| "route_wildcard RouteDownload = Some ''oid''"
| "route_wildcard RouteUpload = Some ''oid''"
| "route_wildcard _ = None"

definition route_captures :: "route \<Rightarrow> string \<Rightarrow> string list" where
  "route_captures rt x = (if route_wildcard rt = None then [] else [x])"

lemma seg_match_literals:
  "seg_match (map SegLit xs @ ss) segs vs \<longleftrightarrow> (\<exists>zs. segs = xs @ zs \<and> seg_match ss zs vs)"
  by (induction xs arbitrary: segs) (auto intro: seg_match_Lit)

lemma seg_match_route:
  "seg_match (route_segs rt) segs vs \<longleftrightarrow>
    (\<exists>x. segs = route_values rt x \<and> vs = route_captures rt x \<and> (route_wildcard rt \<noteq> None \<longrightarrow> x \<noteq> ''/''))"
  by (cases rt) (auto simp: route_captures_def intro: seg_match.intros)

lemma seg_match_pattern:
  "seg_match (mp_segments (route_pattern p rt)) segs vs \<longleftrightarrow>
    (\<exists>x. segs = endpoint_elems p @ route_values rt x \<and> vs = route_captures rt x \<and> (route_wildcard rt \<noteq> None \<longrightarrow> x \<noteq> ''/''))"
  by (auto simp: route_pattern_def seg_match_literals seg_match_route)

text \<open>Which targets a path of an endpoint's API can match.\<close>

lemma route_values_inj:
  assumes "route_method rt' = route_method rt" "xs @ route_values rt' y = zs @ route_values rt x"
    and "rt = RouteDownload \<Longrightarrow> x \<noteq> ''locks''" "rt \<noteq> RouteListLocks"
  shows "rt' = rt \<and> xs = zs \<and> (route_wildcard rt \<noteq> None \<longrightarrow> y = x)"
  using assms by (cases rt; cases rt'; auto simp: append_eq_append_conv2 append_eq_Cons_conv Cons_eq_append_conv)

definition route_value_ok :: "route \<Rightarrow> string \<Rightarrow> bool" where
  "route_value_ok rt x = (case route_wildcard rt of None \<Rightarrow> True | Some n \<Rightarrow> if n = ''oid'' then IsValidOID x else x \<noteq> ''/'')"

lemma route_value_ok_facts:
  assumes "route_value_ok rt x"
  shows "route_wildcard rt \<noteq> None \<Longrightarrow> x \<noteq> ''/''" and "rt = RouteDownload \<Longrightarrow> x \<noteq> ''locks''"
proof -
  have "\<not> IsValidOID ''/''" "\<not> IsValidOID ''locks''" by (simp_all add: IsValidOID_def)
  with assms show "route_wildcard rt \<noteq> None \<Longrightarrow> x \<noteq> ''/''" "rt = RouteDownload \<Longrightarrow> x \<noteq> ''locks''"
    by (cases rt; auto simp: route_value_ok_def split: if_splits)+
qed

lemma route_values_length: "1 \<le> length (route_values rt x)"
  by (cases rt) simp_all

text \<open>A mux that has the routes of endpoints whose paths are compatible.\<close>

definition serves :: "endpoint list \<Rightarrow> target mux \<Rightarrow> bool" where
  "serves eps mux \<longleftrightarrow> compatible_paths eps \<and> mux = map (\<lambda>t. (target_pattern eps t, t)) (server_targets eps)"

lemma Load_serves: "Load lib e path = Inr c \<Longrightarrow> \<exists>mux. server_mux (cf_Endpoints c) = Some mux \<and> serves (cf_Endpoints c) mux"
  by (simp add: serves_def Load_compatible server_mux_compatible)

lemma elems_nonempty: "serves eps mux \<Longrightarrow> i < length eps \<Longrightarrow> endpoint_elems (ep_Path (eps ! i)) \<noteq> []"
  using endpoint_path_elems(2) by (simp add: serves_def compatible_paths_def)

lemma same_endpoint:
  assumes "serves eps mux" "i < length eps" "j < length eps" "endpoint_elems (ep_Path (eps ! i)) = endpoint_elems (ep_Path (eps ! j))"
  shows "i = j"
proof -
  have "ep_Path (eps ! i) = ep_Path (eps ! j)"
    using endpoint_elems_inj [OF _ _ assms(4)] assms(1-3) by (simp add: serves_def compatible_paths_def)
  with assms(1-3) show ?thesis by (auto simp: serves_def compatible_paths_def distinct_conv_nth)
qed

lemma mux_routes: "serves eps mux \<Longrightarrow> (ss, (p, t)) \<in> set (method_routes m mux) \<longleftrightarrow>
    t \<in> set (server_targets eps) \<and> p = target_pattern eps t \<and> mp_method p = m \<and> ss = mp_segments p"
  by (simp add: serves_def set_method_routes)

lemma matched_target:
  assumes "serves eps mux" "matchPath (method_routes m mux) path [] = Some ((p, t), ms)"
  shows "t \<in> set (server_targets eps)" "p = target_pattern eps t" "mp_method p = m" "seg_match (mp_segments p) (path_segs path) ms"
  using matchPath_sound [OF assms(2)] by (auto simp: mux_routes [OF assms(1)])

lemma endpoint_match:
  assumes "serves eps mux" "matchPath (method_routes m mux) path [] = Some ((p, t), ms)" "2 \<le> length (path_segs path)" "m \<noteq> []"
  obtains j rt x where "t = TargetEndpoint j rt" "j < length eps" "route_method rt = m"
    "path_segs path = endpoint_elems (ep_Path (eps ! j)) @ route_values rt x" "ms = route_captures rt x"
proof -
  note f = matched_target [OF assms(1,2)]
  show thesis
  proof (cases t)
    case (TargetEndpoint j rt)
    with f(2,4) obtain x where "path_segs path = endpoint_elems (ep_Path (eps ! j)) @ route_values rt x" "ms = route_captures rt x"
      by (auto simp: seg_match_pattern)
    with TargetEndpoint f(1,2,3) show thesis by (intro that) (auto simp: set_server_targets route_pattern_def)
  qed (use f assms(3,4) in auto)
qed

lemma route_found:
  assumes sv: "serves eps mux" and i: "i < length eps" and v: "route_value_ok rt x"
    and segs: "path_segs path = endpoint_elems (ep_Path (eps ! i)) @ route_values rt x"
  shows "matchPath (method_routes (route_method rt) mux) path [] =
    Some ((route_pattern (ep_Path (eps ! i)) rt, TargetEndpoint i rt), route_captures rt x)"
proof -
  note v = route_value_ok_facts [OF v]
  let ?p = "route_pattern (ep_Path (eps ! i)) rt" and ?rs = "method_routes (route_method rt) mux"
  have long: "2 \<le> length (path_segs path)"
    using segs elems_nonempty [OF sv i] route_values_length [of rt x] by (cases "endpoint_elems (ep_Path (eps ! i))") auto
  have here: "(mp_segments ?p, (?p, TargetEndpoint i rt)) \<in> set ?rs"
    using i by (simp add: mux_routes [OF sv] set_server_targets) (simp add: route_pattern_def)
  show ?thesis
  proof (cases "rt = RouteListLocks")
    case True
    then have lit: "map SegLit (path_segs path) = mp_segments ?p" by (simp add: segs route_pattern_def)
    have "(map SegLit (path_segs path), (?p, TargetEndpoint i rt)) \<in> set ?rs" using here by (simp add: lit)
    from matchPath_literal [OF this, of "[]"] obtain q t where q: "matchPath ?rs path [] = Some ((q, t), [])" by auto
    from endpoint_match [OF sv q long route_method_ok(4)] obtain j rt' y where
      t: "t = TargetEndpoint j rt'" "j < length eps" "route_method rt' = route_method rt" "[] = route_captures rt' y"
        "path_segs path = endpoint_elems (ep_Path (eps ! j)) @ route_values rt' y" .
    then have "rt' = RouteListLocks" using True by (cases rt') (auto simp: route_captures_def)
    with t(5) segs True have "j = i" using same_endpoint [OF sv t(2) i] by simp
    with q t \<open>rt' = RouteListLocks\<close> True matched_target(2) [OF sv q] show ?thesis by (simp add: route_captures_def)
  next
    case False
    have "seg_match (mp_segments ?p) (path_segs path) (route_captures rt x)" using v(1) by (auto simp: seg_match_pattern segs)
    from matchPath_complete [OF here this, of "[]"] obtain q t ms where q: "matchPath ?rs path [] = Some ((q, t), ms)" by auto
    from endpoint_match [OF sv q long route_method_ok(4)] obtain j rt' y where
      t: "t = TargetEndpoint j rt'" "j < length eps" "route_method rt' = route_method rt" "ms = route_captures rt' y"
        "path_segs path = endpoint_elems (ep_Path (eps ! j)) @ route_values rt' y" .
    with route_values_inj [OF t(3) _ v(2) False, of "endpoint_elems (ep_Path (eps ! j))" y "endpoint_elems (ep_Path (eps ! i))"] segs
    have eq: "rt' = rt" "endpoint_elems (ep_Path (eps ! j)) = endpoint_elems (ep_Path (eps ! i))" "route_wildcard rt \<noteq> None \<longrightarrow> y = x"
      by auto
    with q t same_endpoint [OF sv t(2) i] matched_target(2) [OF sv q] show ?thesis by (auto simp: route_captures_def)
  qed
qed

lemma no_head:
  assumes "serves eps mux"
  shows "matchPath (method_routes ''HEAD'' mux) path [] = None"
proof (rule ccontr)
  assume "matchPath (method_routes ''HEAD'' mux) path [] \<noteq> None"
  then obtain p t ms where m: "matchPath (method_routes ''HEAD'' mux) path [] = Some ((p, t), ms)" by auto
  have "route_method rt \<noteq> ''HEAD''" for rt by (cases rt) simp_all
  with matched_target(2,3) [OF assms m] show False by (cases t) (auto simp: route_pattern_def)
qed

text \<open>\<^verbatim>\<open>HEAD\<close> goes where \<^verbatim>\<open>GET\<close> goes.\<close>

definition method_for :: "string \<Rightarrow> route \<Rightarrow> bool" where
  "method_for m rt \<longleftrightarrow> m = route_method rt \<or> (m = ''HEAD'' \<and> route_method rt = ''GET'')"

lemma findHandler_route:
  assumes "serves eps mux" "i < length eps" "route_value_ok rt x" "path_segs esc = endpoint_elems (ep_Path (eps ! i)) @ route_values rt x"
    and "cleanPath esc = esc" "method_for m rt"
  shows "findHandler mux m esc = MuxFound (route_pattern (ep_Path (eps ! i)) rt) (TargetEndpoint i rt) (route_captures rt x)"
proof -
  note f = route_found [OF assms(1-4)]
  have m: "m \<noteq> ''CONNECT''" using assms(6) route_method_ok(3) [of rt] by (auto simp: method_for_def)
  have n: "matchMethodAndPath mux m esc = Some ((route_pattern (ep_Path (eps ! i)) rt, TargetEndpoint i rt), route_captures rt x)"
    using assms(6) f by (auto simp: matchMethodAndPath_def method_for_def no_head [OF assms(1)])
  have "exactMatch (matchMethodAndPath mux m esc) esc" by (simp add: n exactMatch_def route_pattern_def)
  then show ?thesis using assms(5) n m by (simp add: findHandler_def matchOrRedirect_def Let_def)
qed

lemma findHandler_endpoint:
  assumes "serves eps mux" "findHandler mux m esc = MuxFound p (TargetEndpoint i rt) ms"
  shows "i < length eps" "method_for m rt" "p = route_pattern (ep_Path (eps ! i)) rt"
    "\<exists>x. path_segs esc = endpoint_elems (ep_Path (eps ! i)) @ route_values rt x \<and> ms = route_captures rt x"
proof -
  have "matchMethodAndPath mux m esc = Some ((p, TargetEndpoint i rt), ms)"
    using assms(2) by (auto simp: findHandler_def matchOrRedirect_def Let_def split: option.splits if_splits prod.splits)
  from matchMethod_found [OF this] obtain m' where m: "matchPath (method_routes m' mux) esc [] = Some ((p, TargetEndpoint i rt), ms)"
    "m' = m \<or> m' = [] \<or> (m' = ''GET'' \<and> m = ''HEAD'')" by blast
  note f = matched_target [OF assms(1) m(1)]
  have "m' = route_method rt" using f(2,3) by (simp add: route_pattern_def)
  with m(2) route_method_ok(4) [of rt] show "method_for m rt" by (auto simp: method_for_def)
  show "i < length eps" "p = route_pattern (ep_Path (eps ! i)) rt"
    "\<exists>x. path_segs esc = endpoint_elems (ep_Path (eps ! i)) @ route_values rt x \<and> ms = route_captures rt x"
    using f by (auto simp: set_server_targets seg_match_pattern)
qed

section \<open>Properties\<close>

lemma wild_names_literals [simp]: "wild_names (map SegLit xs @ ss) = wild_names ss"
  by (induction xs) simp_all

lemma route_path_value:
  "route_wildcard rt = Some n \<Longrightarrow> PathValue (route_pattern p rt) (route_captures rt x) n = x"
  by (cases rt) (auto simp: PathValue_def route_pattern_def route_captures_def)

text \<open>C18: For every configuration that loads, registering the routes of all endpoints and of the service does not panic,
  and a request for any of the eight API routes of an endpoint, with the route's method (or \<^verbatim>\<open>HEAD\<close> for \<^verbatim>\<open>GET\<close>) and a
  valid object id or any lock id in the wildcard, reaches that endpoint's handler for that route with the
  wildcard's value, even if another endpoint's path lies below this one's.\<close>

theorem api_requests_dispatched:
  assumes "Load lib e path = Inr c" "i < length (cf_Endpoints c)" "method_for m rt" "route_value_ok rt x" "cleanPath esc = esc"
    and "path_segs esc = endpoint_elems (ep_Path (cf_Endpoints c ! i)) @ route_values rt x"
  shows "\<exists>mux p ms. server_mux (cf_Endpoints c) = Some mux \<and> findHandler mux m esc = MuxFound p (TargetEndpoint i rt) ms \<and>
    (case route_wildcard rt of None \<Rightarrow> True | Some n \<Rightarrow> PathValue p ms n = x)"
proof -
  obtain mux where mux: "server_mux (cf_Endpoints c) = Some mux" "serves (cf_Endpoints c) mux"
    using Load_serves [OF assms(1)] by blast
  from findHandler_route [OF mux(2) assms(2,4,6,5,3)] mux(1) route_path_value show ?thesis
    by (auto split: option.splits)
qed

theorem api_requests_dispatched_witness:
  "\<exists>mux p ms. server_mux loaded_endpoints = Some mux \<and>
    findHandler mux ''POST'' ''/org/repo/locks/7/unlock'' = MuxFound p (TargetEndpoint 0 RouteUnlock) ms \<and> PathValue p ms ''id'' = ''7''"
proof -
  obtain c where c: "Load (demo_config_lib ascii_tables demo_endpoints) demo_config_env DefaultConfigPath = Inr c" "cf_Endpoints c = loaded_endpoints"
    using demo_load_endpoints by (auto simp: demo_load_def)
  let ?es = "[''org'', ''repo'', ''locks'', ''7'', ''unlock'']"
  have lit: "list_all literal_elem ?es" "list_all plain_elem ?es" by (simp_all add: literal_elem_def plain_elem_def)
  have esc: "slashes ?es = ''/org/repo/locks/7/unlock''" by simp
  have "path_segs (slashes ?es) = endpoint_elems (ep_Path (cf_Endpoints c ! 0)) @ route_values RouteUnlock ''7''"
    by (simp add: path_segs_slashes [OF lit(1)] c(2) loaded_endpoints_def demo_endpoints_def plain_endpoint_def endpoint_elems_def del: slashes_simps)
  then show ?thesis
    using api_requests_dispatched [OF c(1), of 0 "''POST''" RouteUnlock "''7''" "slashes ?es"] cleanPath_slashes [OF _ lit(2)]
    unfolding esc by (simp add: c(2) loaded_endpoints_def method_for_def route_value_ok_def)
qed

text \<open>C19: A handler of an endpoint is reached only by requests below that endpoint's own path, with the route's method and
  the route's elements after it: no request for one endpoint, escaped or nested in whatever way, gets to the handlers
  of another.\<close>

theorem endpoint_handlers_contained:
  assumes "Load lib e path = Inr c" "server_mux (cf_Endpoints c) = Some mux" "findHandler mux m esc = MuxFound p (TargetEndpoint i rt) ms"
  shows "i < length (cf_Endpoints c) \<and> method_for m rt \<and>
    (\<exists>x. path_segs esc = endpoint_elems (ep_Path (cf_Endpoints c ! i)) @ route_values rt x \<and> ms = route_captures rt x)"
proof -
  have "serves (cf_Endpoints c) mux" using Load_serves [OF assms(1)] assms(2) by auto
  from findHandler_endpoint [OF this assms(3)] show ?thesis by blast
qed

theorem endpoint_handlers_contained_witness:
  "\<exists>mux p ms x. server_mux loaded_endpoints = Some mux \<and> findHandler mux ''HEAD'' ''/open/locks'' = MuxFound p (TargetEndpoint 1 RouteListLocks) ms \<and>
    path_segs ''/open/locks'' = endpoint_elems ''/open'' @ route_values RouteListLocks x"
proof -
  obtain c where c: "Load (demo_config_lib ascii_tables demo_endpoints) demo_config_env DefaultConfigPath = Inr c" "cf_Endpoints c = loaded_endpoints"
    using demo_load_endpoints by (auto simp: demo_load_def)
  obtain mux where mux: "server_mux loaded_endpoints = Some mux" "serves loaded_endpoints mux"
    using Load_serves [OF c(1)] c(2) by auto
  let ?es = "[''open'', ''locks'']"
  have lit: "list_all literal_elem ?es" "list_all plain_elem ?es" by (simp_all add: literal_elem_def plain_elem_def)
  have esc: "slashes ?es = ''/open/locks''" by simp
  have ep: "ep_Path (loaded_endpoints ! 1) = ''/open''" "1 < length loaded_endpoints"
    by (simp_all add: loaded_endpoints_def demo_endpoints_def plain_endpoint_def)
  have segs: "path_segs (slashes ?es) = endpoint_elems (ep_Path (loaded_endpoints ! 1)) @ route_values RouteListLocks []"
    by (simp add: path_segs_slashes [OF lit(1)] ep endpoint_elems_def del: slashes_simps One_nat_def)
  have f: "\<exists>p ms. findHandler mux ''HEAD'' (slashes ?es) = MuxFound p (TargetEndpoint 1 RouteListLocks) ms"
    using findHandler_route [OF mux(2) ep(2) _ segs _, of "''HEAD''"] cleanPath_slashes [OF _ lit(2)]
    by (simp add: route_value_ok_def method_for_def del: slashes_simps)
  then show ?thesis
    using endpoint_handlers_contained [OF c(1), of mux "''HEAD''" "slashes ?es"] mux(1) unfolding esc
    by (auto simp: c(2) ep simp del: One_nat_def)
qed

end
