(* ===== verification/Middleware.thy ===== *)
theory Middleware
  imports Http
begin

text \<open>
  \<^verbatim>\<open>src/middleware\<close>: what wraps the handlers. A request on the wire is the handlers' request with the peer's
  address, all values of each header, and the client address and request id that the wrappers record in its
  context. The library \<^verbatim>\<open>realclientip\<close> and the rate limiter's store are arguments; log lines are the level they are
  written at.
\<close>

section \<open>Requests on the wire\<close>

record net_request =
  nr_request :: request
  nr_RemoteAddr :: string
  nr_Values :: "string \<Rightarrow> string list"
  nr_Path :: string
  nr_EscapedPath :: string
  nr_ClientIP :: "string option"

text \<open>\<^verbatim>\<open>Header.Del\<close>: \<^verbatim>\<open>Header.Get\<close> and \<^verbatim>\<open>Header.Values\<close> no longer find the name.\<close>

definition header_del :: "string \<Rightarrow> net_request \<Rightarrow> net_request" where
  "header_del name r = r\<lparr>nr_Values := (nr_Values r)(name := []),
     nr_request := (nr_request r)\<lparr>rq_Header := (rq_Header (nr_request r))(name := [])\<rparr>\<rparr>"

definition RequestIDHeader :: string where "RequestIDHeader = ''X-Request-ID''"

definition proxyHeaders :: "string list" where
  "proxyHeaders = [''X-Forwarded-For'', ''X-Forwarded-Host'', ''X-Forwarded-Proto'', RequestIDHeader]"

section \<open>Client addresses\<close>

text \<open>The calls of \<^verbatim>\<open>realclientip\<close>: ranges from text, addresses from text, membership, the unspecified address, the
  text of an address, the address of a peer, and the strategy that takes the rightmost untrusted entry of the
  named header.\<close>

record ('n, 'i) client_ip_lib =
  ci_ToIPNets :: "string list \<Rightarrow> 'n list option"
  ci_ParseIPAddr :: "string \<Rightarrow> 'i option"
  ci_Contains :: "'n \<Rightarrow> 'i \<Rightarrow> bool"
  ci_IsUnspecified :: "'i \<Rightarrow> bool"
  ci_String :: "'i \<Rightarrow> string"
  ci_RemoteAddr :: "string \<Rightarrow> string"
  ci_NewStrategy :: "string \<Rightarrow> 'n list \<Rightarrow> (string list \<Rightarrow> string \<Rightarrow> string) option"

record 'n proxy_trust =
  pt_trusted :: "'n list"
  pt_strategy :: "string list \<Rightarrow> string \<Rightarrow> string"

definition NewProxyTrust :: "('n, 'i) client_ip_lib \<Rightarrow> string list \<Rightarrow> 'n proxy_trust option" where
  "NewProxyTrust lib proxies =
     (case ci_ToIPNets lib proxies of
        None \<Rightarrow> None
      | Some trusted \<Rightarrow>
        (case ci_NewStrategy lib ''X-Forwarded-For'' trusted of
           None \<Rightarrow> None
         | Some strategy \<Rightarrow> Some \<lparr>pt_trusted = trusted, pt_strategy = strategy\<rparr>))"

definition trustsIP :: "('n, 'i) client_ip_lib \<Rightarrow> 'n proxy_trust \<Rightarrow> 'i \<Rightarrow> bool" where
  "trustsIP lib p ip \<longleftrightarrow> list_ex (\<lambda>n. ci_Contains lib n ip) (pt_trusted p)"

definition trusts :: "('n, 'i) client_ip_lib \<Rightarrow> 'n proxy_trust \<Rightarrow> string \<Rightarrow> bool" where
  "trusts lib p ip = (case ci_ParseIPAddr lib ip of None \<Rightarrow> False | Some addr \<Rightarrow> trustsIP lib p addr)"

fun leftmost_loop :: "('n, 'i) client_ip_lib \<Rightarrow> 'n proxy_trust \<Rightarrow> string \<Rightarrow> string list \<Rightarrow> string" where
  "leftmost_loop lib p leftmost [] = leftmost"
| "leftmost_loop lib p leftmost (item # items) =
     (case ci_ParseIPAddr lib (TrimSpace item) of
        None \<Rightarrow> []
      | Some addr \<Rightarrow>
        if ci_IsUnspecified lib addr \<or> \<not> trustsIP lib p addr then []
        else leftmost_loop lib p (if leftmost = [] then ci_String lib addr else leftmost) items)"

definition leftmostIfAllTrusted :: "('n, 'i) client_ip_lib \<Rightarrow> 'n proxy_trust \<Rightarrow> string list \<Rightarrow> string" where
  "leftmostIfAllTrusted lib p vs = leftmost_loop lib p [] (concat (map (\<lambda>v. Split v CHR '','') vs))"

definition peerIP :: "('n, 'i) client_ip_lib \<Rightarrow> net_request \<Rightarrow> string" where
  "peerIP lib r = ci_RemoteAddr lib (nr_RemoteAddr r)"

text \<open>\<^verbatim>\<open>ProxyTrust.Handler\<close>: the request it passes on.\<close>

definition ProxyTrust_Handler :: "('n, 'i) client_ip_lib \<Rightarrow> 'n proxy_trust \<Rightarrow> net_request \<Rightarrow> net_request" where
  "ProxyTrust_Handler lib p r =
     (let ip = peerIP lib r in
      if trusts lib p ip then
        (let forwarded = pt_strategy p (nr_Values r ''X-Forwarded-For'') (nr_RemoteAddr r);
             leftmost = leftmostIfAllTrusted lib p (nr_Values r ''X-Forwarded-For'');
             ip = (if forwarded \<noteq> [] then forwarded else if leftmost \<noteq> [] then leftmost else ip)
         in r\<lparr>nr_ClientIP := Some ip\<rparr>)
      else (fold header_del proxyHeaders r)\<lparr>nr_ClientIP := Some ip\<rparr>)"

definition ClientIP :: "('n, 'i) client_ip_lib \<Rightarrow> net_request \<Rightarrow> string" where
  "ClientIP lib r =
     (case nr_ClientIP r of
        Some ip \<Rightarrow> if ip \<noteq> [] then ip else (let ip = peerIP lib r in if ip \<noteq> [] then ip else nr_RemoteAddr r)
      | None \<Rightarrow> (let ip = peerIP lib r in if ip \<noteq> [] then ip else nr_RemoteAddr r))"

section \<open>Request ids\<close>

text \<open>\<^verbatim>\<open>^[A-Za-z0-9._-]{1,128}$\<close>.\<close>

definition validRequestID :: "string \<Rightarrow> bool" where
  "validRequestID rid \<longleftrightarrow> 1 \<le> length rid \<and> length rid \<le> 128 \<and>
     list_all (\<lambda>c. let n = byte_of c in (65 \<le> n \<and> n \<le> 90) \<or> (97 \<le> n \<and> n \<le> 122) \<or> (48 \<le> n \<and> n \<le> (57 :: nat)) \<or>
       c = CHR ''.'' \<or> c = CHR ''_'' \<or> c = CHR ''-'') rid"

text \<open>From the bytes drawn for it; a draw that fails leaves zero bytes.\<close>

definition generateRequestID :: "bytes \<Rightarrow> string" where
  "generateRequestID drawn = hex_encode (take 8 (drawn @ replicate 8 CHR 0x00))"

text \<open>The request passed on and the response header set before.\<close>

definition RequestID :: "bytes \<Rightarrow> net_request \<Rightarrow> net_request \<times> (string \<times> string) list" where
  "RequestID drawn r =
     (let rid = rq_Header (nr_request r) RequestIDHeader;
          rid = (if \<not> validRequestID rid then generateRequestID drawn else rid)
      in (r\<lparr>nr_request := (nr_request r)\<lparr>rq_RequestID := rid\<rparr>\<rparr>, [(RequestIDHeader, rid)]))"

definition RequestIDFrom :: "net_request \<Rightarrow> string" where
  "RequestIDFrom r = rq_RequestID (nr_request r)"

section \<open>Rate limits\<close>

definition maxResetNanos :: int where "maxResetNanos = 4611686018427387904"

text \<open>\<^verbatim>\<open>time.Until(time.Unix(0, n))\<close>: the difference, held at the bounds of a duration.\<close>

definition time_until :: "instant \<Rightarrow> int \<Rightarrow> duration" where
  "time_until now n = max (- (2 ^ 63)) (min (2 ^ 63 - 1) (n - now))"

text \<open>What the limiter's store answers for a key: an error, or when the window resets and whether a token was taken.\<close>

datatype take_answer = TakeError | TakeAnswer "64 word" bool

definition rateLimitRetry :: "instant \<Rightarrow> 64 word \<Rightarrow> duration" where
  "rateLimitRetry now reset = max (time_until now (min (sint reset) maxResetNanos)) second"

definition rateLimitResponse :: "instant \<Rightarrow> 64 word \<Rightarrow> net_request \<Rightarrow> response" where
  "rateLimitResponse now reset r =
     \<lparr>rsp_Status = 429,
      rsp_Header = [(''Content-Type'', ''application/vnd.git-lfs+json''),
        (''Retry-After'', FormatInt (whole_seconds (rateLimitRetry now reset)))],
      rsp_Body = BodyJson (JObj [(''message'', JStr ''rate limit exceeded''), (''request_id'', JStr (RequestIDFrom r)),
        (''documentation_url'', JStr ''https://github.com/refringe/anchor-lfs/wiki'')])\<rparr>"

text \<open>\<^verbatim>\<open>RateLimit\<close> in front of a handler, on the limiter's state and the handler's.\<close>

definition RateLimit :: "('n, 'i) client_ip_lib \<Rightarrow> ('m \<Rightarrow> string \<Rightarrow> 'm \<times> take_answer) \<Rightarrow> instant
    \<Rightarrow> (net_request \<Rightarrow> 'w \<Rightarrow> 'w \<times> response) \<Rightarrow> net_request \<Rightarrow> 'm \<times> 'w \<Rightarrow> ('m \<times> 'w) \<times> response" where
  "RateLimit lib take_op now next_handler r st =
     (case st of (m, w) \<Rightarrow>
        (case take_op m (ClientIP lib r) of
           (m', TakeError) \<Rightarrow> (case next_handler r w of (w', x) \<Rightarrow> ((m', w'), x))
         | (m', TakeAnswer reset ok) \<Rightarrow>
           if \<not> ok then ((m', w), rateLimitResponse now reset r)
           else (case next_handler r w of (w', x) \<Rightarrow> ((m', w'), x))))"

section \<open>Logging\<close>

datatype log_level = LogError | LogWarn | LogInfo | LogDebug

definition logEventForStatus :: "int \<Rightarrow> bool \<Rightarrow> log_level" where
  "logEventForStatus status quiet =
     (if status \<ge> 500 then LogError else if status \<ge> 400 then LogWarn else if quiet then LogDebug else LogInfo)"

text \<open>\<^verbatim>\<open>Logging\<close>: the response is the handler's; the line carries what is recorded.\<close>

record log_line =
  ll_level :: log_level
  ll_method :: string
  ll_path :: string
  ll_status :: int
  ll_ip :: string

definition Logging :: "('n, 'i) client_ip_lib \<Rightarrow> string list \<Rightarrow> (net_request \<Rightarrow> 'w \<Rightarrow> 'w \<times> response) \<Rightarrow> net_request \<Rightarrow> 'w
    \<Rightarrow> 'w \<times> response \<times> log_line" where
  "Logging lib quietPaths next_handler r w =
     (case next_handler r w of
        (w', x) \<Rightarrow> (w', x, \<lparr>ll_level = logEventForStatus (rsp_Status x) (nr_Path r \<in> set quietPaths),
          ll_method = rq_Method (nr_request r), ll_path = nr_Path r, ll_status = rsp_Status x, ll_ip = ClientIP lib r\<rparr>))"

section \<open>Facts\<close>

lemma ClientIP_request [simp]: "ClientIP lib (r\<lparr>nr_request := q\<rparr>) = ClientIP lib r"
  by (simp add: ClientIP_def peerIP_def Let_def split: option.splits)

lemma fold_header_del_get:
  "rq_Header (nr_request (fold header_del names r)) h = (if h \<in> set names then [] else rq_Header (nr_request r) h)"
  by (induction names arbitrary: r) (auto simp: header_del_def)

text \<open>Requests that agree apart from the values of some headers.\<close>

definition agree_except :: "string list \<Rightarrow> net_request \<Rightarrow> net_request \<Rightarrow> bool" where
  "agree_except names r r' \<longleftrightarrow>
     r' = r\<lparr>nr_Values := nr_Values r', nr_request := (nr_request r)\<lparr>rq_Header := rq_Header (nr_request r')\<rparr>\<rparr> \<and>
     (\<forall>h. h \<notin> set names \<longrightarrow> nr_Values r' h = nr_Values r h \<and> rq_Header (nr_request r') h = rq_Header (nr_request r) h)"

definition without :: "string list \<Rightarrow> (string \<Rightarrow> 'a list) \<Rightarrow> string \<Rightarrow> 'a list" where
  "without names f h = (if h \<in> set names then [] else f h)"

lemma without_upd: "without names (\<lambda>h. if h = n then [] else f h) = without (n # names) f"
  by (auto simp: without_def)

lemma fold_header_del:
  "fold header_del names r =
     r\<lparr>nr_Values := without names (nr_Values r), nr_request := (nr_request r)\<lparr>rq_Header := without names (rq_Header (nr_request r))\<rparr>\<rparr>"
proof (induction names arbitrary: r)
  case Nil
  show ?case by (simp add: without_def [abs_def])
next
  case (Cons n names)
  show ?case by (simp add: Cons.IH header_del_def [of n r] fun_upd_def without_upd)
qed

lemma fold_header_del_agree:
  assumes "agree_except names r r'"
  shows "fold header_del names r' = fold header_del names r"
proof -
  obtain v h where r': "r' = r\<lparr>nr_Values := v, nr_request := (nr_request r)\<lparr>rq_Header := h\<rparr>\<rparr>"
    using assms unfolding agree_except_def by blast
  then have a: "v k = nr_Values r k" "h k = rq_Header (nr_request r) k" if "k \<notin> set names" for k
    using assms that by (auto simp: agree_except_def)
  have "without names v = without names (nr_Values r)" "without names h = without names (rq_Header (nr_request r))"
    using a by (auto simp: without_def)
  then show ?thesis by (simp add: fold_header_del r')
qed

lemma agree_except_peer: "agree_except names r r' \<Longrightarrow> peerIP lib r' = peerIP lib r"
  unfolding agree_except_def peerIP_def by (metis net_request.select_convs(2) net_request.surjective net_request.update_convs(1,3))

text \<open>What an untrusted peer writes into the proxy headers is gone behind the wrapper.\<close>

lemma untrusted_request:
  assumes "\<not> trusts lib p (peerIP lib r)" and "agree_except proxyHeaders r r'"
  shows "ProxyTrust_Handler lib p r' = ProxyTrust_Handler lib p r \<and>
    list_all (\<lambda>h. rq_Header (nr_request (ProxyTrust_Handler lib p r)) h = []) proxyHeaders \<and>
    ClientIP lib (ProxyTrust_Handler lib p r) = (if peerIP lib r \<noteq> [] then peerIP lib r else nr_RemoteAddr r)"
proof -
  have "peerIP lib (fold header_del proxyHeaders r) = peerIP lib r" "nr_RemoteAddr (fold header_del proxyHeaders r) = nr_RemoteAddr r"
    by (simp_all add: fold_header_del peerIP_def)
  then have "ClientIP lib (ProxyTrust_Handler lib p r) = (if peerIP lib r \<noteq> [] then peerIP lib r else nr_RemoteAddr r)"
    using assms(1) by (simp add: ProxyTrust_Handler_def ClientIP_def peerIP_def Let_def)
  then show ?thesis
    using assms by (simp add: ProxyTrust_Handler_def agree_except_peer fold_header_del_agree Let_def fold_header_del_get list_all_iff)
qed

text \<open>A client and a proxy for the examples: ranges are single addresses, and a peer's address is its text up to the
  colon.\<close>

definition demo_ip_lib :: "(string, string) client_ip_lib" where
  "demo_ip_lib = \<lparr>ci_ToIPNets = Some, ci_ParseIPAddr = (\<lambda>s. if s = [] then None else Some s), ci_Contains = (=),
     ci_IsUnspecified = (\<lambda>ip. ip = ''0.0.0.0''), ci_String = (\<lambda>ip. ip), ci_RemoteAddr = takeWhile (\<lambda>c. c \<noteq> CHR '':''),
     ci_NewStrategy = (\<lambda>name ranges. Some (\<lambda>vs remote. []))\<rparr>"

definition demo_proxy_trust :: "string proxy_trust" where
  "demo_proxy_trust = \<lparr>pt_trusted = [''10.0.0.1''], pt_strategy = (\<lambda>vs remote. [])\<rparr>"

definition demo_net_request :: "(string \<Rightarrow> string list) \<Rightarrow> net_request" where
  "demo_net_request vs =
     \<lparr>nr_request = \<lparr>rq_Method = ''GET'', rq_Header = (\<lambda>h. case vs h of [] \<Rightarrow> [] | v # _ \<Rightarrow> v), rq_Host = ''lfs.example.com'',
        rq_TLS = False, rq_RequestURI = ''/health'', rq_RawQuery = [], rq_PathValue = (\<lambda>_. []), rq_ContentLength = 0,
        rq_Body = \<lparr>st_pieces = [], st_wait = 0, st_err = None\<rparr>, rq_RequestID = []\<rparr>,
      nr_RemoteAddr = ''192.0.2.7:4711'', nr_Values = vs, nr_Path = ''/health'', nr_EscapedPath = ''/health'', nr_ClientIP = None\<rparr>"

lemma demo_peer: "peerIP demo_ip_lib (demo_net_request vs) = ''192.0.2.7''"
  by (simp add: peerIP_def demo_ip_lib_def demo_net_request_def)

lemma demo_untrusted: "\<not> trusts demo_ip_lib demo_proxy_trust (peerIP demo_ip_lib (demo_net_request vs))"
  unfolding demo_peer by (simp add: trusts_def trustsIP_def demo_proxy_trust_def demo_ip_lib_def)

lemma is_hex_valid_id: "is_hex c \<Longrightarrow> validRequestID [c]"
  by (auto simp: is_hex_def validRequestID_def hex_value_def Let_def split: if_splits)

text \<open>The id a request carries from the wrapper on, into log lines, error bodies and the response header, is always one
  to 128 letters, digits, dots, underscores and hyphens, whatever the client sent and however many random bytes were
  drawn, and the response header repeats it.\<close>

theorem request_id_safe:
  "case RequestID drawn r of (r', hs) \<Rightarrow> validRequestID (RequestIDFrom r') \<and> hs = [(''X-Request-ID'', RequestIDFrom r')]"
proof -
  have "c \<in> set (hex_encode bs) \<Longrightarrow> validRequestID [c]" for c bs by (rule is_hex_valid_id [OF hex_encode_is_hex])
  then have "validRequestID (generateRequestID drawn)"
    by (auto simp: validRequestID_def generateRequestID_def list_all_iff)
  then show ?thesis by (simp add: RequestID_def RequestIDFrom_def RequestIDHeader_def Let_def)
qed

lemma rateLimitRetry_range: "second \<le> rateLimitRetry now reset" "rateLimitRetry now reset < 2 ^ 63"
  by (simp_all add: rateLimitRetry_def time_until_def second_def max_def min_def)

text \<open>C37: A request the limiter refuses never reaches the handler: the handler's state is unchanged and the answer is 429
  with a \<^verbatim>\<open>Retry-After\<close> of at least one second, whatever reset time the store reports, values beyond the signed range
  included. The header is at most one second short of the (capped) reset and at most one second
  past the later of the reset and one second from now.\<close>

theorem rate_limit_denies:
  assumes "take_op m (ClientIP lib r) = (m', TakeAnswer reset False)" and "0 \<le> now"
  shows "\<exists>x n. RateLimit lib take_op now next_handler r (m, w) = ((m', w), x) \<and> rsp_Status x = 429 \<and>
    map_of (rsp_Header x) ''Retry-After'' = Some (FormatInt n) \<and> 1 \<le> n \<and>
    min (sint reset) maxResetNanos < now + (n + 1) * second \<and>
    now + (n - 1) * second \<le> max (min (sint reset) maxResetNanos) (now + second)"
proof -
  let ?d = "rateLimitRetry now reset" and ?t = "min (sint reset) maxResetNanos"
  have r: "second \<le> ?d" "?d < 2 ^ 63" by (rule rateLimitRetry_range)+
  have b: "?d div second \<le> whole_seconds ?d" "whole_seconds ?d \<le> ?d div second + 1"
    using whole_seconds_bounds [OF _ r(2)] r(1) duration_pos(1) by simp_all
  have one: "1 \<le> ?d div second" using zdiv_mono1 [OF r(1) duration_pos(1)] by (simp add: second_def)
  have cap: "?t \<le> maxResetNanos" by simp
  then have d: "?t - now \<le> ?d" "now + ?d \<le> max ?t (now + second)"
    using assms(2) by (auto simp: rateLimitRetry_def time_until_def maxResetNanos_def second_def)
  have div: "?d div second * second \<le> ?d" "?d < (?d div second + 1) * second"
    by (simp_all add: second_def)
  let ?n = "whole_seconds ?d"
  have "?t < now + (?n + 1) * second" "now + (?n - 1) * second \<le> max ?t (now + second)"
    using b d div by (simp_all add: second_def)
  then show ?thesis using assms(1) b one
    by (intro exI [of _ "rateLimitResponse now reset r"] exI [of _ ?n]) (simp add: RateLimit_def rateLimitResponse_def)
qed

theorem rate_limit_denies_witness:
  "\<exists>x n. RateLimit demo_ip_lib (\<lambda>m ip. (m, TakeAnswer 9000000000 False)) 4000000000
      (\<lambda>r w. (w, WriteHeader 200)) (demo_net_request (\<lambda>_. [])) ((), ()) = (((), ()), x) \<and> rsp_Status x = 429 \<and>
    map_of (rsp_Header x) ''Retry-After'' = Some (FormatInt n) \<and> 4 < n \<and> n < 7"
proof -
  obtain x n where "RateLimit demo_ip_lib (\<lambda>m ip. (m, TakeAnswer 9000000000 False)) 4000000000
      (\<lambda>r w. (w, WriteHeader 200)) (demo_net_request (\<lambda>_. [])) ((), ()) = (((), ()), x)" "rsp_Status x = 429"
    "map_of (rsp_Header x) ''Retry-After'' = Some (FormatInt n)" "min (sint (9000000000 :: 64 word)) maxResetNanos < 4000000000 + (n + 1) * second"
    "4000000000 + (n - 1) * second \<le> max (min (sint (9000000000 :: 64 word)) maxResetNanos) (4000000000 + second)"
    using rate_limit_denies [of "\<lambda>m ip. (m, TakeAnswer 9000000000 False)" "()" demo_ip_lib "demo_net_request (\<lambda>_. [])" "()"
      9000000000 4000000000 "\<lambda>r w. (w, WriteHeader 200)" "()"] by auto
  then show ?thesis
    by (intro exI [of _ x] exI [of _ n]) (simp add: maxResetNanos_def second_def signed_take_bit_eq_if_positive)
qed

end
