(* ===== verification/Metrics.thy ===== *)
theory Metrics
  imports Http Go_Double
begin

text \<open>
  \<^verbatim>\<open>src/internal/metrics/metrics.go\<close>: what the server counts and what a scrape reports.

  Of Prometheus the model keeps what the server sees: a vector of counters or histograms is a map from label values to the
  value of that series, which \<^verbatim>\<open>WithLabelValues\<close> creates; a counter keeps an exact sum of the integral values added; a
  histogram is the list of its observations, from which the counts of its buckets follow; and registering a name twice
  panics. The Go runtime and process collectors, whose names start with \<^verbatim>\<open>go_\<close> and \<^verbatim>\<open>process_\<close>, and the text format are
  left out.
\<close>

section \<open>Series\<close>

definition namespace :: string where "namespace = ''anchor_lfs''"

definition routeLabel :: string where "routeLabel = ''route''"

text \<open>The bounds in nanoseconds. \<^verbatim>\<open>Duration.Seconds\<close> is exact enough that a duration is at most a bound exactly if the
  floating point values are.\<close>

definition durationBuckets :: "duration list" where
  "durationBuckets = map (\<lambda>ms. ms * 1000000) [5, 10, 25, 50, 100, 250, 500, 1000, 2500, 5000, 10000, 30000, 60000, 120000, 300000]"

definition fqName :: "string \<Rightarrow> string" where
  "fqName name = namespace @ ''_'' @ name"

record metrics =
  mt_registry :: "string list"
  mt_buildInfo :: "string \<times> string"
  mt_requests :: "string \<times> string \<rightharpoonup> nat"
  mt_duration :: "string \<rightharpoonup> duration list"
  mt_requestBytes :: "string \<rightharpoonup> nat"
  mt_responseBytes :: "string \<rightharpoonup> nat"

text \<open>\<^verbatim>\<open>Registry.MustRegister\<close>, with \<^term>\<open>None\<close> for the panic.\<close>

definition MustRegister :: "string list \<Rightarrow> metrics \<Rightarrow> metrics option" where
  "MustRegister names m =
     (if distinct (mt_registry m @ names) then Some (m\<lparr>mt_registry := mt_registry m @ names\<rparr>) else None)"

definition NewMetrics :: "string \<Rightarrow> string \<Rightarrow> metrics option" where
  "NewMetrics version commit =
     MustRegister
       [fqName ''http_requests_total'', fqName ''http_request_duration_seconds'', fqName ''http_request_body_bytes_total'',
        fqName ''http_response_body_bytes_total'', fqName ''build_info'']
       \<lparr>mt_registry = [], mt_buildInfo = (version, commit), mt_requests = Map.empty, mt_duration = Map.empty,
        mt_requestBytes = Map.empty, mt_responseBytes = Map.empty\<rparr>"

definition RegisterAvailableSpace :: "metrics \<Rightarrow> metrics option" where
  "RegisterAvailableSpace m = MustRegister [fqName ''storage_available_bytes''] m"

definition RegisterAuthCache :: "metrics \<Rightarrow> metrics option" where
  "RegisterAuthCache m = MustRegister [fqName ''auth_cache_requests_total''] m"

section \<open>Requests\<close>

definition series_value :: "('k \<rightharpoonup> nat) \<Rightarrow> 'k \<Rightarrow> nat" where
  "series_value m k = (case m k of None \<Rightarrow> 0 | Some n \<Rightarrow> n)"

text \<open>\<^verbatim>\<open>WithLabelValues(k).Add(v)\<close>; \<^verbatim>\<open>Inc\<close> adds one.\<close>

definition counter_add :: "'k \<Rightarrow> double \<Rightarrow> ('k \<rightharpoonup> nat) \<Rightarrow> ('k \<rightharpoonup> nat)" where
  "counter_add k v m = m(k \<mapsto> series_value m k + double_trunc v)"

definition observe :: "'k \<Rightarrow> duration \<Rightarrow> ('k \<rightharpoonup> duration list) \<Rightarrow> ('k \<rightharpoonup> duration list)" where
  "observe k d m = m(k \<mapsto> (case m k of None \<Rightarrow> [] | Some ds \<Rightarrow> ds) @ [d])"

text \<open>The count of a bucket of the histogram.\<close>

definition bucket_count :: "duration \<Rightarrow> duration list \<Rightarrow> nat" where
  "bucket_count bound ds = length (filter (\<lambda>d. d \<le> bound) ds)"

text \<open>\<^verbatim>\<open>countingReader\<close>: the 64-bit count after one read, and after all reads of a request.\<close>

definition countingReader_Read :: "64 word \<Rightarrow> nat \<Rightarrow> 64 word" where
  "countingReader_Read c n = c + of_nat n"

definition body_read :: "nat list \<Rightarrow> 64 word" where
  "body_read reads = foldl countingReader_Read 0 reads"

text \<open>The bytes a handler writes for a response.\<close>

fun body_written :: "body \<Rightarrow> nat" where
  "body_written (BodyJson v) = length (json_print v)"
| "body_written (BodyText s) = length s"
| "body_written (BodyBytes d) = length d"
| "body_written BodyEmpty = 0"

text \<open>What \<^verbatim>\<open>Instrument\<close> knows after the mux has answered: the pattern, the status, the duration, the sizes of the reads
  from the body, and the bytes the connection took.\<close>

record captured =
  cp_Pattern :: string
  cp_Code :: int
  cp_Duration :: duration
  cp_reads :: "nat list"
  cp_Written :: nat

definition record_request :: "captured \<Rightarrow> metrics \<Rightarrow> metrics" where
  "record_request c m =
     (let route = cp_Pattern c
      in m\<lparr>mt_requests := counter_add (route, FormatInt (cp_Code c)) (double_of_nat 1) (mt_requests m),
           mt_duration := observe route (cp_Duration c) (mt_duration m),
           mt_requestBytes := counter_add route (double_of_nat (unat (body_read (cp_reads c)))) (mt_requestBytes m),
           mt_responseBytes := counter_add route (double_of_nat (cp_Written c)) (mt_responseBytes m)\<rparr>)"

section \<open>Scrapes\<close>

datatype sample = Sample double | NotANumber

text \<open>The gauge of free space, on the answer of \<^verbatim>\<open>AvailableSpace\<close>.\<close>

definition available_space_sample :: "store_error + 64 word \<Rightarrow> sample" where
  "available_space_sample available = (case available of Inl _ \<Rightarrow> NotANumber | Inr free \<Rightarrow> Sample (double_of_nat (unat free)))"

text \<open>\<^verbatim>\<open>authCacheCollector.Collect\<close>: the samples by their label.\<close>

definition authCacheCollector_Collect :: "64 word \<times> 64 word \<Rightarrow> (string \<times> double) list" where
  "authCacheCollector_Collect stats =
     (case stats of (hits, misses) \<Rightarrow> [(''hit'', double_of_nat (unat hits)), (''miss'', double_of_nat (unat misses))])"

section \<open>Counting\<close>

lemma double_trunc_exact: "n < 2 ^ 53 \<Longrightarrow> double_trunc (double_of_nat n) = n"
  by (simp add: double_trunc_def double_of_nat_exact)

lemma unat_foldl_add: "unat (foldl countingReader_Read c ns) = (unat c + sum_list ns) mod 2 ^ 64"
proof (induction ns arbitrary: c)
  case Nil
  have "unat c < 2 ^ LENGTH(64)" by (rule unsigned_less)
  then show ?case by simp
next
  case (Cons n ns)
  have "unat (countingReader_Read c n) = (unat c + n) mod 2 ^ 64"
    by (simp add: countingReader_Read_def unat_word_ariths unat_of_nat mod_add_right_eq)
  then show ?case unfolding foldl_Cons Cons.IH by (simp add: mod_add_left_eq add.assoc)
qed

lemma body_read_sum: "sum_list ns < 2 ^ 64 \<Longrightarrow> unat (body_read ns) = sum_list ns"
  by (simp add: body_read_def unat_foldl_add)

text \<open>The specification of a vector: the series of the events that have a label, each with the sum of what they add.\<close>

definition series :: "('e \<Rightarrow> 'k) \<Rightarrow> ('e \<Rightarrow> nat) \<Rightarrow> 'e list \<Rightarrow> ('k \<rightharpoonup> nat)" where
  "series label amount es k =
     (let fs = filter (\<lambda>e. label e = k) es in if fs = [] then None else Some (sum_list (map amount fs)))"

definition observations :: "('e \<Rightarrow> 'k) \<Rightarrow> ('e \<Rightarrow> duration) \<Rightarrow> 'e list \<Rightarrow> ('k \<rightharpoonup> duration list)" where
  "observations label value es k =
     (let fs = filter (\<lambda>e. label e = k) es in if fs = [] then None else Some (map value fs))"

lemma series_Nil [simp]: "series label amount [] = Map.empty" "observations label val [] = Map.empty"
  by (simp_all add: fun_eq_iff series_def observations_def)

lemma series_snoc: "double_trunc v = amount e \<Longrightarrow> counter_add (label e) v (series label amount es) = series label amount (es @ [e])"
  by (auto simp: fun_eq_iff counter_add_def series_value_def series_def Let_def)

lemma observations_snoc: "observe (label e) (val e) (observations label val es) = observations label val (es @ [e])"
  by (auto simp: fun_eq_iff observe_def observations_def Let_def)

lemma series_dom: "dom (series label amount es) = label ` set es"
  by (auto simp: dom_def series_def Let_def filter_empty_conv)

definition request_label :: "captured \<Rightarrow> string \<times> string" where
  "request_label c = (cp_Pattern c, FormatInt (cp_Code c))"

definition bytes_read :: "captured \<Rightarrow> nat" where
  "bytes_read c = sum_list (cp_reads c)"

text \<open>The metrics of a history of requests.\<close>

definition counts :: "captured list \<Rightarrow> metrics \<Rightarrow> bool" where
  "counts cs m \<longleftrightarrow> mt_requests m = series request_label (\<lambda>_. 1) cs \<and> mt_duration m = observations cp_Pattern cp_Duration cs \<and>
     mt_requestBytes m = series cp_Pattern bytes_read cs \<and> mt_responseBytes m = series cp_Pattern cp_Written cs"

text \<open>Sizes that a double holds exactly.\<close>

definition exact_sizes :: "captured \<Rightarrow> bool" where
  "exact_sizes c \<longleftrightarrow> bytes_read c < 2 ^ 53 \<and> cp_Written c < 2 ^ 53"

lemma record_request_counts:
  assumes "counts cs m" "exact_sizes c"
  shows "counts (cs @ [c]) (record_request c m)"
proof -
  have "unat (body_read (cp_reads c)) = bytes_read c"
    using assms(2) body_read_sum [of "cp_reads c"] by (simp add: exact_sizes_def bytes_read_def)
  then have v: "double_trunc (double_of_nat 1) = 1" "double_trunc (double_of_nat (unat (body_read (cp_reads c)))) = bytes_read c"
    "double_trunc (double_of_nat (cp_Written c)) = cp_Written c"
    using assms(2) by (simp_all add: double_trunc_exact exact_sizes_def)
  with assms(1) show ?thesis
    unfolding counts_def record_request_def Let_def request_label_def [symmetric]
    by (simp add: series_snoc observations_snoc)
qed

lemma NewMetrics_ok: "\<exists>m. NewMetrics version commit = Some m \<and> counts [] m"
  by (simp add: NewMetrics_def MustRegister_def fqName_def namespace_def counts_def)

text \<open>A bucket of the histogram contains those with smaller bounds.\<close>

lemma bucket_count_mono: "b \<le> b' \<Longrightarrow> bucket_count b ds \<le> bucket_count b' ds"
  unfolding bucket_count_def by (induction ds) auto

end
