(* ===== verification/Server.thy ===== *)
theory Server
  imports Access Routes Middleware Metrics
begin

text \<open>
  The server as \<^verbatim>\<open>src/main.go\<close> puts it together: one handler per endpoint over a shared store, lock store and signer,
  authenticators shared by API base URL, the rate limiter in front of the batch and lock routes, the mux, and
  around it metrics, access log, request ids and proxy trust. \<^verbatim>\<open>src/readiness.go\<close>: the readiness check with its
  cached result. A request runs against the state of all of them in one step.
\<close>

section \<open>Readiness\<close>

definition readinessCacheTTL :: duration where "readinessCacheTTL = 5 * second"

text \<open>\<^verbatim>\<open>checkedAt\<close> is \<^term>\<open>None\<close> for the zero time.\<close>

record readiness =
  rd_ttl :: duration
  rd_checkedAt :: "instant option"
  rd_failed :: string

definition newReadiness :: readiness where
  "newReadiness = \<lparr>rd_ttl = readinessCacheTTL, rd_checkedAt = None, rd_failed = []\<rparr>"

text \<open>What one call meets: the clock when it starts, the outcome of \<^verbatim>\<open>CheckWritableDir\<close> and of the adapter's \<^verbatim>\<open>Check\<close>
  if they are run, and the clock afterwards.\<close>

record ready_env =
  ry_now :: instant
  ry_dir :: "store_error option"
  ry_store :: "store_error option"
  ry_after :: instant

definition readiness_check :: "ready_env \<Rightarrow> readiness \<Rightarrow> readiness \<times> string" where
  "readiness_check env rd =
     (case rd_checkedAt rd of
        Some t \<Rightarrow>
          if ry_now env - t < rd_ttl rd then (rd, rd_failed rd)
          else (let failed = (if ry_dir env \<noteq> None then ''data_directory'' else if ry_store env \<noteq> None then ''storage'' else [])
                in (rd\<lparr>rd_failed := failed, rd_checkedAt := Some (ry_after env)\<rparr>, failed))
      | None \<Rightarrow>
          (let failed = (if ry_dir env \<noteq> None then ''data_directory'' else if ry_store env \<noteq> None then ''storage'' else [])
           in (rd\<lparr>rd_failed := failed, rd_checkedAt := Some (ry_after env)\<rparr>, failed)))"

text \<open>\<^verbatim>\<open>statusResponse\<close>: version and failed are left out when empty.\<close>

definition status_json :: "string \<Rightarrow> string \<Rightarrow> string \<Rightarrow> json" where
  "status_json status version failed =
     JObj ([(''status'', JStr status)] @ (if version = [] then [] else [(''version'', JStr version)]) @
       (if failed = [] then [] else [(''failed'', JStr failed)]))"

definition json_answer :: "int \<Rightarrow> json \<Rightarrow> response" where
  "json_answer status v = \<lparr>rsp_Status = status, rsp_Header = [(''Content-Type'', ''application/json'')], rsp_Body = BodyJson v\<rparr>"

definition readiness_ServeHTTP :: "ready_env \<Rightarrow> readiness \<Rightarrow> readiness \<times> response" where
  "readiness_ServeHTTP env rd =
     (case readiness_check env rd of
        (rd', failed) \<Rightarrow>
          (rd', if failed \<noteq> [] then json_answer 503 (status_json ''not ready'' [] failed)
                else json_answer 200 (status_json ''ready'' [] [])))"

section \<open>Endpoints and their authenticators\<close>

text \<open>GitHub authenticators by the text of their API base URL, empty for the default one; \<open>url_text\<close> is \<^verbatim>\<open>URL.String\<close>.\<close>

type_synonym github_auths = "string \<rightharpoonup> github"

definition auth_key :: "(url_parts \<Rightarrow> string) \<Rightarrow> endpoint \<Rightarrow> string" where
  "auth_key url_text ep = (case ep_GitHubBaseURL ep of None \<Rightarrow> [] | Some u \<Rightarrow> url_text u)"

definition githubAuth :: "(url_parts \<Rightarrow> string) \<Rightarrow> duration \<Rightarrow> endpoint \<Rightarrow> github_auths \<Rightarrow> github_auths" where
  "githubAuth url_text ttl ep auths =
     (let key = auth_key url_text ep in
      case auths key of Some _ \<Rightarrow> auths | None \<Rightarrow> auths(key \<mapsto> NewGitHub ttl))"

definition endpoint_auths :: "unicode_tables \<Rightarrow> (url_parts \<Rightarrow> string) \<Rightarrow> config \<Rightarrow> github_auths" where
  "endpoint_auths u url_text cfg =
     fold (\<lambda>ep auths. if AuthMethod u ep = authGitHub then githubAuth url_text (op_AuthCacheDuration (cf_Options cfg)) ep auths else auths)
       (cf_Endpoints cfg) Map.empty"

text \<open>The authenticator of an endpoint, on the authenticators of all; \<open>hk\<close> and \<open>env\<close> are the hash key of each and what its
  call meets.\<close>

definition endpoint_authenticator :: "unicode_tables \<Rightarrow> (url_parts \<Rightarrow> string) \<Rightarrow> (string \<Rightarrow> bytes) \<Rightarrow> auth_env \<Rightarrow> endpoint \<Rightarrow> github_auths auth_op" where
  "endpoint_authenticator u url_text hk env ep auths ep' username password op' =
     (if AuthMethod u ep = authGitHub then
        (let key = auth_key url_text ep in
         case auths key of
           None \<Rightarrow> (auths, Inl ErrUnavailable)
         | Some g \<Rightarrow> (case GitHub_Authenticate u (hk key) g env ep' username password op' of (g', res) \<Rightarrow> (auths(key \<mapsto> g'), res)))
      else (auths, None_Authenticate username password op'))"

definition endpoint_handlers :: "(endpoint \<Rightarrow> 'a auth_op) \<Rightarrow> (nat \<Rightarrow> 's adapter_ops) \<Rightarrow> 'l lock_ops \<Rightarrow> url_signer \<Rightarrow> config
    \<Rightarrow> ('s, 'a, 'l) handler list" where
  "endpoint_handlers auth_of store lockStore signer cfg =
     map (\<lambda>ep. NewHandler ep store (auth_of ep) (op_BaseURL (cf_Options cfg)) (op_MaxUploadSize (cf_Options cfg)) signer lockStore
       (op_UploadIdleTimeoutDuration (cf_Options cfg))) (cf_Endpoints cfg)"

definition sumCacheStats :: "string list \<Rightarrow> github_auths \<Rightarrow> 64 word \<times> 64 word" where
  "sumCacheStats keys auths =
     fold (\<lambda>key (hits, misses). case auths key of None \<Rightarrow> (hits, misses) | Some g \<Rightarrow> (hits + fst (CacheStats g), misses + snd (CacheStats g)))
       keys (0, 0)"

section \<open>Requests\<close>

record ('s, 'a, 'l, 'n) server =
  sv_handlers :: "('s, 'a, 'l) handler list"
  sv_mux :: "target mux"
  sv_trust :: "'n proxy_trust"
  sv_accessLog :: bool
  sv_version :: string

record ('s, 'a, 'l, 'm) server_state =
  ss_limiter :: 'm
  ss_world :: "('s, 'a, 'l) world"
  ss_ready :: readiness
  ss_metrics :: metrics

record ('n, 'i, 'm) server_lib =
  sl_go :: golib
  sl_ip :: "('n, 'i) client_ip_lib"
  sl_take :: "'m \<Rightarrow> string \<Rightarrow> 'm \<times> take_answer"
  sl_redirect :: "net_request \<Rightarrow> string \<Rightarrow> response"
  sl_unmatched :: "net_request \<Rightarrow> response"

text \<open>Besides the outcomes of system calls: how long the request takes, the sizes of the reads from its body, and where the
  connection breaks while the response is written, if it does.\<close>

record server_env =
  se_http :: http_env
  se_drawn :: bytes
  se_limiter_now :: instant
  se_ready :: ready_env
  se_elapsed :: duration
  se_reads :: "nat list"
  se_broken :: "nat option"

definition endpoint_route :: "golib \<Rightarrow> http_env \<Rightarrow> ('s, 'a, 'l) handler \<Rightarrow> route \<Rightarrow> net_request \<Rightarrow> ('s, 'a, 'l) world \<Rightarrow> ('s, 'a, 'l) world \<times> response" where
  "endpoint_route lib env h rt r w =
     (case rt of
        RouteBatch \<Rightarrow> BatchHandler lib h env (nr_request r) w
      | RouteCreateLock \<Rightarrow> CreateLockHandler lib h env (nr_request r) w
      | RouteListLocks \<Rightarrow> ListLocksHandler lib h env (nr_request r) w
      | RouteVerifyLocks \<Rightarrow> VerifyLocksHandler lib h env (nr_request r) w
      | RouteUnlock \<Rightarrow> UnlockHandler lib h env (nr_request r) w
      | RouteDownload \<Rightarrow> DownloadHandler lib h env (nr_request r) w
      | RouteUpload \<Rightarrow> UploadHandler lib h env (nr_request r) w
      | RouteVerify \<Rightarrow> VerifyHandler lib h env (nr_request r) w)"

definition run_target :: "('n, 'i, 'm) server_lib \<Rightarrow> ('s, 'a, 'l, 'n) server \<Rightarrow> server_env \<Rightarrow> target \<Rightarrow> net_request \<Rightarrow> ('s, 'a, 'l, 'm) server_state
    \<Rightarrow> ('s, 'a, 'l, 'm) server_state \<times> response" where
  "run_target lib sv env t r st =
     (case t of
        TargetEndpoint i rt \<Rightarrow>
          (let next_handler = endpoint_route (sl_go lib) (se_http env) (sv_handlers sv ! i) rt in
           if limited rt then
             (case RateLimit (sl_ip lib) (sl_take lib) (se_limiter_now env) next_handler r (ss_limiter st, ss_world st) of
                ((m, w), x) \<Rightarrow> (st\<lparr>ss_limiter := m, ss_world := w\<rparr>, x))
           else (case next_handler r (ss_world st) of (w, x) \<Rightarrow> (st\<lparr>ss_world := w\<rparr>, x)))
      | TargetHealth \<Rightarrow> (st, json_answer 200 (status_json ''ok'' (sv_version sv) []))
      | TargetReady \<Rightarrow> (case readiness_ServeHTTP (se_ready env) (ss_ready st) of (rd, x) \<Rightarrow> (st\<lparr>ss_ready := rd\<rparr>, x))
      | TargetVersion \<Rightarrow> (st, json_answer 200 (JObj [(''version'', JStr (sv_version sv))]))
      | TargetNotFound \<Rightarrow> (st, NotFoundHandler (nr_request r)))"

definition with_path_values :: "mux_pattern \<Rightarrow> string list \<Rightarrow> net_request \<Rightarrow> net_request" where
  "with_path_values p ms r = r\<lparr>nr_request := (nr_request r)\<lparr>rq_PathValue := PathValue p ms\<rparr>\<rparr>"

text \<open>\<^verbatim>\<open>ServeMux.ServeHTTP\<close>, with the pattern it records in the request. A request URI \<^verbatim>\<open>*\<close> has that path.\<close>

definition mux_ServeHTTP :: "('n, 'i, 'm) server_lib \<Rightarrow> ('s, 'a, 'l, 'n) server \<Rightarrow> server_env \<Rightarrow> net_request \<Rightarrow> ('s, 'a, 'l, 'm) server_state
    \<Rightarrow> ('s, 'a, 'l, 'm) server_state \<times> response \<times> string" where
  "mux_ServeHTTP lib sv env r st =
     (if nr_EscapedPath r = ''*'' then (st, WriteHeader 400, [])
      else case findHandler (sv_mux sv) (rq_Method (nr_request r)) (nr_EscapedPath r) of
        MuxFound p t ms \<Rightarrow> (case run_target lib sv env t (with_path_values p ms r) st of (st', x) \<Rightarrow> (st', x, mp_str p))
      | MuxRedirect path pattern \<Rightarrow> (st, sl_redirect lib r path, pattern)
      | MuxNone \<Rightarrow> (st, sl_unmatched lib r, []))"

text \<open>\<^verbatim>\<open>Metrics.Instrument\<close>: what \<^verbatim>\<open>httpsnoop.CaptureMetrics\<close> and the counting reader see of a request, and its record.\<close>

definition capture :: "server_env \<Rightarrow> response \<Rightarrow> string \<Rightarrow> captured" where
  "capture env x route =
     \<lparr>cp_Pattern = route, cp_Code = rsp_Status x, cp_Duration = se_elapsed env, cp_reads = se_reads env,
      cp_Written = (case se_broken env of None \<Rightarrow> body_written (rsp_Body x) | Some n \<Rightarrow> min n (body_written (rsp_Body x)))\<rparr>"

definition Instrument :: "('n, 'i, 'm) server_lib \<Rightarrow> ('s, 'a, 'l, 'n) server \<Rightarrow> server_env \<Rightarrow> net_request \<Rightarrow> ('s, 'a, 'l, 'm) server_state
    \<Rightarrow> ('s, 'a, 'l, 'm) server_state \<times> response" where
  "Instrument lib sv env r st =
     (case mux_ServeHTTP lib sv env r st of
        (st', x, route) \<Rightarrow> (st'\<lparr>ss_metrics := record_request (capture env x route) (ss_metrics st')\<rparr>, x))"

text \<open>\<^verbatim>\<open>serverHandler\<close>: the new state, the response and the line of the access log.\<close>

definition serverHandler :: "('n, 'i, 'm) server_lib \<Rightarrow> ('s, 'a, 'l, 'n) server \<Rightarrow> server_env \<Rightarrow> net_request \<Rightarrow> ('s, 'a, 'l, 'm) server_state
    \<Rightarrow> ('s, 'a, 'l, 'm) server_state \<times> response \<times> log_line option" where
  "serverHandler lib sv env r st =
     (case RequestID (se_drawn env) (ProxyTrust_Handler (sl_ip lib) (sv_trust sv) r) of
        (r', hs) \<Rightarrow>
          (case (if sv_accessLog sv
                 then (case Logging (sl_ip lib) [''/health'', ''/ready''] (Instrument lib sv env) r' st of (st', x, line) \<Rightarrow> (st', x, Some line))
                 else (case Instrument lib sv env r' st of (st', x) \<Rightarrow> (st', x, None))) of
             (st', x, line) \<Rightarrow> (st', x\<lparr>rsp_Header := hs @ rsp_Header x\<rparr>, line)))"

section \<open>Spoofed headers\<close>

text \<open>C26: What an untrusted peer writes into the proxy headers has no effect on anything: two of its requests that differ only
  in X-Forwarded-For, X-Forwarded-Host, X-Forwarded-Proto and X-Request-ID get the same response, leave the whole server
  in the same state, rate limiter included, and write the same log line, in which the client address is the
  peer's own.\<close>

theorem server_ignores_spoofed_headers:
  assumes "\<not> trusts (sl_ip lib) (sv_trust sv) (peerIP (sl_ip lib) r)"
    and "agree_except [''X-Forwarded-For'', ''X-Forwarded-Host'', ''X-Forwarded-Proto'', ''X-Request-ID''] r r'"
    and "serverHandler lib sv env r st = (st', x, line)"
  shows "serverHandler lib sv env r' st = (st', x, line) \<and>
    list_all (\<lambda>l. ll_ip l = (if peerIP (sl_ip lib) r \<noteq> [] then peerIP (sl_ip lib) r else nr_RemoteAddr r)) (case line of None \<Rightarrow> [] | Some l \<Rightarrow> [l])"
proof -
  have "agree_except proxyHeaders r r'" using assms(2) by (simp add: proxyHeaders_def RequestIDHeader_def)
  note u = untrusted_request [OF assms(1) this]
  obtain r1 hs where r1: "RequestID (se_drawn env) (ProxyTrust_Handler (sl_ip lib) (sv_trust sv) r) = (r1, hs)" by (rule prod.exhaust)
  have "ClientIP (sl_ip lib) r1 = ClientIP (sl_ip lib) (ProxyTrust_Handler (sl_ip lib) (sv_trust sv) r)"
    using r1 by (auto simp: RequestID_def Let_def)
  with u r1 assms(3) have "list_all (\<lambda>l. ll_ip l = (if peerIP (sl_ip lib) r \<noteq> [] then peerIP (sl_ip lib) r else nr_RemoteAddr r)) (case line of None \<Rightarrow> [] | Some l \<Rightarrow> [l])"
    by (auto simp: serverHandler_def Logging_def split: prod.splits if_splits)
  with u assms(3) show ?thesis by (simp add: serverHandler_def)
qed

section \<open>Readiness over time\<close>

definition check_outcome :: "ready_env \<Rightarrow> string" where
  "check_outcome env = (if ry_dir env \<noteq> None then ''data_directory'' else if ry_store env \<noteq> None then ''storage'' else [])"

fun readiness_run :: "readiness \<Rightarrow> ready_env list \<Rightarrow> readiness \<times> response list" where
  "readiness_run rd [] = (rd, [])"
| "readiness_run rd (env # envs) =
     (case readiness_ServeHTTP env rd of (rd1, x) \<Rightarrow> (case readiness_run rd1 envs of (rd2, xs) \<Rightarrow> (rd2, x # xs)))"

text \<open>A cached result is the outcome of one of the calls before.\<close>

definition cache_from :: "ready_env list \<Rightarrow> readiness \<Rightarrow> bool" where
  "cache_from past rd \<longleftrightarrow> rd_ttl rd = readinessCacheTTL \<and>
     (\<forall>t. rd_checkedAt rd = Some t \<longrightarrow> (\<exists>env \<in> set past. ry_after env = t \<and> rd_failed rd = check_outcome env))"

definition ready_answer :: "string \<Rightarrow> response" where
  "ready_answer failed = (if failed \<noteq> [] then json_answer 503 (status_json ''not ready'' [] failed) else json_answer 200 (status_json ''ready'' [] []))"

lemma readiness_step:
  assumes "cache_from past rd" "readiness_ServeHTTP env rd = (rd', x)"
  shows "cache_from (past @ [env]) rd'"
    and "\<exists>e \<in> set (past @ [env]). x = ready_answer (check_outcome e) \<and> (e = env \<or> ry_now env - ry_after e < readinessCacheTTL)"
proof -
  have c: "readiness_check env rd = (rd, rd_failed rd) \<and> (\<exists>t. rd_checkedAt rd = Some t \<and> ry_now env - t < readinessCacheTTL) \<or>
      readiness_check env rd = (rd\<lparr>rd_failed := check_outcome env, rd_checkedAt := Some (ry_after env)\<rparr>, check_outcome env)"
    using assms(1) by (auto simp: readiness_check_def check_outcome_def cache_from_def Let_def split: option.splits)
  have x: "x = ready_answer (snd (readiness_check env rd))" "rd' = fst (readiness_check env rd)"
    using assms(2) by (auto simp: readiness_ServeHTTP_def ready_answer_def split: prod.splits)
  from c show "cache_from (past @ [env]) rd'"
    using assms(1) by (auto simp: x(2) cache_from_def)
  from c show "\<exists>e \<in> set (past @ [env]). x = ready_answer (check_outcome e) \<and> (e = env \<or> ry_now env - ry_after e < readinessCacheTTL)"
  proof
    assume "readiness_check env rd = (rd, rd_failed rd) \<and> (\<exists>t. rd_checkedAt rd = Some t \<and> ry_now env - t < readinessCacheTTL)"
    with assms(1) x(1) show ?thesis by (fastforce simp: cache_from_def)
  qed (simp add: x(1))
qed

lemma readiness_run_fresh:
  assumes "cache_from past rd" "readiness_run rd envs = (rd', xs)"
  shows "length xs = length envs \<and> (\<forall>k < length xs. \<exists>e \<in> set (past @ take (Suc k) envs). xs ! k = ready_answer (check_outcome e) \<and>
    (e = envs ! k \<or> ry_now (envs ! k) - ry_after e < readinessCacheTTL))"
  using assms
proof (induction envs arbitrary: past rd xs)
  case (Cons env envs)
  obtain rd1 x where s: "readiness_ServeHTTP env rd = (rd1, x)" by (rule prod.exhaust)
  with Cons.prems(2) obtain ys where ys: "readiness_run rd1 envs = (rd', ys)" "xs = x # ys" by (auto split: prod.splits)
  note step = readiness_step [OF Cons.prems(1) s]
  note ih = Cons.IH [OF step(1) ys(1)]
  show ?case
  proof (intro conjI allI impI)
    fix k assume k: "k < length xs"
    show "\<exists>e \<in> set (past @ take (Suc k) (env # envs)). xs ! k = ready_answer (check_outcome e) \<and>
      (e = (env # envs) ! k \<or> ry_now ((env # envs) ! k) - ry_after e < readinessCacheTTL)"
    proof (cases k)
      case 0
      with step(2) show ?thesis by (simp add: ys(2))
    next
      case (Suc j)
      with ih k have "\<exists>e \<in> set ((past @ [env]) @ take (Suc j) envs). ys ! j = ready_answer (check_outcome e) \<and>
        (e = envs ! j \<or> ry_now (envs ! j) - ry_after e < readinessCacheTTL)" by (simp only: ys(2)) simp
      then show ?thesis by (simp only: Suc ys(2) nth_Cons_Suc take_Suc_Cons append_assoc append_Cons append_Nil)
    qed
  qed (simp add: ys(2) ih)
qed simp

text \<open>C36: Through any sequence of requests to \<^verbatim>\<open>GET /ready\<close>, every answer reports the outcome of checks that were run for this
  request or finished less than five seconds before it, 503 with the first check that failed or 200 if none did.\<close>

theorem readiness_fresh:
  assumes "k < length envs"
  shows "case readiness_run newReadiness envs of (rd, xs) \<Rightarrow> length xs = length envs \<and>
    (\<exists>e. e \<in> set (take (Suc k) envs) \<and> (e = envs ! k \<or> ry_now (envs ! k) - ry_after e < 5 * second) \<and>
      rsp_Status (xs ! k) = (if ry_dir e = None \<and> ry_store e = None then 200 else 503) \<and>
      rsp_Body (xs ! k) = BodyJson (if ry_dir e \<noteq> None then status_json ''not ready'' [] ''data_directory''
        else if ry_store e \<noteq> None then status_json ''not ready'' [] ''storage'' else status_json ''ready'' [] []))"
proof -
  obtain rd xs where run: "readiness_run newReadiness envs = (rd, xs)" by (rule prod.exhaust)
  have "cache_from [] newReadiness" by (simp add: cache_from_def newReadiness_def)
  from readiness_run_fresh [OF this run] assms obtain e where e: "length xs = length envs" "e \<in> set (take (Suc k) envs)"
    "xs ! k = ready_answer (check_outcome e)" "e = envs ! k \<or> ry_now (envs ! k) - ry_after e < readinessCacheTTL" by auto
  then show ?thesis unfolding run by (auto simp: ready_answer_def check_outcome_def json_answer_def readinessCacheTTL_def intro!: exI [of _ e])
qed

theorem readiness_fresh_witness:
  "case readiness_run newReadiness [\<lparr>ry_now = 0, ry_dir = None, ry_store = None, ry_after = 1\<rparr>,
      \<lparr>ry_now = 4 * second, ry_dir = Some ErrIO, ry_store = None, ry_after = 4 * second\<rparr>] of (rd, xs) \<Rightarrow> rsp_Status (xs ! 1) = 200 \<and> length xs = 2"
  using readiness_fresh [of 1 "[\<lparr>ry_now = 0, ry_dir = None, ry_store = None, ry_after = 1\<rparr>,
      \<lparr>ry_now = 4 * second, ry_dir = Some ErrIO, ry_store = None, ry_after = 4 * second\<rparr>]"]
  by (auto simp: readiness_ServeHTTP_def readiness_check_def newReadiness_def readinessCacheTTL_def json_answer_def second_def)

section \<open>What requests may change\<close>

text \<open>A lock handler leaves the objects alone, and the locks unless the caller is authorized.\<close>

definition authorized_for :: "('s, 'a, 'l) handler \<Rightarrow> request \<Rightarrow> operation \<Rightarrow> 'a \<Rightarrow> bool" where
  "authorized_for h r op' a \<longleftrightarrow> (\<exists>a' result. authenticate h r op' a = (a', Inr result) \<and> res_Authenticated result \<and> res_Authorized result)"

definition lock_effect :: "('s, 'a, 'l) handler \<Rightarrow> request \<Rightarrow> operation \<Rightarrow> ('s, 'a, 'l) world \<Rightarrow> ('s, 'a, 'l) world \<Rightarrow> bool" where
  "lock_effect h r op' w w' \<longleftrightarrow> w_store w' = w_store w \<and> (w_locks w' = w_locks w \<or> authorized_for h r op' (w_auth w))"

lemma requireAuthResult_effect:
  assumes "requireAuthResult h r op' w = (w1, y)"
  shows "w_store w1 = w_store w" "w_locks w1 = w_locks w" "y = Inr result \<Longrightarrow> authorized_for h r op' (w_auth w)"
proof -
  show "w_store w1 = w_store w" "w_locks w1 = w_locks w"
    using assms requireAuthResult_Inl [of h r op' w w1] requireAuthResult_Inr [of h r op' w w1] by (cases y; fastforce)+
  show "y = Inr result \<Longrightarrow> authorized_for h r op' (w_auth w)"
    using assms requireAuthResult_Inr [of h r op' w w1 result] by (auto simp: authorized_for_def)
qed

lemma lock_effect_after:
  assumes "requireAuthResult h r op' w = (w1, y)" and "\<And>x. y = Inl x \<Longrightarrow> w' = w1"
    and "\<And>result. y = Inr result \<Longrightarrow> w_store w' = w_store w1"
  shows "lock_effect h r op' w w'"
  using requireAuthResult_effect [OF assms(1)] assms(2,3) by (cases y) (auto simp: lock_effect_def)

lemma CreateLockHandler_effect:
  assumes "CreateLockHandler lib h env r w = (w', x)"
  shows "lock_effect h r OperationUpload w w'"
proof (cases "requireAuthResult h r OperationUpload w")
  case (Pair w1 y)
  from Pair show ?thesis
    by (rule lock_effect_after)
      (use assms Pair in \<open>auto simp: CreateLockHandler_def Let_def split: sum.splits prod.splits if_splits option.splits lock_error.splits\<close>)
qed

lemma VerifyLocksHandler_effect:
  assumes "VerifyLocksHandler lib h env r w = (w', x)"
  shows "lock_effect h r OperationUpload w w'"
proof (cases "requireAuthResult h r OperationUpload w")
  case (Pair w1 y)
  from Pair show ?thesis
    by (rule lock_effect_after)
      (use assms Pair in \<open>auto simp: VerifyLocksHandler_def Let_def split: sum.splits prod.splits if_splits option.splits lock_error.splits\<close>)
qed

lemma UnlockHandler_effect:
  assumes "UnlockHandler lib h env r w = (w', x)"
  shows "lock_effect h r OperationUpload w w'"
proof (cases "requireAuthResult h r OperationUpload w")
  case (Pair w1 y)
  from Pair show ?thesis
    by (rule lock_effect_after)
      (use assms Pair in \<open>auto simp: UnlockHandler_def Let_def split: sum.splits prod.splits if_splits option.splits lock_error.splits\<close>)
qed

lemma ListLocksHandler_effect:
  assumes "ListLocksHandler lib h env r w = (w', x)"
  shows "lock_effect h r OperationDownload w w'"
proof (cases "requireAuthResult h r OperationDownload w")
  case (Pair w1 y)
  from Pair show ?thesis
    by (rule lock_effect_after)
      (use assms Pair in \<open>auto simp: ListLocksHandler_def requireAuth_def Let_def split: sum.splits prod.splits if_splits option.splits lock_error.splits\<close>)
qed

lemma DownloadHandler_world: "fst (DownloadHandler lib h env r w) = w"
  by (simp add: DownloadHandler_def Let_def split: sum.splits prod.splits store_error.splits)

lemma VerifyHandler_world: "fst (VerifyHandler lib h env r w) = w"
  by (simp add: VerifyHandler_def Let_def split: sum.splits prod.splits store_error.splits)

lemma UploadHandler_effect:
  assumes "UploadHandler lib h env r w = (w', x)"
  shows "w_locks w' = w_locks w"
    and "w_store w' = w_store w \<or> IsValidOID (rq_PathValue r ''oid'') \<and> requireValidSignature lib h env r opUpload = Inr ()"
  using assms by (cases rule: UploadHandler_cases; simp)+

text \<open>The operation a lock route asks the authenticator about.\<close>

fun lock_operation :: "route \<Rightarrow> operation option" where
  "lock_operation RouteCreateLock = Some OperationUpload"
| "lock_operation RouteUnlock = Some OperationUpload"
| "lock_operation RouteVerifyLocks = Some OperationUpload"
| "lock_operation RouteListLocks = Some OperationDownload"
| "lock_operation _ = None"

lemma endpoint_route_effect:
  assumes "endpoint_route lib env h rt r w = (w', x)"
  shows "w_store w' = w_store w \<or> (rt = RouteUpload \<and> IsValidOID (rq_PathValue (nr_request r) ''oid'') \<and>
      requireValidSignature lib h env (nr_request r) opUpload = Inr ())"
    and "w_locks w' = w_locks w \<or> (\<exists>op'. lock_operation rt = Some op' \<and> authorized_for h (nr_request r) op' (w_auth w))"
proof -
  have w: "w' = fst (endpoint_route lib env h rt r w)" using assms by simp
  show "w_store w' = w_store w \<or> (rt = RouteUpload \<and> IsValidOID (rq_PathValue (nr_request r) ''oid'') \<and>
      requireValidSignature lib h env (nr_request r) opUpload = Inr ())"
    using assms BatchHandler_ok UploadHandler_effect(2) CreateLockHandler_effect VerifyLocksHandler_effect UnlockHandler_effect ListLocksHandler_effect
    by (cases rt) (fastforce simp: endpoint_route_def lock_effect_def w DownloadHandler_world VerifyHandler_world)+
  show "w_locks w' = w_locks w \<or> (\<exists>op'. lock_operation rt = Some op' \<and> authorized_for h (nr_request r) op' (w_auth w))"
    using assms BatchHandler_ok UploadHandler_effect(1) CreateLockHandler_effect VerifyLocksHandler_effect UnlockHandler_effect ListLocksHandler_effect
    by (cases rt) (fastforce simp: endpoint_route_def lock_effect_def w DownloadHandler_world VerifyHandler_world)+
qed

lemma RateLimit_world:
  "RateLimit ip take_op now next_handler r (m, w) = ((m', w'), x) \<Longrightarrow> w' = w \<or> next_handler r w = (w', x)"
  by (auto simp: RateLimit_def split: prod.splits take_answer.splits if_splits)

lemma run_target_effect:
  assumes "run_target lib sv env t r st = (st', x)"
  shows "ss_world st' = ss_world st \<or>
    (\<exists>i rt. t = TargetEndpoint i rt \<and> endpoint_route (sl_go lib) (se_http env) (sv_handlers sv ! i) rt r (ss_world st) = (ss_world st', x))"
  using assms by (auto simp: run_target_def Let_def dest!: RateLimit_world split: target.splits prod.splits if_splits)

text \<open>The request as it comes to the mux.\<close>

definition inner_request :: "('n, 'i, 'm) server_lib \<Rightarrow> ('s, 'a, 'l, 'n) server \<Rightarrow> server_env \<Rightarrow> net_request \<Rightarrow> net_request" where
  "inner_request lib sv env r = fst (RequestID (se_drawn env) (ProxyTrust_Handler (sl_ip lib) (sv_trust sv) r))"

lemma serverHandler_world:
  assumes "serverHandler lib sv env r st = (st', x, line)"
  shows "\<exists>st1 x1 p. mux_ServeHTTP lib sv env (inner_request lib sv env r) st = (st1, x1, p) \<and> ss_world st' = ss_world st1"
  using assms by (auto simp: serverHandler_def Logging_def Instrument_def inner_request_def Let_def split: prod.splits if_splits)

lemma ProxyTrust_request:
  "nr_EscapedPath (ProxyTrust_Handler ip p r) = nr_EscapedPath r" "rq_Method (nr_request (ProxyTrust_Handler ip p r)) = rq_Method (nr_request r)"
  "rq_RequestURI (nr_request (ProxyTrust_Handler ip p r)) = rq_RequestURI (nr_request r)"
  by (simp_all add: ProxyTrust_Handler_def fold_header_del Let_def)

lemma inner_request_nr:
  "\<exists>rid. inner_request lib sv env r = (ProxyTrust_Handler (sl_ip lib) (sv_trust sv) r)
    \<lparr>nr_request := (nr_request (ProxyTrust_Handler (sl_ip lib) (sv_trust sv) r))\<lparr>rq_RequestID := rid\<rparr>\<rparr>"
  unfolding inner_request_def RequestID_def Let_def by auto

lemma request_independent [simp]:
  "base_url_of lib base (q\<lparr>rq_RequestID := rid, rq_PathValue := v\<rparr>) = base_url_of lib base q"
  "authorized_for h (q\<lparr>rq_RequestID := rid, rq_PathValue := v\<rparr>) op' a = authorized_for h q op' a"
  by (simp_all add: base_url_of_def authorized_for_def authenticate_def BasicAuth_def Let_def)

text \<open>A changed world comes from an endpoint's handler behind one of the endpoint's routes.\<close>

lemma changed_by_route:
  assumes "serves eps (sv_mux sv)" "serverHandler lib sv env r st = (st', x, line)" "ss_world st' \<noteq> ss_world st"
  obtains i rt v rid x' where "i < length eps" "method_for (rq_Method (nr_request r)) rt"
    "path_segs (nr_EscapedPath r) = endpoint_elems (ep_Path (eps ! i)) @ route_values rt v"
    "endpoint_route (sl_go lib) (se_http env) (sv_handlers sv ! i) rt
       ((ProxyTrust_Handler (sl_ip lib) (sv_trust sv) r)\<lparr>nr_request := (nr_request (ProxyTrust_Handler (sl_ip lib) (sv_trust sv) r))
         \<lparr>rq_RequestID := rid, rq_PathValue := PathValue (route_pattern (ep_Path (eps ! i)) rt) (route_captures rt v)\<rparr>\<rparr>)
       (ss_world st) = (ss_world st', x')"
proof -
  obtain rid where r1: "inner_request lib sv env r = (ProxyTrust_Handler (sl_ip lib) (sv_trust sv) r)
    \<lparr>nr_request := (nr_request (ProxyTrust_Handler (sl_ip lib) (sv_trust sv) r))\<lparr>rq_RequestID := rid\<rparr>\<rparr>"
    using inner_request_nr by blast
  obtain st1 x1 p where m: "mux_ServeHTTP lib sv env (inner_request lib sv env r) st = (st1, x1, p)" "ss_world st' = ss_world st1"
    using serverHandler_world [OF assms(2)] by blast
  with assms(3) obtain q t ms where f: "findHandler (sv_mux sv) (rq_Method (nr_request r)) (nr_EscapedPath r) = MuxFound q t ms"
    "run_target lib sv env t (with_path_values q ms (inner_request lib sv env r)) st = (st1, x1)"
    by (auto simp: mux_ServeHTTP_def r1 ProxyTrust_request split: if_splits mux_answer.splits prod.splits)
  from run_target_effect [OF f(2)] m(2) assms(3) obtain i rt where t: "t = TargetEndpoint i rt"
    "endpoint_route (sl_go lib) (se_http env) (sv_handlers sv ! i) rt (with_path_values q ms (inner_request lib sv env r)) (ss_world st) = (ss_world st', x1)"
    by auto
  note e = findHandler_endpoint [OF assms(1) f(1) [unfolded t(1)]]
  from e(4) obtain v where v: "path_segs (nr_EscapedPath r) = endpoint_elems (ep_Path (eps ! i)) @ route_values rt v" "ms = route_captures rt v"
    by blast
  from t(2) show thesis
    by (intro that [OF e(1,2) v(1)]) (simp add: with_path_values_def r1 e(3) v(2))
qed

section \<open>An example server\<close>

text \<open>A store and a lock store that count their writes behind the handlers of the example configuration.\<close>

definition counting_ops :: "nat adapter_ops" where
  "counting_ops = \<lparr>op_Exists = (\<lambda>_ _ _. Inr False), op_Get = (\<lambda>_ _ _. Inl ErrNotExist), op_Put = (\<lambda>s _ _ _ _. (Suc s, None)),
     op_Size = (\<lambda>_ _ _. Inl ErrNotExist), op_AvailableSpace = (\<lambda>_. Inr 1000), op_Presign = None\<rparr>"

definition counting_locks :: "nat lock_ops" where
  "counting_locks = \<lparr>lo_Create = (\<lambda>l _ _ _. (Suc l, zero_lock, None)), lo_List = (\<lambda>l _ _. (Suc l, Inr ([], []))),
     lo_Unlock = (\<lambda>l _ _ _ _. (Suc l, zero_lock, None))\<rparr>"

definition demo_server :: "config \<Rightarrow> (nat, unit, nat, string) server" where
  "demo_server c = \<lparr>sv_handlers = endpoint_handlers (\<lambda>_ s. None_step s ()) (\<lambda>_. counting_ops) counting_locks demo_signer c,
     sv_mux = the (server_mux (cf_Endpoints c)), sv_trust = demo_proxy_trust, sv_accessLog = True, sv_version = ''dev''\<rparr>"

definition demo_server_lib :: "(string, string, unit) server_lib" where
  "demo_server_lib = \<lparr>sl_go = demo_lib, sl_ip = demo_ip_lib, sl_take = (\<lambda>m _. (m, TakeAnswer 0 True)),
     sl_redirect = (\<lambda>_ _. WriteHeader 307), sl_unmatched = (\<lambda>_. WriteHeader 405)\<rparr>"

definition demo_server_env :: server_env where
  "demo_server_env = \<lparr>se_http = demo_http_env, se_drawn = ''random42'', se_limiter_now = 0,
     se_ready = \<lparr>ry_now = 0, ry_dir = None, ry_store = None, ry_after = 0\<rparr>,
     se_elapsed = 3000000, se_reads = [], se_broken = None\<rparr>"

definition demo_server_state :: "(nat, unit, nat, unit) server_state" where
  "demo_server_state = \<lparr>ss_limiter = (), ss_world = \<lparr>w_store = 0, w_auth = (), w_locks = 0\<rparr>, ss_ready = newReadiness, 
     ss_metrics = the (NewMetrics ''dev'' ''unknown'')\<rparr>"

lemma demo_server_lib_simps [simp]:
  "sl_go demo_server_lib = demo_lib" "sl_ip demo_server_lib = demo_ip_lib" "sl_take demo_server_lib m ip = (m, TakeAnswer 0 True)"
  "se_http demo_server_env = demo_http_env" "sv_trust (demo_server c) = demo_proxy_trust"
  by (simp_all add: demo_server_lib_def demo_server_env_def demo_server_def)

lemma demo_server_mux:
  assumes "demo_load = Inr c"
  shows "server_mux (cf_Endpoints c) = Some (sv_mux (demo_server c))" "serves (cf_Endpoints c) (sv_mux (demo_server c))"
  using Load_serves [OF assms [unfolded demo_load_def]] by (auto simp: demo_server_def)

definition demo_wire :: "string \<Rightarrow> request \<Rightarrow> net_request" where
  "demo_wire path q = \<lparr>nr_request = q, nr_RemoteAddr = ''192.0.2.7:4711'', nr_Values = (\<lambda>_. []), nr_Path = path, nr_EscapedPath = path, nr_ClientIP = None\<rparr>"

text \<open>The answer of the example server to a request that reaches a route of the first endpoint.\<close>

lemma demo_server_route:
  assumes c: "demo_load = Inr c" "cf_Endpoints c = loaded_endpoints" and es: "list_all literal_elem es" "list_all plain_elem es"
    and "es = [''org'', ''repo''] @ route_values rt v" "route_value_ok rt v" "rq_Method q = route_method rt"
  shows "\<exists>rid x st'. endpoint_route demo_lib demo_http_env (sv_handlers (demo_server c) ! 0) rt
      ((ProxyTrust_Handler demo_ip_lib demo_proxy_trust (demo_wire (slashes es) q))\<lparr>nr_request :=
        (nr_request (ProxyTrust_Handler demo_ip_lib demo_proxy_trust (demo_wire (slashes es) q)))
          \<lparr>rq_RequestID := rid, rq_PathValue := PathValue (route_pattern ''/org/repo'' rt) (route_captures rt v)\<rparr>\<rparr>)
      (ss_world demo_server_state) = (ss_world st', x) \<and>
    fst (serverHandler demo_server_lib (demo_server c) demo_server_env (demo_wire (slashes es) q) demo_server_state) = st'"
proof -
  let ?r = "demo_wire (slashes es) q" and ?sv = "demo_server c"
  have ep: "ep_Path (loaded_endpoints ! 0) = ''/org/repo''" "0 < length loaded_endpoints"
    by (simp_all add: loaded_endpoints_def demo_endpoints_def plain_endpoint_def)
  have segs: "path_segs (slashes es) = endpoint_elems (ep_Path (cf_Endpoints c ! 0)) @ route_values rt v"
    using path_segs_slashes [OF es(1)] by (simp add: c(2) ep endpoint_elems_def assms(5))
  have f: "findHandler (sv_mux ?sv) (rq_Method q) (slashes es) =
      MuxFound (route_pattern ''/org/repo'' rt) (TargetEndpoint 0 rt) (route_captures rt v)"
    using findHandler_route [OF demo_server_mux(2) [OF c(1)] _ assms(6) segs, of "rq_Method q"] cleanPath_slashes [OF _ es(2)] assms(5,7) ep(2)
    by (simp add: c(2) ep(1) method_for_def)
  have star: "slashes es \<noteq> ''*''" using assms(5) by simp
  obtain rid where rid: "inner_request demo_server_lib ?sv demo_server_env ?r = (ProxyTrust_Handler demo_ip_lib demo_proxy_trust ?r)
    \<lparr>nr_request := (nr_request (ProxyTrust_Handler demo_ip_lib demo_proxy_trust ?r))\<lparr>rq_RequestID := rid\<rparr>\<rparr>"
    using inner_request_nr [of demo_server_lib ?sv demo_server_env ?r] by auto
  have inner: "nr_EscapedPath (inner_request demo_server_lib ?sv demo_server_env ?r) = slashes es"
    "rq_Method (nr_request (inner_request demo_server_lib ?sv demo_server_env ?r)) = rq_Method q"
    by (simp_all add: rid ProxyTrust_request) (simp_all add: demo_wire_def)
  obtain st' x line where s: "serverHandler demo_server_lib ?sv demo_server_env ?r demo_server_state = (st', x, line)"
    by (metis prod_cases3)
  obtain w x1 where w: "endpoint_route demo_lib demo_http_env (sv_handlers ?sv ! 0) rt
      (with_path_values (route_pattern ''/org/repo'' rt) (route_captures rt v) (inner_request demo_server_lib ?sv demo_server_env ?r))
      (ss_world demo_server_state) = (w, x1)" by (rule prod.exhaust)
  obtain st1 x2 p where m: "mux_ServeHTTP demo_server_lib ?sv demo_server_env (inner_request demo_server_lib ?sv demo_server_env ?r) demo_server_state = (st1, x2, p)"
    "ss_world st' = ss_world st1"
    using serverHandler_world [OF s] by blast
  have "ss_world st1 = w"
    using m(1) w f star
    by (auto simp: mux_ServeHTTP_def inner run_target_def RateLimit_def Let_def split: prod.splits if_splits)
  with w m(2) s show ?thesis by (auto simp: with_path_values_def rid intro!: exI)
qed

section \<open>Who changes what\<close>

text \<open>C4: Whatever request arrives, the object store changes only for a \<^verbatim>\<open>PUT\<close> to the object URL of a configured endpoint
  whose signature was issued for an upload to exactly this URL and has not expired, and whose object id is valid. This
  goes through the whole server: proxy headers, request ids, the mux, the rate limiter and every handler.\<close>

theorem stored_only_by_signed_upload:
  assumes "Load clib e path = Inr c" "server_mux (cf_Endpoints c) = Some (sv_mux sv)"
    and "sv_handlers sv = endpoint_handlers auth_of store lockStore signer c"
    and "serverHandler lib sv env r st = (st', x, line)" "w_store (ss_world st') \<noteq> w_store (ss_world st)"
  shows "\<exists>i oid. i < length (cf_Endpoints c) \<and> IsValidOID oid \<and> rq_Method (nr_request r) = ''PUT'' \<and>
    path_segs (nr_EscapedPath r) = endpoint_elems (ep_Path (cf_Endpoints c ! i)) @ [''objects'', oid] \<and>
    Verify signer (he_now (se_http env) 0) opUpload
      (base_url_of (sl_go lib) (op_BaseURL (cf_Options c)) (nr_request (ProxyTrust_Handler (sl_ip lib) (sv_trust sv) r)))
      (rq_RequestURI (nr_request r)) = None"
proof -
  have "serves (cf_Endpoints c) (sv_mux sv)" using Load_serves [OF assms(1)] assms(2) by auto
  moreover have "ss_world st' \<noteq> ss_world st" using assms(5) by auto
  ultimately obtain i rt v rid x' where s: "i < length (cf_Endpoints c)" "method_for (rq_Method (nr_request r)) rt"
    "path_segs (nr_EscapedPath r) = endpoint_elems (ep_Path (cf_Endpoints c ! i)) @ route_values rt v"
    "endpoint_route (sl_go lib) (se_http env) (sv_handlers sv ! i) rt
       ((ProxyTrust_Handler (sl_ip lib) (sv_trust sv) r)\<lparr>nr_request := (nr_request (ProxyTrust_Handler (sl_ip lib) (sv_trust sv) r))
         \<lparr>rq_RequestID := rid, rq_PathValue := PathValue (route_pattern (ep_Path (cf_Endpoints c ! i)) rt) (route_captures rt v)\<rparr>\<rparr>)
       (ss_world st) = (ss_world st', x')"
    using changed_by_route [OF _ assms(4)] by blast
  from endpoint_route_effect(1) [OF s(4)] assms(5) have up: "rt = RouteUpload" "IsValidOID v"
    and sig: "requireValidSignature (sl_go lib) (sv_handlers sv ! i) (se_http env) ((nr_request (ProxyTrust_Handler (sl_ip lib) (sv_trust sv) r))
         \<lparr>rq_RequestID := rid, rq_PathValue := PathValue (route_pattern (ep_Path (cf_Endpoints c ! i)) rt) (route_captures rt v)\<rparr>) opUpload = Inr ()"
    by (auto simp: route_path_value)
  have h: "h_signer (sv_handlers sv ! i) = signer" "h_baseURL (sv_handlers sv ! i) = op_BaseURL (cf_Options c)"
    using s(1) by (simp_all add: assms(3) endpoint_handlers_def NewHandler_def)
  have "Verify signer (he_now (se_http env) 0) opUpload
      (base_url_of (sl_go lib) (op_BaseURL (cf_Options c)) (nr_request (ProxyTrust_Handler (sl_ip lib) (sv_trust sv) r)))
      (rq_RequestURI (nr_request r)) = None"
    using sig by (simp add: requireValidSignature_simps requestBaseURL_def h ProxyTrust_request)
  with s(1-3) up show ?thesis by (auto simp: method_for_def)
qed

text \<open>An upload to the example server reaches the store.\<close>

lemma demo_elems: "list_all literal_elem [''org'', ''repo'', ''objects'', demo_oid]" "list_all plain_elem [''org'', ''repo'', ''objects'', demo_oid]"
  "list_all literal_elem [''org'', ''repo'', ''locks'']" "list_all plain_elem [''org'', ''repo'', ''locks'']"
proof -
  have h: "is_hex c" if "c \<in> set demo_oid" for c using that hex_encode_is_hex by (auto simp: demo_oid_def)
  have n: "demo_oid \<noteq> []" "length demo_oid = 64" using demo_facts(4) by (auto simp: IsValidOID_def)
  have "\<not> is_hex CHR ''/''" "\<not> is_hex CHR ''{''" "\<not> is_hex CHR ''%''" by (simp_all add: is_hex_def hex_value_def)
  moreover have "demo_oid \<noteq> ''.''" "demo_oid \<noteq> ''..''" using n(2) by (auto dest: arg_cong [where f = length])
  ultimately have "literal_elem demo_oid" using h n by (auto simp: literal_elem_def plain_elem_def)
  then show "list_all literal_elem [''org'', ''repo'', ''objects'', demo_oid]" "list_all plain_elem [''org'', ''repo'', ''objects'', demo_oid]"
    "list_all literal_elem [''org'', ''repo'', ''locks'']" "list_all plain_elem [''org'', ''repo'', ''locks'']"
    by (simp_all add: literal_elem_def plain_elem_def)
qed

lemma demo_proxy_keeps:
  assumes "list_all (\<lambda>h. rq_Header q h = []) proxyHeaders"
  shows "nr_request (ProxyTrust_Handler demo_ip_lib demo_proxy_trust (demo_wire p q)) = q"
proof -
  have "peerIP demo_ip_lib (demo_wire p q) = ''192.0.2.7''" by (simp add: peerIP_def demo_ip_lib_def demo_wire_def)
  moreover have "\<not> trusts demo_ip_lib demo_proxy_trust ''192.0.2.7''"
    by (simp add: trusts_def trustsIP_def demo_proxy_trust_def demo_ip_lib_def)
  moreover have "without proxyHeaders (rq_Header q) = rq_Header q" using assms by (auto simp: without_def list_all_iff)
  ultimately show ?thesis by (simp add: ProxyTrust_Handler_def fold_header_del Let_def) (simp add: demo_wire_def)
qed

theorem stored_only_by_signed_upload_witness:
  "\<exists>i oid. i < length loaded_endpoints \<and> IsValidOID oid \<and>
    path_segs (''/org/repo/objects/'' @ demo_oid) = endpoint_elems (ep_Path (loaded_endpoints ! i)) @ [''objects'', oid] \<and>
    Verify demo_signer 0 opUpload ''https://host'' (demo_request_uri opUpload) = None"
proof -
  obtain c where c: "demo_load = Inr c" "cf_Endpoints c = loaded_endpoints" "op_BaseURL (cf_Options c) = []"
    "op_MaxUploadSize (cf_Options c) = 5368709120"
    using demo_load_settings by blast
  let ?es = "[''org'', ''repo'', ''objects'', demo_oid]" and ?q = "demo_request ''PUT'' opUpload" and ?h = "sv_handlers (demo_server c) ! 0"
  let ?r = "demo_wire (slashes ?es) ?q"
  obtain rid x st' where s: "endpoint_route demo_lib demo_http_env ?h RouteUpload
      ((ProxyTrust_Handler demo_ip_lib demo_proxy_trust ?r)\<lparr>nr_request := (nr_request (ProxyTrust_Handler demo_ip_lib demo_proxy_trust ?r))
          \<lparr>rq_RequestID := rid, rq_PathValue := PathValue (route_pattern ''/org/repo'' RouteUpload) (route_captures RouteUpload demo_oid)\<rparr>\<rparr>)
      (ss_world demo_server_state) = (ss_world st', x)"
    "fst (serverHandler demo_server_lib (demo_server c) demo_server_env ?r demo_server_state) = st'"
    using demo_server_route [OF c(1,2) demo_elems(1,2), of RouteUpload demo_oid ?q] demo_facts(4)
    by (auto simp: route_value_ok_def demo_request_def)
  have v: "Verify demo_signer 0 opUpload ''https://host'' (demo_request_uri opUpload) = None"
    using demo_signature [of "''PUT''" opUpload] unfolding requireValidSignature_simps(1) demo_base
    by (simp add: demo_request_def demo_http_env_def demo_handler_simps)
  have h: "?h = NewHandler (loaded_endpoints ! 0) (\<lambda>_. counting_ops) (\<lambda>s. None_step s ()) [] 5368709120 demo_signer counting_locks
      (op_UploadIdleTimeoutDuration (cf_Options c))"
    by (simp add: demo_server_def endpoint_handlers_def c loaded_endpoints_def)
  have q: "nr_request (ProxyTrust_Handler demo_ip_lib demo_proxy_trust ?r) = ?q"
    by (rule demo_proxy_keeps) (simp add: demo_request_def proxyHeaders_def)
  have b: "base_url_of demo_lib [] ?q = ''https://host''" by (simp add: base_url_of_def demo_request_def isValidForwardedHost_def)
  have f: "rq_RequestURI ?q = demo_request_uri opUpload" "rq_ContentLength ?q = 5" "he_now demo_http_env 0 = 0"
    by (simp_all add: demo_request_def demo_http_env_def)
  have "w_store (ss_world st') = 1"
    using s(1) v unfolding q
    by (auto simp: endpoint_route_def UploadHandler_def route_path_value demo_facts h NewHandler_def counting_ops_def
        requireValidSignature_def requestBaseURL_def b f demo_server_state_def dest!: arg_cong [where f = w_store] sym [of _ "ss_world st'"])
  then have ne: "w_store (ss_world st') \<noteq> w_store (ss_world demo_server_state)" by (simp add: demo_server_state_def)
  obtain x1 line where h1: "serverHandler demo_server_lib (demo_server c) demo_server_env ?r demo_server_state = (st', x1, line)"
    using s(2) by (metis prod.collapse)
  have handlers: "sv_handlers (demo_server c) = endpoint_handlers (\<lambda>_ s. None_step s ()) (\<lambda>_. counting_ops) counting_locks demo_signer c"
    by (simp add: demo_server_def)
  show ?thesis
    using stored_only_by_signed_upload [OF c(1) [unfolded demo_load_def] demo_server_mux(1) [OF c(1)] handlers h1 ne] v
    by (auto simp: c(2) demo_wire_def)
qed

text \<open>C6: Whatever request arrives, the lock store changes only for a lock route of a configured endpoint and a caller whom that
  endpoint's authenticator has just found valid and authorized: for uploads, or for downloads where a listing
  refreshes the cached locks.\<close>

theorem locks_only_by_authorized:
  assumes "Load clib e path = Inr c" "server_mux (cf_Endpoints c) = Some (sv_mux sv)"
    and "serverHandler lib sv env r st = (st', x, line)" "w_locks (ss_world st') \<noteq> w_locks (ss_world st)"
  shows "\<exists>i rt v op'. i < length (cf_Endpoints c) \<and> lock_operation rt = Some op' \<and> method_for (rq_Method (nr_request r)) rt \<and>
    path_segs (nr_EscapedPath r) = endpoint_elems (ep_Path (cf_Endpoints c ! i)) @ route_values rt v \<and>
    authorized_for (sv_handlers sv ! i) (nr_request (ProxyTrust_Handler (sl_ip lib) (sv_trust sv) r)) op' (w_auth (ss_world st))"
proof -
  have "serves (cf_Endpoints c) (sv_mux sv)" using Load_serves [OF assms(1)] assms(2) by auto
  moreover have "ss_world st' \<noteq> ss_world st" using assms(4) by auto
  ultimately obtain i rt v rid x' where s: "i < length (cf_Endpoints c)" "method_for (rq_Method (nr_request r)) rt"
    "path_segs (nr_EscapedPath r) = endpoint_elems (ep_Path (cf_Endpoints c ! i)) @ route_values rt v"
    "endpoint_route (sl_go lib) (se_http env) (sv_handlers sv ! i) rt
       ((ProxyTrust_Handler (sl_ip lib) (sv_trust sv) r)\<lparr>nr_request := (nr_request (ProxyTrust_Handler (sl_ip lib) (sv_trust sv) r))
         \<lparr>rq_RequestID := rid, rq_PathValue := PathValue (route_pattern (ep_Path (cf_Endpoints c ! i)) rt) (route_captures rt v)\<rparr>\<rparr>)
       (ss_world st) = (ss_world st', x')"
    using changed_by_route [OF _ assms(3)] by blast
  from endpoint_route_effect(2) [OF s(4)] assms(4) s(1-3) show ?thesis by auto
qed

definition demo_list_request :: request where
  "demo_list_request = (demo_request ''GET'' opDownload)\<lparr>rq_Header := (\<lambda>h. if h = ''Accept'' then lfsMediaType else [])\<rparr>"

theorem locks_only_by_authorized_witness:
  "\<exists>i rt v op'. i < length loaded_endpoints \<and> lock_operation rt = Some op' \<and>
    path_segs ''/org/repo/locks'' = endpoint_elems (ep_Path (loaded_endpoints ! i)) @ route_values rt v"
proof -
  obtain c where c: "demo_load = Inr c" "cf_Endpoints c = loaded_endpoints" using demo_load_settings by blast
  let ?es = "[''org'', ''repo'', ''locks'']" and ?q = demo_list_request and ?h = "sv_handlers (demo_server c) ! 0"
  let ?r = "demo_wire (slashes ?es) ?q"
  obtain rid x st' where s: "endpoint_route demo_lib demo_http_env ?h RouteListLocks
      ((ProxyTrust_Handler demo_ip_lib demo_proxy_trust ?r)\<lparr>nr_request := (nr_request (ProxyTrust_Handler demo_ip_lib demo_proxy_trust ?r))
          \<lparr>rq_RequestID := rid, rq_PathValue := PathValue (route_pattern ''/org/repo'' RouteListLocks) (route_captures RouteListLocks [])\<rparr>\<rparr>)
      (ss_world demo_server_state) = (ss_world st', x)"
    "fst (serverHandler demo_server_lib (demo_server c) demo_server_env ?r demo_server_state) = st'"
    using demo_server_route [OF c(1,2) demo_elems(3,4), of RouteListLocks "[]" ?q]
    by (auto simp: route_value_ok_def demo_list_request_def demo_request_def)
  have h: "?h = NewHandler (loaded_endpoints ! 0) (\<lambda>_. counting_ops) (\<lambda>s. None_step s ()) (op_BaseURL (cf_Options c))
      (op_MaxUploadSize (cf_Options c)) demo_signer counting_locks (op_UploadIdleTimeoutDuration (cf_Options c))"
    by (simp add: demo_server_def endpoint_handlers_def c loaded_endpoints_def)
  have q: "nr_request (ProxyTrust_Handler demo_ip_lib demo_proxy_trust ?r) = ?q"
    by (rule demo_proxy_keeps) (simp add: demo_list_request_def proxyHeaders_def RequestIDHeader_def)
  have acc: "rq_Header ?q ''Accept'' = lfsMediaType" "rq_Header ?q ''Authorization'' = []" "rq_RawQuery ?q = []"
    by (simp_all add: demo_list_request_def demo_request_def)
  have query: "values_get (URL_Query []) k = []" for k
    by (simp add: URL_Query_def values_get_def query_piece_of_def)
  have "w_locks (ss_world st') = 1"
    using s(1) unfolding q
    by (auto simp: endpoint_route_def ListLocksHandler_def acc h NewHandler_def counting_locks_def requireAuth_def
        requireAuthResult_def requireCredentials_def authenticate_def BasicAuth_def None_step_def None_Authenticate_def credentials_answer_def
        requireAccept_def lfsMediaType_parses query demo_server_state_def
        dest!: arg_cong [where f = w_locks] sym [of _ "ss_world st'"])
  then have ne: "w_locks (ss_world st') \<noteq> w_locks (ss_world demo_server_state)" by (simp add: demo_server_state_def)
  obtain x1 line where h1: "serverHandler demo_server_lib (demo_server c) demo_server_env ?r demo_server_state = (st', x1, line)"
    using s(2) by (metis prod.collapse)
  show ?thesis
    using locks_only_by_authorized [OF c(1) [unfolded demo_load_def] demo_server_mux(1) [OF c(1)] h1 ne]
    by (auto simp: c(2) demo_wire_def)
qed

theorem server_ignores_spoofed_headers_witness:
  "\<exists>c. demo_load = Inr c \<and>
    serverHandler demo_server_lib (demo_server c) demo_server_env (demo_net_request ((\<lambda>_. [])(''X-Forwarded-For'' := [''10.9.9.9'']))) demo_server_state =
    serverHandler demo_server_lib (demo_server c) demo_server_env (demo_net_request (\<lambda>_. [])) demo_server_state"
proof -
  obtain c where c: "demo_load = Inr c" using demo_load_settings by blast
  obtain st' x line where h: "serverHandler demo_server_lib (demo_server c) demo_server_env (demo_net_request (\<lambda>_. [])) demo_server_state = (st', x, line)"
    by (metis prod_cases3)
  have u: "\<not> trusts (sl_ip demo_server_lib) (sv_trust (demo_server c)) (peerIP (sl_ip demo_server_lib) (demo_net_request (\<lambda>_. [])))"
    using demo_untrusted by simp
  have "agree_except [''X-Forwarded-For'', ''X-Forwarded-Host'', ''X-Forwarded-Proto'', ''X-Request-ID'']
      (demo_net_request (\<lambda>_. [])) (demo_net_request ((\<lambda>_. [])(''X-Forwarded-For'' := [''10.9.9.9''])))"
    by (simp add: agree_except_def demo_net_request_def)
  from server_ignores_spoofed_headers [OF u this h] h c show ?thesis by auto
qed

end
