(* ===== verification/Server_Metrics.thy ===== *)
theory Server_Metrics
  imports Server
begin

text \<open>
  What the metrics of \<^verbatim>\<open>src/internal/metrics/metrics.go\<close> say about the requests of a running server: every request counts once,
  under the pattern the mux records for it, also if it matches nothing or is redirected, so that a client cannot create new
  time series; and the counters of the authentication cache count the calls that need GitHub.
\<close>

section \<open>Routes\<close>

lemma path_segs_slash: "path_segs ''/'' = [''/'']"
  by (simp add: path_segs.simps firstSegment_def)

lemma path_segs_snoc:
  "path \<noteq> [] \<Longrightarrow> last path \<noteq> CHR ''/'' \<Longrightarrow> path_segs (path @ ''/'') = path_segs path @ [''/'']"
proof (induction path rule: path_segs.induct)
  case (1 path)
  let ?t = "takeWhile (\<lambda>c. c \<noteq> CHR ''/'') (tl path)" and ?d = "dropWhile (\<lambda>c. c \<noteq> CHR ''/'') (tl path)"
  have f: "firstSegment path = (pathUnescape ?t, ?d)" using 1(2,3) by (auto simp: firstSegment_def)
  have g: "tl (path @ ''/'') = tl path @ ''/''" "path @ ''/'' \<noteq> ''/''" using 1(2) by simp_all
  have t: "takeWhile (\<lambda>c. c \<noteq> CHR ''/'') (tl path @ ''/'') = ?t"
    by (cases "\<exists>c \<in> set (tl path). c = CHR ''/''") (auto simp: takeWhile_append)
  have d: "dropWhile (\<lambda>c. c \<noteq> CHR ''/'') (tl path @ ''/'') = ?d @ ''/''"
    by (simp add: dropWhile_append)
  have f': "firstSegment (path @ ''/'') = (pathUnescape ?t, ?d @ ''/'')"
    unfolding firstSegment_def g(1) t d using g(2) by simp
  have segs: "path_segs path = pathUnescape ?t # path_segs ?d" "path_segs (path @ ''/'') = pathUnescape ?t # path_segs (?d @ ''/'')"
    using 1(2) by (simp_all add: path_segs.simps [of path] path_segs.simps [of "path @ ''/''"] f f')
  show ?case
  proof (cases "?d = []")
    case True
    then show ?thesis unfolding segs by (simp only: True append_Nil path_segs_slash path_segs_Nil append_Cons)
  next
    case False
    have "tl path = ?t @ ?d" by simp
    then have "last (tl path) = last ?d" "tl path \<noteq> []" using False by (metis last_appendR, metis False append_is_Nil_conv)
    then have "last ?d = last path" by (simp add: last_tl)
    with 1(3) have "path_segs (?d @ ''/'') = path_segs ?d @ [''/'']" by (intro 1(1) [OF 1(2) f [symmetric] False]) simp
    then show ?thesis by (simp only: segs append_Cons)
  qed
qed

lemma path_segs_nonempty: "path \<noteq> [] \<Longrightarrow> path_segs path \<noteq> []"
  by (subst path_segs.simps) (simp split: prod.splits)

lemma cleanPath_rooted: "cleanPath p \<noteq> [] \<and> hd (cleanPath p) = CHR ''/''"
proof -
  have "Clean q \<noteq> [] \<and> hd (Clean q) = CHR ''/''" if "is_rooted q" for q
    using that by (simp add: Clean_def render_path_def)
  moreover have "is_rooted (if hd p \<noteq> CHR ''/'' then CHR ''/'' # p else p)" if "p \<noteq> []"
    using that by (cases p) (auto simp: is_rooted_def HasPrefix_def)
  ultimately show ?thesis by (auto simp: cleanPath_def Let_def)
qed

lemma always_matched:
  assumes "serves eps mux" "path \<noteq> []"
  obtains p t ms where "matchMethodAndPath mux m path = Some ((p, t), ms)" "p = target_pattern eps t" "t \<in> set (server_targets eps)"
proof -
  have "(mp_segments (target_pattern eps TargetNotFound), (target_pattern eps TargetNotFound, TargetNotFound)) \<in> set (method_routes [] mux)"
    by (simp add: mux_routes [OF assms(1)] set_server_targets)
  moreover have "seg_match (mp_segments (target_pattern eps TargetNotFound)) (path_segs path) []"
    using path_segs_nonempty [OF assms(2)] by (simp add: seg_match_Multi)
  ultimately have "matchPath (method_routes [] mux) path [] \<noteq> None" by (rule matchPath_complete)
  then obtain p t ms where m: "matchMethodAndPath mux m path = Some ((p, t), ms)"
    by (cases "matchMethodAndPath mux m path") (auto simp: matchMethodAndPath_def split: option.splits)
  from matchMethod_found [OF m] obtain m' where "matchPath (method_routes m' mux) path [] = Some ((p, t), ms)" by blast
  from matched_target(1,2) [OF assms(1) this] m show thesis by (intro that)
qed

text \<open>No pattern of the server ends in a slash but the one for everything else, so none is found by adding one.\<close>

lemma no_slash_redirect:
  assumes "serves eps mux" "path \<noteq> []" "hd path = CHR ''/''" "last path \<noteq> CHR ''/''"
  shows "\<not> exactMatch (matchMethodAndPath mux m (path @ ''/'')) (path @ ''/'')"
proof
  assume e: "exactMatch (matchMethodAndPath mux m (path @ ''/'')) (path @ ''/'')"
  then obtain p t ms where f: "matchMethodAndPath mux m (path @ ''/'') = Some ((p, t), ms)"
    by (auto simp: exactMatch_def split: option.splits)
  from matchMethod_found [OF f] obtain m' where "matchPath (method_routes m' mux) (path @ ''/'') [] = Some ((p, t), ms)" by blast
  note g = matched_target [OF assms(1) this]
  have segs: "path_segs (path @ ''/'') = path_segs path @ [''/'']" "path_segs path \<noteq> []"
    using path_segs_snoc path_segs_nonempty assms(2,4) by auto
  show False
  proof (cases t)
    case (TargetEndpoint i rt)
    with g(2,4) obtain v where "path_segs path @ [''/''] = endpoint_elems (ep_Path (eps ! i)) @ route_values rt v"
      "route_wildcard rt \<noteq> None \<longrightarrow> v \<noteq> ''/''"
      by (auto simp: seg_match_pattern segs(1))
    then have "last (route_values rt v) = ''/''" "route_wildcard rt \<noteq> None \<longrightarrow> v \<noteq> ''/''"
      using route_values_length [of rt v] by (metis last_appendR last_snoc length_0_conv not_one_le_zero, simp)
    then show False by (cases rt) simp_all
  next
    case TargetNotFound
    have "2 \<le> length (filter (\<lambda>c. c = CHR ''/'') (path @ ''/''))" using assms(2,3) by (cases path) simp_all
    with e f TargetNotFound g(2) show False by (simp add: exactMatch_def ends_multi_def)
  qed (use g segs in auto)
qed

lemma parsePattern_str: "parsePattern s = Some p \<Longrightarrow> mp_str p = s"
  by (auto simp: parsePattern_def Let_def split: if_splits)

text \<open>Whatever the request's path and method, the route under which the metrics count it is one of the patterns registered at
  startup: the number of time series is bounded by the configuration, not by what clients send. Two requests are
  special: the mux refuses the request URI \<^verbatim>\<open>*\<close> without a pattern, and what it records for a \<^verbatim>\<open>CONNECT\<close> request that names
  only a host, and so has no path, is left open here.\<close>

definition route_label_ok :: "endpoint list \<Rightarrow> net_request \<Rightarrow> string \<Rightarrow> bool" where
  "route_label_ok eps r route \<longleftrightarrow>
     (if nr_EscapedPath r = ''*'' then route = []
      else (rq_Method (nr_request r) = ''CONNECT'' \<longrightarrow> HasPrefix (nr_EscapedPath r) ''/'') \<longrightarrow> route \<in> fst ` set (server_routes eps))"

lemma route_labels_registered:
  assumes "Load clib e path = Inr c" "server_mux (cf_Endpoints c) = Some (sv_mux sv)"
    and "mux_ServeHTTP lib sv env r st = (st', x, route)"
  shows "route_label_ok (cf_Endpoints c) r route"
proof -
  let ?eps = "cf_Endpoints c" and ?m = "rq_Method (nr_request r)"
  let ?path = "if ?m = ''CONNECT'' then nr_EscapedPath r else cleanPath (nr_EscapedPath r)"
  have sv: "serves ?eps (sv_mux sv)" using Load_serves [OF assms(1)] assms(2) by auto
  have str: "mp_str (target_pattern ?eps t) \<in> fst ` set (server_routes ?eps)" if "t \<in> set (server_targets ?eps)" for t
  proof -
    from that obtain s where s: "(s, t) \<in> set (server_routes ?eps)" by (auto simp flip: server_routes_targets)
    then have "parsePattern s = Some (target_pattern ?eps t)"
      using server_patterns_parse sv by (auto simp: serves_def compatible_paths_def)
    then have "mp_str (target_pattern ?eps t) = s" by (rule parsePattern_str)
    with s show ?thesis by force
  qed
  have "route \<in> fst ` set (server_routes ?eps)" if star: "nr_EscapedPath r \<noteq> ''*''" and rooted: "?path \<noteq> []" "hd ?path = CHR ''/''"
  proof -
    obtain p t ms where n: "matchMethodAndPath (sv_mux sv) ?m ?path = Some ((p, t), ms)" "p = target_pattern ?eps t" "t \<in> set (server_targets ?eps)"
      using always_matched [OF sv rooted(1)] by blast
    have "HasSuffix ?path ''/'' \<or> last ?path \<noteq> CHR ''/''"
      using rooted(1) by (cases ?path rule: rev_cases) (auto simp: HasSuffix_def)
    then have "matchOrRedirect (sv_mux sv) ?m ?path = (Some ((p, t), ms), None)"
      using no_slash_redirect [OF sv rooted, of ?m] n(1) by (auto simp: matchOrRedirect_def Let_def)
    then show ?thesis
      using assms(3) star str [OF n(3)] n(2)
      by (auto simp: mux_ServeHTTP_def findHandler_def Let_def split: if_splits prod.splits)
  qed
  moreover have "?path \<noteq> [] \<and> hd ?path = CHR ''/''" if "?m = ''CONNECT'' \<longrightarrow> HasPrefix (nr_EscapedPath r) ''/''"
    using that cleanPath_rooted [of "nr_EscapedPath r"] by (cases "nr_EscapedPath r") (auto simp: HasPrefix_def)
  moreover have "route = []" if "nr_EscapedPath r = ''*''" using assms(3) that by (simp add: mux_ServeHTTP_def)
  ultimately show ?thesis unfolding route_label_ok_def by presburger
qed

section \<open>All requests\<close>

lemma run_target_metrics: "run_target lib sv env t r st = (st', x) \<Longrightarrow> ss_metrics st' = ss_metrics st"
  by (auto simp: run_target_def Let_def split: target.splits prod.splits if_splits)

lemma mux_metrics: "mux_ServeHTTP lib sv env r st = (st', x, route) \<Longrightarrow> ss_metrics st' = ss_metrics st"
  by (auto simp: mux_ServeHTTP_def dest: run_target_metrics split: if_splits mux_answer.splits prod.splits)

lemma capture_header [simp]: "capture env (x\<lparr>rsp_Header := hs\<rparr>) route = capture env x route"
  by (simp add: capture_def split: option.split)

lemma serverHandler_metrics:
  assumes "serverHandler lib sv env r st = (st', x, line)"
    and "mux_ServeHTTP lib sv env (inner_request lib sv env r) st = (st1, x1, route)"
  shows "ss_metrics st' = record_request (capture env x route) (ss_metrics st)"
  using assms mux_metrics [OF assms(2)]
  by (auto simp: serverHandler_def Logging_def Instrument_def inner_request_def Let_def split: prod.splits if_splits)

text \<open>Requests one after the other, with what the metrics see of each.\<close>

fun handle_all :: "('n, 'i, 'm) server_lib \<Rightarrow> ('s, 'a, 'l, 'n) server \<Rightarrow> (server_env \<times> net_request) list \<Rightarrow> ('s, 'a, 'l, 'm) server_state
    \<Rightarrow> ('s, 'a, 'l, 'm) server_state \<times> captured list" where
  "handle_all lib sv [] st = (st, [])"
| "handle_all lib sv ((env, r) # rs) st =
     (case serverHandler lib sv env r st of
        (st1, x, line) \<Rightarrow>
          (case handle_all lib sv rs st1 of
             (st2, cs) \<Rightarrow> (st2, capture env x (snd (snd (mux_ServeHTTP lib sv env (inner_request lib sv env r) st))) # cs)))"

lemma handle_all_counts:
  assumes "handle_all lib sv rs st = (st', cs)" "counts cs0 (ss_metrics st)" "list_all exact_sizes cs"
  shows "counts (cs0 @ cs) (ss_metrics st')"
  using assms
proof (induction rs arbitrary: st cs cs0)
  case (Cons er rs)
  obtain env r where er: "er = (env, r)" by fastforce
  obtain st1 x line where h: "serverHandler lib sv env r st = (st1, x, line)" by (metis prod_cases3)
  obtain st2 x1 route where m: "mux_ServeHTTP lib sv env (inner_request lib sv env r) st = (st2, x1, route)" by (metis prod_cases3)
  obtain cs' where cs: "handle_all lib sv rs st1 = (st', cs')" "cs = capture env x route # cs'"
    using Cons.prems(1) by (auto simp: er h m split: prod.splits)
  have "counts (cs0 @ [capture env x route]) (ss_metrics st1)"
    unfolding serverHandler_metrics [OF h m] using Cons.prems(2,3) by (intro record_request_counts) (simp_all add: cs)
  from Cons.IH [OF cs(1) this] Cons.prems(3) show ?case by (simp add: cs)
qed simp

lemma handle_all_patterns:
  assumes "handle_all lib sv rs st = (st', cs)" "Load clib e path = Inr c" "server_mux (cf_Endpoints c) = Some (sv_mux sv)"
  shows "list_all2 (\<lambda>(env, r) cp. route_label_ok (cf_Endpoints c) r (cp_Pattern cp)) rs cs"
  using assms(1)
proof (induction rs arbitrary: st cs)
  case (Cons er rs)
  obtain env r where er: "er = (env, r)" by fastforce
  obtain st1 x line where h: "serverHandler lib sv env r st = (st1, x, line)" by (metis prod_cases3)
  obtain st2 x1 route where m: "mux_ServeHTTP lib sv env (inner_request lib sv env r) st = (st2, x1, route)" by (metis prod_cases3)
  obtain cs' where cs: "handle_all lib sv rs st1 = (st', cs')" "cs = capture env x route # cs'"
    using Cons.prems(1) by (auto simp: er h m split: prod.splits)
  obtain rid where "inner_request lib sv env r = (ProxyTrust_Handler (sl_ip lib) (sv_trust sv) r)
      \<lparr>nr_request := (nr_request (ProxyTrust_Handler (sl_ip lib) (sv_trust sv) r))\<lparr>rq_RequestID := rid\<rparr>\<rparr>"
    using inner_request_nr by blast
  then have "route_label_ok (cf_Endpoints c) (inner_request lib sv env r) route = route_label_ok (cf_Endpoints c) r route"
    by (simp add: route_label_ok_def ProxyTrust_request)
  with route_labels_registered [OF assms(2,3) m] Cons.IH [OF cs(1)] show ?case
    by (simp add: cs er capture_def)
qed simp

text \<open>C38: In a server of a loaded configuration, after any sequence of requests in each of which fewer than 2^53 bytes are read and written, the metrics are exactly
  those of its requests: each counts once under its route and status, its duration is one observation of its route, and
  the bytes read and written add up; and there are series for these routes only. The route of a request is a pattern
  registered at startup, so that clients cannot make up new ones; but for the request URI \<^verbatim>\<open>*\<close> it is empty, and about a
  \<^verbatim>\<open>CONNECT\<close> request whose path does not start with a slash, because it names only a host, nothing is said.\<close>

theorem metrics_exact:
  assumes "NewMetrics version commit = Some (ss_metrics st)" "handle_all lib sv rs st = (st', cs)" "list_all exact_sizes cs"
    and "Load clib e path = Inr c" "server_mux (cf_Endpoints c) = Some (sv_mux sv)"
  shows "counts cs (ss_metrics st') \<and> fst ` dom (mt_requests (ss_metrics st')) = cp_Pattern ` set cs \<and>
    list_all2 (\<lambda>(env, r) cp.
      if nr_EscapedPath r = ''*'' then cp_Pattern cp = []
      else (rq_Method (nr_request r) = ''CONNECT'' \<longrightarrow> HasPrefix (nr_EscapedPath r) ''/'') \<longrightarrow>
        cp_Pattern cp \<in> fst ` set (server_routes (cf_Endpoints c))) rs cs"
proof -
  have "counts [] (ss_metrics st)" using NewMetrics_ok [of version commit] assms(1) by simp
  from handle_all_counts [OF assms(2) this assms(3)] have n: "counts cs (ss_metrics st')" by simp
  then have "fst ` dom (mt_requests (ss_metrics st')) = cp_Pattern ` set cs"
    unfolding counts_def by (simp add: series_dom image_image request_label_def)
  with n handle_all_patterns [OF assms(2,4,5)] show ?thesis by (simp only: route_label_ok_def)
qed

theorem metrics_exact_witness:
  "\<exists>c st' cp. demo_load = Inr c \<and>
    handle_all demo_server_lib (demo_server c) [(demo_server_env\<lparr>se_broken := Some 0\<rparr>, demo_net_request (\<lambda>_. []))] demo_server_state = (st', [cp]) \<and>
    counts [cp] (ss_metrics st') \<and> cp_Pattern cp \<in> fst ` set (server_routes loaded_endpoints)"
proof -
  obtain c where c: "demo_load = Inr c" "cf_Endpoints c = loaded_endpoints" using demo_load_endpoints by blast
  let ?rs = "[(demo_server_env\<lparr>se_broken := Some 0\<rparr>, demo_net_request (\<lambda>_. []))]"
  obtain st' cs where h: "handle_all demo_server_lib (demo_server c) ?rs demo_server_state = (st', cs)" by fastforce
  have "list_all exact_sizes cs"
    using h by (auto simp: capture_def exact_sizes_def bytes_read_def demo_server_env_def split: prod.splits)
  moreover have "NewMetrics ''dev'' ''unknown'' = Some (ss_metrics demo_server_state)"
    using NewMetrics_ok [of "''dev''" "''unknown''"] by (auto simp: demo_server_state_def)
  moreover have "rq_Method (nr_request (demo_net_request (\<lambda>_. []))) \<noteq> ''CONNECT''" "nr_EscapedPath (demo_net_request (\<lambda>_. [])) \<noteq> ''*''"
    by (simp_all add: demo_net_request_def)
  ultimately have "counts cs (ss_metrics st') \<and> (\<exists>cp. cs = [cp] \<and> cp_Pattern cp \<in> fst ` set (server_routes loaded_endpoints))"
    using metrics_exact [OF _ h _ c(1) [unfolded demo_load_def] demo_server_mux(1) [OF c(1)]] c(2)
    by (auto simp: list_all2_Cons1)
  with c(1) h show ?thesis by blast
qed

section \<open>Collectors\<close>

text \<open>The collectors \<^verbatim>\<open>serve\<close> registers, for the local store and with GitHub authenticators. None is registered twice.\<close>

definition start_metrics :: "string \<Rightarrow> string \<Rightarrow> bool \<Rightarrow> bool \<Rightarrow> metrics option" where
  "start_metrics version commit local_store github_auth =
     (case NewMetrics version commit of
        None \<Rightarrow> None
      | Some m \<Rightarrow>
        (case (if local_store then RegisterAvailableSpace m else Some m) of
           None \<Rightarrow> None
         | Some m' \<Rightarrow> if github_auth then RegisterAuthCache m' else Some m'))"

lemma start_metrics_ok: "\<exists>m. start_metrics version commit local_store github_auth = Some m \<and> counts [] m"
  by (simp add: start_metrics_def NewMetrics_def RegisterAvailableSpace_def RegisterAuthCache_def MustRegister_def fqName_def
      namespace_def counts_def)

text \<open>The gauge of free space is exact up to what a double holds, and not a number if the space is unknown.\<close>

lemma available_space_gauge:
  "available_space_sample (AvailableSpace ctx None) = NotANumber"
  "unat (bavail * bsize) < 2 ^ 53 \<Longrightarrow> \<exists>d. available_space_sample (AvailableSpace False (Some (bavail, bsize))) = Sample d \<and>
     double_trunc d = unat (bavail * bsize)"
  by (simp_all add: available_space_sample_def AvailableSpace_def double_trunc_exact)

text \<open>Every authentication that needs GitHub is a hit or a miss of the cache, and nothing else is.\<close>

definition lookups :: "github \<Rightarrow> 64 word" where
  "lookups g = gh_hits g + gh_misses g"

lemma cache_keeps_lookups [simp]:
  "lookups (cacheStoreIfEnabled g now key acc) = lookups g" "lookups (cacheRecordProbe g key op' outcome) = lookups g"
  by (simp_all add: lookups_def cacheStoreIfEnabled_def cacheRecordProbe_def Let_def split: option.split)

lemma cacheLookup_lookups: "cacheLookup g now key = (g', a) \<Longrightarrow> lookups g' = lookups g"
  by (auto simp: lookups_def cacheLookup_def split: option.splits if_splits)

lemma fetchAccess_lookups: "lookups (fst (fetchAccess g env ep token key)) = lookups g"
  by (simp add: fetchAccess_def Let_def split: option.split sum.split)

lemma share_state [simp]: "fst (share left outcome) = fst outcome"
  by (simp add: share_def split: prod.split)

lemma lookup_lookups: "lookups (fst (lookup g env ep token key)) = lookups g + 1"
proof -
  obtain g1 a where c: "cacheLookup g (ae_lookup env) key = (g1, a)" by fastforce
  from cacheLookup_lookups [OF c] show ?thesis
    using fetchAccess_lookups [of "g1\<lparr>gh_misses := gh_misses g1 + 1\<rparr>" env ep token key]
    by (cases a) (simp_all add: lookup_def c, simp_all add: lookups_def)
qed

lemma probeContents_lookups: "lookups (fst (probeContents g env ep token key op' acc)) = lookups g"
proof -
  obtain g1 a where c: "cacheLookup g (ae_recheck env) key = (g1, a)" by fastforce
  from cacheLookup_lookups [OF c] show ?thesis
    by (simp add: probeContents_def c Let_def split: option.split sum.split)
qed

definition needs_github :: "unicode_tables \<Rightarrow> endpoint \<Rightarrow> string \<Rightarrow> operation \<Rightarrow> bool" where
  "needs_github u ep password op' \<longleftrightarrow> \<not> (IsPublic u ep \<and> op' = OperationDownload) \<and> password \<noteq> []"

lemma Authenticate_lookups:
  "lookups (fst (GitHub_Authenticate u hk g env ep user pw op')) = lookups g + (if needs_github u ep pw op' then 1 else 0)"
proof (cases "needs_github u ep pw op'")
  case True
  let ?key = "cacheKey hk pw (ep_Path ep)"
  obtain g1 r where l: "lookup g env ep pw ?key = (g1, r)" by fastforce
  have g1: "lookups g1 = lookups g + 1" using lookup_lookups [of g env ep pw ?key] by (simp add: l)
  have "lookups g2 = lookups g1" if "share left (probeContents g1 env ep pw ?key op' a) = (g2, r2)" for left a g2 r2
    using probeContents_lookups [of g1 env ep pw ?key op' a] share_state [of left "probeContents g1 env ep pw ?key op' a"] that by simp
  with True g1 show ?thesis
    by (auto simp: GitHub_Authenticate_def needs_github_def l split: sum.split prod.split)
next
  case False
  then show ?thesis by (auto simp: GitHub_Authenticate_def needs_github_def)
qed

theorem auth_cache_counts:
  fixes cs :: "(auth_env \<times> endpoint \<times> string \<times> string \<times> operation) list"
  assumes "length cs < 2 ^ 64"
  shows "unat (lookups (github_auth.calls u hk (NewGitHub ttl) cs)) =
    length (filter (\<lambda>(env, ep, user, pw, op'). needs_github u ep pw op') cs)"
proof -
  have "lookups (github_auth.calls u hk g cs) = lookups g + of_nat (length (filter (\<lambda>(env, ep, user, pw, op'). needs_github u ep pw op') cs))" for g
  proof (induction cs arbitrary: g)
    case (Cons c cs)
    obtain env ep user pw op' where "c = (env, ep, user, pw, op')" by (metis prod_cases5)
    with Cons show ?case by (simp add: Authenticate_lookups)
  qed simp
  moreover have "length (filter (\<lambda>(env, ep, user, pw, op'). needs_github u ep pw op') cs) < 2 ^ 64"
    using assms by (rule le_less_trans [OF length_filter_le])
  ultimately show ?thesis by (simp add: NewGitHub_def lookups_def unat_of_nat)
qed

end
