(* ===== verification/Startup.thy ===== *)
theory Startup
  imports Server Tempfiles
begin

text \<open>
  What \<^verbatim>\<open>serve\<close> in \<^verbatim>\<open>src/main.go\<close> does around the requests: the signing key and where it is kept, the data directory, the
  sweep of temporary files, the log settings, and the exit code.
\<close>

section \<open>The signing key\<close>

definition signingKeyFile :: string where "signingKeyFile = ''signing.key''"

datatype key_error = KeyInvalidHex | KeyTooShort nat | KeyRead | KeyGenerate | KeyMkdir | KeyWrite

text \<open>\<^verbatim>\<open>os.WriteFile\<close> fails before it opens the file, or after it has truncated the file and written some bytes.\<close>

datatype write_file_fault = WriteNotOpened | WriteStopped nat

text \<open>What a call meets: whether reading fails for a reason other than a missing file, the random bytes, whether the
  directory cannot be made, how the write fails if it does, and the clock.\<close>

record key_env =
  ke_read :: bool
  ke_rand :: "bytes option"
  ke_mkdir :: bool
  ke_write :: "write_file_fault option"
  ke_now :: instant

definition WriteFile :: "write_file_fault option \<Rightarrow> instant \<Rightarrow> disk \<Rightarrow> string \<Rightarrow> bytes \<Rightarrow> disk \<times> bool" where
  "WriteFile fault now d path data =
     (case fault of
        None \<Rightarrow> (d(path \<mapsto> \<lparr>f_data = data, f_mtime = now\<rparr>), True)
      | Some WriteNotOpened \<Rightarrow> (d, False)
      | Some (WriteStopped n) \<Rightarrow> (d(path \<mapsto> \<lparr>f_data = take n data, f_mtime = now\<rparr>), False))"

definition loadOrGenerateSigningKey :: "key_env \<Rightarrow> string \<Rightarrow> disk \<Rightarrow> disk \<times> (key_error + bytes)" where
  "loadOrGenerateSigningKey env dataDir d =
     (let path = Join [dataDir, signingKeyFile] in
      if ke_read env then (d, Inl KeyRead)
      else case d path of
        Some f \<Rightarrow>
          (case hex_decode (TrimSpace (f_data f)) of
             None \<Rightarrow> (d, Inl KeyInvalidHex)
           | Some key \<Rightarrow> if length key < 32 then (d, Inl (KeyTooShort (length key))) else (d, Inr key))
      | None \<Rightarrow>
          (case ke_rand env of
             None \<Rightarrow> (d, Inl KeyGenerate)
           | Some bs \<Rightarrow>
             (let key = take 32 (bs @ replicate 32 CHR 0x00) in
              if ke_mkdir env then (d, Inl KeyMkdir)
              else case WriteFile (ke_write env) (ke_now env) d path (hex_encode key @ [newline]) of
                (d', False) \<Rightarrow> (d', Inl KeyWrite)
              | (d', True) \<Rightarrow> (d', Inr key))))"

text \<open>The key of the server: the configured one, or the one in the data directory.\<close>

definition server_signing_key :: "key_env \<Rightarrow> config \<Rightarrow> disk \<Rightarrow> disk \<times> (key_error + bytes)" where
  "server_signing_key env cfg d =
     (if length (op_SigningKeyBytes (cf_Options cfg)) = 0 then loadOrGenerateSigningKey env (op_DataDirectory (cf_Options cfg)) d
      else (d, Inr (op_SigningKeyBytes (cf_Options cfg))))"

section \<open>The data directory\<close>

definition ensureWritableDir :: "bool \<Rightarrow> disk \<Rightarrow> string \<Rightarrow> nat list \<Rightarrow> bool \<Rightarrow> instant \<Rightarrow> disk \<times> store_error option" where
  "ensureWritableDir mkdir_fails d dir names remove_fails now =
     (if mkdir_fails then (d, Some ErrIO) else CheckWritableDir d dir names remove_fails now)"

definition tempFileMaxAge :: duration where "tempFileMaxAge = hour"
definition tempSweepInterval :: duration where "tempSweepInterval = hour"

text \<open>The passes until the context ends, each on the tree it finds; only the first one looks into the object shards.\<close>

fun sweepTempFiles :: "bool \<Rightarrow> (walk_env \<times> (string \<times> fs_node) list \<times> instant) list \<Rightarrow> (string \<Rightarrow> bool) option \<Rightarrow> (string list \<times> bool) list" where
  "sweepTempFiles skipShards [] inUse = []"
| "sweepTempFiles skipShards ((env, root, now) # passes) inUse =
     RemoveStaleTempFiles env root now tempFileMaxAge inUse skipShards # sweepTempFiles True passes inUse"

section \<open>Logging and the end\<close>

record 'v log_settings =
  ls_console :: bool
  ls_level :: 'v
  ls_deprecated :: bool

text \<open>The logger writes JSON at the level \<open>level0\<close> before; \<open>parse_level\<close> is \<^verbatim>\<open>zerolog.ParseLevel\<close>.\<close>

definition configureLogging :: "(string \<Rightarrow> 'v option) \<Rightarrow> 'v \<Rightarrow> options \<Rightarrow> 'v log_settings" where
  "configureLogging parse_level level0 opts =
     \<lparr>ls_console = (op_LogFormat opts = LogFormatConsole),
      ls_level = (case parse_level (op_LogLevel opts) of None \<Rightarrow> level0 | Some l \<Rightarrow> l),
      ls_deprecated = op_AdditionalLogging opts\<rparr>"

text \<open>\<^verbatim>\<open>filepath.Abs\<close> needs the working directory for a relative path.\<close>

definition absolutePath :: "string option \<Rightarrow> string \<Rightarrow> string" where
  "absolutePath cwd path =
     (if is_rooted path then Clean path else case cwd of None \<Rightarrow> path | Some wd \<Rightarrow> Join [wd, path])"

datatype stop_event = StopSignal | StopServeError

definition awaitStop :: "stop_event \<Rightarrow> int" where
  "awaitStop ev = (case ev of StopSignal \<Rightarrow> 0 | StopServeError \<Rightarrow> 1)"

text \<open>The exit code, which a shutdown that runs into its timeout turns into a failure.\<close>

definition serve_exit :: "stop_event \<Rightarrow> bool \<Rightarrow> int" where
  "serve_exit ev shutdown_fails = (if shutdown_fails then 1 else awaitStop ev)"

section \<open>The key survives restarts\<close>

lemma is_hex_plain: "is_hex c \<Longrightarrow> 32 < byte_of c \<and> byte_of c < (128 :: nat)"
  by (auto simp: is_hex_def hex_value_def Let_def split: if_splits)

lemma TrimSpace_line:
  assumes "plain_text s" "s \<noteq> []"
  shows "TrimSpace (s @ [newline]) = s"
proof -
  have a: "ascii (s @ [newline])" using plain_text_ascii [OF assms(1)] by (simp add: ascii_def newline_def)
  have sp: "list_all (\<lambda>x. \<not> space_chunk x) (map (\<lambda>c. [c]) s)"
    using assms(1) space_plain by (auto simp: plain_text_def list_all_iff)
  have nl: "space_chunk [newline]" by (simp add: space_chunk_def space_rune_def newline_def)
  have front: "dropWhile space_chunk (map (\<lambda>c. [c]) s @ [[newline]]) = map (\<lambda>c. [c]) s @ [[newline]]"
    using sp assms(2) by (cases s) auto
  have rear: "dropWhile space_chunk (rev (map (\<lambda>c. [c]) s)) = rev (map (\<lambda>c. [c]) s)"
    using sp by (intro dropWhile_none) (simp add: list_all_iff)
  show ?thesis
    by (simp add: TrimSpace_def rune_chunks_ascii [OF a] front nl rear concat_singletons del: rev_map)
qed

lemma stored_key_loads:
  assumes "length key = 32" "d (Join [dataDir, signingKeyFile]) = Some f" "f_data f = hex_encode key @ [newline]" "\<not> ke_read env"
  shows "loadOrGenerateSigningKey env dataDir d = (d, Inr key)"
proof -
  have "hex_encode key \<noteq> []" using assms(1) by (cases key) auto
  moreover have "plain_text (hex_encode key)"
    using is_hex_plain hex_encode_is_hex by (fastforce simp: plain_text_def list_all_iff)
  ultimately have "TrimSpace (f_data f) = hex_encode key" by (simp add: assms(3) TrimSpace_line)
  then show ?thesis using assms by (simp add: loadOrGenerateSigningKey_def)
qed

lemma loadOrGenerate_stable:
  assumes "loadOrGenerateSigningKey env dataDir d = (d', Inr key)" "\<not> ke_read env'"
  shows "32 \<le> length key \<and> loadOrGenerateSigningKey env' dataDir d' = (d', Inr key)"
proof (cases "d (Join [dataDir, signingKeyFile])")
  case (Some f)
  with assms show ?thesis
    by (auto simp: loadOrGenerateSigningKey_def Let_def split: if_splits option.splits)
next
  case None
  with assms(1) obtain bs where bs: "key = take 32 (bs @ replicate 32 CHR 0x00)"
    "d' = d(Join [dataDir, signingKeyFile] \<mapsto> \<lparr>f_data = hex_encode key @ [newline], f_mtime = ke_now env\<rparr>)"
    by (auto simp: loadOrGenerateSigningKey_def WriteFile_def Let_def split: if_splits option.splits prod.splits write_file_fault.splits)
  then have "length key = 32" by simp
  with bs(2) assms(2) stored_key_loads [of key d' dataDir] show ?thesis by simp
qed

text \<open>Whichever way the server gets its signing key (configured, read from the data directory or newly generated), the key has at
  least 32 bytes, and after a start that succeeded every later start with the same settings whose read does not fail
  gets the same key and leaves the disk as it is, so that signed URLs survive restarts. A write that was cut short is
  never a success. The decoder of the configuration file leaves the parsed key, which has no name in the file, empty.\<close>

theorem signing_key_stable:
  assumes "Load lib e path = Inr c" "op_SigningKey (cf_Options c) = [] \<Longrightarrow> op_SigningKeyBytes (cf_Options c) = []"
    and "server_signing_key env c d = (d', Inr key)" "\<not> ke_read env'"
  shows "32 \<le> length key \<and> server_signing_key env' c d' = (d', Inr key)"
proof (cases "op_SigningKeyBytes (cf_Options c) = []")
  case True
  with assms(3,4) loadOrGenerate_stable show ?thesis by (simp add: server_signing_key_def)
next
  case False
  with assms(2) Load_settings [OF assms(1)] have "32 \<le> length (op_SigningKeyBytes (cf_Options c))"
    by (auto simp: settings_ok_def key_ok_def)
  with False assms(3) show ?thesis by (simp add: server_signing_key_def)
qed

text \<open>A write that is cut short leaves a file that no later start accepts as a key.\<close>

lemma cut_key_rejected:
  assumes "n < 64" "length key = 32" "d (Join [dataDir, signingKeyFile]) = Some f" "f_data f = take n (hex_encode key @ [newline])" "\<not> ke_read env"
  shows "\<exists>err. loadOrGenerateSigningKey env dataDir d = (d, Inl err)"
proof -
  have n: "f_data f = take n (hex_encode key)" using assms(1,2,4) by simp
  have "plain_text (f_data f)"
    using is_hex_plain hex_encode_is_hex by (fastforce simp: n plain_text_def list_all_iff dest: in_set_takeD)
  then have t: "TrimSpace (f_data f) = f_data f" by simp
  have "length k < 32" if "hex_decode (f_data f) = Some k" for k
    using hex_decode_length [OF that] assms(1,2) by (simp add: n min_def split: if_splits)
  with assms(3,5) t show ?thesis by (auto simp: loadOrGenerateSigningKey_def Let_def split: option.splits)
qed

definition demo_key_env :: key_env where
  "demo_key_env = \<lparr>ke_read = False, ke_rand = Some (replicate 32 CHR ''k''), ke_mkdir = False, ke_write = None, ke_now = 0\<rparr>"

theorem signing_key_stable_witness:
  "\<exists>c d' key. demo_load = Inr c \<and> server_signing_key demo_key_env c Map.empty = (d', Inr key) \<and>
    server_signing_key (demo_key_env\<lparr>ke_rand := None\<rparr>) c d' = (d', Inr key)"
proof -
  obtain c where c: "demo_load = Inr c" "op_SigningKeyBytes (cf_Options c) = []" using demo_load_settings by blast
  obtain d' key where k: "server_signing_key demo_key_env c Map.empty = (d', Inr key)"
    by (simp add: server_signing_key_def c(2) loadOrGenerateSigningKey_def demo_key_env_def WriteFile_def Let_def)
  from signing_key_stable [OF c(1) [unfolded demo_load_def] c(2) k, of "demo_key_env\<lparr>ke_rand := None\<rparr>"] c(1) k show ?thesis
    by (auto simp: demo_key_env_def)
qed

end
