(* ===== verification/Serve.thy ===== *)
theory Serve
  imports Startup S3_Storage
begin

text \<open>
  \<^verbatim>\<open>serve\<close> in \<^verbatim>\<open>src/main.go\<close>: every step from the configuration file to the running server, and its end. A
  \<^verbatim>\<open>log.Fatal\<close> ends the process with status 1 and is a value of \<^verbatim>\<open>start_error\<close> here, as is the panic of
  \<^verbatim>\<open>ServeMux.Handle\<close> on patterns that conflict.
\<close>

section \<open>Storage\<close>

datatype start_error =
    FatalConfig load_error
  | FatalDataDirectory store_error
  | FatalS3Client
  | FatalStorageCheck store_error
  | FatalRateLimiter
  | FatalProxyTrust
  | FatalSigningKey key_error
  | FatalSigner signer_error
  | PanicRoutes
  | FatalListen
  | FatalMetricsListen

datatype 'b backend = BackendLocal local | BackendS3 "'b s3" "s3_presigner option"

definition s3_settings :: "config \<Rightarrow> s3_config" where
  "s3_settings cfg =
     \<lparr>sc_Bucket = sg_S3Bucket (cf_Storage cfg), sc_Region = sg_S3Region (cf_Storage cfg), sc_Endpoint = sg_S3Endpoint (cf_Storage cfg),
      sc_AccessKeyID = sg_S3AccessKeyID (cf_Storage cfg), sc_SecretAccessKey = sg_S3SecretAccessKey (cf_Storage cfg),
      sc_Prefix = sg_S3Prefix (cf_Storage cfg), sc_PresignedURLs = S3PresignedURLsEnabled (cf_Storage cfg),
      sc_ForcePathStyle = S3ForcePathStyleEnabled (cf_Storage cfg), sc_MaxUploadSize = op_MaxUploadSize (cf_Options cfg)\<rparr>"

text \<open>The backend on the disk with its directories; \<open>clients\<close> are the SDK's clients for the options they are given.\<close>

definition new_store :: "(s3_client_options \<Rightarrow> ('b s3_api \<times> s3_presigner) option) \<Rightarrow> config \<Rightarrow> disk \<Rightarrow> string set
    \<Rightarrow> start_error + 'b backend" where
  "new_store clients cfg d ds =
     (if sg_Backend (cf_Storage cfg) = StorageS3 then
        (case NewS3 clients (s3_settings cfg) of
           None \<Rightarrow> Inl FatalS3Client
         | Some (s, p) \<Rightarrow> Inr (BackendS3 s p))
      else Inr (BackendLocal (NewLocal (op_DataDirectory (cf_Options cfg)) d ds)))"

text \<open>A loaded configuration for S3 gives the SDK a region and either both halves of the credentials or none; the adapter has
  a bucket, a prefix that keys start with as a directory, and parts that suffice for streams up to the upload limit.\<close>

theorem loaded_s3_client:
  assumes "Load lib e path = Inr c" "new_store sdk c d ds = Inr (BackendS3 s p)"
    and "opts = client_options (s3_settings c)"
  shows "co_Region opts \<noteq> [] \<and>
    co_Credentials opts = (if sg_S3AccessKeyID (cf_Storage c) = [] then None
      else Some (sg_S3AccessKeyID (cf_Storage c), sg_S3SecretAccessKey (cf_Storage c))) \<and>
    (\<exists>presigner. sdk opts = Some (s3_client s, presigner) \<and> p = (if S3PresignedURLsEnabled (cf_Storage c) then Some presigner else None)) \<and>
    s3_bucket s \<noteq> [] \<and> (s3_prefix s = [] \<or> HasSuffix (s3_prefix s) ''/'') \<and>
    (op_MaxUploadSize (cf_Options c) \<le> s3MaxParts * s3MaxPartSize \<longrightarrow> op_MaxUploadSize (cf_Options c) \<le> s3MaxParts * s3_streamPartSize s)"
proof -
  have b: "sg_Backend (cf_Storage c) = StorageS3" using assms(2) by (auto simp: new_store_def split: if_splits)
  then have ok: "sg_S3Bucket (cf_Storage c) \<noteq> []" "sg_S3Region (cf_Storage c) \<noteq> []"
    "sg_S3Prefix (cf_Storage c) = [] \<or> HasSuffix (sg_S3Prefix (cf_Storage c)) ''/''"
    "(sg_S3AccessKeyID (cf_Storage c) = []) = (sg_S3SecretAccessKey (cf_Storage c) = [])"
    using Load_settings [OF assms(1)] by (auto simp: settings_ok_def storage_ok_def StorageLocal_def StorageS3_def)
  obtain presigner where n: "sdk opts = Some (s3_client s, presigner)" "s3_bucket s = sg_S3Bucket (cf_Storage c)"
    "s3_prefix s = sg_S3Prefix (cf_Storage c)" "s3_streamPartSize s = partSizeFor (op_MaxUploadSize (cf_Options c))"
    "p = (if S3PresignedURLsEnabled (cf_Storage c) then Some presigner else None)"
    using assms(2) b by (auto simp: new_store_def NewS3_def newS3Client_def assms(3) s3_settings_def split: option.splits)
  show ?thesis
    using ok n partSizeFor_enough [of "op_MaxUploadSize (cf_Options c)"] by (auto simp: assms(3) client_options_def s3_settings_def)
qed

text \<open>The check has a context that may end, the numbers of \<^verbatim>\<open>statfs\<close>, and the bucket.\<close>

definition store_check :: "bool \<Rightarrow> (64 word \<times> 64 word) option \<Rightarrow> 'b \<Rightarrow> 'b backend \<Rightarrow> store_error option" where
  "store_check ctx statfs bucket backend =
     (case backend of BackendLocal _ \<Rightarrow> Check ctx statfs | BackendS3 s _ \<Rightarrow> S3_Check s bucket)"

text \<open>What the sweep of temporary files asks before it removes one; nothing for a store in S3.\<close>

definition tempFileInUse :: "'b backend \<Rightarrow> (string \<Rightarrow> bool) option" where
  "tempFileInUse backend = (case backend of BackendLocal l \<Rightarrow> Some (Writing l) | BackendS3 _ _ \<Rightarrow> None)"

section \<open>Start\<close>

text \<open>The packages \<^verbatim>\<open>serve\<close> calls: the configuration's, \<^verbatim>\<open>realclientip\<close>, the S3 SDK and the limiter's store.\<close>

record ('n, 'i, 'b, 'm) start_lib =
  sb_config :: config_lib
  sb_ip :: "('n, 'i) client_ip_lib"
  sb_clients :: "s3_client_options \<Rightarrow> ('b s3_api \<times> s3_presigner) option"
  sb_limiter :: "nat \<Rightarrow> duration \<Rightarrow> 'm option"

record 'b start_env =
  sn_config :: config_env
  sn_mkdir :: bool
  sn_names :: "nat list"
  sn_remove :: bool
  sn_now :: instant
  sn_dirs :: "string set"
  sn_ctx :: bool
  sn_statfs :: "(64 word \<times> 64 word) option"
  sn_bucket :: 'b
  sn_key :: key_env
  sn_random :: "bytes option"
  sn_listen :: "string \<Rightarrow> bool"

record ('n, 'b, 'm) started =
  sd_config :: config
  sd_backend :: "'b backend"
  sd_limiter :: 'm
  sd_trust :: "'n proxy_trust"
  sd_signer :: url_signer
  sd_mux :: "target mux"
  sd_metrics :: bool

text \<open>\<^verbatim>\<open>serveMetrics\<close>: whether there is a second server, or the failure to listen for it.\<close>

definition serveMetrics :: "(string \<Rightarrow> bool) \<Rightarrow> string \<Rightarrow> start_error + bool" where
  "serveMetrics listen address =
     (if address = [] then Inr False else if listen address then Inr True else Inl FatalMetricsListen)"

text \<open>A nil slice has no elements.\<close>

definition trusted_proxies :: "config \<Rightarrow> string list" where
  "trusted_proxies cfg = (case op_TrustedProxies (cf_Options cfg) of None \<Rightarrow> [] | Some ps \<Rightarrow> ps)"

text \<open>The limiter, the trust in proxies, the signing key and the signer.\<close>

definition serve_security :: "('n, 'i, 'b, 'm) start_lib \<Rightarrow> 'b start_env \<Rightarrow> config \<Rightarrow> disk
    \<Rightarrow> disk \<times> (start_error + ('m \<times> 'n proxy_trust \<times> url_signer))" where
  "serve_security lib env cfg d =
     (case sb_limiter lib (op_RateLimitTokens (cf_Options cfg)) (op_RateLimitInterval (cf_Options cfg)) of
        None \<Rightarrow> (d, Inl FatalRateLimiter)
      | Some limiter \<Rightarrow>
        (case NewProxyTrust (sb_ip lib) (trusted_proxies cfg) of
           None \<Rightarrow> (d, Inl FatalProxyTrust)
         | Some trust \<Rightarrow>
           (case server_signing_key (sn_key env) cfg d of
              (d', Inl err) \<Rightarrow> (d', Inl (FatalSigningKey err))
            | (d', Inr key) \<Rightarrow>
              (case NewURLSigner (sn_random env) key (op_URLExpiryDuration (cf_Options cfg)) of
                 Inl err \<Rightarrow> (d', Inl (FatalSigner err))
               | Inr signer \<Rightarrow> (d', Inr (limiter, trust, signer))))))"

text \<open>The whole start, from the file to the two listeners. The routes are registered before the listener opens.\<close>

definition serve_start :: "('n, 'i, 'b, 'm) start_lib \<Rightarrow> 'b start_env \<Rightarrow> string \<Rightarrow> disk \<Rightarrow> disk \<times> (start_error + ('n, 'b, 'm) started)" where
  "serve_start lib env configPath d =
     (case Load (sb_config lib) (sn_config env) configPath of
        Inl err \<Rightarrow> (d, Inl (FatalConfig err))
      | Inr cfg \<Rightarrow>
        (case ensureWritableDir (sn_mkdir env) d (op_DataDirectory (cf_Options cfg)) (sn_names env) (sn_remove env) (sn_now env) of
           (d, Some err) \<Rightarrow> (d, Inl (FatalDataDirectory err))
         | (d, None) \<Rightarrow>
           (case new_store (sb_clients lib) cfg d (sn_dirs env) of
              Inl err \<Rightarrow> (d, Inl err)
            | Inr backend \<Rightarrow>
              (case store_check (sn_ctx env) (sn_statfs env) (sn_bucket env) backend of
                 Some err \<Rightarrow> (d, Inl (FatalStorageCheck err))
               | None \<Rightarrow>
                 (case serve_security lib env cfg d of
                    (d, Inl err) \<Rightarrow> (d, Inl err)
                  | (d, Inr (limiter, trust, signer)) \<Rightarrow>
                    (case server_mux (cf_Endpoints cfg) of
                       None \<Rightarrow> (d, Inl PanicRoutes)
                     | Some mux \<Rightarrow>
                       if \<not> sn_listen env (op_ListenAddress (cf_Options cfg)) then (d, Inl FatalListen)
                       else (case serveMetrics (sn_listen env) (op_MetricsAddress (cf_Options cfg)) of
                               Inl err \<Rightarrow> (d, Inl err)
                             | Inr metrics \<Rightarrow>
                               (d, Inr \<lparr>sd_config = cfg, sd_backend = backend, sd_limiter = limiter, sd_trust = trust,
                                        sd_signer = signer, sd_mux = mux, sd_metrics = metrics\<rparr>))))))))"

text \<open>The exit code: 1 for a start that fails (2 for the panic), otherwise how the server stops.\<close>

definition serve :: "('n, 'i, 'b, 'm) start_lib \<Rightarrow> 'b start_env \<Rightarrow> stop_event \<Rightarrow> bool \<Rightarrow> string \<Rightarrow> disk \<Rightarrow> disk \<times> int" where
  "serve lib env ev shutdown_fails configPath d =
     (case serve_start lib env configPath d of
        (d', Inl PanicRoutes) \<Rightarrow> (d', 2)
      | (d', Inl _) \<Rightarrow> (d', 1)
      | (d', Inr _) \<Rightarrow> (d', serve_exit ev shutdown_fails))"

section \<open>A valid configuration starts\<close>

text \<open>The calls outside the server that a start makes, and that they succeed: the data directory, the SDK, the storage
  check, the limiter, the parser of the ranges, the key file and the addresses.\<close>

definition surroundings_ok :: "('n, 'i, 'b, 'm) start_lib \<Rightarrow> 'b start_env \<Rightarrow> config \<Rightarrow> disk \<Rightarrow> bool" where
  "surroundings_ok lib env cfg d \<longleftrightarrow>
     (case ensureWritableDir (sn_mkdir env) d (op_DataDirectory (cf_Options cfg)) (sn_names env) (sn_remove env) (sn_now env) of
        (d1, err) \<Rightarrow> err = None \<and>
          (\<exists>backend. new_store (sb_clients lib) cfg d1 (sn_dirs env) = Inr backend \<and>
             store_check (sn_ctx env) (sn_statfs env) (sn_bucket env) backend = None) \<and>
          (\<exists>key. snd (server_signing_key (sn_key env) cfg d1) = Inr key)) \<and>
     sb_limiter lib (op_RateLimitTokens (cf_Options cfg)) (op_RateLimitInterval (cf_Options cfg)) \<noteq> None \<and>
     NewProxyTrust (sb_ip lib) (trusted_proxies cfg) \<noteq> None \<and>
     sn_listen env (op_ListenAddress (cf_Options cfg)) \<and>
     (op_MetricsAddress (cf_Options cfg) \<noteq> [] \<longrightarrow> sn_listen env (op_MetricsAddress (cf_Options cfg)))"

lemma server_signing_key_nonempty:
  assumes "server_signing_key env c d = (d', Inr key)"
  shows "key \<noteq> []"
proof (cases "op_SigningKeyBytes (cf_Options c) = []")
  case True
  with assms loadOrGenerate_stable [of env _ d d' key "env\<lparr>ke_read := False\<rparr>"] show ?thesis
    by (auto simp: server_signing_key_def)
qed (use assms in \<open>simp add: server_signing_key_def\<close>)

text \<open>The signer cannot fail: it only generates a key when it is given none.\<close>

lemma serve_security_result:
  assumes "sb_limiter lib (op_RateLimitTokens (cf_Options cfg)) (op_RateLimitInterval (cf_Options cfg)) = Some limiter"
    and "NewProxyTrust (sb_ip lib) (trusted_proxies cfg) = Some trust"
    and "server_signing_key (sn_key env) cfg d = (d', Inr key)"
  shows "serve_security lib env cfg d =
    (d', Inr (limiter, trust, \<lparr>sg_key = key, sg_expiry = op_URLExpiryDuration (cf_Options cfg)\<rparr>))"
  using server_signing_key_nonempty [OF assms(3)] by (simp add: serve_security_def assms NewURLSigner_def)

lemma serve_security_started:
  assumes "serve_security lib env cfg d = (d', Inr (limiter, trust, signer))"
  shows "sb_limiter lib (op_RateLimitTokens (cf_Options cfg)) (op_RateLimitInterval (cf_Options cfg)) = Some limiter"
    and "NewProxyTrust (sb_ip lib) (trusted_proxies cfg) = Some trust"
    and "\<exists>key. server_signing_key (sn_key env) cfg d = (d', Inr key) \<and>
      signer = \<lparr>sg_key = key, sg_expiry = op_URLExpiryDuration (cf_Options cfg)\<rparr>"
proof -
  from assms obtain key where k: "server_signing_key (sn_key env) cfg d = (d', Inr key)"
    "NewURLSigner (sn_random env) key (op_URLExpiryDuration (cf_Options cfg)) = Inr signer"
    "sb_limiter lib (op_RateLimitTokens (cf_Options cfg)) (op_RateLimitInterval (cf_Options cfg)) = Some limiter"
    "NewProxyTrust (sb_ip lib) (trusted_proxies cfg) = Some trust"
    by (auto simp: serve_security_def split: option.split_asm prod.split_asm sum.split_asm)
  with server_signing_key_nonempty [OF k(1)] show
    "sb_limiter lib (op_RateLimitTokens (cf_Options cfg)) (op_RateLimitInterval (cf_Options cfg)) = Some limiter"
    "NewProxyTrust (sb_ip lib) (trusted_proxies cfg) = Some trust"
    "\<exists>key. server_signing_key (sn_key env) cfg d = (d', Inr key) \<and> signer = \<lparr>sg_key = key, sg_expiry = op_URLExpiryDuration (cf_Options cfg)\<rparr>"
    by (auto simp: NewURLSigner_def)
qed

text \<open>A start that succeeds, step by step.\<close>

lemma serve_start_started:
  assumes "serve_start lib env path d = (d', Inr sd)"
  obtains d1 where "Load (sb_config lib) (sn_config env) path = Inr (sd_config sd)"
    "ensureWritableDir (sn_mkdir env) d (op_DataDirectory (cf_Options (sd_config sd))) (sn_names env) (sn_remove env) (sn_now env) = (d1, None)"
    "new_store (sb_clients lib) (sd_config sd) d1 (sn_dirs env) = Inr (sd_backend sd)"
    "store_check (sn_ctx env) (sn_statfs env) (sn_bucket env) (sd_backend sd) = None"
    "serve_security lib env (sd_config sd) d1 = (d', Inr (sd_limiter sd, sd_trust sd, sd_signer sd))"
    "server_mux (cf_Endpoints (sd_config sd)) = Some (sd_mux sd)"
    "sn_listen env (op_ListenAddress (cf_Options (sd_config sd)))"
  using assms unfolding serve_start_def
  by (auto split: sum.split_asm prod.split_asm option.split_asm if_split_asm)

lemma serve_start_ok:
  assumes "Load (sb_config lib) (sn_config env) path = Inr cfg"
    and "ensureWritableDir (sn_mkdir env) d (op_DataDirectory (cf_Options cfg)) (sn_names env) (sn_remove env) (sn_now env) = (d1, None)"
    and "new_store (sb_clients lib) cfg d1 (sn_dirs env) = Inr backend" "store_check (sn_ctx env) (sn_statfs env) (sn_bucket env) backend = None"
    and "serve_security lib env cfg d1 = (d', Inr (limiter, trust, signer))"
    and "sn_listen env (op_ListenAddress (cf_Options cfg))" "serveMetrics (sn_listen env) (op_MetricsAddress (cf_Options cfg)) = Inr m"
  shows "\<exists>sd. serve_start lib env path d = (d', Inr sd) \<and> sd_config sd = cfg \<and> serves (cf_Endpoints cfg) (sd_mux sd)"
proof -
  obtain mux where "server_mux (cf_Endpoints cfg) = Some mux" "serves (cf_Endpoints cfg) mux"
    using Load_serves [OF assms(1)] by blast
  then show ?thesis by (simp add: serve_start_def assms)
qed

lemma ensureWritableDir_ok: "ensureWritableDir mk d dir names rm now = (d', None) \<Longrightarrow> d' = d"
  using CreateTemp_Some(1) [of d dir "''.write-check-''" names]
  by (auto simp: ensureWritableDir_def CheckWritableDir_def Let_def split: if_splits option.splits)

lemma surroundings_started:
  assumes "serve_start lib env path d = (d', Inr sd)"
  shows "surroundings_ok lib env (sd_config sd) d"
  using assms
proof (cases rule: serve_start_started)
  case (1 d1)
  have "serveMetrics (sn_listen env) (op_MetricsAddress (cf_Options (sd_config sd))) \<noteq> Inl FatalMetricsListen"
    using assms by (auto simp: serve_start_def 1 split: sum.splits)
  with 1 serve_security_started [OF 1(5)] show ?thesis
    by (auto simp: surroundings_ok_def serveMetrics_def split: if_splits)
qed

lemma serve_start_complete:
  assumes "Load (sb_config lib) (sn_config env) path = Inr cfg" "surroundings_ok lib env cfg d"
  shows "\<exists>d' sd. serve_start lib env path d = (d', Inr sd) \<and> sd_config sd = cfg \<and> serves (cf_Endpoints cfg) (sd_mux sd)"
proof -
  obtain d1 backend limiter trust d' key where
    s: "ensureWritableDir (sn_mkdir env) d (op_DataDirectory (cf_Options cfg)) (sn_names env) (sn_remove env) (sn_now env) = (d1, None)"
      "new_store (sb_clients lib) cfg d1 (sn_dirs env) = Inr backend" "store_check (sn_ctx env) (sn_statfs env) (sn_bucket env) backend = None"
      "sn_listen env (op_ListenAddress (cf_Options cfg))"
    and k: "sb_limiter lib (op_RateLimitTokens (cf_Options cfg)) (op_RateLimitInterval (cf_Options cfg)) = Some limiter"
      "NewProxyTrust (sb_ip lib) (trusted_proxies cfg) = Some trust" "server_signing_key (sn_key env) cfg d1 = (d', Inr key)"
  proof -
    obtain d1 err where e: "ensureWritableDir (sn_mkdir env) d (op_DataDirectory (cf_Options cfg)) (sn_names env) (sn_remove env) (sn_now env) = (d1, err)"
      by (meson surj_pair)
    obtain d' k where "server_signing_key (sn_key env) cfg d1 = (d', k)" by (meson surj_pair)
    moreover from assms(2) e this have "err = None" "\<exists>key. k = Inr key" by (auto simp: surroundings_ok_def)
    ultimately show thesis using assms(2) e that by (auto simp: surroundings_ok_def) blast+
  qed
  have "\<exists>m. serveMetrics (sn_listen env) (op_MetricsAddress (cf_Options cfg)) = Inr m"
    using assms(2) by (auto simp: surroundings_ok_def serveMetrics_def)
  with serve_start_ok [OF assms(1) s(1-3) serve_security_result [OF k] s(4)] show ?thesis by blast
qed

lemma no_panic:
  assumes "Load (sb_config lib) (sn_config env) path = Inr cfg"
  shows "snd (serve_start lib env path d) \<noteq> Inl PanicRoutes"
proof -
  have "snd (serve_security lib env cfg d) \<noteq> Inl PanicRoutes" for d
    by (simp add: serve_security_def split: option.splits prod.splits sum.splits)
  moreover have "new_store (sb_clients lib) cfg d (sn_dirs env) \<noteq> Inl PanicRoutes" for d
    by (simp add: new_store_def split: option.splits)
  ultimately show ?thesis
    using Load_serves [OF assms]
    by (auto simp: serve_start_def assms serveMetrics_def split: option.splits prod.splits sum.splits) (metis snd_conv)+
qed

lemma serve_code: "snd (serve lib env ev shutdown_fails path d) \<in> {0, 1}"
proof -
  obtain d' r where r: "serve_start lib env path d = (d', r)" by (meson surj_pair)
  have "r \<noteq> Inl PanicRoutes"
  proof (cases "Load (sb_config lib) (sn_config env) path")
    case (Inl err)
    with r show ?thesis by (auto simp: serve_start_def)
  next
    case (Inr cfg)
    from no_panic [OF this, of d] r show ?thesis by simp
  qed
  then show ?thesis
    by (auto simp: serve_def r serve_exit_def awaitStop_def split: sum.splits start_error.splits stop_event.splits)
qed

text \<open>C23: A configuration that loads is one the server can run: as long as the calls outside the server succeed (the data
  directory, the storage check, the signing key file, the address ranges, the limiter and the listeners), the server
  starts, with every endpoint routed; the routes never conflict and the signer is never without a key. The exit status is 0
  exactly if it started and was stopped by a signal within the shutdown timeout, and 1 otherwise.\<close>

theorem valid_config_serves:
  assumes "Load (sb_config lib) (sn_config env) path = Inr cfg"
  shows "(surroundings_ok lib env cfg d \<longleftrightarrow>
      (\<exists>d' sd. serve_start lib env path d = (d', Inr sd) \<and> sd_config sd = cfg \<and> serves (cf_Endpoints cfg) (sd_mux sd))) \<and>
    snd (serve lib env ev shutdown_fails path d) =
      (if surroundings_ok lib env cfg d \<and> ev = StopSignal \<and> \<not> shutdown_fails then 0 else 1)"
proof (cases "surroundings_ok lib env cfg d")
  case True
  with serve_start_complete [OF assms] obtain d' sd where
    "serve_start lib env path d = (d', Inr sd)" "sd_config sd = cfg" "serves (cf_Endpoints cfg) (sd_mux sd)" by blast
  with True show ?thesis
    by (cases ev) (simp_all add: serve_def serve_exit_def awaitStop_def)
next
  case False
  have n: "serve_start lib env path d \<noteq> (d', Inr sd)" for d' sd
  proof
    assume s: "serve_start lib env path d = (d', Inr sd)"
    then have "sd_config sd = cfg" using assms by (cases rule: serve_start_started) simp
    with surroundings_started [OF s] False show False by simp
  qed
  then obtain d' err where "serve_start lib env path d = (d', Inl err)" by (metis prod.collapse sum.exhaust)
  moreover from this no_panic [OF assms, of d] have "err \<noteq> PanicRoutes" by auto
  ultimately show ?thesis using False n by (auto simp: serve_def split: start_error.splits)
qed

section \<open>Restarts\<close>

lemma signing_key_restart:
  assumes "server_signing_key env cfg d = (d1, Inr key)" "\<not> ke_read env'"
    and "d2 (Join [op_DataDirectory (cf_Options cfg), signingKeyFile]) = d1 (Join [op_DataDirectory (cf_Options cfg), signingKeyFile])"
  shows "server_signing_key env' cfg d2 = (d2, Inr key)"
proof (cases "op_SigningKeyBytes (cf_Options cfg) = []")
  case True
  with assms(1) loadOrGenerate_stable have l: "loadOrGenerateSigningKey env' (op_DataDirectory (cf_Options cfg)) d1 = (d1, Inr key)"
    and g: "loadOrGenerateSigningKey env (op_DataDirectory (cf_Options cfg)) d = (d1, Inr key)"
    using assms(2) by (auto simp: server_signing_key_def)
  from g obtain f where "d1 (Join [op_DataDirectory (cf_Options cfg), signingKeyFile]) = Some f"
    by (auto simp: loadOrGenerateSigningKey_def WriteFile_def Let_def
        split: if_splits option.splits prod.splits write_file_fault.splits)
  with l assms(2,3) True show ?thesis
    by (auto simp: server_signing_key_def loadOrGenerateSigningKey_def Let_def split: option.splits if_splits)
qed (use assms in \<open>simp add: server_signing_key_def\<close>)

text \<open>C33: A restart keeps the signer: when a server with the same configuration starts later, and nobody has touched the
  key file, it signs and verifies with the same key and expiry as before, whatever else has changed on the disk and
  around it, so that URLs handed out before the restart stay good.\<close>

theorem restart_keeps_signer:
  assumes "serve_start lib env path d = (d1, Inr sd)" "serve_start lib' env' path d2 = (d3, Inr sd')"
    and "sb_config lib' = sb_config lib" "sn_config env' = sn_config env"
    and "d2 (Join [op_DataDirectory (cf_Options (sd_config sd)), signingKeyFile]) = d1 (Join [op_DataDirectory (cf_Options (sd_config sd)), signingKeyFile])"
  shows "sd_signer sd' = sd_signer sd"
  using assms(1)
proof (cases rule: serve_start_started)
  case s: (1 e)
  note assms(2)
  then show ?thesis
  proof (cases rule: serve_start_started)
    case t: (1 e')
    have c: "sd_config sd' = sd_config sd" using s(1) t(1) assms(3,4) by simp
    have e: "e = d" "e' = d2" using ensureWritableDir_ok s(2) t(2) by blast+
    obtain key where k: "server_signing_key (sn_key env) (sd_config sd) d = (d1, Inr key)"
      "sd_signer sd = \<lparr>sg_key = key, sg_expiry = op_URLExpiryDuration (cf_Options (sd_config sd))\<rparr>"
      using serve_security_started(3) [OF s(5)] e by blast
    obtain key' where k': "server_signing_key (sn_key env') (sd_config sd) d2 = (d3, Inr key')"
      "sd_signer sd' = \<lparr>sg_key = key', sg_expiry = op_URLExpiryDuration (cf_Options (sd_config sd))\<rparr>"
      using serve_security_started(3) [OF t(5)] e c by auto
    have "op_SigningKeyBytes (cf_Options (sd_config sd)) = [] \<Longrightarrow> \<not> ke_read (sn_key env')"
      using k'(1) by (auto simp: server_signing_key_def loadOrGenerateSigningKey_def)
    with signing_key_restart [OF k(1), of "sn_key env'" d2] assms(5) k(1) k'(1) have "key' = key"
      by (cases "op_SigningKeyBytes (cf_Options (sd_config sd)) = []") (auto simp: server_signing_key_def)
    with k(2) k'(2) show ?thesis by simp
  qed
qed

section \<open>An example start\<close>

definition demo_start_lib :: "(string, string, unit, unit) start_lib" where
  "demo_start_lib = \<lparr>sb_config = demo_config_lib ascii_tables demo_endpoints, sb_ip = demo_ip_lib, sb_clients = (\<lambda>_. None),
     sb_limiter = (\<lambda>_ _. Some ())\<rparr>"

definition demo_start_env :: "unit start_env" where
  "demo_start_env = \<lparr>sn_config = demo_config_env, sn_mkdir = False, sn_names = [1, 2], sn_remove = False, sn_now = 0, sn_dirs = {''data''}, sn_ctx = False,
     sn_statfs = Some (1, 1), sn_bucket = (), sn_key = demo_key_env, sn_random = None, sn_listen = (\<lambda>_. True)\<rparr>"

lemma demo_surroundings:
  assumes "demo_load = Inr c" "server_signing_key demo_key_env c d = (d', Inr key)" "dom d \<subseteq> {p}"
  shows "surroundings_ok demo_start_lib (demo_start_env\<lparr>sn_now := t\<rparr>) c d"
proof -
  have c: "sg_Backend (cf_Storage c) = StorageLocal" using demo_load_settings assms(1) by (metis sum.inject(2))
  let ?dir = "op_DataDirectory (cf_Options c)"
  have "format_nat 1 \<noteq> format_nat 2" by code_simp
  then have "CreateTemp d ?dir ''.write-check-'' [1, 2] \<noteq> None"
    using assms(3) by (auto simp: CreateTemp_def)
  then have "\<exists>d1. ensureWritableDir False d ?dir [1, 2] False t = (d1, None)"
    by (auto simp: ensureWritableDir_def CheckWritableDir_def Let_def)
  then have "ensureWritableDir False d ?dir [1, 2] False t = (d, None)" using ensureWritableDir_ok by blast
  with assms(2) show ?thesis
    by (simp add: surroundings_ok_def demo_start_lib_def demo_start_env_def new_store_def c StorageLocal_def StorageS3_def
        store_check_def Check_def AvailableSpace_def NewProxyTrust_def demo_ip_lib_def)
qed

lemma demo_first_key:
  assumes "demo_load = Inr c"
  shows "\<exists>d key p. server_signing_key demo_key_env c Map.empty = (d, Inr key) \<and> dom d \<subseteq> {p}"
proof -
  have "op_SigningKeyBytes (cf_Options c) = []" using demo_load_settings assms by (metis sum.inject(2))
  then show ?thesis
    by (auto simp: server_signing_key_def loadOrGenerateSigningKey_def demo_key_env_def WriteFile_def Let_def)
qed

lemma demo_start:
  assumes "demo_load = Inr c" "server_signing_key demo_key_env c d = (d', Inr key)" "dom d \<subseteq> {p}"
  shows "\<exists>sd. serve_start demo_start_lib (demo_start_env\<lparr>sn_now := t\<rparr>) DefaultConfigPath d = (d', Inr sd) \<and> sd_config sd = c"
proof -
  have l: "Load (sb_config demo_start_lib) (sn_config (demo_start_env\<lparr>sn_now := t\<rparr>)) DefaultConfigPath = Inr c"
    using assms(1) by (simp add: demo_load_def demo_start_lib_def demo_start_env_def)
  from serve_start_complete [OF l demo_surroundings [OF assms]] obtain d1 sd where
    s: "serve_start demo_start_lib (demo_start_env\<lparr>sn_now := t\<rparr>) DefaultConfigPath d = (d1, Inr sd)" "sd_config sd = c" by blast
  then have "d1 = d'"
  proof (cases rule: serve_start_started [OF s(1)])
    case (1 e)
    have "e = d" using ensureWritableDir_ok [OF 1(2)] .
    with serve_security_started(3) [OF 1(5)] assms(2) s(2) show ?thesis by (auto simp: demo_start_env_def)
  qed
  with s show ?thesis by blast
qed

theorem valid_config_serves_witness:
  "\<exists>c. demo_load = Inr c \<and> snd (serve demo_start_lib (demo_start_env\<lparr>sn_now := 0\<rparr>) StopSignal False DefaultConfigPath Map.empty) = 0"
proof -
  obtain c where c: "demo_load = Inr c" using demo_load_settings by blast
  then have "Load (sb_config demo_start_lib) (sn_config (demo_start_env\<lparr>sn_now := 0\<rparr>)) DefaultConfigPath = Inr c"
    by (simp add: demo_load_def demo_start_lib_def demo_start_env_def)
  moreover obtain d key where "server_signing_key demo_key_env c Map.empty = (d, Inr key)" using demo_first_key [OF c] by blast
  ultimately show ?thesis
    using valid_config_serves [of demo_start_lib "demo_start_env\<lparr>sn_now := 0\<rparr>" DefaultConfigPath c Map.empty StopSignal False]
      demo_surroundings [OF c, of Map.empty d key _ 0] c by auto
qed

theorem restart_keeps_signer_witness:
  "\<exists>d sd d' sd'. serve_start demo_start_lib (demo_start_env\<lparr>sn_now := 0\<rparr>) DefaultConfigPath Map.empty = (d, Inr sd) \<and>
    serve_start demo_start_lib (demo_start_env\<lparr>sn_now := 1\<rparr>) DefaultConfigPath d = (d', Inr sd') \<and> sd_signer sd' = sd_signer sd"
proof -
  obtain c where c: "demo_load = Inr c" using demo_load_settings by blast
  obtain d key p where k: "server_signing_key demo_key_env c Map.empty = (d, Inr key)" "dom d \<subseteq> {p}" using demo_first_key [OF c] by blast
  have r: "server_signing_key demo_key_env c d = (d, Inr key)"
    using signing_key_restart [OF k(1)] by (simp add: demo_key_env_def)
  obtain sd where s: "serve_start demo_start_lib (demo_start_env\<lparr>sn_now := 0\<rparr>) DefaultConfigPath Map.empty = (d, Inr sd)"
    using demo_start [OF c k(1)] by auto
  obtain sd' where t: "serve_start demo_start_lib (demo_start_env\<lparr>sn_now := 1\<rparr>) DefaultConfigPath d = (d, Inr sd')"
    using demo_start [OF c r k(2)] by blast
  from restart_keeps_signer [OF s t refl] s t show ?thesis by (auto simp: demo_start_env_def)
qed

end
