(* ===== verification/Cli.thy ===== *)
theory Cli
  imports Serve
begin

text \<open>
  \<^verbatim>\<open>src/cli.go\<close> and the health check of \<^verbatim>\<open>src/readiness.go\<close>: the command line, the commands and what they print. Go's
  \<^verbatim>\<open>flag.FlagSet\<close> is modelled for the two flags the program defines. The TOML encoder and the HTTP client are
  arguments. What is printed is a list of values of \<^verbatim>\<open>cli_message\<close>, each with what its text shows.
\<close>

section \<open>Flags\<close>

record cli_flags =
  fl_config :: string
  fl_version :: bool

definition no_flags :: cli_flags where "no_flags = \<lparr>fl_config = [], fl_version = False\<rparr>"

datatype cli_error =
    ErrHelp
  | BadFlagSyntax string
  | FlagNotDefined string
  | InvalidBoolValue string string
  | FlagNeedsArgument string
  | UnexpectedArgument string

text \<open>\<^verbatim>\<open>parseOne\<close>: a flag was seen, the flags are over, or an error.\<close>

datatype flag_step = FlagSeen cli_flags "string list" | FlagsOver "string list" | FlagError cli_error

definition flag_name :: "string \<Rightarrow> string" where
  "flag_name s = (if s ! 1 = CHR ''-'' then drop 2 s else drop 1 s)"

text \<open>The name up to the first equals sign after its first byte, and the value behind it.\<close>

definition split_value :: "string \<Rightarrow> string \<times> string option" where
  "split_value name =
     (let rest = dropWhile (\<lambda>c. c \<noteq> CHR ''='') (tl name)
      in (take (length name - length rest) name, if rest = [] then None else Some (tl rest)))"

definition set_flag :: "string \<Rightarrow> string option \<Rightarrow> cli_flags \<Rightarrow> string list \<Rightarrow> flag_step" where
  "set_flag name val fl args =
     (if name = ''version'' then
        (case val of
           None \<Rightarrow> FlagSeen (fl\<lparr>fl_version := True\<rparr>) args
         | Some v \<Rightarrow>
           (case ParseBool v of
              None \<Rightarrow> FlagError (InvalidBoolValue v name)
            | Some b \<Rightarrow> FlagSeen (fl\<lparr>fl_version := b\<rparr>) args))
      else if name = ''config'' then
        (case val of
           Some v \<Rightarrow> FlagSeen (fl\<lparr>fl_config := v\<rparr>) args
         | None \<Rightarrow>
           (case args of
              [] \<Rightarrow> FlagError (FlagNeedsArgument name)
            | v # args' \<Rightarrow> FlagSeen (fl\<lparr>fl_config := v\<rparr>) args'))
      else if name = ''help'' \<or> name = ''h'' then FlagError ErrHelp
      else FlagError (FlagNotDefined name))"

fun parseOne :: "cli_flags \<Rightarrow> string list \<Rightarrow> flag_step" where
  "parseOne fl [] = FlagsOver []"
| "parseOne fl (s # args) =
     (if length s < 2 \<or> s ! 0 \<noteq> CHR ''-'' then FlagsOver (s # args)
      else if s = ''--'' then FlagsOver args
      else let name = flag_name s in
        if name = [] \<or> hd name = CHR ''-'' \<or> hd name = CHR ''='' then FlagError (BadFlagSyntax s)
        else case split_value name of (nm, val) \<Rightarrow> set_flag nm val fl args)"

lemma parseOne_shorter: "parseOne fl args = FlagSeen fl' args' \<Longrightarrow> length args' < length args"
  by (cases args) (auto simp: Let_def set_flag_def split: if_splits prod.splits option.splits list.splits)

text \<open>\<^verbatim>\<open>FlagSet.Parse\<close>: the flags and the arguments after them.\<close>

function Parse :: "cli_flags \<Rightarrow> string list \<Rightarrow> cli_error + (cli_flags \<times> string list)" where
  "Parse fl args =
     (case parseOne fl args of
        FlagSeen fl' args' \<Rightarrow> Parse fl' args'
      | FlagsOver rest \<Rightarrow> Inr (fl, rest)
      | FlagError err \<Rightarrow> Inl err)"
  by pat_completeness auto
termination
  by (relation "measure (\<lambda>(fl, args). length args)") (auto dest: parseOne_shorter)

declare Parse.simps [simp del]

definition parseArgs :: "string list \<Rightarrow> cli_error + (string \<times> cli_flags)" where
  "parseArgs args =
     (case Parse no_flags args of
        Inl err \<Rightarrow> Inl err
      | Inr (fl, []) \<Rightarrow> Inr ([], fl)
      | Inr (fl, command # args') \<Rightarrow>
        (case Parse fl args' of
           Inl err \<Rightarrow> Inl err
         | Inr (fl', []) \<Rightarrow> Inr (command, fl')
         | Inr (fl', arg # _) \<Rightarrow> Inl (UnexpectedArgument arg)))"

section \<open>Commands\<close>

definition commandCheck :: string where "commandCheck = ''check''"
definition commandHealthcheck :: string where "commandHealthcheck = ''healthcheck''"
definition commandVersion :: string where "commandVersion = ''version''"
definition commandHelp :: string where "commandHelp = ''help''"

definition redacted :: string where "redacted = ''<redacted>''"

datatype health_error = HealthConfig load_error | HealthListenAddress string | HealthRequest | HealthUnreachable | HealthAnswer string int string

datatype cli_message =
    MsgUsageError cli_error
  | MsgUnknownCommand string
  | MsgUsage
  | MsgVersion
  | MsgInvalid string "problem list"
  | MsgFailed load_error
  | MsgValid string
  | MsgConfig string
  | MsgPrintFailed
  | MsgHealth health_error
  | MsgReady

record cli_output =
  co_code :: int
  co_stdout :: "cli_message list"
  co_stderr :: "cli_message list"

text \<open>The defaults spelt out, without the S3 settings of another backend, and the secrets redacted.\<close>

definition effectiveConfig :: "config \<Rightarrow> config" where
  "effectiveConfig cfg =
     (let out = set_options (\<lambda>opts. opts\<lparr>op_AccessLog := Some (AccessLogEnabled (cf_Options cfg))\<rparr>) cfg;
          out = (if op_SigningKey (cf_Options out) \<noteq> [] then set_options (\<lambda>opts. opts\<lparr>op_SigningKey := redacted\<rparr>) out else out)
      in if sg_Backend (cf_Storage cfg) \<noteq> StorageS3 then
           out\<lparr>cf_Storage := zero_storage\<lparr>sg_Backend := sg_Backend (cf_Storage cfg)\<rparr>\<rparr>
         else
           (let out = set_storage (\<lambda>s. s\<lparr>sg_S3PresignedURLs := Some (S3PresignedURLsEnabled (cf_Storage cfg)),
                        sg_S3ForcePathStyle := Some (S3ForcePathStyleEnabled (cf_Storage cfg))\<rparr>) out
            in if sg_S3SecretAccessKey (cf_Storage out) \<noteq> [] then set_storage (\<lambda>s. s\<lparr>sg_S3SecretAccessKey := redacted\<rparr>) out else out))"

text \<open>The encoder writes some text and may fail.\<close>

definition runCheck :: "config_lib \<Rightarrow> (config \<Rightarrow> string \<times> bool) \<Rightarrow> config_env \<Rightarrow> string \<Rightarrow> cli_output" where
  "runCheck lib encode e configPath =
     (case Load lib e configPath of
        Inl (ValidationError problems) \<Rightarrow> \<lparr>co_code = 1, co_stdout = [], co_stderr = [MsgInvalid configPath problems]\<rparr>
      | Inl err \<Rightarrow> \<lparr>co_code = 1, co_stdout = [], co_stderr = [MsgFailed err]\<rparr>
      | Inr cfg \<Rightarrow>
        (case encode (effectiveConfig cfg) of
           (text, failed) \<Rightarrow>
             \<lparr>co_code = (if failed then 1 else 0), co_stdout = [MsgValid configPath, MsgConfig text],
              co_stderr = (if failed then [MsgPrintFailed] else [])\<rparr>))"

section \<open>The health check\<close>

definition JoinHostPort :: "string \<Rightarrow> string \<Rightarrow> string" where
  "JoinHostPort host port = (if CHR '':'' \<in> set host then ''['' @ host @ '']:'' @ port else host @ CHR '':'' # port)"

definition readyURL :: "string \<Rightarrow> string option" where
  "readyURL listenAddress =
     (case SplitHostPort listenAddress of
        None \<Rightarrow> None
      | Some (host, port) \<Rightarrow>
        (let host = (if host = [] \<or> host = ''0.0.0.0'' then ''127.0.0.1'' else if host = ''::'' then ''::1'' else host)
         in Some (''http://'' @ JoinHostPort host port @ ''/ready'')))"

text \<open>What the HTTP client answers: the URL is no request, the server is not reached in time, or a status and a body.\<close>

datatype get_answer = GetInvalid | GetFailed | GetAnswered int bytes

definition checkReady :: "(string \<Rightarrow> get_answer) \<Rightarrow> string \<Rightarrow> health_error option" where
  "checkReady get url =
     (case get url of
        GetInvalid \<Rightarrow> Some HealthRequest
      | GetFailed \<Rightarrow> Some HealthUnreachable
      | GetAnswered status body \<Rightarrow>
        if status \<noteq> 200 then Some (HealthAnswer url status (TrimSpace (take 512 body))) else None)"

definition runHealthcheck :: "config_lib \<Rightarrow> (string \<Rightarrow> get_answer) \<Rightarrow> config_env \<Rightarrow> string \<Rightarrow> cli_output" where
  "runHealthcheck lib get e configPath =
     (case Load lib e configPath of
        Inl err \<Rightarrow> \<lparr>co_code = 1, co_stdout = [], co_stderr = [MsgHealth (HealthConfig err)]\<rparr>
      | Inr cfg \<Rightarrow>
        (case (case readyURL (op_ListenAddress (cf_Options cfg)) of
                 None \<Rightarrow> Some (HealthListenAddress (op_ListenAddress (cf_Options cfg)))
               | Some url \<Rightarrow> checkReady get url) of
           Some err \<Rightarrow> \<lparr>co_code = 1, co_stdout = [], co_stderr = [MsgHealth err]\<rparr>
         | None \<Rightarrow> \<lparr>co_code = 0, co_stdout = [MsgReady], co_stderr = []\<rparr>))"

section \<open>The program\<close>

record ('n, 'i, 'b, 'm) cli_lib = "('n, 'i, 'b, 'm) start_lib" +
  cb_encode :: "config \<Rightarrow> string \<times> bool"
  cb_get :: "string \<Rightarrow> get_answer"

record 'b cli_env = "'b start_env" +
  cv_stop :: stop_event
  cv_shutdown_fails :: bool

definition runCommand :: "('n, 'i, 'b, 'm) cli_lib \<Rightarrow> 'b cli_env \<Rightarrow> string list \<Rightarrow> disk \<Rightarrow> disk \<times> cli_output" where
  "runCommand lib env args d =
     (let help = (d, \<lparr>co_code = 0, co_stdout = [MsgUsage], co_stderr = []\<rparr>) in
      case parseArgs args of
        Inl ErrHelp \<Rightarrow> help
      | Inl err \<Rightarrow> (d, \<lparr>co_code = 2, co_stdout = [], co_stderr = [MsgUsageError err, MsgUsage]\<rparr>)
      | Inr (command, fl) \<Rightarrow>
        (let command = (if fl_version fl then commandVersion else command);
             configPath = ResolvePath (sn_config env) (fl_config fl)
         in if command = [] then
              (case serve (start_lib.truncate lib) (start_env.truncate env) (cv_stop env) (cv_shutdown_fails env) configPath d of
                 (d', code) \<Rightarrow> (d', \<lparr>co_code = code, co_stdout = [], co_stderr = []\<rparr>))
            else if command = commandCheck then (d, runCheck (sb_config lib) (cb_encode lib) (sn_config env) configPath)
            else if command = commandHealthcheck then (d, runHealthcheck (sb_config lib) (cb_get lib) (sn_config env) configPath)
            else if command = commandVersion then (d, \<lparr>co_code = 0, co_stdout = [MsgVersion], co_stderr = []\<rparr>)
            else if command = commandHelp then help
            else (d, \<lparr>co_code = 2, co_stdout = [], co_stderr = [MsgUnknownCommand command, MsgUsage]\<rparr>)))"

section \<open>Flags on both sides\<close>

lemma set_flag_append:
  "set_flag nm val fl args = FlagSeen fl' args' \<Longrightarrow> set_flag nm val fl (args @ rest) = FlagSeen fl' (args' @ rest)"
  by (auto simp: set_flag_def split: if_splits option.splits list.splits)

lemma parseOne_append: "parseOne fl args = FlagSeen fl' args' \<Longrightarrow> parseOne fl (args @ rest) = FlagSeen fl' (args' @ rest)"
  by (cases args) (auto simp: Let_def set_flag_append split: if_splits prod.splits)

lemma Parse_append:
  assumes "Parse fl fs = Inr (fl', [])" "''--'' \<notin> set fs"
  shows "Parse fl (fs @ rest) = Parse fl' rest"
  using assms
proof (induction fl fs rule: Parse.induct)
  case (1 fl fs)
  show ?case
  proof (cases "parseOne fl fs")
    case (FlagSeen fl1 fs1)
    have "''--'' \<notin> set fs1"
      using FlagSeen 1(3) by (cases fs) (auto simp: Let_def set_flag_def split: if_splits prod.splits option.splits list.splits)
    then have "Parse fl1 (fs1 @ rest) = Parse fl' rest"
      using 1(1) [OF FlagSeen] 1(2) by (simp add: Parse.simps [of fl fs] FlagSeen)
    then show ?thesis by (simp add: Parse.simps [of fl "fs @ rest"] parseOne_append [OF FlagSeen])
  next
    case (FlagsOver args)
    then have "args = []" "fl' = fl" using 1(2) by (simp_all add: Parse.simps [of fl fs])
    then have "fs = []" using FlagsOver 1(3) by (cases fs) (auto simp: Let_def set_flag_def split: if_splits prod.splits option.splits list.splits)
    then show ?thesis using \<open>fl' = fl\<close> by simp
  qed (use 1(2) in \<open>simp add: Parse.simps [of fl fs]\<close>)
qed

text \<open>The flags may stand on either side of the command: for every command word (one that is not itself a flag) the command line
  with complete flags before it means the same as the one with those flags after it, whatever follows, errors included.\<close>

theorem flags_either_side:
  assumes "Parse no_flags fs = Inr (fl, [])" "''--'' \<notin> set fs" "length command < 2 \<or> command ! 0 \<noteq> CHR ''-''"
  shows "parseArgs (fs @ command # gs) = parseArgs (command # fs @ gs)"
proof -
  have c: "Parse f (command # xs) = Inr (f, command # xs)" for f xs
    using assms(3) by (simp add: Parse.simps)
  show ?thesis by (simp add: parseArgs_def Parse_append [OF assms(1,2)] c)
qed

theorem flags_either_side_witness:
  "parseArgs [''--config'', ''/etc/lfs.toml'', ''check''] = parseArgs [''check'', ''--config'', ''/etc/lfs.toml'']"
proof -
  have "Parse no_flags [''--config'', ''/etc/lfs.toml''] = Inr (no_flags\<lparr>fl_config := ''/etc/lfs.toml''\<rparr>, [])"
    by (simp add: Parse.simps flag_name_def split_value_def set_flag_def)
  from flags_either_side [OF this, of "''check''" "[]"] show ?thesis by simp
qed

section \<open>Exit status\<close>

definition usage_error :: "string list \<Rightarrow> bool" where
  "usage_error args \<longleftrightarrow>
     (case parseArgs args of
        Inl err \<Rightarrow> err \<noteq> ErrHelp
      | Inr (command, fl) \<Rightarrow> \<not> fl_version fl \<and> command \<notin> {[], commandCheck, commandHealthcheck, commandVersion, commandHelp})"

definition starts_server :: "string list \<Rightarrow> bool" where
  "starts_server args \<longleftrightarrow> (\<exists>fl. parseArgs args = Inr ([], fl) \<and> \<not> fl_version fl)"

lemma command_names:
  "commandCheck \<noteq> []" "commandHealthcheck \<noteq> []" "commandVersion \<noteq> []" "commandHelp \<noteq> []"
  by (simp_all add: commandCheck_def commandHealthcheck_def commandVersion_def commandHelp_def)

lemma runCheck_code: "co_code (runCheck lib encode e path) \<in> {0, 1}"
  by (simp add: runCheck_def split: sum.splits load_error.splits prod.splits)

lemma runHealthcheck_code: "co_code (runHealthcheck lib get e path) \<in> {0, 1}"
  by (simp add: runHealthcheck_def split: sum.splits option.splits)

text \<open>The exit status is 2 exactly for a command line the program does not understand; then nothing but usage is
  printed, to the error stream. Only a command line without a command starts the server; every other one leaves the disk as it is.
  (A configuration that loads never makes the server panic, and one that does not load ends with status 1.)\<close>

theorem command_line_status:
  "(case runCommand lib env args d of
      (d', out) \<Rightarrow> (co_code out = 2 \<longleftrightarrow> usage_error args) \<and> co_code out \<in> {0, 1, 2} \<and>
        (usage_error args \<longrightarrow> co_stdout out = [] \<and> MsgUsage \<in> set (co_stderr out)) \<and>
        (d' \<noteq> d \<longrightarrow> starts_server args))"
proof (cases "parseArgs args")
  case (Inl err)
  then show ?thesis by (cases err) (simp_all add: runCommand_def usage_error_def starts_server_def)
next
  case (Inr r)
  obtain command fl where r: "r = (command, fl)" by (rule prod.exhaust)
  let ?command = "if fl_version fl then commandVersion else command" and ?path = "ResolvePath (sn_config env) (fl_config fl)"
  have u: "usage_error args \<longleftrightarrow> ?command \<notin> {[], commandCheck, commandHealthcheck, commandVersion, commandHelp}"
    "starts_server args \<longleftrightarrow> ?command = []"
    using Inr r by (auto simp: usage_error_def starts_server_def command_names)
  show ?thesis
  proof (cases "?command = []")
    case True
    obtain d' code where s: "serve (start_lib.truncate lib) (start_env.truncate env) (cv_stop env) (cv_shutdown_fails env) ?path d = (d', code)"
      by (meson surj_pair)
    with serve_code [of "start_lib.truncate lib" "start_env.truncate env" "cv_stop env" "cv_shutdown_fails env" ?path d]
    have "code \<in> {0, 1}" by simp
    with True s show ?thesis
      by (auto simp: runCommand_def Inr r Let_def u split: if_splits)
  next
    case False
    with runCheck_code [of "sb_config lib" "cb_encode lib" "sn_config env" ?path]
      runHealthcheck_code [of "sb_config lib" "cb_get lib" "sn_config env" ?path]
    show ?thesis unfolding u by (auto simp: runCommand_def Inr r Let_def)
  qed
qed

definition demo_cli_lib :: "(string, string, unit, unit) cli_lib" where
  "demo_cli_lib = start_lib.extend demo_start_lib \<lparr>cb_encode = (\<lambda>c. (op_SigningKey (cf_Options c), False)), cb_get = (\<lambda>_. GetFailed)\<rparr>"

definition demo_cli_env :: "unit cli_env" where
  "demo_cli_env = start_env.extend demo_start_env \<lparr>cv_stop = StopSignal, cv_shutdown_fails = False\<rparr>"

theorem command_line_status_witness:
  "\<exists>d out. runCommand demo_cli_lib demo_cli_env [''-verbose''] Map.empty = (d, out) \<and> co_code out = 2 \<and> co_stdout out = [] \<and> d = Map.empty"
proof -
  have "parseArgs [''-verbose''] = Inl (FlagNotDefined ''verbose'')"
    by (simp add: parseArgs_def Parse.simps flag_name_def split_value_def set_flag_def)
  then have "usage_error [''-verbose'']" "\<not> starts_server [''-verbose'']" by (simp_all add: usage_error_def starts_server_def)
  with command_line_status [where lib = demo_cli_lib and env = demo_cli_env and args = "[''-verbose'']" and d = Map.empty] show ?thesis by (auto split: prod.splits)
qed

end
