(* ===== verification/Cli_Secrets.thy ===== *)
theory Cli_Secrets
  imports Cli
begin

text \<open>
  What \<^verbatim>\<open>anchor-lfs check\<close> prints does not depend on the secrets: two configurations that differ only in the signing key
  and in the S3 secret, from the file, the environment or a file the environment names, print the same. The proof follows
  the steps of \<^verbatim>\<open>Load\<close> pairwise, as a noninterference argument does.
\<close>

section \<open>Secrets\<close>

text \<open>A configuration without its secrets: only whether they are set remains.\<close>

definition hide_secrets :: "config \<Rightarrow> config" where
  "hide_secrets c =
     set_storage (\<lambda>s. s\<lparr>sg_S3SecretAccessKey := (if sg_S3SecretAccessKey s = [] then [] else redacted)\<rparr>)
     (set_options (\<lambda>opts. opts\<lparr>op_SigningKey := (if op_SigningKey opts = [] then [] else redacted), op_SigningKeyBytes := []\<rparr>) c)"

text \<open>The fields the struct tags of \<^verbatim>\<open>src/config/config.go\<close> leave out of the file: the encoder does not read them.\<close>

definition tagged_endpoint :: "endpoint \<Rightarrow> endpoint" where
  "tagged_endpoint ep = ep\<lparr>ep_GitHubOwner := [], ep_GitHubRepo := [], ep_GitHubBaseURL := None\<rparr>"

definition tagged :: "config \<Rightarrow> config" where
  "tagged c = \<lparr>cf_Options = (cf_Options c)\<lparr>op_UploadIdleTimeoutDuration := 0, op_RateLimitInterval := 0, op_AuthCacheDuration := 0,
       op_SigningKeyBytes := [], op_URLExpiryDuration := 0, op_ShutdownTimeoutDuration := 0\<rparr>,
     cf_Storage = cf_Storage c, cf_Endpoints = map tagged_endpoint (cf_Endpoints c)\<rparr>"

definition encodes_tagged :: "(config \<Rightarrow> string \<times> bool) \<Rightarrow> bool" where
  "encodes_tagged encode \<longleftrightarrow> (\<forall>c. encode c = encode (tagged c))"

lemma redacted_nonempty [simp]: "redacted \<noteq> []" "[] \<noteq> redacted"
  by (simp_all add: redacted_def)

lemma options_restore:
  "opts\<lparr>op_SigningKey := x, op_SigningKeyBytes := y\<rparr> = opts'\<lparr>op_SigningKey := x', op_SigningKeyBytes := y'\<rparr> \<Longrightarrow>
    opts' = opts\<lparr>op_SigningKey := op_SigningKey opts', op_SigningKeyBytes := op_SigningKeyBytes opts'\<rparr>"
proof -
  assume e: "opts\<lparr>op_SigningKey := x, op_SigningKeyBytes := y\<rparr> = opts'\<lparr>op_SigningKey := x', op_SigningKeyBytes := y'\<rparr>"
  have "opts' = (opts'\<lparr>op_SigningKey := x', op_SigningKeyBytes := y'\<rparr>)\<lparr>op_SigningKey := op_SigningKey opts', op_SigningKeyBytes := op_SigningKeyBytes opts'\<rparr>"
    by simp
  then show ?thesis unfolding e [symmetric] by simp
qed

lemma storage_restore:
  "st\<lparr>sg_S3SecretAccessKey := x\<rparr> = st'\<lparr>sg_S3SecretAccessKey := x'\<rparr> \<Longrightarrow> st' = st\<lparr>sg_S3SecretAccessKey := sg_S3SecretAccessKey st'\<rparr>"
proof -
  assume e: "st\<lparr>sg_S3SecretAccessKey := x\<rparr> = st'\<lparr>sg_S3SecretAccessKey := x'\<rparr>"
  have "st' = (st'\<lparr>sg_S3SecretAccessKey := x'\<rparr>)\<lparr>sg_S3SecretAccessKey := sg_S3SecretAccessKey st'\<rparr>" by simp
  then show ?thesis unfolding e [symmetric] by simp
qed

lemma hide_secrets_fields:
  "cf_Options (hide_secrets c) =
    (cf_Options c)\<lparr>op_SigningKey := (if op_SigningKey (cf_Options c) = [] then [] else redacted), op_SigningKeyBytes := []\<rparr>"
  "cf_Storage (hide_secrets c) =
    (cf_Storage c)\<lparr>sg_S3SecretAccessKey := (if sg_S3SecretAccessKey (cf_Storage c) = [] then [] else redacted)\<rparr>"
  "cf_Endpoints (hide_secrets c) = cf_Endpoints c"
  by (simp_all add: hide_secrets_def)

lemma hide_secretsE:
  assumes "hide_secrets c = hide_secrets c'"
  obtains k b s where "c' = set_storage (\<lambda>st. st\<lparr>sg_S3SecretAccessKey := s\<rparr>) (set_options (\<lambda>opts. opts\<lparr>op_SigningKey := k, op_SigningKeyBytes := b\<rparr>) c)"
    "(k = []) = (op_SigningKey (cf_Options c) = [])" "(s = []) = (sg_S3SecretAccessKey (cf_Storage c) = [])"
proof -
  have o: "(cf_Options c)\<lparr>op_SigningKey := (if op_SigningKey (cf_Options c) = [] then [] else redacted), op_SigningKeyBytes := []\<rparr> =
      (cf_Options c')\<lparr>op_SigningKey := (if op_SigningKey (cf_Options c') = [] then [] else redacted), op_SigningKeyBytes := []\<rparr>"
    using arg_cong [OF assms, of cf_Options] unfolding hide_secrets_fields .
  have s: "(cf_Storage c)\<lparr>sg_S3SecretAccessKey := (if sg_S3SecretAccessKey (cf_Storage c) = [] then [] else redacted)\<rparr> =
      (cf_Storage c')\<lparr>sg_S3SecretAccessKey := (if sg_S3SecretAccessKey (cf_Storage c') = [] then [] else redacted)\<rparr>"
    using arg_cong [OF assms, of cf_Storage] unfolding hide_secrets_fields .
  have e: "cf_Endpoints c = cf_Endpoints c'"
    using arg_cong [OF assms, of cf_Endpoints] unfolding hide_secrets_fields .
  show thesis
  proof (rule that)
    show "c' = set_storage (\<lambda>st. st\<lparr>sg_S3SecretAccessKey := sg_S3SecretAccessKey (cf_Storage c')\<rparr>)
        (set_options (\<lambda>opts. opts\<lparr>op_SigningKey := op_SigningKey (cf_Options c'), op_SigningKeyBytes := op_SigningKeyBytes (cf_Options c')\<rparr>) c)"
      using options_restore [OF o] storage_restore [OF s] e by (intro config.equality) simp_all
    show "(op_SigningKey (cf_Options c') = []) = (op_SigningKey (cf_Options c) = [])"
      using arg_cong [OF o, of op_SigningKey] by (simp split: if_splits)
    show "(sg_S3SecretAccessKey (cf_Storage c') = []) = (sg_S3SecretAccessKey (cf_Storage c) = [])"
      using arg_cong [OF s, of sg_S3SecretAccessKey] by (simp split: if_splits)
  qed
qed

lemma hide_secretsI:
  "(k = []) = (op_SigningKey (cf_Options c) = []) \<Longrightarrow> (s = []) = (sg_S3SecretAccessKey (cf_Storage c) = []) \<Longrightarrow>
    hide_secrets c = hide_secrets (set_storage (\<lambda>st. st\<lparr>sg_S3SecretAccessKey := s\<rparr>) (set_options (\<lambda>opts. opts\<lparr>op_SigningKey := k, op_SigningKeyBytes := b\<rparr>) c))"
  by (intro config.equality) (simp_all add: hide_secrets_def)

text \<open>Two steps that both succeed on configurations which differ only in secrets leave configurations that do.\<close>

definition blind :: "config_step \<Rightarrow> config_step \<Rightarrow> bool" where
  "blind f g \<longleftrightarrow> (\<forall>c c' c1 c1'. hide_secrets c = hide_secrets c' \<longrightarrow> f c = ([], c1) \<longrightarrow> g c' = ([], c1') \<longrightarrow>
     hide_secrets c1 = hide_secrets c1')"

lemma blindD: "blind f g \<Longrightarrow> hide_secrets c = hide_secrets c' \<Longrightarrow> f c = ([], c1) \<Longrightarrow> g c' = ([], c1') \<Longrightarrow> hide_secrets c1 = hide_secrets c1'"
  unfolding blind_def by blast

lemma run_stages_blind:
  "list_all2 blind fs gs \<Longrightarrow> blind (run_stages fs) (run_stages gs)"
proof (induction rule: list_all2_induct)
  case Nil
  show ?case by (simp add: blind_def)
next
  case (Cons f fs g gs)
  show ?case unfolding blind_def
  proof (intro allI impI)
    fix c c' c1 c1'
    assume h: "hide_secrets c = hide_secrets c'" "run_stages (f # fs) c = ([], c1)" "run_stages (g # gs) c' = ([], c1')"
    then obtain d d' where "f c = ([], d)" "run_stages fs d = ([], c1)" "g c' = ([], d')" "run_stages gs d' = ([], c1')"
      by (auto simp: run_stages_Cons_ok simp del: run_stages.simps(2))
    with blindD [OF Cons(1) h(1)] blindD [OF Cons(3)] show "hide_secrets c1 = hide_secrets c1'" by blast
  qed
qed

text \<open>A public setting commutes with hiding.\<close>

lemma blind_update:
  assumes "\<And>c. hide_secrets (upd c) = upd (hide_secrets c)"
  shows "hide_secrets c = hide_secrets c' \<Longrightarrow> hide_secrets (upd c) = hide_secrets (upd c')"
  by (simp add: assms)

lemma blind_override:
  "Getenv e n = Getenv e' n \<Longrightarrow> (\<And>v c. hide_secrets (upd v c) = upd v (hide_secrets c)) \<Longrightarrow> blind (override e n upd) (override e' n upd)"
  by (auto simp: blind_def override_def Let_def)

lemma blind_overrideBool:
  "Getenv e n = Getenv e' n \<Longrightarrow> (\<And>v c. hide_secrets (upd v c) = upd v (hide_secrets c)) \<Longrightarrow> blind (overrideBool e n upd) (overrideBool e' n upd)"
  by (auto simp: blind_def overrideBool_def Let_def split: option.splits if_splits)

text \<open>A secret that is set is set to something, and which is hidden.\<close>

lemma blind_overrideSecret:
  assumes "(Getenv e n = []) = (Getenv e' n = [])" "Getenv e (n @ ''_FILE'') = Getenv e' (n @ ''_FILE'')"
    and "\<And>v v' c c'. v \<noteq> [] \<Longrightarrow> v' \<noteq> [] \<Longrightarrow> hide_secrets c = hide_secrets c' \<Longrightarrow> hide_secrets (upd v c) = hide_secrets (upd v' c')"
  shows "blind (overrideSecret e n upd) (overrideSecret e' n upd)"
  using assms(1,2) by (auto simp: blind_def overrideSecret_def Let_def intro!: assms(3) split: option.splits if_splits)

lemma blind_overridePublic:
  assumes "Getenv e n = Getenv e' n" "Getenv e (n @ ''_FILE'') = Getenv e' (n @ ''_FILE'')"
    and "ce_read_file e (Getenv e (n @ ''_FILE'')) = ce_read_file e' (Getenv e (n @ ''_FILE''))"
    and "\<And>v c. hide_secrets (upd v c) = upd v (hide_secrets c)"
  shows "blind (overrideSecret e n upd) (overrideSecret e' n upd)"
  using assms by (auto simp: blind_def overrideSecret_def Let_def split: option.splits if_splits)

text \<open>Environments that differ only in the two secrets, and in the files but the one with the id of the access key.\<close>

definition secretVariables :: "string set" where
  "secretVariables = {''ANCHOR_LFS_SIGNING_KEY'', ''ANCHOR_LFS_S3_SECRET_ACCESS_KEY''}"

definition same_public_env :: "config_env \<Rightarrow> config_env \<Rightarrow> bool" where
  "same_public_env e e' \<longleftrightarrow>
     (\<forall>n. if n \<in> secretVariables then (Getenv e n = []) = (Getenv e' n = []) else ce_env e n = ce_env e' n) \<and>
     (let idFile = Getenv e ''ANCHOR_LFS_S3_ACCESS_KEY_ID_FILE'' in ce_read_file e idFile = ce_read_file e' idFile)"

lemma same_public_envD:
  assumes "same_public_env e e'"
  shows "n \<notin> secretVariables \<Longrightarrow> ce_env e n = ce_env e' n" "n \<notin> secretVariables \<Longrightarrow> Getenv e n = Getenv e' n"
    "(Getenv e ''ANCHOR_LFS_SIGNING_KEY'' = []) = (Getenv e' ''ANCHOR_LFS_SIGNING_KEY'' = [])"
    "(Getenv e ''ANCHOR_LFS_S3_SECRET_ACCESS_KEY'' = []) = (Getenv e' ''ANCHOR_LFS_S3_SECRET_ACCESS_KEY'' = [])"
    "ce_read_file e (Getenv e ''ANCHOR_LFS_S3_ACCESS_KEY_ID_FILE'') = ce_read_file e' (Getenv e ''ANCHOR_LFS_S3_ACCESS_KEY_ID_FILE'')"
proof -
  have n: "if n \<in> secretVariables then (Getenv e n = []) = (Getenv e' n = []) else ce_env e n = ce_env e' n" for n
    using assms unfolding same_public_env_def by blast
  show "n \<notin> secretVariables \<Longrightarrow> ce_env e n = ce_env e' n" "n \<notin> secretVariables \<Longrightarrow> Getenv e n = Getenv e' n"
    using n [of n] by (auto simp: Getenv_def)
  show "(Getenv e ''ANCHOR_LFS_SIGNING_KEY'' = []) = (Getenv e' ''ANCHOR_LFS_SIGNING_KEY'' = [])"
    "(Getenv e ''ANCHOR_LFS_S3_SECRET_ACCESS_KEY'' = []) = (Getenv e' ''ANCHOR_LFS_S3_SECRET_ACCESS_KEY'' = [])"
    using n [of "''ANCHOR_LFS_SIGNING_KEY''"] n [of "''ANCHOR_LFS_S3_SECRET_ACCESS_KEY''"] by (simp_all only: secretVariables_def insert_iff if_True simp_thms)
  show "ce_read_file e (Getenv e ''ANCHOR_LFS_S3_ACCESS_KEY_ID_FILE'') = ce_read_file e' (Getenv e ''ANCHOR_LFS_S3_ACCESS_KEY_ID_FILE'')"
    using assms by (simp add: same_public_env_def Let_def)
qed

lemma hide_signing_key:
  "v \<noteq> [] \<Longrightarrow> v' \<noteq> [] \<Longrightarrow> hide_secrets c = hide_secrets c' \<Longrightarrow>
    hide_secrets (set_options (\<lambda>opts. opts\<lparr>op_SigningKey := v\<rparr>) c) = hide_secrets (set_options (\<lambda>opts. opts\<lparr>op_SigningKey := v'\<rparr>) c')"
  by (erule hide_secretsE) (intro config.equality, simp_all add: hide_secrets_def)

lemma hide_access_key:
  "v \<noteq> [] \<Longrightarrow> v' \<noteq> [] \<Longrightarrow> hide_secrets c = hide_secrets c' \<Longrightarrow>
    hide_secrets (set_storage (\<lambda>s. s\<lparr>sg_S3SecretAccessKey := v\<rparr>) c) = hide_secrets (set_storage (\<lambda>s. s\<lparr>sg_S3SecretAccessKey := v'\<rparr>) c')"
  by (erule hide_secretsE) (intro config.equality, simp_all add: hide_secrets_def)

lemma blindI:
  assumes "\<And>c c1. f c = ([], c1) \<Longrightarrow> c1 = upd c" "\<And>c c1. g c = ([], c1) \<Longrightarrow> c1 = upd c"
    and "\<And>c. hide_secrets (upd c) = upd (hide_secrets c)"
  shows "blind f g"
  unfolding blind_def using assms by metis

lemmas hide_simps = hide_secrets_def set_options_def set_storage_def

lemma blind_override_proxies: "same_public_env e e' \<Longrightarrow> blind (override_proxies e) (override_proxies e')"
  using same_public_envD(1) [of e e' "''ANCHOR_LFS_TRUSTED_PROXIES''"]
  by (intro blindI [of _ "\<lambda>c. case ce_env e ''ANCHOR_LFS_TRUSTED_PROXIES'' of None \<Rightarrow> c | Some v \<Rightarrow>
      set_options (\<lambda>opts. opts\<lparr>op_TrustedProxies := Some (filter (\<lambda>entry. entry \<noteq> []) (map TrimSpace (Split v CHR '','')))\<rparr>) c"])
    (auto simp: override_proxies_def secretVariables_def hide_simps split: option.splits)

lemma blind_override_max_upload: "same_public_env e e' \<Longrightarrow> blind (override_max_upload e) (override_max_upload e')"
  using same_public_envD(2) [of e e' "''ANCHOR_LFS_MAX_UPLOAD_SIZE''"]
  by (intro blindI [of _ "\<lambda>c. if Getenv e ''ANCHOR_LFS_MAX_UPLOAD_SIZE'' = [] then c else
      set_options (\<lambda>opts. opts\<lparr>op_MaxUploadSize := the (ParseInt (Getenv e ''ANCHOR_LFS_MAX_UPLOAD_SIZE''))\<rparr>) c"])
    (auto simp: override_max_upload_def Let_def secretVariables_def hide_simps split: option.splits if_splits)

lemma blind_override_rate_tokens: "same_public_env e e' \<Longrightarrow> blind (override_rate_tokens e) (override_rate_tokens e')"
  using same_public_envD(2) [of e e' "''ANCHOR_LFS_RATE_LIMIT_TOKENS''"]
  by (intro blindI [of _ "\<lambda>c. if Getenv e ''ANCHOR_LFS_RATE_LIMIT_TOKENS'' = [] then c else
      set_options (\<lambda>opts. opts\<lparr>op_RateLimitTokens := the (ParseUint (Getenv e ''ANCHOR_LFS_RATE_LIMIT_TOKENS'') 64)\<rparr>) c"])
    (auto simp: override_rate_tokens_def Let_def secretVariables_def hide_simps split: option.splits if_splits)

lemma blind_option_overrides:
  assumes "same_public_env e e'"
  shows "list_all2 blind (option_overrides e) (option_overrides e')"
proof -
  note g = same_public_envD(2) [OF assms] and d = same_public_envD(3-5) [OF assms]
  show ?thesis
    unfolding option_overrides_def
    by (intro list.rel_intros blind_override blind_overrideBool blind_overrideSecret g d hide_signing_key
        blind_override_proxies [OF assms] blind_override_max_upload [OF assms] blind_override_rate_tokens [OF assms])
      (simp_all add: secretVariables_def hide_simps)
qed

lemma blind_storage_overrides:
  assumes "same_public_env e e'"
  shows "list_all2 blind (storage_overrides e) (storage_overrides e')"
proof -
  note g = same_public_envD(2) [OF assms] and d = same_public_envD(3-5) [OF assms]
  have k: "blind (overrideSecret e ''ANCHOR_LFS_S3_ACCESS_KEY_ID'' (\<lambda>v. set_storage (\<lambda>s. s\<lparr>sg_S3AccessKeyID := v\<rparr>)))
      (overrideSecret e' ''ANCHOR_LFS_S3_ACCESS_KEY_ID'' (\<lambda>v. set_storage (\<lambda>s. s\<lparr>sg_S3AccessKeyID := v\<rparr>)))"
    using d(3) by (intro blind_overridePublic g) (simp_all add: secretVariables_def hide_simps)
  show ?thesis
    unfolding storage_overrides_def
    by (intro list.rel_intros k blind_override blind_overrideBool blind_overrideSecret g d hide_access_key)
      (simp_all add: secretVariables_def hide_simps)
qed

section \<open>The steps of Load\<close>

lemma blind_parse:
  "blind parseRateLimitWindow parseRateLimitWindow"
  "blind parseAuthCacheTTL parseAuthCacheTTL"
  "blind parseURLExpiry parseURLExpiry"
  "blind parseShutdownTimeout parseShutdownTimeout"
  "blind parseUploadIdleTimeout parseUploadIdleTimeout"
proof -
  show "blind parseRateLimitWindow parseRateLimitWindow"
    by (rule blindI [of _ "\<lambda>c. set_options (\<lambda>opts. opts\<lparr>op_RateLimitInterval := the (ParseDuration (op_RateLimitWindow (cf_Options c)))\<rparr>) c"])
      (auto dest: parse_ok(1) simp: hide_simps)
  show "blind parseAuthCacheTTL parseAuthCacheTTL"
    by (rule blindI [of _ "\<lambda>c. set_options (\<lambda>opts. opts\<lparr>op_AuthCacheDuration := the (ParseDuration (op_AuthCacheTTL (cf_Options c)))\<rparr>) c"])
      (auto dest: parse_ok(2) simp: hide_simps)
  show "blind parseURLExpiry parseURLExpiry"
    by (rule blindI [of _ "\<lambda>c. set_options (\<lambda>opts. opts\<lparr>op_URLExpiryDuration := the (ParseDuration (op_URLExpiry (cf_Options c)))\<rparr>) c"])
      (auto dest: parse_ok(3) simp: hide_simps)
  show "blind parseShutdownTimeout parseShutdownTimeout"
    by (rule blindI [of _ "\<lambda>c. set_options (\<lambda>opts. opts\<lparr>op_ShutdownTimeoutDuration := the (ParseDuration (op_ShutdownTimeout (cf_Options c)))\<rparr>) c"])
      (auto dest: parse_ok(4) simp: hide_simps)
  show "blind parseUploadIdleTimeout parseUploadIdleTimeout"
    by (rule blindI [of _ "\<lambda>c. set_options (\<lambda>opts. opts\<lparr>op_UploadIdleTimeoutDuration := the (ParseDuration (op_UploadIdleTimeout (cf_Options c)))\<rparr>) c"])
      (auto dest: parse_ok(5) simp: hide_simps)
qed

lemma blind_parseSigningKey: "blind parseSigningKey parseSigningKey"
proof -
  have "hide_secrets c1 = hide_secrets c" if "parseSigningKey c = ([], c1)" for c c1
    using parseSigningKey_ok [OF that] by (auto simp: hide_simps split: if_splits)
  then show ?thesis unfolding blind_def by metis
qed

lemma blind_validate: "cl_unicode lib = cl_unicode lib' \<Longrightarrow> blind (validate lib) (validate lib')"
  by (rule blindI [of _ "normalised lib"])
    (auto dest: validate_ok(1) simp: normalised_def hide_simps)

lemma hide_applyDefaults: "hide_secrets (applyDefaults b c) = applyDefaults b (hide_secrets c)"
  by (simp add: hide_simps applyDefaults_def default_options_def)

text \<open>Libraries that agree but for the secrets in what the decoder reads.\<close>

definition same_public_lib :: "config_lib \<Rightarrow> string \<Rightarrow> config_lib \<Rightarrow> string \<Rightarrow> bool" where
  "same_public_lib lib data lib' data' \<longleftrightarrow>
     cl_unicode lib = cl_unicode lib' \<and> cl_url_parse lib = cl_url_parse lib' \<and>
     (case (cl_toml lib data, cl_toml lib' data') of
        (Some d, Some d') \<Rightarrow> hide_secrets (dc_config d) = hide_secrets (dc_config d') \<and> dc_s3_prefix_defined d = dc_s3_prefix_defined d'
      | _ \<Rightarrow> True)"

lemma parseGitHubURL_lib:
  "cl_unicode lib = cl_unicode lib' \<Longrightarrow> cl_url_parse lib = cl_url_parse lib' \<Longrightarrow> parseGitHubURL lib = parseGitHubURL lib'"
  by (rule ext) (simp add: parseGitHubURL_def parse_api_url_def isLoopbackHost_def Let_def split: option.split)

lemma parse_endpoints_lib:
  assumes "cl_unicode lib = cl_unicode lib'" "cl_url_parse lib = cl_url_parse lib'"
  shows "parse_endpoints lib i eps = parse_endpoints lib' i eps"
  by (induction eps arbitrary: i) (simp_all add: parseGitHubURL_lib [OF assms])

lemma finish_load_blind:
  assumes "cl_unicode lib = cl_unicode lib'" "cl_url_parse lib = cl_url_parse lib'" "same_public_env e e'"
    and "hide_secrets (dc_config d) = hide_secrets (dc_config d')" "dc_s3_prefix_defined d = dc_s3_prefix_defined d'"
    and "finish_load lib e d = ([], c)" "finish_load lib' e' d' = ([], c')"
  shows "hide_secrets c = hide_secrets c'"
proof -
  let ?stages = "\<lambda>lib e. [applyEnvOverrides e, parseRateLimitWindow, parseAuthCacheTTL, parseURLExpiry, parseShutdownTimeout,
         parseUploadIdleTimeout, parseSigningKey, validate lib]"
  have b: "blind (run_stages (?stages lib e)) (run_stages (?stages lib' e'))"
    unfolding applyEnvOverrides_def
    by (intro run_stages_blind list.rel_intros blind_parse blind_parseSigningKey blind_validate assms(1) list_all2_appendI
        blind_option_overrides blind_storage_overrides assms(3))
  obtain c0 c0' where s: "run_stages (?stages lib e) (applyDefaults (dc_s3_prefix_defined d) (dc_config d)) = ([], c0)"
      "c = c0\<lparr>cf_Endpoints := snd (parse_endpoints lib 0 (cf_Endpoints c0))\<rparr>"
    and t: "run_stages (?stages lib' e') (applyDefaults (dc_s3_prefix_defined d') (dc_config d')) = ([], c0')"
      "c' = c0'\<lparr>cf_Endpoints := snd (parse_endpoints lib' 0 (cf_Endpoints c0'))\<rparr>"
    using assms(6,7) by (auto simp: finish_load_def simp del: run_stages.simps split: prod.splits)
  have "hide_secrets (applyDefaults (dc_s3_prefix_defined d) (dc_config d)) = hide_secrets (applyDefaults (dc_s3_prefix_defined d') (dc_config d'))"
    by (simp add: hide_applyDefaults assms(4,5))
  from blindD [OF b this s(1) t(1)] have h: "hide_secrets c0 = hide_secrets c0'" .
  then have "cf_Endpoints c0 = cf_Endpoints c0'" by (metis hide_secrets_fields(3))
  then have "snd (parse_endpoints lib 0 (cf_Endpoints c0)) = snd (parse_endpoints lib' 0 (cf_Endpoints c0'))"
    using parse_endpoints_lib [OF assms(1,2)] by simp
  moreover have "hide_secrets (x\<lparr>cf_Endpoints := eps\<rparr>) = (hide_secrets x)\<lparr>cf_Endpoints := eps\<rparr>" for x eps
    by (simp add: hide_simps)
  ultimately show ?thesis unfolding s(2) t(2) using h by simp
qed

lemma unset_key: "op_SigningKey opts = [] \<Longrightarrow> opts\<lparr>op_SigningKey := []\<rparr> = opts"
  by (metis options.surjective options.update_convs(18))

lemma unset_secret: "sg_S3SecretAccessKey st = [] \<Longrightarrow> st\<lparr>sg_S3SecretAccessKey := []\<rparr> = st"
  by (metis storage_settings.surjective storage_settings.update_convs(6))

lemma effectiveConfig_blind:
  assumes "hide_secrets c = hide_secrets c'"
  shows "tagged (effectiveConfig c) = tagged (effectiveConfig c')"
  using assms
proof (rule hide_secretsE)
  fix k b s
  assume c': "c' = set_storage (\<lambda>st. st\<lparr>sg_S3SecretAccessKey := s\<rparr>) (set_options (\<lambda>opts. opts\<lparr>op_SigningKey := k, op_SigningKeyBytes := b\<rparr>) c)"
    and e: "(k = []) = (op_SigningKey (cf_Options c) = [])" "(s = []) = (sg_S3SecretAccessKey (cf_Storage c) = [])"
  show ?thesis
    unfolding c' using e
    by (cases "k = []"; cases "s = []") (simp_all add: unset_key unset_secret effectiveConfig_def tagged_def Let_def set_options_def set_storage_def AccessLogEnabled_def
        S3PresignedURLsEnabled_def S3ForcePathStyleEnabled_def)
qed

lemma Load_finish:
  assumes "Load lib e path = Inr c" "ce_read_file e path = Some data"
  obtains d where "cl_toml lib data = Some d" "finish_load lib e d = ([], c)"
  using assms by (auto simp: Load_def Let_def split: option.splits if_splits prod.splits)

text \<open>C24: What \<^verbatim>\<open>anchor-lfs check\<close> prints for a valid configuration does not depend on its secrets: for two configuration files and environments that
  differ only in the value of the signing key and of the S3 secret access key (in the file, in the variable, or in a file a
  variable names), both valid, the output and the exit status are the same. The encoder is only taken to leave out the fields
  whose tags say so.\<close>

theorem check_hides_secrets:
  assumes "encodes_tagged encode"
    and "Load lib e path = Inr c" "Load lib' e' path = Inr c'" "same_public_env e e'"
    and "ce_read_file e path = Some data" "ce_read_file e' path = Some data'" "same_public_lib lib data lib' data'"
  shows "runCheck lib encode e path = runCheck lib' encode e' path"
proof -
  obtain d where d: "cl_toml lib data = Some d" "finish_load lib e d = ([], c)" by (rule Load_finish [OF assms(2,5)])
  obtain d' where d': "cl_toml lib' data' = Some d'" "finish_load lib' e' d' = ([], c')" by (rule Load_finish [OF assms(3,6)])
  have s: "cl_unicode lib = cl_unicode lib'" "cl_url_parse lib = cl_url_parse lib'"
    "hide_secrets (dc_config d) = hide_secrets (dc_config d')" "dc_s3_prefix_defined d = dc_s3_prefix_defined d'"
    using assms(7) unfolding same_public_lib_def d(1) d'(1) by simp_all
  have "hide_secrets c = hide_secrets c'" by (rule finish_load_blind [OF s(1,2) assms(4) s(3,4) d(2) d'(2)])
  then have "encode (effectiveConfig c) = encode (effectiveConfig c')"
    using effectiveConfig_blind assms(1) unfolding encodes_tagged_def by metis
  then show ?thesis by (simp add: runCheck_def assms(2,3))
qed

section \<open>An example\<close>

text \<open>The example configuration with a signing key in the file.\<close>

definition keyed_config_lib :: "string \<Rightarrow> config_lib" where
  "keyed_config_lib k = (demo_config_lib ascii_tables demo_endpoints)\<lparr>cl_toml := (\<lambda>_. Some
     \<lparr>dc_config = \<lparr>cf_Options = zero_options\<lparr>op_SigningKey := k\<rparr>, cf_Storage = zero_storage, cf_Endpoints = demo_endpoints\<rparr>,
      dc_undecoded = [], dc_s3_prefix_defined = False\<rparr>)\<rparr>"

definition key_text :: "char \<Rightarrow> string" where "key_text x = hex_encode (replicate 32 x)"

lemma validate_endpoints_lib:
  assumes "cl_unicode lib = cl_unicode lib'"
  shows "validate_endpoints lib i t eps = validate_endpoints lib' i t eps"
proof -
  have "validateEndpointPath lib = validateEndpointPath lib'" "validateAccess lib = validateAccess lib'"
    by (intro ext, simp only: validateEndpointPath_def validateAccess_def checkChoice_def assms)+
  then show ?thesis by (induction eps arbitrary: i t) (simp_all only: validate_endpoints.simps)
qed

lemma key_text_facts: "key_text x \<noteq> []" "hex_decode (key_text x) = Some (replicate 32 x)"
proof -
  show "hex_decode (key_text x) = Some (replicate 32 x)" by (simp add: key_text_def)
  then show "key_text x \<noteq> []" by (auto simp: numeral_eq_Suc)
qed

lemma keyed_loads: "\<exists>c. Load (keyed_config_lib (key_text x)) demo_config_env DefaultConfigPath = Inr c"
proof -
  let ?lib = "keyed_config_lib (key_text x)" and ?demo = "demo_config_lib ascii_tables demo_endpoints"
  have l: "cl_unicode ?lib = cl_unicode ?demo" "cl_url_parse ?lib = cl_url_parse ?demo" by (simp_all add: keyed_config_lib_def)
  have v: "validate_endpoints ?demo 0 ([], []) demo_endpoints = []" by code_simp
  have p: "parse_endpoints ?demo 0 demo_endpoints = ([], loaded_endpoints)" by code_simp
  have d: "cl_toml ?lib data = Some \<lparr>dc_config = \<lparr>cf_Options = zero_options\<lparr>op_SigningKey := key_text x\<rparr>, cf_Storage = zero_storage,
      cf_Endpoints = demo_endpoints\<rparr>, dc_undecoded = [], dc_s3_prefix_defined = False\<rparr>" for data
    by (simp add: keyed_config_lib_def)
  have "demo_endpoints \<noteq> []" by (simp add: demo_endpoints_def)
  from default_config_settings [OF this _ _ d, of loaded_endpoints "replicate 32 x"] key_text_facts(2) show ?thesis
    using v p by (auto simp: validate_endpoints_lib [OF l(1)] parse_endpoints_lib [OF l])
qed

text \<open>An encoder that writes the key in the clear, as TOML does with any string.\<close>

definition key_encoder :: "config \<Rightarrow> string \<times> bool" where
  "key_encoder c = (''signing_key = '' @ op_SigningKey (cf_Options c), False)"

theorem check_hides_secrets_witness:
  "runCheck (keyed_config_lib (key_text CHR ''a'')) key_encoder demo_config_env DefaultConfigPath =
   runCheck (keyed_config_lib (key_text CHR ''b'')) key_encoder demo_config_env DefaultConfigPath"
proof -
  obtain c c' where l: "Load (keyed_config_lib (key_text CHR ''a'')) demo_config_env DefaultConfigPath = Inr c"
    "Load (keyed_config_lib (key_text CHR ''b'')) demo_config_env DefaultConfigPath = Inr c'" using keyed_loads by meson
  have "encodes_tagged key_encoder" by (simp add: encodes_tagged_def key_encoder_def tagged_def)
  moreover have "same_public_env demo_config_env demo_config_env" by (simp add: same_public_env_def)
  moreover have "ce_read_file demo_config_env DefaultConfigPath = Some []" by (simp add: demo_config_env_def)
  moreover have "same_public_lib (keyed_config_lib (key_text CHR ''a'')) [] (keyed_config_lib (key_text CHR ''b'')) []"
    by (simp add: same_public_lib_def keyed_config_lib_def hide_simps key_text_facts(1))
  ultimately show ?thesis using check_hides_secrets [OF _ l] by blast
qed

end
