(* ===== verification/Spec2Isabelle.thy ===== *)
theory Spec2Isabelle
  imports S3_Storage Upload_System Lock_Linear Windows_Calls Server_Metrics Cli_Secrets
begin

text \<open>
  A verification library for Anchor LFS, a Git LFS server written in Go (\<^verbatim>\<open>src/\<close>).

  \<^bold>\<open>The program.\<close> One process serves any number of \<^emph>\<open>endpoints\<close>, each standing for a repository. For each endpoint a
  handler answers the Git LFS API: a batch request is authenticated (by GitHub, or by nobody for a public endpoint) and
  answered with one signed URL per transfer; the object is then uploaded, downloaded or verified under that URL, whose
  signature is all these routes ask for; locks on files are created, listed, verified and released by authenticated users.
  Objects live in a directory tree or in an S3 bucket, locks in one JSON file per endpoint, which several processes may share.
  Around the handlers are a mux, a rate limiter, metrics, an access log, request ids and the trust in proxies. The command
  line starts the server, checks a configuration without showing its secrets, or asks a running server for its health.

  \<^bold>\<open>How the code is modelled.\<close> Every definition keeps the name of the Go function it translates where HOL allows it. A struct
  is a record with a short prefix on its fields, an error is a value of a datatype, a result with an error is a sum with the
  error on the left. A Go string or byte slice is a HOL \<^typ>\<open>string\<close> (a list of bytes); \<^verbatim>\<open>int64\<close> and \<^verbatim>\<open>uint64\<close> are words
  or integers with the wrap-around written out where they can overflow. State is passed explicitly. The clock, random bytes,
  failing system calls, cancelled contexts and what clients send are arguments, so a theorem holds for all of them.

  \<^item> \<^emph>\<open>The language.\<close> \<^verbatim>\<open>Prelude\<close> has the shared vocabulary. \<^verbatim>\<open>Go_Strings\<close>, \<^verbatim>\<open>Go_Encoding\<close>, \<^verbatim>\<open>Go_Crypto\<close>, \<^verbatim>\<open>Go_Double\<close>,
    \<^verbatim>\<open>Go_Time\<close>, \<^verbatim>\<open>Go_Duration\<close>, \<^verbatim>\<open>Go_Url\<close>, \<^verbatim>\<open>Go_Path\<close>, \<^verbatim>\<open>Go_Json\<close>, \<^verbatim>\<open>Go_Mime\<close> and \<^verbatim>\<open>Go_Netip\<close> are what the server uses of
    Go's standard library: SHA-256 and HMAC, hex and base64, the JSON parser and printer with their round trip, path cleaning,
    media types, durations (with \<^verbatim>\<open>float64\<close> fractions), addresses and prefixes.
  \<^item> \<^emph>\<open>Storage.\<close> \<^verbatim>\<open>Sanitise\<close> is \<^verbatim>\<open>internal/sanitise/endpoint.go\<close>. \<^verbatim>\<open>Storage_Base\<close> has the object ids of \<^verbatim>\<open>storage/oid.go\<close> and the
    contract of \<^verbatim>\<open>storage/adapter.go\<close>. \<^verbatim>\<open>Local_Storage\<close> is \<^verbatim>\<open>storage/local.go\<close> and \<^verbatim>\<open>local_unix.go\<close>; \<^verbatim>\<open>Put\<close> is the list of
    its effects on the files and directories of the disk, so that a theorem can stop it after any of them. \<^verbatim>\<open>Tempfiles\<close> is the sweep of
    \<^verbatim>\<open>storage/tempfiles.go\<close> over a directory tree. \<^verbatim>\<open>Upload_System\<close> interleaves the effects of several uploads with the sweep
    and with crashes, over the facts on joined paths of \<^verbatim>\<open>Clean_Paths\<close>. \<^verbatim>\<open>S3_Storage\<close> is \<^verbatim>\<open>storage/s3.go\<close>: the client's
    settings, single and multipart uploads, reading, presigning. \<^verbatim>\<open>Windows_Calls\<close> is \<^verbatim>\<open>storage/local_windows.go\<close> and
    \<^verbatim>\<open>lfs/filelock_windows.go\<close>, which stand in for the Unix files in Windows builds.
  \<^item> \<^emph>\<open>Locks.\<close> \<^verbatim>\<open>Lock_Set\<close> is the index of \<^verbatim>\<open>lfs/locks.go\<close> with its binary search and cursors, \<^verbatim>\<open>Lock_Json\<close> the contents of a lock
    file, \<^verbatim>\<open>Lock_Store\<close> the \<^verbatim>\<open>FileLockStore\<close> with its cache and \<^verbatim>\<open>filelock_unix.go\<close>, \<^verbatim>\<open>Lock_System\<close> several processes that
    share the files, a whole call being one step. \<^verbatim>\<open>Lock_Threads\<close> cuts the calls into steps (mutex, file lock, reading, each
    effect of a save, cache, release) that goroutines of all processes interleave, and \<^verbatim>\<open>Lock_Linear\<close> shows that nobody can tell.
  \<^item> \<^emph>\<open>Requests.\<close> \<^verbatim>\<open>Signer\<close> is \<^verbatim>\<open>lfs/signer.go\<close>. \<^verbatim>\<open>Endpoints\<close> and \<^verbatim>\<open>Auth\<close> are \<^verbatim>\<open>auth/\<close>, with the cache of GitHub's answers and
    its expiry. \<^verbatim>\<open>Lfs_Models\<close> is \<^verbatim>\<open>lfs/models.go\<close>; \<^verbatim>\<open>Http\<close> the request, the response and the readers of \<^verbatim>\<open>lfs/body.go\<close> and
    \<^verbatim>\<open>lfs/idle.go\<close>; \<^verbatim>\<open>Handler\<close> every handler of \<^verbatim>\<open>lfs/handler.go\<close> and \<^verbatim>\<open>lfs/batch.go\<close>. \<^verbatim>\<open>Object_Transfer\<close> and \<^verbatim>\<open>Access\<close> prove
    what they guarantee.
  \<^item> \<^emph>\<open>Configuration.\<close> \<^verbatim>\<open>Config\<close> is \<^verbatim>\<open>config/config.go\<close>: defaults, environment overrides and every check. \<^verbatim>\<open>Config_Load\<close> proves
    what a configuration that loads guarantees to the other parts.
  \<^item> \<^emph>\<open>The server.\<close> \<^verbatim>\<open>Middleware\<close> is \<^verbatim>\<open>middleware/\<close>. \<^verbatim>\<open>ServeMux\<close> is Go's request multiplexer (patterns, conflicts, precedence,
    redirects), \<^verbatim>\<open>Routes\<close> the patterns that \<^verbatim>\<open>main.go\<close> registers, \<^verbatim>\<open>Server\<close> a request's whole way through the server and the
    readiness check of \<^verbatim>\<open>readiness.go\<close>, \<^verbatim>\<open>Metrics\<close> the series, gauges and collectors of
    \<^verbatim>\<open>internal/metrics/metrics.go\<close> and \<^verbatim>\<open>Server_Metrics\<close> what they count. \<^verbatim>\<open>Startup\<close> and \<^verbatim>\<open>Serve\<close> are \<^verbatim>\<open>serve\<close> of \<^verbatim>\<open>main.go\<close> from the configuration to the exit status, \<^verbatim>\<open>Cli\<close> and \<^verbatim>\<open>Cli_Secrets\<close> are \<^verbatim>\<open>cli.go\<close>.

  \<^bold>\<open>Interfaces.\<close> Each interface between components is a locale, interpreted on the model of the code that provides it:
  \<^verbatim>\<open>adapter\<close> and \<^verbatim>\<open>object_store\<close> (a store without and with failures; on \<^verbatim>\<open>Local\<close>), \<^verbatim>\<open>lock_index\<close> (on the lock set),
  \<^verbatim>\<open>authenticator\<close> (on both authenticators), \<^verbatim>\<open>lock_provider\<close> (on the file lock store). The handlers take the store, the
  authenticator and the lock store as records of operations, as the Go code takes interfaces.

  \<^bold>\<open>What is proved.\<close>

  \<^item> \<^emph>\<open>Integrity of objects.\<close> A file at an object's path always hashes to the object's id: wherever an upload is cut off, and
    however uploads, the sweep and crashes interleave. A failed upload leaves no trace but directories it made and, if
    even its removal fails, its temporary file; a successful one is what later downloads return, for the local store and,
    given what S3 documents (\<^verbatim>\<open>s3_laws\<close>), for a bucket. The sweep removes exactly the stale temporary files that nobody
    writes, in its periodic runs outside of the object shards.
  \<^item> \<^emph>\<open>Access.\<close> No request stores an object without a valid signed upload URL, and no request changes a lock without an
    authenticated user whom the endpoint's authenticator authorizes; a signature binds operation, host and target; a batch
    of URLs is issued only to those allowed; each is what the store's presigner answered for the object, or a URL of this
    server that is honoured under the same base URL until it expires. Apart from downloads from public endpoints, which GitHub is not asked
    about, an authorization rests on answers of GitHub no older than the cache's lifetime and the time their lookup took. The
    proxy headers an untrusted peer sends have no effect.
  \<^item> \<^emph>\<open>Locks.\<close> The lock store is linearizable: any interleaving of the steps of calls by goroutines of any number of processes,
    with failures and crashes anywhere, is a history of a set of locks per endpoint, and never a deadlock; a path is locked at most once; cached listings are current; the lock file is replaced atomically; following
    cursors terminates and lists every lock once.
  \<^item> \<^emph>\<open>Configuration and startup.\<close> A loaded configuration has its settings in range and its endpoints in disjoint
    directories; an endpoint with an ASCII visibility is public or authenticates with GitHub (\<^verbatim>\<open>Config_Load\<close> also shows the
    exception: a visibility spelled with U+0130 is taken for private by one check and not by the other); the server then starts exactly if the calls outside it succeed; every API request reaches the handler of
    its endpoint and operation, and none of another's. The check command's output does not depend on any secret.
    The request metrics are exactly the tallies of the requests, under labels registered at startup (none for the request URI
    \<^verbatim>\<open>*\<close>; a \<^verbatim>\<open>CONNECT\<close> request that names only a host is left open).

  \<^bold>\<open>Bounds and fuel.\<close> The JSON parser runs on the length of its input as fuel (\<^verbatim>\<open>parse_fuel\<close> shows that as much as a parse consumes
  is enough and more changes nothing) and keeps Go's limit on nesting. The parameters of a media type take the length of the
  header as fuel, and the parts of a continued value the number of parameters (\<^verbatim>\<open>media_params_fuel\<close>, \<^verbatim>\<open>continued_enough\<close>). A client that follows cursors has one call per unit of fuel; enough is
  proved to exist with the result. All other loops are total functions with a termination proof.

  \<^bold>\<open>Parameters.\<close> Code outside the repository is an argument: Unicode tables for bytes beyond ASCII, \<^verbatim>\<open>url.Parse\<close>, the range
  logic of \<^verbatim>\<open>http.ServeContent\<close> and the redirect response (\<^verbatim>\<open>golib\<close>, \<^verbatim>\<open>server_lib\<close>), the TOML decoder and encoder
  (\<^verbatim>\<open>config_lib\<close>, \<^verbatim>\<open>cli_lib\<close>), the GitHub client (\<^verbatim>\<open>github_api\<close>), the S3 client and presigner (\<^verbatim>\<open>s3_api\<close>, with \<^verbatim>\<open>s3_laws\<close>
  met by a bucket in memory), \<^verbatim>\<open>realclientip\<close>, the limiter's store, the HTTP client of the health check.

  \<^bold>\<open>Not modelled.\<close> Log output other than the access log line; the Go and process collectors and the text format of the metrics,
  which are Prometheus's; what the AWS SDK makes of the settings that \<^verbatim>\<open>newS3Client\<close> hands it; test helpers. Calls of the
  authenticator are not interleaved: each runs to its end before the next starts, and the sharing of concurrent lookups shows as a
  caller that leaves early. A directory that \<^verbatim>\<open>os.MkdirAll\<close> cannot make, for whatever reason, is an argument, as are other failing
  calls; directories are seen as paths that exist, without their entries. Calls of the lock store are interleaved step by step; reading under the file lock is one step, as
  nobody renames the lock file meanwhile, and a file just written is taken to differ from those the caches remember in its inode
  number or modification time. Uploads are interleaved effect by effect; there a new upload's temporary name is taken to differ
  from those of uploads still running, which \<^verbatim>\<open>os.CreateTemp\<close> ensures only for files that still exist, and otherwise by the
  32 random bits in the name: the removal after a successful rename (\<^verbatim>\<open>storage/local.go\<close>, "No-op after successful rename")
  relies on it. A file the sweep finds stale exists, so no new upload takes its name between the check and the removal.
\<close>

end
